(* ===== verification/Prelude.thy ===== *)
theory Prelude
  imports Main "HOL-Library.Word" "HOL-Library.Monad_Syntax"
begin

text \<open>
  What the component theories share: the vocabulary for C data (addresses of pooled cells,
  bytes, C strings, 32- and 64-bit integers), the collections of simplification facts, and
  generic lemmas on lists, options and bits.

  Conventions of the whole library.
  \<^item> A C pointer into a slab pool (\<^verbatim>\<open>source/utilities/pool.c\<close>) is the pair of its slab number
    and its cell number in the slab: \<^verbatim>\<open>slabs[i] + j * elem_size\<close> is \<open>(i, j)\<close>. Theory
    \<open>Pool\<close> proves that the address scan of the code recovers exactly that pair.
  \<^item> A \<^verbatim>\<open>long long\<close> is an \<open>int\<close> together with the range test \<open>in_i64\<close>; an
    \<^verbatim>\<open>unsigned int\<close> whose wrap-around matters is a \<open>nat\<close> with \<open>mod 2 ^ 32\<close> written out.
  \<^item> A \<^verbatim>\<open>double\<close> is its 64-bit pattern.
  \<^item> \<open>None\<close> as the result of an operation stands for an execution the C standard leaves
    undefined (a read of freed memory, an out-of-range pointer) or for the process exit of
    \<^verbatim>\<open>aer_report_fatal\<close>; the ordinary run-time errors of the language are values.
\<close>

unbundle bit_operations_syntax

declare split_paired_All [simp del] split_paired_Ex [simp del]

section \<open>Collections of facts\<close>

named_theorems cell_simps \<open>reading back pool cells and their state bytes after an update\<close>
named_theorems word_views \<open>field views of NaN-boxed words\<close>
named_theorems heap_simps \<open>projections of the six-pool heap after an update\<close>

section \<open>Vocabulary\<close>

type_synonym ptr = "nat \<times> nat"
type_synonym u8 = "8 word"
type_synonym u64 = "64 word"

definition in_i64 :: "int \<Rightarrow> bool" where
  "in_i64 n \<longleftrightarrow> - (2 ^ 63) \<le> n \<and> n < 2 ^ 63"

definition u32 :: "nat \<Rightarrow> nat" where
  "u32 n = n mod 2 ^ 32"

lemma u32_small [simp]: "n < 4294967296 \<Longrightarrow> u32 n = n"
  by (simp add: u32_def)

lemma u32_less [simp]: "u32 n < 4294967296"
  by (simp add: u32_def)

text \<open>The bytes a C string function sees: everything before the first NUL.\<close>

definition c_str :: "string \<Rightarrow> string" where
  "c_str s = takeWhile (\<lambda>c. c \<noteq> CHR 0x00) s"

definition nul_free :: "string \<Rightarrow> bool" where
  "nul_free s \<longleftrightarrow> CHR 0x00 \<notin> set s"

lemma c_str_nul_free [simp]: "nul_free s \<Longrightarrow> c_str s = s"
  by (induction s) (auto simp: c_str_def nul_free_def)

lemma nul_free_c_str [simp]: "nul_free (c_str s)"
  by (auto simp: c_str_def nul_free_def dest: set_takeWhileD)

lemma find_append:
  "find P (xs @ ys) = (case find P xs of None \<Rightarrow> find P ys | Some x \<Rightarrow> Some x)"
  by (induction xs) auto

lemma and_exp_eq_0_iff: "(w :: 'a::len word) AND 2 ^ n = 0 \<longleftrightarrow> \<not> bit w n"
  by (simp add: bit_iff_and_push_bit_not_eq_0 push_bit_of_1)

section \<open>Lists of rows\<close>

text \<open>Reading and writing one cell of a list of rows (the slabs of a pool).\<close>

definition row_get :: "'a list list \<Rightarrow> ptr \<Rightarrow> 'a option" where
  "row_get xss c =
     (if fst c < length xss \<and> snd c < length (xss ! fst c)
      then Some (xss ! fst c ! snd c) else None)"

definition row_set :: "'a list list \<Rightarrow> ptr \<Rightarrow> 'a \<Rightarrow> 'a list list" where
  "row_set xss c x = xss[fst c := (xss ! fst c)[snd c := x]]"

lemma length_row_set [simp]: "length (row_set xss c x) = length xss"
  by (simp add: row_set_def)

lemma length_row_set_nth [simp]: "length (row_set xss c x ! i) = length (xss ! i)"
  by (cases "fst c = i"; cases "fst c < length xss") (auto simp: row_set_def list_update_beyond)

lemma row_get_set [simp]:
  "row_get (row_set xss c x) d =
     (if d = c \<and> row_get xss c \<noteq> None then Some x else row_get xss d)"
  by (cases c; cases d) (auto simp: row_get_def row_set_def nth_list_update)

lemma row_get_snoc:
  "row_get (xss @ [ys]) c =
     (if fst c = length xss then (if snd c < length ys then Some (ys ! snd c) else None)
      else row_get xss c)"
  by (auto simp: row_get_def nth_append)

lemma row_get_shape:
  "length xss = length yss \<Longrightarrow> (\<And>i. i < length xss \<Longrightarrow> length (xss ! i) = length (yss ! i)) \<Longrightarrow>
   row_get xss c = None \<longleftrightarrow> row_get yss c = None"
  by (auto simp: row_get_def)

section \<open>Loops that can fail\<close>

text \<open>A \<^verbatim>\<open>for\<close> loop over a list whose body may be undefined.\<close>

fun foldM :: "('a \<Rightarrow> 's \<Rightarrow> 's option) \<Rightarrow> 'a list \<Rightarrow> 's \<Rightarrow> 's option" where
  "foldM f [] s = Some s"
| "foldM f (x # xs) s = do { s' \<leftarrow> f x s; foldM f xs s' }"

lemma foldM_append: "foldM f (xs @ ys) s = do { s' \<leftarrow> foldM f xs s; foldM f ys s' }"
  by (induction xs arbitrary: s) (auto split: Option.bind_split)

lemma those_eq_Some [simp]: "those xs = Some ys \<longleftrightarrow> xs = map Some ys"
  by (induction xs arbitrary: ys) (auto split: option.split)

lemma those_map_Some [simp]: "those (map Some xs) = Some xs"
  by simp

lemma those_map_ex: "(\<And>x. x \<in> set xs \<Longrightarrow> f x \<noteq> None) \<Longrightarrow> \<exists>ys. those (map f xs) = Some ys"
proof (induction xs)
  case (Cons x xs)
  obtain y where "f x = Some y" using Cons.prems by fastforce
  moreover obtain ys where "those (map f xs) = Some ys" using Cons by fastforce
  ultimately show ?case by (simp del: those_eq_Some)
qed simp

lemma foldM_invariant:
  assumes "P s" "\<And>x s. x \<in> set xs \<Longrightarrow> P s \<Longrightarrow> \<exists>s'. f x s = Some s' \<and> P s'"
  shows "\<exists>s'. foldM f xs s = Some s' \<and> P s'"
  using assms
proof (induction xs arbitrary: s)
  case (Cons x xs)
  obtain s' where "f x s = Some s'" "P s'" using Cons.prems by fastforce
  then show ?case using Cons.IH [of s'] Cons.prems(2) by simp
qed simp

end
