(* ===== verification/Pool.thy ===== *)
theory Pool
  imports Prelude
begin

text \<open>
  The slab pools of \<^verbatim>\<open>source/utilities/pool.c\<close> and \<^verbatim>\<open>pool.h\<close>: slabs of fixed-size cells, a
  parallel byte of state per cell (mark, generation, free and remembered bits), and a free
  list threaded through the first word of the freed cells. The operations are translated one
  by one; the invariant \<open>pool_inv\<close> says that the free list is exactly the set of cells whose
  free bit is set, which is what makes allocation, sweeping and the "no double free" argument
  of the header comment of \<^verbatim>\<open>pool.h\<close> work. The locale \<open>cell_store\<close> is the contract the heap
  of the virtual machine relies on.
\<close>

section \<open>State\<close>

text \<open>
  The memory of one cell: nothing written yet, a value the client stored, or the link of the
  free list that \<^verbatim>\<open>pool_free\<close> writes over the first pointer-sized bytes.
\<close>

datatype 'a cell = Raw | Live 'a | Link "ptr option"

definition POOL_MARKED :: u8 where "POOL_MARKED = 1"
definition POOL_OLD :: u8 where "POOL_OLD = 2"
definition POOL_FREE :: u8 where "POOL_FREE = 4"
definition POOL_REMEMBERED :: u8 where "POOL_REMEMBERED = 8"

lemmas pool_flags = POOL_MARKED_def POOL_OLD_def POOL_FREE_def POOL_REMEMBERED_def

record 'a pool =
  slabs :: "'a cell list list"
  cell_state :: "u8 list list"
  slab_cap :: nat
  next_index :: nat
  elems_per_slab :: nat
  free_list :: "ptr option"

abbreviation slab_count :: "'a pool \<Rightarrow> nat" where
  "slab_count p \<equiv> length (slabs p)"

section \<open>Operations\<close>

definition POOL_INITIAL_SLABS :: nat where "POOL_INITIAL_SLABS = 4"

definition pool_init :: "nat \<Rightarrow> 'a pool" where
  "pool_init elems =
     \<lparr>slabs = [], cell_state = [], slab_cap = 0, next_index = elems,
      elems_per_slab = elems, free_list = None\<rparr>"

definition pool_grow :: "'a pool \<Rightarrow> 'a pool" where
  "pool_grow p =
     (let cap = (if slab_count p \<ge> slab_cap p
                 then (if slab_cap p \<noteq> 0 then slab_cap p * 2 else POOL_INITIAL_SLABS)
                 else slab_cap p)
      in p\<lparr>slab_cap := cap,
           slabs := slabs p @ [replicate (elems_per_slab p) Raw],
           cell_state := cell_state p @ [replicate (elems_per_slab p) 0],
           next_index := 0\<rparr>)"

text \<open>
  The linear scan for the state byte of a cell. On (slab, cell) pairs the address test
  \<^verbatim>\<open>slab <= cell < slab + slab_bytes\<close> is a test of the slab number; \<open>pool_find\<close> below is the
  scan on raw addresses.
\<close>

definition pool_cell_state_or_null :: "'a pool \<Rightarrow> ptr \<Rightarrow> u8 option" where
  "pool_cell_state_or_null p c =
     (case find (\<lambda>i. i = fst c \<and> snd c < elems_per_slab p) [0..<slab_count p] of
        None \<Rightarrow> None
      | Some i \<Rightarrow> row_get (cell_state p) (i, snd c))"

definition pool_owns :: "'a pool \<Rightarrow> ptr \<Rightarrow> bool" where
  "pool_owns p c \<longleftrightarrow> pool_cell_state_or_null p c \<noteq> None"

text \<open>\<^verbatim>\<open>pool_cell_state\<close>: a cell that no slab holds is fatal, here \<open>None\<close>.\<close>

definition pool_cell_state :: "'a pool \<Rightarrow> ptr \<Rightarrow> u8 option" where
  "pool_cell_state p c = pool_cell_state_or_null p c"

definition set_state :: "'a pool \<Rightarrow> ptr \<Rightarrow> u8 \<Rightarrow> 'a pool" where
  "set_state p c s = p\<lparr>cell_state := row_set (cell_state p) c s\<rparr>"

definition set_cell :: "'a pool \<Rightarrow> ptr \<Rightarrow> 'a cell \<Rightarrow> 'a pool" where
  "set_cell p c x = p\<lparr>slabs := row_set (slabs p) c x\<rparr>"

text \<open>
  \<^verbatim>\<open>pool_alloc\<close> (the shared counter \<^verbatim>\<open>pool_total_alloc_count\<close> is a field of the heap). The
  memory of the cell is returned as it is: a reused cell still holds its old link. Reading
  the link of a head cell that holds no link is undefined.
\<close>

definition pool_alloc :: "'a pool \<Rightarrow> (ptr \<times> 'a pool) option" where
  "pool_alloc p =
     (case free_list p of
        Some c \<Rightarrow>
          (case row_get (slabs p) c of
             Some (Link nxt) \<Rightarrow>
               do { _ \<leftarrow> pool_cell_state p c;
                    Some (c, set_state (p\<lparr>free_list := nxt\<rparr>) c 0) }
           | _ \<Rightarrow> None)
      | None \<Rightarrow>
          (let p1 = (if next_index p \<ge> elems_per_slab p then pool_grow p else p);
               c = (slab_count p1 - 1, next_index p1)
           in if slab_count p1 = 0 \<or> row_get (slabs p1) c = None then None
              else Some (c, (set_state p1 c 0)\<lparr>next_index := next_index p1 + 1\<rparr>)))"

definition pool_free :: "'a pool \<Rightarrow> ptr \<Rightarrow> 'a pool option" where
  "pool_free p c =
     do { _ \<leftarrow> pool_cell_state p c;
          Some ((set_cell (set_state p c POOL_FREE) c (Link (free_list p)))
                  \<lparr>free_list := Some c\<rparr>) }"

definition pool_mark :: "'a pool \<Rightarrow> ptr \<Rightarrow> (bool \<times> 'a pool) option" where
  "pool_mark p c =
     do { s \<leftarrow> pool_cell_state p c;
          if s AND POOL_MARKED \<noteq> 0 then Some (True, p)
          else Some (False, set_state p c (s OR POOL_MARKED)) }"

definition pool_promote :: "'a pool \<Rightarrow> ptr \<Rightarrow> 'a pool option" where
  "pool_promote p c = do { s \<leftarrow> pool_cell_state p c; Some (set_state p c (s OR POOL_OLD)) }"

definition pool_is_young :: "'a pool \<Rightarrow> ptr \<Rightarrow> bool option" where
  "pool_is_young p c = do { s \<leftarrow> pool_cell_state p c; Some (s AND POOL_OLD = 0) }"

definition pool_is_freed :: "'a pool \<Rightarrow> ptr \<Rightarrow> bool option" where
  "pool_is_freed p c = do { s \<leftarrow> pool_cell_state p c; Some (s AND POOL_FREE \<noteq> 0) }"

definition pool_is_remembered :: "'a pool \<Rightarrow> ptr \<Rightarrow> bool option" where
  "pool_is_remembered p c = do { s \<leftarrow> pool_cell_state p c; Some (s AND POOL_REMEMBERED \<noteq> 0) }"

definition pool_mark_remembered :: "'a pool \<Rightarrow> ptr \<Rightarrow> 'a pool option" where
  "pool_mark_remembered p c =
     do { s \<leftarrow> pool_cell_state p c; Some (set_state p c (s OR POOL_REMEMBERED)) }"

text \<open>The cells a sweep walks: every carved-out cell, slab by slab.\<close>

definition slab_fill :: "'a pool \<Rightarrow> nat \<Rightarrow> nat" where
  "slab_fill p i = (if i = slab_count p - 1 then next_index p else elems_per_slab p)"

definition carved :: "'a pool \<Rightarrow> ptr list" where
  "carved p = concat (map (\<lambda>i. map (Pair i) [0..<slab_fill p i]) [0..<slab_count p])"

text \<open>
  One iteration of the loop of \<^verbatim>\<open>pool_sweep\<close>; the second component collects the cells handed
  to \<^verbatim>\<open>on_free\<close>, in order.
\<close>

definition sweep_cell :: "bool \<Rightarrow> ptr \<Rightarrow> 'a pool \<times> ptr list \<Rightarrow> ('a pool \<times> ptr list) option" where
  "sweep_cell young_only c pf =
     (let p = fst pf in
      do { s \<leftarrow> row_get (cell_state p) c;
           if s AND POOL_FREE \<noteq> 0 then Some pf
           else if young_only \<and> s AND POOL_OLD \<noteq> 0 then Some pf
           else if s AND POOL_MARKED \<noteq> 0
                then Some (set_state p c ((s AND NOT POOL_MARKED) OR POOL_OLD), snd pf)
           else do { p' \<leftarrow> pool_free p c; Some (p', snd pf @ [c]) } })"

fun sweep_cells :: "bool \<Rightarrow> ptr list \<Rightarrow> 'a pool \<times> ptr list \<Rightarrow> ('a pool \<times> ptr list) option" where
  "sweep_cells y [] pf = Some pf"
| "sweep_cells y (c # cs) pf = do { pf' \<leftarrow> sweep_cell y c pf; sweep_cells y cs pf' }"

definition pool_sweep :: "'a pool \<Rightarrow> bool \<Rightarrow> ('a pool \<times> ptr list) option" where
  "pool_sweep p young_only = sweep_cells young_only (carved p) (p, [])"

definition clear_mark_cell :: "ptr \<Rightarrow> 'a pool \<Rightarrow> 'a pool" where
  "clear_mark_cell c p =
     (case row_get (cell_state p) c of
        None \<Rightarrow> p
      | Some s \<Rightarrow> set_state p c (s AND NOT POOL_MARKED))"

definition pool_clear_marks :: "'a pool \<Rightarrow> 'a pool" where
  "pool_clear_marks p = fold clear_mark_cell (carved p) p"

text \<open>
  Reading and writing through a cell pointer, as every client of the pool does. A read of a
  cell that holds no client value (never written, or overwritten by the free list) is
  undefined.
\<close>

definition pool_read :: "'a pool \<Rightarrow> ptr \<Rightarrow> 'a option" where
  "pool_read p c = (case row_get (slabs p) c of Some (Live x) \<Rightarrow> Some x | _ \<Rightarrow> None)"

definition pool_write :: "'a pool \<Rightarrow> ptr \<Rightarrow> 'a \<Rightarrow> 'a pool option" where
  "pool_write p c x = (if row_get (slabs p) c = None then None else Some (set_cell p c (Live x)))"

section \<open>State bytes\<close>

lemma flag_tests [cell_simps]:
  "s AND POOL_MARKED \<noteq> 0 \<longleftrightarrow> bit s 0" "s AND POOL_MARKED = 0 \<longleftrightarrow> \<not> bit s 0"
  "s AND POOL_OLD \<noteq> 0 \<longleftrightarrow> bit s 1" "s AND POOL_OLD = 0 \<longleftrightarrow> \<not> bit s 1"
  "s AND POOL_FREE \<noteq> 0 \<longleftrightarrow> bit s 2" "s AND POOL_FREE = 0 \<longleftrightarrow> \<not> bit s 2"
  "s AND POOL_REMEMBERED \<noteq> 0 \<longleftrightarrow> bit s 3" "s AND POOL_REMEMBERED = 0 \<longleftrightarrow> \<not> bit s 3"
proof -
  note flag = and_exp_eq_0_iff [of s]
  show "s AND POOL_MARKED \<noteq> 0 \<longleftrightarrow> bit s 0" "s AND POOL_MARKED = 0 \<longleftrightarrow> \<not> bit s 0"
    "s AND POOL_OLD \<noteq> 0 \<longleftrightarrow> bit s 1" "s AND POOL_OLD = 0 \<longleftrightarrow> \<not> bit s 1"
    "s AND POOL_FREE \<noteq> 0 \<longleftrightarrow> bit s 2" "s AND POOL_FREE = 0 \<longleftrightarrow> \<not> bit s 2"
    "s AND POOL_REMEMBERED \<noteq> 0 \<longleftrightarrow> bit s 3" "s AND POOL_REMEMBERED = 0 \<longleftrightarrow> \<not> bit s 3"
    using flag [of 0] flag [of 1] flag [of 2] flag [of 3] by (simp_all add: pool_flags)
qed

lemma bit_flags [cell_simps]:
  "bit POOL_MARKED n \<longleftrightarrow> n = 0" "bit POOL_OLD n \<longleftrightarrow> n = 1"
  "bit POOL_FREE n \<longleftrightarrow> n = 2" "bit POOL_REMEMBERED n \<longleftrightarrow> n = 3"
proof -
  have flag: "m < 8 \<Longrightarrow> bit ((2::u8) ^ m) n \<longleftrightarrow> n = m" for m
    by (auto simp: bit_exp_iff)
  show "bit POOL_MARKED n \<longleftrightarrow> n = 0" "bit POOL_OLD n \<longleftrightarrow> n = 1"
    "bit POOL_FREE n \<longleftrightarrow> n = 2" "bit POOL_REMEMBERED n \<longleftrightarrow> n = 3"
    using flag [of 0] flag [of 1] flag [of 2] flag [of 3] by (simp_all add: pool_flags)
qed

section \<open>Invariant\<close>

definition shape_ok :: "'a pool \<Rightarrow> bool" where
  "shape_ok p \<longleftrightarrow>
     length (cell_state p) = slab_count p \<and> 0 < elems_per_slab p \<and>
     (\<forall>i < slab_count p. length (slabs p ! i) = elems_per_slab p \<and>
        length (cell_state p ! i) = elems_per_slab p) \<and>
     next_index p \<le> elems_per_slab p \<and>
     (slab_count p = 0 \<longrightarrow> next_index p = elems_per_slab p)"

definition pstate :: "'a pool \<Rightarrow> ptr \<Rightarrow> u8 option" where
  "pstate p c = (if c \<in> set (carved p) then row_get (cell_state p) c else None)"

definition flagged :: "'a pool \<Rightarrow> nat \<Rightarrow> ptr \<Rightarrow> bool" where
  "flagged p n c \<longleftrightarrow> (case pstate p c of None \<Rightarrow> False | Some s \<Rightarrow> bit s n)"

definition live :: "'a pool \<Rightarrow> ptr set" where
  "live p = {c \<in> set (carved p). \<not> flagged p 2 c}"

text \<open>The cells a free list threads through, from its head.\<close>

fun chain :: "'a cell list list \<Rightarrow> ptr option \<Rightarrow> ptr list \<Rightarrow> bool" where
  "chain sl None xs \<longleftrightarrow> xs = []"
| "chain sl (Some c) [] \<longleftrightarrow> False"
| "chain sl (Some c) (x # xs) \<longleftrightarrow>
     x = c \<and> (\<exists>nxt. row_get sl c = Some (Link nxt) \<and> chain sl nxt xs)"

definition pool_inv :: "'a pool \<Rightarrow> bool" where
  "pool_inv p \<longleftrightarrow> shape_ok p \<and>
     (\<exists>xs. chain (slabs p) (free_list p) xs \<and> distinct xs \<and>
           set xs = {c \<in> set (carved p). flagged p 2 c})"

lemma carved_iff:
  "c \<in> set (carved p) \<longleftrightarrow> fst c < slab_count p \<and> snd c < slab_fill p (fst c)"
  by (cases c) (auto simp: carved_def image_iff)

lemma distinct_carved: "distinct (carved p)"
proof -
  have "distinct (concat (map (\<lambda>i. map (Pair i) [0..<(f i)]) [0..<n]))" for f :: "nat \<Rightarrow> nat" and n
    by (induction n) (auto simp: distinct_map inj_on_def)
  then show ?thesis by (simp add: carved_def)
qed

lemma pool_cell_state_eq:
  assumes "shape_ok p"
  shows "pool_cell_state p c = row_get (cell_state p) c"
proof -
  have "find (\<lambda>i. i = fst c \<and> snd c < elems_per_slab p) [0..<n] =
      (if fst c < n \<and> snd c < elems_per_slab p then Some (fst c) else None)" for n
    by (induction n) (auto simp: find_append)
  moreover have "fst c < slab_count p \<and> snd c < elems_per_slab p \<longleftrightarrow>
      row_get (cell_state p) c \<noteq> None"
    using assms by (auto simp: shape_ok_def row_get_def)
  ultimately show ?thesis
    by (auto simp: pool_cell_state_def pool_cell_state_or_null_def)
qed

lemma pstate_carved:
  assumes "shape_ok p"
  shows "pstate p c \<noteq> None \<longleftrightarrow> c \<in> set (carved p)"
  using assms by (cases "Suc (fst c) = slab_count p")
    (auto simp: pstate_def carved_iff slab_fill_def shape_ok_def row_get_def split: if_splits)

lemma pstate_row_get:
  "shape_ok p \<Longrightarrow> c \<in> set (carved p) \<Longrightarrow> row_get (cell_state p) c = pstate p c"
  by (simp add: pstate_def)

lemma carved_row_get:
  assumes "shape_ok p" "c \<in> set (carved p)"
  obtains s x where "row_get (cell_state p) c = Some s" "row_get (slabs p) c = Some x"
proof -
  have "fst c < slab_count p" "snd c < elems_per_slab p"
    using assms by (auto simp: carved_iff slab_fill_def shape_ok_def split: if_splits)
  then show thesis using assms(1) that by (auto simp: shape_ok_def row_get_def)
qed

lemma slab_fill_frame [cell_simps]:
  "slab_fill (p\<lparr>cell_state := x\<rparr>) = slab_fill p" "slab_fill (p\<lparr>free_list := f\<rparr>) = slab_fill p"
  "slab_fill (p\<lparr>slabs := row_set (slabs p) c y\<rparr>) = slab_fill p"
  by (simp_all add: slab_fill_def fun_eq_iff)

lemma set_state_simps [cell_simps]:
  "slabs (set_state p c s) = slabs p" "free_list (set_state p c s) = free_list p"
  "next_index (set_state p c s) = next_index p"
  "elems_per_slab (set_state p c s) = elems_per_slab p"
  "cell_state (set_state p c s) = row_set (cell_state p) c s"
  "carved (set_state p c s) = carved p"
  "shape_ok (set_state p c s) = shape_ok p"
  by (simp_all add: set_state_def carved_def slab_fill_frame shape_ok_def)

lemma set_cell_simps [cell_simps]:
  "slabs (set_cell p c x) = row_set (slabs p) c x" "free_list (set_cell p c x) = free_list p"
  "next_index (set_cell p c x) = next_index p"
  "elems_per_slab (set_cell p c x) = elems_per_slab p"
  "cell_state (set_cell p c x) = cell_state p"
  "carved (set_cell p c x) = carved p"
  "shape_ok (set_cell p c x) = shape_ok p"
  by (simp_all add: set_cell_def carved_def slab_fill_frame shape_ok_def)

lemma free_list_update_simps [cell_simps]:
  "carved (p\<lparr>free_list := f\<rparr>) = carved p" "shape_ok (p\<lparr>free_list := f\<rparr>) = shape_ok p"
  by (simp_all add: carved_def slab_fill_frame shape_ok_def)

lemma pstate_set_state [cell_simps]:
  "pstate (set_state p c s) d = (if d = c \<and> pstate p c \<noteq> None then Some s else pstate p d)"
  by (simp add: pstate_def set_state_simps)

lemma pstate_frame [cell_simps]:
  "pstate (set_cell p c x) d = pstate p d" "pstate (p\<lparr>free_list := f\<rparr>) d = pstate p d"
  by (simp_all add: pstate_def cell_simps)

lemma chain_frame:
  "c \<notin> set xs \<Longrightarrow> chain (row_set sl c x) f xs = chain sl f xs"
  by (induction sl f xs rule: chain.induct) auto

section \<open>Allocation\<close>

text \<open>
  What every allocation promises: a cell that was not live, born unmarked and young, and
  nothing else touched.
\<close>

definition alloc_post :: "'a pool \<Rightarrow> ptr \<Rightarrow> 'a pool \<Rightarrow> bool" where
  "alloc_post p c p' \<longleftrightarrow>
     pool_inv p' \<and> c \<notin> live p \<and> live p' = insert c (live p) \<and> pstate p' c = Some 0 \<and>
     (\<forall>d. d \<noteq> c \<longrightarrow> pstate p' d = pstate p d) \<and>
     (\<forall>d \<in> live p. row_get (slabs p') d = row_get (slabs p) d) \<and>
     elems_per_slab p' = elems_per_slab p"

lemma live_alt: "live p = {c. \<exists>s. pstate p c = Some s \<and> \<not> bit s 2} \<union> {c \<in> set (carved p). pstate p c = None}"
  by (auto simp: live_def flagged_def pstate_def split: option.splits)

lemma alloc_reuse:
  assumes inv: "pool_inv p" and hd: "free_list p = Some c"
  shows "\<exists>p'. pool_alloc p = Some (c, p') \<and> alloc_post p c p'"
proof -
  from inv hd obtain xs nxt where sh: "shape_ok p"
    and ch: "row_get (slabs p) c = Some (Link nxt)" "chain (slabs p) nxt xs"
    and d: "distinct (c # xs)" and s: "set (c # xs) = {d \<in> set (carved p). flagged p 2 d}"
    by (auto simp: pool_inv_def neq_Nil_conv elim: chain.elims(2))
  let ?p' = "set_state (p\<lparr>free_list := nxt\<rparr>) c 0"
  from s have c: "c \<in> set (carved p)" "flagged p 2 c" by auto
  then have ps: "pstate p c \<noteq> None" using pstate_carved [OF sh] by blast
  have pst: "pstate ?p' d = (if d = c then Some 0 else pstate p d)" for d
    using ps by (simp add: cell_simps)
  have fl: "flagged ?p' 2 d \<longleftrightarrow> d \<noteq> c \<and> flagged p 2 d" for d
    by (simp add: flagged_def pst)
  have "pool_cell_state p c \<noteq> None"
    using pool_cell_state_eq [OF sh] pstate_row_get [OF sh c(1)] ps by simp
  then have al: "pool_alloc p = Some (c, ?p')"
    by (auto simp: pool_alloc_def hd ch)
  have "pool_inv ?p'"
    unfolding pool_inv_def using sh ch(2) d s
    by (intro conjI exI [of _ xs]) (auto simp: cell_simps fl)
  moreover have "live ?p' = insert c (live p)"
    using c by (auto simp: live_def fl cell_simps)
  moreover have "c \<notin> live p" using c by (simp add: live_def)
  ultimately show ?thesis
    using al ps by (auto simp: alloc_post_def cell_simps)
qed

lemma alloc_bump:
  assumes inv: "pool_inv p" and hd: "free_list p = None"
    and ni: "next_index p < elems_per_slab p"
  shows "\<exists>p'. pool_alloc p = Some ((slab_count p - 1, next_index p), p') \<and>
              alloc_post p (slab_count p - 1, next_index p) p'"
proof -
  from inv have sh: "shape_ok p" and nofree: "\<forall>d \<in> set (carved p). \<not> flagged p 2 d"
    using hd by (auto simp: pool_inv_def)
  from sh ni have sc: "0 < slab_count p" by (auto simp: shape_ok_def)
  define c where "c = (slab_count p - 1, next_index p)"
  define p' where "p' = (set_state p c 0)\<lparr>next_index := next_index p + 1\<rparr>"
  have rg: "row_get (slabs p) c \<noteq> None" "row_get (cell_state p) c \<noteq> None"
    using sh ni sc by (auto simp: shape_ok_def row_get_def c_def)
  have al: "pool_alloc p = Some (c, p')"
    using ni sc rg by (simp add: pool_alloc_def hd Let_def c_def p'_def)
  have cs: "cell_state p' = row_set (cell_state p) c 0" "slabs p' = slabs p"
    "free_list p' = None" "elems_per_slab p' = elems_per_slab p" "next_index p' = next_index p + 1"
    by (simp_all add: p'_def set_state_def hd)
  have cv: "d \<in> set (carved p') \<longleftrightarrow> d = c \<or> d \<in> set (carved p)" for d
    using sc by (cases d) (auto simp: carved_iff slab_fill_def cs c_def)
  have nc: "c \<notin> set (carved p)" by (simp add: carved_iff slab_fill_def c_def)
  have pst: "pstate p' d = (if d = c then Some 0 else pstate p d)" for d
    using rg by (simp add: pstate_def cv cs)
  have fl: "flagged p' 2 d \<longleftrightarrow> d \<noteq> c \<and> flagged p 2 d" for d
    by (simp add: flagged_def pst)
  have "shape_ok p'" using sh ni sc by (simp add: shape_ok_def cs)
  then have "pool_inv p'"
    unfolding pool_inv_def using nofree
    by (intro conjI exI [of _ "[]"]) (auto simp: cs fl cv)
  moreover have "live p' = insert c (live p)"
    using nc by (auto simp: live_def fl cv)
  moreover have "c \<notin> live p" using nc by (simp add: live_def)
  ultimately show ?thesis
    using al pst cs unfolding c_def [symmetric] by (auto simp: alloc_post_def)
qed

lemma pool_grow_inv:
  assumes inv: "pool_inv p" and hd: "free_list p = None"
    and full: "elems_per_slab p \<le> next_index p"
  shows "pool_inv (pool_grow p)" "live (pool_grow p) = live p"
    "pstate (pool_grow p) d = pstate p d"
    "d \<in> live p \<Longrightarrow> row_get (slabs (pool_grow p)) d = row_get (slabs p) d"
proof -
  let ?p' = "pool_grow p"
  from inv have sh: "shape_ok p" and nofree: "\<forall>d \<in> set (carved p). \<not> flagged p 2 d"
    using hd by (auto simp: pool_inv_def)
  have fields: "slabs ?p' = slabs p @ [replicate (elems_per_slab p) Raw]"
    "cell_state ?p' = cell_state p @ [replicate (elems_per_slab p) 0]"
    "next_index ?p' = 0" "elems_per_slab ?p' = elems_per_slab p" "free_list ?p' = None"
    by (simp_all add: pool_grow_def Let_def hd)
  have cv: "d \<in> set (carved ?p') \<longleftrightarrow> d \<in> set (carved p)" for d
    using sh full by (cases d) (auto simp: carved_iff slab_fill_def fields shape_ok_def)
  have less: "d \<in> set (carved p) \<Longrightarrow> fst d < slab_count p" for d by (simp add: carved_iff)
  have sl: "d \<in> set (carved p) \<Longrightarrow> row_get (slabs ?p') d = row_get (slabs p) d" for d
    using less [of d] by (simp add: fields row_get_snoc)
  have pst: "pstate ?p' d = pstate p d" for d
    using less [of d] sh by (auto simp: pstate_def cv fields row_get_snoc shape_ok_def)
  then show "pstate ?p' d = pstate p d" .
  have fl: "flagged ?p' n d = flagged p n d" for n d by (simp add: flagged_def pst)
  show "live ?p' = live p" by (simp add: live_def cv fl)
  show "d \<in> live p \<Longrightarrow> row_get (slabs ?p') d = row_get (slabs p) d"
    using sl by (simp add: live_def)
  have "shape_ok ?p'" using sh by (auto simp: shape_ok_def fields nth_append)
  then show "pool_inv ?p'"
    unfolding pool_inv_def using nofree
    by (intro conjI exI [of _ "[]"]) (auto simp: fields fl cv)
qed

lemma alloc_fresh_slab:
  assumes inv: "pool_inv p" and hd: "free_list p = None"
    and full: "elems_per_slab p \<le> next_index p"
  shows "\<exists>c p'. pool_alloc p = Some (c, p') \<and> alloc_post p c p'"
proof -
  let ?g = "pool_grow p"
  have g: "free_list ?g = None" "next_index ?g < elems_per_slab ?g" "elems_per_slab ?g = elems_per_slab p"
    using inv by (auto simp: pool_grow_def Let_def hd pool_inv_def shape_ok_def)
  have same: "pool_alloc p = pool_alloc ?g"
    using full g by (simp add: pool_alloc_def hd Let_def)
  obtain c p' where "pool_alloc ?g = Some (c, p')" "alloc_post ?g c p'"
    using alloc_bump [OF pool_grow_inv(1) [OF inv hd full] g(1,2)] by blast
  then show ?thesis
    using pool_grow_inv [OF inv hd full] g(3) same by (auto simp: alloc_post_def)
qed

lemma pool_alloc_post:
  assumes "pool_inv p"
  obtains c p' where "pool_alloc p = Some (c, p')" "alloc_post p c p'"
proof (cases "free_list p")
  case None
  then show thesis
    using assms alloc_bump [OF assms None] alloc_fresh_slab [OF assms None] that
    by (cases "next_index p < elems_per_slab p") force+
next
  case (Some c)
  then show thesis using alloc_reuse [OF assms Some] that by blast
qed

lemma pool_init_inv: "0 < n \<Longrightarrow> pool_inv (pool_init n)" "live (pool_init n) = {}"
  by (simp_all add: pool_inv_def pool_init_def shape_ok_def carved_def live_def)

section \<open>Freeing, marking and sweeping\<close>

lemma live_pstate:
  assumes "pool_inv p"
  shows "c \<in> live p \<longleftrightarrow> (\<exists>s. pstate p c = Some s \<and> \<not> bit s 2)"
  using pstate_carved [of p c] assms
  by (auto simp: live_def flagged_def pool_inv_def split: option.splits)

lemma live_cell_state:
  assumes "pool_inv p" "c \<in> live p"
  obtains s where "pool_cell_state p c = Some s" "pstate p c = Some s" "\<not> bit s 2"
  using assms live_pstate [OF assms(1)] pool_cell_state_eq [of p c] pstate_row_get [of p c]
  by (auto simp: pool_inv_def live_def)

lemma pool_free_post:
  assumes inv: "pool_inv p" and c: "c \<in> live p"
  obtains p' where "pool_free p c = Some p'" "pool_inv p'" "carved p' = carved p"
    "\<And>d. pstate p' d = (if d = c then Some POOL_FREE else pstate p d)"
    "\<And>d. d \<noteq> c \<Longrightarrow> row_get (slabs p') d = row_get (slabs p) d"
    "row_get (slabs p') c = Some (Link (free_list p))"
    "elems_per_slab p' = elems_per_slab p"
proof -
  define p' where "p' = (set_cell (set_state p c POOL_FREE) c (Link (free_list p)))\<lparr>free_list := Some c\<rparr>"
  obtain xs where sh: "shape_ok p" and ch: "chain (slabs p) (free_list p) xs"
    and d: "distinct xs" and s: "set xs = {d \<in> set (carved p). flagged p 2 d}"
    using inv by (auto simp: pool_inv_def)
  obtain st where st: "pool_cell_state p c = Some st" "pstate p c = Some st"
    using live_cell_state [OF inv c] by metis
  have cc: "c \<in> set (carved p)" "c \<notin> set xs" using c s by (auto simp: live_def)
  obtain y where y: "row_get (slabs p) c = Some y" using carved_row_get [OF sh cc(1)] by metis
  have sl: "row_get (slabs p') d = (if d = c then Some (Link (free_list p)) else row_get (slabs p) d)" for d
    by (simp add: p'_def cell_simps y)
  have pst: "pstate p' d = (if d = c then Some POOL_FREE else pstate p d)" for d
    by (simp add: p'_def cell_simps st)
  have fl: "flagged p' 2 d \<longleftrightarrow> d = c \<or> flagged p 2 d" for d
    by (simp add: flagged_def pst cell_simps)
  have cv: "carved p' = carved p" "shape_ok p'" using sh by (simp_all add: p'_def cell_simps)
  have "chain (slabs p') (free_list p) xs"
    using ch cc(2) by (simp add: p'_def cell_simps chain_frame)
  then have "chain (slabs p') (free_list p') (c # xs)"
    using sl [of c] by (simp add: p'_def cell_simps)
  then have "pool_inv p'"
    unfolding pool_inv_def using cv d cc s
    by (intro conjI exI [of _ "c # xs"]) (auto simp: fl)
  moreover have "pool_free p c = Some p'" by (simp add: pool_free_def st p'_def)
  moreover have "elems_per_slab p' = elems_per_slab p" by (simp add: p'_def cell_simps)
  ultimately show thesis using that cv pst sl by auto
qed

lemma set_state_inv:
  assumes "pool_inv p" "c \<in> live p" "\<not> bit s 2"
  shows "pool_inv (set_state p c s)" "live (set_state p c s) = live p"
proof -
  obtain st where st: "pstate p c = Some st" "\<not> bit st 2"
    using live_cell_state [OF assms(1,2)] by metis
  then have fl: "flagged (set_state p c s) 2 d = flagged p 2 d" for d
    using assms(3) by (simp add: flagged_def cell_simps)
  then show "live (set_state p c s) = live p" by (simp add: live_def cell_simps)
  show "pool_inv (set_state p c s)" using assms(1) fl by (simp add: pool_inv_def cell_simps)
qed

lemma pool_mark_post:
  assumes inv: "pool_inv p" and c: "c \<in> live p"
  obtains p' where "pool_mark p c = Some (flagged p 0 c, p')" "pool_inv p'" "live p' = live p"
    "slabs p' = slabs p" "carved p' = carved p"
    "\<And>n d. flagged p' n d \<longleftrightarrow> flagged p n d \<or> n = 0 \<and> d = c"
    "flagged p 0 c \<Longrightarrow> p' = p" "elems_per_slab p' = elems_per_slab p"
proof -
  obtain s where s: "pool_cell_state p c = Some s" "pstate p c = Some s" "\<not> bit s 2"
    using live_cell_state [OF inv c] by metis
  show thesis
  proof (cases "bit s 0")
    case True
    then show thesis using inv s
      by (intro that [of p]) (auto simp: pool_mark_def cell_simps flagged_def)
  next
    case False
    let ?p' = "set_state p c (s OR POOL_MARKED)"
    have nb: "\<not> bit (s OR POOL_MARKED) 2" using s by (simp add: bit_simps cell_simps)
    have "flagged ?p' n d \<longleftrightarrow> flagged p n d \<or> n = 0 \<and> d = c" for n d
      using s by (auto simp: flagged_def cell_simps bit_simps)
    then show thesis
      using that [of ?p'] False s set_state_inv [OF inv c nb]
      by (auto simp: pool_mark_def cell_simps flagged_def)
  qed
qed

text \<open>What one sweep does to a state byte, and which cells it frees.\<close>

definition sweep_dies :: "bool \<Rightarrow> u8 \<Rightarrow> bool" where
  "sweep_dies y s \<longleftrightarrow> \<not> bit s 2 \<and> \<not> (y \<and> bit s 1) \<and> \<not> bit s 0"

definition sweep_byte :: "bool \<Rightarrow> u8 \<Rightarrow> u8" where
  "sweep_byte y s =
     (if bit s 2 \<or> y \<and> bit s 1 then s
      else if bit s 0 then (s AND NOT POOL_MARKED) OR POOL_OLD else POOL_FREE)"

lemma sweep_cell_post:
  assumes inv: "pool_inv p" and c: "c \<in> set (carved p)" and s: "pstate p c = Some s"
  obtains p' where
    "sweep_cell y c (p, fs) = Some (p', fs @ (if sweep_dies y s then [c] else []))"
    "pool_inv p'" "carved p' = carved p" "elems_per_slab p' = elems_per_slab p"
    "\<And>d. pstate p' d = (if d = c then Some (sweep_byte y s) else pstate p d)"
    "\<And>d. \<not> (d = c \<and> sweep_dies y s) \<Longrightarrow> row_get (slabs p') d = row_get (slabs p) d"
proof -
  from inv have sh: "shape_ok p" by (simp add: pool_inv_def)
  have rg: "row_get (cell_state p) c = Some s" using pstate_row_get [OF sh c] s by simp
  consider "bit s 2 \<or> y \<and> bit s 1" | "\<not> bit s 2" "\<not> (y \<and> bit s 1)" "bit s 0"
    | "sweep_dies y s" by (auto simp: sweep_dies_def)
  then show thesis
  proof cases
    case 1
    then show thesis using that [of p] inv rg s
      by (auto simp: sweep_cell_def cell_simps sweep_dies_def sweep_byte_def)
  next
    case 2
    let ?p' = "set_state p c ((s AND NOT POOL_MARKED) OR POOL_OLD)"
    have c': "c \<in> live p" using live_pstate [OF inv] s 2 by auto
    have nb: "\<not> bit ((s AND NOT POOL_MARKED) OR POOL_OLD) 2"
      using 2 by (simp add: bit_simps cell_simps)
    show thesis
      using that [of ?p'] 2 rg s set_state_inv(1) [OF inv c' nb]
      by (auto simp: sweep_cell_def cell_simps sweep_dies_def sweep_byte_def)
  next
    case 3
    then have c': "c \<in> live p" using live_pstate [OF inv] s by (auto simp: sweep_dies_def)
    obtain p' where "pool_free p c = Some p'" "pool_inv p'" "carved p' = carved p"
      "\<And>d. pstate p' d = (if d = c then Some POOL_FREE else pstate p d)"
      "\<And>d. d \<noteq> c \<Longrightarrow> row_get (slabs p') d = row_get (slabs p) d"
      "elems_per_slab p' = elems_per_slab p"
      using pool_free_post [OF inv c'] by metis
    then show thesis using that [of p'] 3 rg
      by (auto simp: sweep_cell_def cell_simps sweep_dies_def sweep_byte_def)
  qed
qed

lemma sweep_cells_post:
  assumes "pool_inv p" "distinct cs" "set cs \<subseteq> set (carved p)"
  shows "\<exists>p'. sweep_cells y cs (p, fs) =
              Some (p', fs @ filter (\<lambda>c. sweep_dies y (the (pstate p c))) cs) \<and>
            pool_inv p' \<and> carved p' = carved p \<and> elems_per_slab p' = elems_per_slab p \<and>
            (\<forall>d. pstate p' d = (if d \<in> set cs then map_option (sweep_byte y) (pstate p d) else pstate p d)) \<and>
            (\<forall>d. \<not> (d \<in> set cs \<and> sweep_dies y (the (pstate p d))) \<longrightarrow>
                 row_get (slabs p') d = row_get (slabs p) d)"
  using assms
proof (induction cs arbitrary: p fs)
  case Nil
  then show ?case by simp
next
  case (Cons c cs)
  have sh: "shape_ok p" using Cons.prems by (simp add: pool_inv_def)
  obtain s where s: "pstate p c = Some s"
    using pstate_carved [OF sh, of c] Cons.prems by auto
  obtain p1 where p1:
    "sweep_cell y c (p, fs) = Some (p1, fs @ (if sweep_dies y s then [c] else []))"
    "pool_inv p1" "carved p1 = carved p" "elems_per_slab p1 = elems_per_slab p"
    "\<And>d. pstate p1 d = (if d = c then Some (sweep_byte y s) else pstate p d)"
    "\<And>d. \<not> (d = c \<and> sweep_dies y s) \<Longrightarrow> row_get (slabs p1) d = row_get (slabs p) d"
    using sweep_cell_post [OF Cons.prems(1) _ s, of y fs] Cons.prems by auto
  have dc: "distinct cs" "c \<notin> set cs" "set cs \<subseteq> set (carved p1)" using Cons.prems p1(3) by auto
  have same: "filter (\<lambda>d. sweep_dies y (the (pstate p1 d))) cs =
      filter (\<lambda>d. sweep_dies y (the (pstate p d))) cs"
    using dc(2) by (intro filter_cong) (auto simp: p1(5))
  obtain p' where p': "sweep_cells y cs (p1, fs @ (if sweep_dies y s then [c] else [])) =
        Some (p', (fs @ (if sweep_dies y s then [c] else [])) @
                  filter (\<lambda>c. sweep_dies y (the (pstate p c))) cs)"
      "pool_inv p'" "carved p' = carved p" "elems_per_slab p' = elems_per_slab p"
      "\<And>d. pstate p' d = (if d \<in> set cs then map_option (sweep_byte y) (pstate p1 d) else pstate p1 d)"
      "\<And>d. \<not> (d \<in> set cs \<and> sweep_dies y (the (pstate p1 d))) \<Longrightarrow>
           row_get (slabs p') d = row_get (slabs p1) d"
    using Cons.IH [OF p1(2) dc(1,3), of "fs @ (if sweep_dies y s then [c] else [])"] p1(3,4)
    unfolding same by metis
  have keep: "row_get (slabs p') d = row_get (slabs p) d"
    if "\<not> (d \<in> set (c # cs) \<and> sweep_dies y (the (pstate p d)))" for d
    using that dc(2) s p'(6) [of d] p1(6) [of d] by (cases "d = c") (auto simp: p1(5))
  show ?case
    using p'(1-4) p1(1) s dc(2) keep
    by (intro exI [of _ p']) (simp add: p'(5) p1(5))
qed

text \<open>The whole sweep, in terms of the state bytes before it.\<close>

lemma pool_sweep_post:
  assumes inv: "pool_inv p"
  obtains p' where
    "pool_sweep p y = Some (p', filter (\<lambda>c. sweep_dies y (the (pstate p c))) (carved p))"
    "pool_inv p'" "carved p' = carved p" "elems_per_slab p' = elems_per_slab p"
    "\<And>d. pstate p' d = map_option (sweep_byte y) (pstate p d)"
    "live p' = {c \<in> live p. flagged p 0 c \<or> y \<and> flagged p 1 c}"
    "\<And>d. d \<in> live p' \<Longrightarrow> row_get (slabs p') d = row_get (slabs p) d"
proof -
  obtain p' where p': "pool_sweep p y = Some (p', filter (\<lambda>c. sweep_dies y (the (pstate p c))) (carved p))"
    "pool_inv p'" "carved p' = carved p" "elems_per_slab p' = elems_per_slab p"
    and st: "\<And>d. pstate p' d = (if d \<in> set (carved p) then map_option (sweep_byte y) (pstate p d) else pstate p d)"
    and sl: "\<And>d. \<not> (d \<in> set (carved p) \<and> sweep_dies y (the (pstate p d))) \<Longrightarrow>
                 row_get (slabs p') d = row_get (slabs p) d"
    using sweep_cells_post [OF inv distinct_carved subset_refl, of y "[]"]
    by (auto simp: pool_sweep_def)
  have st': "pstate p' d = map_option (sweep_byte y) (pstate p d)" for d
    using st [of d] by (simp add: pstate_def split: if_splits)
  have lv: "live p' = {c \<in> live p. flagged p 0 c \<or> y \<and> flagged p 1 c}"
    by (auto simp: live_pstate [OF inv] live_pstate [OF p'(2)] st' flagged_def sweep_byte_def
        cell_simps bit_simps split: if_splits)
  have "row_get (slabs p') d = row_get (slabs p) d" if d: "d \<in> live p'" for d
  proof -
    obtain s where "pstate p d = Some s" using d live_pstate [OF inv] by (auto simp: lv)
    then show ?thesis using d by (intro sl) (auto simp: lv sweep_dies_def flagged_def)
  qed
  then show thesis using that [of p'] p' st' lv by simp
qed

lemma pool_clear_marks_post:
  assumes inv: "pool_inv p"
  shows "pool_inv (pool_clear_marks p)" "live (pool_clear_marks p) = live p"
    "slabs (pool_clear_marks p) = slabs p" "carved (pool_clear_marks p) = carved p"
    "elems_per_slab (pool_clear_marks p) = elems_per_slab p"
    "flagged (pool_clear_marks p) n d \<longleftrightarrow> flagged p n d \<and> n \<noteq> 0"
proof -
  have main: "slabs (fold clear_mark_cell cs p) = slabs p \<and>
      carved (fold clear_mark_cell cs p) = carved p \<and>
      free_list (fold clear_mark_cell cs p) = free_list p \<and>
      shape_ok (fold clear_mark_cell cs p) = shape_ok p \<and>
      elems_per_slab (fold clear_mark_cell cs p) = elems_per_slab p \<and>
      (\<forall>d. pstate (fold clear_mark_cell cs p) d =
        (if d \<in> set cs then map_option (\<lambda>s. s AND NOT POOL_MARKED) (pstate p d) else pstate p d))"
    if "set cs \<subseteq> set (carved p)" for cs
    using that
  proof (induction cs rule: rev_induct)
    case (snoc c cs)
    let ?q = "fold clear_mark_cell cs p"
    from snoc have q: "carved ?q = carved p" "pstate ?q d =
        (if d \<in> set cs then map_option (\<lambda>s. s AND NOT POOL_MARKED) (pstate p d) else pstate p d)" for d
      by auto
    have rg: "row_get (cell_state ?q) c = pstate ?q c"
      using snoc.prems by (simp add: pstate_def q(1))
    obtain s where s: "pstate p c = Some s"
      using inv snoc.prems pstate_carved [of p c] by (auto simp: pool_inv_def)
    have step: "clear_mark_cell c ?q = set_state ?q c (s AND NOT POOL_MARKED)"
      using q(2) [of c] s by (simp add: clear_mark_cell_def rg and.assoc split: if_splits)
    show ?case
      using snoc step q(2) s by (simp add: cell_simps split: if_splits)
  qed simp
  have st: "pstate (pool_clear_marks p) d = map_option (\<lambda>s. s AND NOT POOL_MARKED) (pstate p d)" for d
  proof (cases "d \<in> set (carved p)")
    case False
    then have "pstate p d = None" by (simp add: pstate_def)
    then show ?thesis using main [OF subset_refl] False by (simp add: pool_clear_marks_def)
  qed (use main [OF subset_refl] in \<open>simp add: pool_clear_marks_def\<close>)
  show fl: "flagged (pool_clear_marks p) n d \<longleftrightarrow> flagged p n d \<and> n \<noteq> 0" for n d
    by (cases "n < 8") (auto simp: flagged_def st bit_simps cell_simps split: option.splits
        dest: bit_imp_le_length)
  have m: "slabs (pool_clear_marks p) = slabs p" "carved (pool_clear_marks p) = carved p"
    "free_list (pool_clear_marks p) = free_list p" "shape_ok (pool_clear_marks p) = shape_ok p"
    "elems_per_slab (pool_clear_marks p) = elems_per_slab p"
    using main [OF subset_refl] by (simp_all add: pool_clear_marks_def)
  show "slabs (pool_clear_marks p) = slabs p" "carved (pool_clear_marks p) = carved p"
    "elems_per_slab (pool_clear_marks p) = elems_per_slab p" using m by simp_all
  show "live (pool_clear_marks p) = live p" by (simp add: live_def fl m)
  show "pool_inv (pool_clear_marks p)" using inv by (simp add: pool_inv_def m fl)
qed

section \<open>The address scan\<close>

text \<open>
  \<^verbatim>\<open>pool_cell_state_or_null\<close> on raw addresses: \<open>bases\<close> are the slab addresses \<^verbatim>\<open>malloc\<close>
  returned, \<open>esz\<close> is \<^verbatim>\<open>elem_size\<close>. \<^verbatim>\<open>malloc\<close> hands out disjoint blocks, so the scan
  recovers the (slab, cell) pair the rest of the library uses as the pointer.
\<close>

definition pool_find :: "nat list \<Rightarrow> nat \<Rightarrow> nat \<Rightarrow> nat \<Rightarrow> ptr option" where
  "pool_find bases esz elems a =
     (case find (\<lambda>i. bases ! i \<le> a \<and> a < bases ! i + esz * elems) [0..<length bases] of
        None \<Rightarrow> None
      | Some i \<Rightarrow> Some (i, (a - bases ! i) div esz))"

definition disjoint_slabs :: "nat list \<Rightarrow> nat \<Rightarrow> bool" where
  "disjoint_slabs bases sz \<longleftrightarrow>
     (\<forall>i < length bases. \<forall>j < length bases. i \<noteq> j \<longrightarrow>
        bases ! i + sz \<le> bases ! j \<or> bases ! j + sz \<le> bases ! i)"

lemma find_unique:
  assumes "i < n" "P i" "\<And>j. j < n \<Longrightarrow> P j \<Longrightarrow> j = i"
  shows "find P [0..<n] = Some i"
proof -
  have "find P [0..<n] \<noteq> None" using assms(1,2) by (auto simp: find_None_iff)
  then obtain j where j: "find P [0..<n] = Some j" by blast
  then have "j < n \<and> P j" by (auto simp: find_Some_iff)
  then show ?thesis using assms(3) j by simp
qed

lemma pool_find_cell:
  assumes "disjoint_slabs bases (esz * elems)" "0 < esz" "i < length bases" "j < elems"
  shows "pool_find bases esz elems (bases ! i + j * esz) = Some (i, j)"
proof -
  let ?a = "bases ! i + j * esz"
  have lt: "j * esz < esz * elems" using assms(2,4) by simp
  have "find (\<lambda>k. bases ! k \<le> ?a \<and> ?a < bases ! k + esz * elems) [0..<length bases] = Some i"
  proof (rule find_unique [OF assms(3)])
    fix k assume k: "k < length bases" "bases ! k \<le> ?a \<and> ?a < bases ! k + esz * elems"
    show "k = i"
    proof (rule ccontr)
      assume "k \<noteq> i"
      then have "bases ! k + esz * elems \<le> bases ! i \<or> bases ! i + esz * elems \<le> bases ! k"
        using assms(1,3) k(1) by (auto simp: disjoint_slabs_def)
      then show False using k(2) lt by linarith
    qed
  qed (use lt in simp)
  then show ?thesis using assms(2) by (simp add: pool_find_def)
qed

lemma pool_find_foreign:
  assumes "\<forall>b \<in> set bases. a < b \<or> b + esz * elems \<le> a"
  shows "pool_find bases esz elems a = None"
proof -
  have "find (\<lambda>i. bases ! i \<le> a \<and> a < bases ! i + esz * elems) [0..<length bases] = None"
    using assms by (auto simp: find_None_iff dest!: nth_mem)
  then show ?thesis by (simp add: pool_find_def)
qed

section \<open>Reading and writing cells\<close>

lemma pool_write_post:
  assumes inv: "pool_inv p" and c: "c \<in> live p"
  obtains p' where "pool_write p c x = Some p'" "pool_inv p'" "carved p' = carved p"
    "\<And>d. pstate p' d = pstate p d" "live p' = live p"
    "\<And>d. pool_read p' d = (if d = c then Some x else pool_read p d)"
    "elems_per_slab p' = elems_per_slab p"
proof -
  obtain xs where sh: "shape_ok p" and ch: "chain (slabs p) (free_list p) xs"
    and d: "distinct xs" and s: "set xs = {d \<in> set (carved p). flagged p 2 d}"
    using inv by (auto simp: pool_inv_def)
  have cc: "c \<in> set (carved p)" "c \<notin> set xs" using c s by (auto simp: live_def)
  obtain y where y: "row_get (slabs p) c = Some y" using carved_row_get [OF sh cc(1)] by metis
  let ?p' = "set_cell p c (Live x)"
  have fl: "flagged ?p' n d = flagged p n d" for n d by (simp add: flagged_def cell_simps)
  have "pool_inv ?p'"
    unfolding pool_inv_def using sh ch d s cc
    by (intro conjI exI [of _ xs]) (auto simp: cell_simps fl chain_frame)
  moreover have "live ?p' = live p" by (simp add: live_def fl cell_simps)
  ultimately show thesis
    using that [of ?p'] y by (simp add: pool_write_def cell_simps pool_read_def)
qed

definition pool_new :: "'a pool \<Rightarrow> 'a \<Rightarrow> (ptr \<times> 'a pool) option" where
  "pool_new p x = do { (c, p1) \<leftarrow> pool_alloc p; p2 \<leftarrow> pool_write p1 c x; Some (c, p2) }"

section \<open>The contract of a cell store\<close>

locale cell_store =
  fixes alloc :: "'s \<Rightarrow> ('c \<times> 's) option"
    and rd :: "'s \<Rightarrow> 'c \<Rightarrow> 'x option"
    and wr :: "'s \<Rightarrow> 'c \<Rightarrow> 'x \<Rightarrow> 's option"
    and cells :: "'s \<Rightarrow> 'c set"
    and inv :: "'s \<Rightarrow> bool"
  assumes alloc_fresh: "inv s \<Longrightarrow> \<exists>c s'. alloc s = Some (c, s') \<and> inv s' \<and> c \<notin> cells s \<and>
      cells s' = insert c (cells s) \<and> (\<forall>d \<in> cells s. rd s' d = rd s d)"
    and write_cell: "inv s \<Longrightarrow> c \<in> cells s \<Longrightarrow> \<exists>s'. wr s c x = Some s' \<and> inv s' \<and>
      cells s' = cells s \<and> rd s' c = Some x \<and> (\<forall>d. d \<noteq> c \<longrightarrow> rd s' d = rd s d)"
begin

definition new_cell :: "'s \<Rightarrow> 'x \<Rightarrow> ('c \<times> 's) option" where
  "new_cell s x = do { (c, s1) \<leftarrow> alloc s; s2 \<leftarrow> wr s1 c x; Some (c, s2) }"

lemma new_cell_post:
  assumes "inv s"
  shows "\<exists>c s'. new_cell s x = Some (c, s') \<and> inv s' \<and> c \<notin> cells s \<and>
    cells s' = insert c (cells s) \<and> rd s' c = Some x \<and> (\<forall>d \<in> cells s. rd s' d = rd s d)"
proof -
  from alloc_fresh [OF assms] obtain c s1 where a: "alloc s = Some (c, s1)" "inv s1"
    "c \<notin> cells s" "cells s1 = insert c (cells s)" "\<forall>d \<in> cells s. rd s1 d = rd s d" by blast
  from write_cell [OF a(2), of c x] a(4) obtain s2 where w: "wr s1 c x = Some s2" "inv s2"
    "cells s2 = cells s1" "rd s2 c = Some x" "\<forall>d. d \<noteq> c \<longrightarrow> rd s2 d = rd s1 d" by blast
  have "rd s2 d = rd s d" if "d \<in> cells s" for d
    using that a(3,5) w(5) by metis
  then show ?thesis using a w by (auto simp: new_cell_def)
qed

fun new_cells :: "'s \<Rightarrow> 'x list \<Rightarrow> ('c list \<times> 's) option" where
  "new_cells s [] = Some ([], s)"
| "new_cells s (x # xs) =
     do { (c, s1) \<leftarrow> new_cell s x; (cs, s2) \<leftarrow> new_cells s1 xs; Some (c # cs, s2) }"

lemma new_cells_post:
  assumes "inv s"
  shows "\<exists>cs s'. new_cells s xs = Some (cs, s') \<and> inv s' \<and> distinct cs \<and>
    set cs \<inter> cells s = {} \<and> cells s' = set cs \<union> cells s \<and>
    map (rd s') cs = map Some xs \<and> (\<forall>d \<in> cells s. rd s' d = rd s d)"
  using assms
proof (induction xs arbitrary: s)
  case (Cons x xs)
  from new_cell_post [OF Cons.prems, of x] obtain c s1 where c: "new_cell s x = Some (c, s1)"
    "inv s1" "c \<notin> cells s" "cells s1 = insert c (cells s)" "rd s1 c = Some x"
    "\<forall>d \<in> cells s. rd s1 d = rd s d" by blast
  from Cons.IH [OF c(2)] obtain cs s2 where cs: "new_cells s1 xs = Some (cs, s2)" "inv s2"
    "distinct cs" "set cs \<inter> cells s1 = {}" "cells s2 = set cs \<union> cells s1"
    "map (rd s2) cs = map Some xs" "\<forall>d \<in> cells s1. rd s2 d = rd s1 d" by blast
  show ?case using c cs by auto
qed simp

end

interpretation slab: cell_store pool_alloc pool_read pool_write live pool_inv
proof unfold_locales
  fix p :: "'a pool" assume inv: "pool_inv p"
  obtain c p' where "pool_alloc p = Some (c, p')" "alloc_post p c p'"
    using pool_alloc_post [OF inv] by metis
  then show "\<exists>c p'. pool_alloc p = Some (c, p') \<and> pool_inv p' \<and> c \<notin> live p \<and>
      live p' = insert c (live p) \<and> (\<forall>d \<in> live p. pool_read p' d = pool_read p d)"
    by (auto simp: alloc_post_def pool_read_def)
next
  fix p :: "'a pool" and c x assume "pool_inv p" "c \<in> live p"
  then obtain p' where "pool_write p c x = Some p'" "pool_inv p'" "live p' = live p"
    "\<And>d. pool_read p' d = (if d = c then Some x else pool_read p d)"
    using pool_write_post [of p c x] by metis
  then show "\<exists>p'. pool_write p c x = Some p' \<and> pool_inv p' \<and> live p' = live p \<and>
      pool_read p' c = Some x \<and> (\<forall>d. d \<noteq> c \<longrightarrow> pool_read p' d = pool_read p d)"
    by auto
qed

lemma pool_new_eq: "slab.new_cell = pool_new"
  by (simp add: fun_eq_iff slab.new_cell_def pool_new_def)

section \<open>Pools in use\<close>

text \<open>
  The pools a run of the program can reach: from \<^verbatim>\<open>pool_init\<close> by the operations of \<^verbatim>\<open>pool.h\<close>,
  where a client only marks, promotes, remembers or writes cells it holds.
\<close>

inductive pool_reachable :: "nat \<Rightarrow> 'a pool \<Rightarrow> bool" for n where
  init: "0 < n \<Longrightarrow> pool_reachable n (pool_init n)"
| alloc: "pool_reachable n p \<Longrightarrow> pool_alloc p = Some (c, p') \<Longrightarrow> pool_reachable n p'"
| store: "pool_reachable n p \<Longrightarrow> c \<in> live p \<Longrightarrow> pool_write p c x = Some p' \<Longrightarrow> pool_reachable n p'"
| mark: "pool_reachable n p \<Longrightarrow> c \<in> live p \<Longrightarrow> pool_mark p c = Some (b, p') \<Longrightarrow> pool_reachable n p'"
| promote: "pool_reachable n p \<Longrightarrow> c \<in> live p \<Longrightarrow> pool_promote p c = Some p' \<Longrightarrow> pool_reachable n p'"
| remember: "pool_reachable n p \<Longrightarrow> c \<in> live p \<Longrightarrow> pool_mark_remembered p c = Some p' \<Longrightarrow>
    pool_reachable n p'"
| clear: "pool_reachable n p \<Longrightarrow> pool_reachable n (pool_clear_marks p)"
| sweep: "pool_reachable n p \<Longrightarrow> pool_sweep p y = Some (p', fs) \<Longrightarrow> pool_reachable n p'"

lemma pool_set_flag_inv:
  assumes inv: "pool_inv p" and c: "c \<in> live p" and f: "\<not> bit f 2"
    and st: "pool_cell_state p c = Some s"
  shows "pool_inv (set_state p c (s OR f))"
proof -
  obtain s' where "pool_cell_state p c = Some s'" "\<not> bit s' 2"
    using live_cell_state [OF inv c] by metis
  then have "\<not> bit (s OR f) 2" using f st by (simp add: bit_simps)
  then show ?thesis by (rule set_state_inv(1) [OF inv c])
qed

lemma pool_reachable_inv: "pool_reachable n p \<Longrightarrow> pool_inv p"
proof (induction rule: pool_reachable.induct)
  case init
  then show ?case by (rule pool_init_inv)
next
  case (alloc p c p')
  then show ?case using pool_alloc_post [of p] by (auto simp: alloc_post_def)
next
  case (store p c x p')
  then show ?case using pool_write_post [of p c x] by force
next
  case (mark p c b p')
  then show ?case using pool_mark_post [of p c] by force
next
  case (promote p c p')
  then show ?case
    using pool_set_flag_inv [of p c POOL_OLD] by (auto simp: pool_promote_def cell_simps bind_eq_Some_conv)
next
  case (remember p c p')
  then show ?case
    using pool_set_flag_inv [of p c POOL_REMEMBERED] by (auto simp: pool_mark_remembered_def cell_simps bind_eq_Some_conv)
next
  case (clear p)
  then show ?case by (simp add: pool_clear_marks_post)
next
  case (sweep p y p' fs)
  then show ?case using pool_sweep_post [of p y] by force
qed

section \<open>Properties\<close>

text \<open>C24: In every pool the program can reach, \<^verbatim>\<open>pool_alloc\<close> succeeds and returns a
  cell that was not in use, young and unmarked, whatever its history; the cells in use keep
  their contents and state bytes.
\<close>

theorem pool_alloc_fresh:
  assumes "pool_reachable n p"
  shows "\<exists>c p'. pool_alloc p = Some (c, p') \<and> pool_reachable n p' \<and>
    c \<notin> live p \<and> live p' = insert c (live p) \<and>
    pool_is_young p' c = Some True \<and> pool_is_freed p' c = Some False \<and> pstate p' c = Some 0 \<and>
    (\<forall>d \<in> live p. pool_read p' d = pool_read p d \<and> pstate p' d = pstate p d)"
proof -
  note inv = pool_reachable_inv [OF assms]
  obtain c p' where al: "pool_alloc p = Some (c, p')" and post: "alloc_post p c p'"
    using pool_alloc_post [OF inv] by metis
  then have inv': "pool_inv p'" and c: "c \<in> live p'" "c \<notin> live p" by (auto simp: alloc_post_def)
  obtain s where "pool_cell_state p' c = Some s" "pstate p' c = Some s"
    using live_cell_state [OF inv' c(1)] by metis
  then have "pool_is_young p' c = Some True" "pool_is_freed p' c = Some False"
    using post by (auto simp: pool_is_young_def pool_is_freed_def alloc_post_def)
  moreover have "\<forall>d \<in> live p. pool_read p' d = pool_read p d \<and> pstate p' d = pstate p d"
    using post by (metis (no_types, lifting) alloc_post_def pool_read_def)
  ultimately show ?thesis
    using al post pool_reachable.alloc [OF assms al] by (auto simp: alloc_post_def)
qed

theorem pool_alloc_fresh_witness:
  "\<exists>c p'. pool_alloc (pool_init 2 :: nat pool) = Some (c, p') \<and> pool_reachable 2 p' \<and>
    live p' = insert c {} \<and> pool_is_young p' c = Some True"
  using pool_alloc_fresh [OF pool_reachable.init [of 2], where ?'a = nat]
  by (auto simp: pool_init_inv)

text \<open>C23: \<^verbatim>\<open>pool_sweep\<close> frees exactly the cells in use that are unmarked (and, in a
  minor pass, not old), hands each of them to \<^verbatim>\<open>on_free\<close> exactly once and never a cell that
  is already on the free list; every survivor keeps its contents and is old afterwards.
\<close>

theorem pool_sweep_exact:
  assumes "pool_reachable n p"
  shows "\<exists>p' fs. pool_sweep p young_only = Some (p', fs) \<and> pool_reachable n p' \<and>
    distinct fs \<and> set fs = {c \<in> live p. \<not> flagged p 0 c \<and> \<not> (young_only \<and> flagged p 1 c)} \<and>
    live p' = live p - set fs \<and>
    (\<forall>c \<in> live p'. pool_read p' c = pool_read p c \<and> flagged p' 1 c)"
proof -
  note inv = pool_reachable_inv [OF assms]
  define fs where "fs = filter (\<lambda>c. sweep_dies young_only (the (pstate p c))) (carved p)"
  obtain p' where sw: "pool_sweep p young_only = Some (p', fs)"
    and p': "pool_inv p'" "\<And>d. pstate p' d = map_option (sweep_byte young_only) (pstate p d)"
      "live p' = {c \<in> live p. flagged p 0 c \<or> young_only \<and> flagged p 1 c}"
      "\<And>d. d \<in> live p' \<Longrightarrow> row_get (slabs p') d = row_get (slabs p) d"
    by (rule pool_sweep_post [OF inv, of young_only, folded fs_def]) (rule that)
  have dead: "c \<in> set fs \<longleftrightarrow> c \<in> live p \<and> \<not> flagged p 0 c \<and> \<not> (young_only \<and> flagged p 1 c)" for c
    using pstate_carved [of p c] inv live_pstate [OF inv, of c]
    by (auto simp: fs_def sweep_dies_def flagged_def pool_inv_def pstate_def)
  have old: "flagged p' 1 c" if "c \<in> live p'" for c
    using that live_pstate [OF inv, of c]
    by (auto simp: p'(3) flagged_def p'(2) sweep_byte_def bit_simps cell_simps)
  have rd: "pool_read p' c = pool_read p c" if "c \<in> live p'" for c
    using p'(4) [OF that] by (simp add: pool_read_def)
  have fs: "set fs = {c \<in> live p. \<not> flagged p 0 c \<and> \<not> (young_only \<and> flagged p 1 c)}"
    using dead by blast
  have lv: "live p' = live p - set fs" unfolding fs p'(3) by blast
  have di: "distinct fs" using distinct_carved [of p] unfolding fs_def by (rule distinct_filter)
  show ?thesis
    using sw pool_reachable.sweep [OF assms sw] di fs lv old rd by (intro exI conjI) auto
qed

theorem pool_sweep_exact_witness:
  "\<exists>p' fs. pool_sweep (pool_init 2 :: nat pool) True = Some (p', fs) \<and> distinct fs \<and> live p' = {}"
  using pool_sweep_exact [OF pool_reachable.init [of 2], where ?'a = nat and young_only = True]
  by (auto simp: pool_init_inv)

text \<open>C28: The linear scan that maps a raw cell address to its state byte
  (\<^verbatim>\<open>pool_cell_state_or_null\<close>, \<^verbatim>\<open>pool_owns\<close>) finds slab and cell number of every address the
  pool handed out, for slabs at disjoint addresses.
\<close>

theorem pool_find_recovers:
  assumes "disjoint_slabs bases (esz * elems)" "0 < esz" "i < length bases" "j < elems"
  shows "pool_find bases esz elems (bases ! i + j * esz) = Some (i, j)"
  using assms by (rule pool_find_cell)

theorem pool_find_recovers_witness:
  "pool_find [5000, 1000, 3000] 8 64 (1000 + 3 * 8) = Some (1, 3)"
proof -
  have "disjoint_slabs [5000, 1000, 3000] (8 * 64)"
    by (simp add: disjoint_slabs_def nth_Cons split: nat.splits)
  from pool_find_recovers [OF this, of 1 3] show ?thesis by simp
qed

end
