(* ===== verification/HashTable.thy ===== *)
theory HashTable
  imports Prelude
begin

text \<open>
  The open-addressing table of \<^verbatim>\<open>source/utilities/hashtable.c\<close> with the FNV-1a hash of
  \<^verbatim>\<open>hash_util.c\<close>, and its two faces \<^verbatim>\<open>hashmap.c\<close> (boxed payloads, scope overflow and the
  name index of a chunk) and \<^verbatim>\<open>dictmap.c\<close> (inline payloads, the dicts of the language). The
  abstraction \<open>ht_map\<close> is the finite map of the table; the invariant \<open>ht_inv\<close> is linear
  probing without tombstones; every operation is shown to implement its map operation, the
  backward-shifting deletion included.
\<close>

section \<open>Hashing (hash_util.c)\<close>

definition hash_key :: "string \<Rightarrow> u64" where
  "hash_key key =
     foldl (\<lambda>hash ch. (hash XOR of_char ch) * 0x100000001b3) 0xcbf29ce484222325 (c_str key)"

definition strlen :: "string \<Rightarrow> nat" where
  "strlen s = length (c_str s)"

record 'v ht_entry =
  ekey :: string
  elength :: nat
  payload :: 'v

definition hash_match :: "'v ht_entry \<Rightarrow> string \<Rightarrow> nat \<Rightarrow> bool" where
  "hash_match e key len \<longleftrightarrow> elength e = len \<and> c_str (ekey e) = c_str key"

section \<open>The table (hashtable.h, hashtable.c)\<close>

text \<open>
  A bucket whose \<^verbatim>\<open>key\<close> is NULL is \<open>None\<close>; \<^verbatim>\<open>buckets == NULL\<close> is the empty list.
\<close>

record 'v hashtable =
  buckets :: "'v ht_entry option list"
  count :: nat
  capacity :: nat
  is_inline :: bool

definition HASHTABLE_INIT_SIZE :: nat where "HASHTABLE_INIT_SIZE = 16"
definition HASHTABLE_HIGH :: nat where "HASHTABLE_HIGH = 70"
definition HASHTABLE_LOW :: nat where "HASHTABLE_LOW = 50"

lemmas hashtable_consts = HASHTABLE_INIT_SIZE_def HASHTABLE_HIGH_def HASHTABLE_LOW_def

definition ht_zero :: "bool \<Rightarrow> 'v hashtable" where
  "ht_zero inl = \<lparr>buckets = [], count = 0, capacity = 0, is_inline = inl\<rparr>"

text \<open>The payload allocations a table owns and frees: none in inline mode.\<close>

definition free_payload :: "'v hashtable \<Rightarrow> 'v \<Rightarrow> 'v list" where
  "free_payload t p = (if is_inline t then [] else [p])"

definition bucket_at :: "'v hashtable \<Rightarrow> u64 \<Rightarrow> nat \<Rightarrow> nat" where
  "bucket_at t hash i = unat (hash + of_nat i) mod capacity t"

text \<open>
  The probe loop shared by put and get: the first probe number whose bucket matches the key
  or is empty, if the loop does not run off the end.
\<close>

definition ht_probe :: "'v hashtable \<Rightarrow> string \<Rightarrow> nat option" where
  "ht_probe t key =
     find (\<lambda>i. case buckets t ! bucket_at t (hash_key key) i of
                 None \<Rightarrow> True | Some e \<Rightarrow> hash_match e key (strlen key))
          [0..<capacity t]"

text \<open>
  The body of \<^verbatim>\<open>hashtable_put\<close> after the growth check, with the payloads it frees. When no
  bucket matches and none is empty the loop falls through and the entry is dropped.
\<close>

definition ht_insert :: "'v hashtable \<Rightarrow> string \<Rightarrow> 'v \<Rightarrow> 'v hashtable \<times> 'v list" where
  "ht_insert t key v =
     (case ht_probe t key of
        None \<Rightarrow> (t, [])
      | Some i \<Rightarrow>
          (let j = bucket_at t (hash_key key) i
           in case buckets t ! j of
                Some e \<Rightarrow> (t\<lparr>buckets := (buckets t)[j := Some (e\<lparr>payload := v\<rparr>)]\<rparr>,
                           free_payload t (payload e))
              | None \<Rightarrow> (t\<lparr>buckets := (buckets t)[j := Some \<lparr>ekey = key, elength = strlen key, payload = v\<rparr>],
                          count := count t + 1\<rparr>, [])))"

text \<open>The capacity loop of \<^verbatim>\<open>rehash\<close>, in \<^verbatim>\<open>unsigned int\<close> arithmetic.\<close>

function grow_capacity :: "nat \<Rightarrow> nat \<Rightarrow> nat" where
  "grow_capacity n cap =
     (if cap \<noteq> 0 \<and> HASHTABLE_LOW \<le> u32 (n * 100) div cap then grow_capacity n (u32 (cap * 2)) else cap)"
  by pat_completeness auto
termination
proof (relation "measure (\<lambda>(n, cap). u32 (n * 100) + 1 - cap)", simp)
  fix n cap :: nat
  assume a: "cap \<noteq> 0 \<and> HASHTABLE_LOW \<le> u32 (n * 100) div cap"
  then have "50 * cap \<le> u32 (n * 100)"
    using div_times_less_eq_dividend [of "u32 (n * 100)" cap]
    by (metis HASHTABLE_LOW_def le_trans mult.commute mult_le_mono2)
  moreover have "u32 (n * 100) < 4294967296" by simp
  ultimately have "cap * 2 < 4294967296" "cap * 2 \<le> u32 (n * 100)" by linarith+
  then have "u32 (cap * 2) = cap * 2" "cap * 2 \<le> u32 (n * 100)" by simp_all
  then show "((n, u32 (cap * 2)), n, cap) \<in> measure (\<lambda>(n, cap). u32 (n * 100) + 1 - cap)"
    using a by auto
qed

declare grow_capacity.simps [simp del]

text \<open>
  \<^verbatim>\<open>hashtable_put\<close> and \<^verbatim>\<open>rehash\<close> call each other; the first argument bounds the nesting of
  those calls. Depth 2 is enough: the puts of a rehash never rehash (\<open>hashtable_put_map\<close>).
\<close>

fun hashtable_put_d :: "nat \<Rightarrow> 'v hashtable \<Rightarrow> string \<Rightarrow> 'v \<Rightarrow> ('v hashtable \<times> 'v list) option"
  and rehash_loop :: "nat \<Rightarrow> 'v ht_entry option list \<Rightarrow> 'v hashtable \<Rightarrow> ('v hashtable \<times> 'v list) option"
where
  "hashtable_put_d 0 t key v = None"
| "hashtable_put_d (Suc d) t key v =
     do { (t', fs) \<leftarrow>
            (if buckets t = []
             then Some (t\<lparr>buckets := replicate HASHTABLE_INIT_SIZE None,
                          capacity := HASHTABLE_INIT_SIZE\<rparr>, [])
             else if HASHTABLE_HIGH \<le> u32 (count t * 100) div capacity t
             then (let cap = grow_capacity (count t) (capacity t)
                   in rehash_loop d (buckets t)
                        (t\<lparr>buckets := replicate cap None, capacity := cap, count := 0\<rparr>))
             else Some (t, []));
          let (t'', gs) = ht_insert t' key v in Some (t'', fs @ gs) }"
| "rehash_loop d [] copy = Some (copy, [])"
| "rehash_loop d (b # bs) copy =
     (case b of
        None \<Rightarrow> rehash_loop d bs copy
      | Some e \<Rightarrow>
          do { (copy', fs) \<leftarrow> hashtable_put_d d copy (ekey e) (payload e);
               (copy'', gs) \<leftarrow> rehash_loop d bs copy';
               Some (copy'', fs @ gs) })"

definition hashtable_put :: "'v hashtable \<Rightarrow> string \<Rightarrow> 'v \<Rightarrow> ('v hashtable \<times> 'v list) option" where
  "hashtable_put t key v = hashtable_put_d 2 t key v"

definition hashtable_get :: "'v hashtable \<Rightarrow> string \<Rightarrow> 'v option" where
  "hashtable_get t key =
     (if buckets t = [] then None
      else case ht_probe t key of
             None \<Rightarrow> None
           | Some i \<Rightarrow> map_option payload (buckets t ! bucket_at t (hash_key key) i))"

text \<open>
  The reinsertion loop of \<^verbatim>\<open>hashtable_remove\<close>; \<open>cap\<close> is the capacity read before the loop.
\<close>

partial_function (option) reinsert_loop :: "nat \<Rightarrow> 'v hashtable \<Rightarrow> nat \<Rightarrow> 'v hashtable option" where
  "reinsert_loop cap t pos =
     (case buckets t ! pos of
        None \<Rightarrow> Some t
      | Some e \<Rightarrow>
          do { tf \<leftarrow> hashtable_put (t\<lparr>buckets := (buckets t)[pos := None], count := count t - 1\<rparr>)
                       (ekey e) (payload e);
               reinsert_loop cap (fst tf) ((pos + 1) mod cap) })"

definition ht_find :: "'v hashtable \<Rightarrow> string \<Rightarrow> nat option" where
  "ht_find t key =
     (let start = unat (hash_key key) mod capacity t
      in case find (\<lambda>i. case buckets t ! ((start + i) mod capacity t) of
                          None \<Rightarrow> True | Some e \<Rightarrow> hash_match e key (strlen key))
                   [0..<capacity t] of
           None \<Rightarrow> None
         | Some i \<Rightarrow> (if buckets t ! ((start + i) mod capacity t) = None then None
                      else Some ((start + i) mod capacity t)))"

definition hashtable_remove :: "'v hashtable \<Rightarrow> string \<Rightarrow> 'v hashtable option" where
  "hashtable_remove t key =
     (if buckets t = [] then Some t
      else case ht_find t key of
             None \<Rightarrow> Some t
           | Some f \<Rightarrow>
               reinsert_loop (capacity t)
                 (t\<lparr>buckets := (buckets t)[f := None], count := count t - 1\<rparr>)
                 ((f + 1) mod capacity t))"

definition hashtable_clear :: "'v hashtable \<Rightarrow> 'v hashtable \<times> 'v list" where
  "hashtable_clear t =
     (if buckets t = [] then (t, [])
      else (t\<lparr>buckets := replicate (length (buckets t)) None, count := 0\<rparr>,
            concat (map (\<lambda>b. case b of None \<Rightarrow> [] | Some e \<Rightarrow> free_payload t (payload e)) (buckets t))))"

definition hashtable_free :: "'v hashtable \<Rightarrow> 'v hashtable \<times> 'v list" where
  "hashtable_free t = (ht_zero False, snd (hashtable_clear t))"

section \<open>The two faces (hashmap.c, dictmap.c)\<close>

definition hashmap_put :: "'v hashtable \<Rightarrow> string \<Rightarrow> 'v \<Rightarrow> ('v hashtable \<times> 'v list) option" where
  "hashmap_put m key value = hashtable_put m key value"

definition hashmap_get :: "'v hashtable \<Rightarrow> string \<Rightarrow> 'v option" where
  "hashmap_get m key = hashtable_get m key"

definition hashmap_free :: "'v hashtable \<Rightarrow> 'v hashtable \<times> 'v list" where
  "hashmap_free m = hashtable_free m"

definition dictmap_put :: "'v hashtable \<Rightarrow> string \<Rightarrow> 'v \<Rightarrow> 'v hashtable option" where
  "dictmap_put m key value = map_option fst (hashtable_put m key value)"

definition dictmap_get :: "'v hashtable \<Rightarrow> string \<Rightarrow> 'v option" where
  "dictmap_get m key = hashtable_get m key"

definition dictmap_remove :: "'v hashtable \<Rightarrow> string \<Rightarrow> 'v hashtable option" where
  "dictmap_remove m key = hashtable_remove m key"

definition dictmap_free :: "'v hashtable \<Rightarrow> 'v hashtable" where
  "dictmap_free m = fst (hashtable_free m)"

lemmas table_faces = hashmap_put_def hashmap_get_def hashmap_free_def
  dictmap_put_def dictmap_get_def dictmap_remove_def dictmap_free_def

section \<open>Invariant and abstraction\<close>

abbreviation ckey :: "'v ht_entry \<Rightarrow> string" where
  "ckey e \<equiv> c_str (ekey e)"

text \<open>The home bucket of a key, and the bucket of its \<open>i\<close>-th probe.\<close>

definition home :: "'v hashtable \<Rightarrow> string \<Rightarrow> nat" where
  "home t k = unat (hash_key k) mod capacity t"

definition is_pow2_cap :: "nat \<Rightarrow> bool" where
  "is_pow2_cap n \<longleftrightarrow> (\<exists>m. 4 \<le> m \<and> m \<le> 31 \<and> n = 2 ^ m)"

definition distinct_keys :: "'v ht_entry option list \<Rightarrow> bool" where
  "distinct_keys bs \<longleftrightarrow>
     (\<forall>i < length bs. \<forall>j < length bs. \<forall>e f. bs ! i = Some e \<longrightarrow> bs ! j = Some f \<longrightarrow>
        ckey e = ckey f \<longrightarrow> i = j)"

definition lengths_ok :: "'v ht_entry option list \<Rightarrow> bool" where
  "lengths_ok bs \<longleftrightarrow> (\<forall>e. Some e \<in> set bs \<longrightarrow> elength e = strlen (ekey e))"

definition occupied :: "'v ht_entry option list \<Rightarrow> nat" where
  "occupied bs = length (filter (\<lambda>b. b \<noteq> None) bs)"

text \<open>Shape and bookkeeping, without the probing discipline.\<close>

definition ht_wf :: "'v hashtable \<Rightarrow> bool" where
  "ht_wf t \<longleftrightarrow> length (buckets t) = capacity t \<and> is_pow2_cap (capacity t) \<and>
     distinct_keys (buckets t) \<and> lengths_ok (buckets t) \<and> count t = occupied (buckets t)"

text \<open>
  Linear probing without tombstones: from the home bucket of an entry to the entry every
  bucket is occupied.
\<close>

definition probe_ok :: "'v hashtable \<Rightarrow> bool" where
  "probe_ok t \<longleftrightarrow>
     (\<forall>e i. i < capacity t \<longrightarrow>
        buckets t ! ((home t (ekey e) + i) mod capacity t) = Some e \<longrightarrow>
        (\<forall>j < i. buckets t ! ((home t (ekey e) + j) mod capacity t) \<noteq> None))"

text \<open>The load the growth check leaves behind: there is always an empty bucket.\<close>

definition load_ok :: "'v hashtable \<Rightarrow> bool" where
  "load_ok t \<longleftrightarrow> count t = 0 \<or> (count t - 1) * 100 div capacity t < HASHTABLE_HIGH"

definition ht_inv :: "'v hashtable \<Rightarrow> bool" where
  "ht_inv t \<longleftrightarrow>
     (if buckets t = [] then count t = 0 \<and> capacity t = 0
      else ht_wf t \<and> probe_ok t \<and> load_ok t)"

definition ht_entries :: "'v hashtable \<Rightarrow> 'v ht_entry list" where
  "ht_entries t = map the (filter (\<lambda>b. b \<noteq> None) (buckets t))"

definition ht_map :: "'v hashtable \<Rightarrow> string \<Rightarrow> 'v option" where
  "ht_map t k = map_of (map (\<lambda>e. (ckey e, payload e)) (ht_entries t)) (c_str k)"

section \<open>Lists of buckets\<close>

lemma occupied_card: "occupied bs = card {i. i < length bs \<and> bs ! i \<noteq> None}"
  by (simp add: occupied_def length_filter_conv_card)

lemma occupied_le: "occupied bs \<le> length bs"
  by (simp add: occupied_def)

lemma occupied_fill:
  assumes "j < length bs" "bs ! j = None"
  shows "occupied (bs[j := Some e]) = Suc (occupied bs)"
proof -
  have "{i. i < length bs \<and> bs[j := Some e] ! i \<noteq> None} = insert j {i. i < length bs \<and> bs ! i \<noteq> None}"
    using assms by (auto simp: nth_list_update)
  then show ?thesis using assms by (simp add: occupied_card)
qed

lemma occupied_replace:
  assumes "j < length bs" "bs ! j \<noteq> None"
  shows "occupied (bs[j := Some e]) = occupied bs"
proof -
  have "{i. i < length bs \<and> bs[j := Some e] ! i \<noteq> None} = {i. i < length bs \<and> bs ! i \<noteq> None}"
    using assms by (auto simp: nth_list_update)
  then show ?thesis by (simp add: occupied_card)
qed

lemma occupied_clear:
  assumes "j < length bs" "bs ! j \<noteq> None"
  shows "Suc (occupied (bs[j := None])) = occupied bs"
proof -
  have "occupied ((bs[j := None])[j := Some (the (bs ! j))]) = Suc (occupied (bs[j := None]))"
    using assms by (intro occupied_fill) auto
  moreover have "(bs[j := None])[j := Some (the (bs ! j))] = bs" using assms by auto
  ultimately show ?thesis by simp
qed

lemma occupied_less:
  assumes "occupied bs < length bs"
  obtains i where "i < length bs" "bs ! i = None"
proof -
  have "\<not> (\<forall>i < length bs. bs ! i \<noteq> None)"
  proof
    assume "\<forall>i < length bs. bs ! i \<noteq> None"
    then have "{i. i < length bs \<and> bs ! i \<noteq> None} = {..<length bs}" by auto
    then have "occupied bs = length bs" by (simp add: occupied_card)
    with assms show False by simp
  qed
  then show thesis using that by blast
qed

lemma distinct_keysD:
  "distinct_keys bs \<Longrightarrow> i < length bs \<Longrightarrow> j < length bs \<Longrightarrow> bs ! i = Some e \<Longrightarrow>
   bs ! j = Some f \<Longrightarrow> ckey e = ckey f \<Longrightarrow> i = j"
  unfolding distinct_keys_def by blast

lemma distinct_keys_Cons:
  "distinct_keys (b # bs) \<longleftrightarrow> distinct_keys bs \<and>
     (\<forall>e. b = Some e \<longrightarrow> (\<forall>f. Some f \<in> set bs \<longrightarrow> ckey f \<noteq> ckey e))"
  (is "?l \<longleftrightarrow> ?r")
proof
  assume l: ?l
  have "distinct_keys bs"
    unfolding distinct_keys_def
    using l [unfolded distinct_keys_def, rule_format, of "Suc i" "Suc j" for i j] by fastforce
  moreover have "ckey f \<noteq> ckey e" if "b = Some e" "Some f \<in> set bs" for e f
  proof -
    obtain i where "i < length bs" "bs ! i = Some f" using \<open>Some f \<in> set bs\<close> by (auto simp: in_set_conv_nth)
    then show ?thesis using distinct_keysD [OF l, of 0 "Suc i" e f] that by auto
  qed
  ultimately show ?r by blast
next
  assume r: ?r
  show ?l
    unfolding distinct_keys_def
  proof (intro allI impI)
    fix i j e f
    assume a: "i < length (b # bs)" "j < length (b # bs)" "(b # bs) ! i = Some e"
      "(b # bs) ! j = Some f" "ckey e = ckey f"
    have mem: "n < length bs \<Longrightarrow> bs ! n = Some g \<Longrightarrow> Some g \<in> set bs" for n g
      by (metis nth_mem)
    show "i = j"
      using r a distinct_keysD [of bs "i - 1" "j - 1" e f] mem [of "i - 1" e] mem [of "j - 1" f]
      by (cases i; cases j) auto
  qed
qed

lemma distinct_keys_map:
  "distinct_keys bs \<Longrightarrow> distinct (map ckey (map the (filter (\<lambda>b. b \<noteq> None) bs)))"
  by (induction bs) (auto simp: distinct_keys_Cons)

lemma ht_map_Some:
  assumes "distinct_keys (buckets t)"
  shows "ht_map t k = Some v \<longleftrightarrow>
    (\<exists>i < length (buckets t). \<exists>e. buckets t ! i = Some e \<and> ckey e = c_str k \<and> payload e = v)"
proof -
  have d: "distinct (map fst (map (\<lambda>e. (ckey e, payload e)) (ht_entries t)))"
    using distinct_keys_map [OF assms] by (simp add: ht_entries_def comp_def)
  have "ht_map t k = Some v \<longleftrightarrow> (c_str k, v) \<in> set (map (\<lambda>e. (ckey e, payload e)) (ht_entries t))"
    unfolding ht_map_def using map_of_eq_Some_iff [OF d] by simp
  also have "\<dots> \<longleftrightarrow> (\<exists>e. Some e \<in> set (buckets t) \<and> ckey e = c_str k \<and> payload e = v)"
    by (force simp: ht_entries_def)
  finally show ?thesis by (auto simp: in_set_conv_nth)
qed

lemma ht_map_None:
  assumes "distinct_keys (buckets t)"
  shows "ht_map t k = None \<longleftrightarrow>
    (\<forall>i < length (buckets t). \<forall>e. buckets t ! i = Some e \<longrightarrow> ckey e \<noteq> c_str k)"
  using ht_map_Some [OF assms, of k] by (cases "ht_map t k") (auto, blast+)

section \<open>Probing\<close>

lemma c_str_idem [simp]: "c_str (c_str k) = c_str k"
  by simp

lemma hash_key_c_str: "c_str k = c_str k' \<Longrightarrow> hash_key k = hash_key k'"
  by (simp add: hash_key_def)

lemma pow2_cap_pos [simp]: "is_pow2_cap n \<Longrightarrow> 0 < n"
  by (auto simp: is_pow2_cap_def)

lemma pow2_cap_dvd: "is_pow2_cap n \<Longrightarrow> n dvd 2 ^ 64"
proof -
  assume "is_pow2_cap n"
  then obtain m where "m \<le> 64" "n = 2 ^ m" by (auto simp: is_pow2_cap_def)
  then show ?thesis using le_imp_power_dvd [of m 64 "2::nat"] by (simp only:)
qed

text \<open>
  \<^verbatim>\<open>(hash + i) % capacity\<close> in 64-bit arithmetic (put and get) and
  \<^verbatim>\<open>(hash % cap + i) % cap\<close> (remove) visit the same buckets because the capacity is a power
  of two.
\<close>

lemma bucket_at_home:
  assumes "is_pow2_cap (capacity t)"
  shows "bucket_at t (hash_key k) i = (home t k + i) mod capacity t"
proof -
  have "unat (hash_key k + of_nat i) = (unat (hash_key k) + i mod 2 ^ 64) mod 2 ^ 64"
    by (simp add: unat_word_ariths unat_of_nat)
  then have "unat (hash_key k + of_nat i) mod capacity t =
      (unat (hash_key k) + i mod 2 ^ 64) mod capacity t"
    using mod_mod_cancel [OF pow2_cap_dvd [OF assms]] by simp
  also have "\<dots> = (home t k + i mod 2 ^ 64 mod capacity t) mod capacity t"
    unfolding home_def by (simp only: mod_add_eq)
  also have "i mod 2 ^ 64 mod capacity t = i mod capacity t"
    by (rule mod_mod_cancel [OF pow2_cap_dvd [OF assms]])
  finally show ?thesis by (simp add: bucket_at_def mod_add_right_eq)
qed

lemma ht_find_conv:
  assumes "is_pow2_cap (capacity t)"
  shows "ht_find t key =
    (case ht_probe t key of
       None \<Rightarrow> None
     | Some i \<Rightarrow> (let j = bucket_at t (hash_key key) i in if buckets t ! j = None then None else Some j))"
  unfolding ht_find_def ht_probe_def Let_def bucket_at_home [OF assms] home_def by simp

lemma mod_reach:
  fixes h q cap :: nat
  assumes "h < cap" "q < cap"
  obtains i where "i < cap" "(h + i) mod cap = q"
proof (cases "h \<le> q")
  case True
  then show thesis using that [of "q - h"] assms by simp
next
  case False
  then show thesis using that [of "q + cap - h"] assms by (simp add: mod_if)
qed

lemma mod_inj_le:
  fixes h i j cap :: nat
  assumes "i \<le> j" "j < cap" "(h + i) mod cap = (h + j) mod cap"
  shows "i = j"
proof -
  have "h + i \<le> h + j" using assms(1) by simp
  from mod_eq_dvd_iff_nat [OF this, of cap] assms(3) have "cap dvd (h + j) - (h + i)" by simp
  then have d: "cap dvd j - i" by (simp only: add_diff_cancel_left)
  have "\<not> 0 < j - i"
    using nat_dvd_not_less [of "j - i" cap] d assms(2) by linarith
  then show ?thesis using assms(1) by simp
qed

lemma mod_inj:
  fixes h i j cap :: nat
  assumes "i < cap" "j < cap" "(h + i) mod cap = (h + j) mod cap"
  shows "i = j"
proof (cases "i \<le> j")
  case True
  then show ?thesis using mod_inj_le [of i j cap h] assms by simp
next
  case False
  then show ?thesis using mod_inj_le [of j i cap h] assms by simp
qed

abbreviation slot :: "'v hashtable \<Rightarrow> string \<Rightarrow> nat \<Rightarrow> nat" where
  "slot t k i \<equiv> (home t k + i) mod capacity t"

lemma ht_wfD:
  assumes "ht_wf t"
  shows "length (buckets t) = capacity t" "is_pow2_cap (capacity t)" "distinct_keys (buckets t)"
    "lengths_ok (buckets t)" "count t = occupied (buckets t)" "0 < capacity t" "slot t k i < capacity t"
    "home t k < capacity t"
  using assms by (auto simp: ht_wf_def home_def)

lemma hash_match_iff:
  assumes "ht_wf t" "q < capacity t" "buckets t ! q = Some e"
  shows "hash_match e k (strlen k) \<longleftrightarrow> ckey e = c_str k"
proof -
  have "Some e \<in> set (buckets t)" using assms ht_wfD(1) [OF assms(1)] by (metis nth_mem)
  then have "elength e = length (ckey e)"
    using ht_wfD(4) [OF assms(1)] by (auto simp: lengths_ok_def strlen_def)
  then show ?thesis by (auto simp: hash_match_def strlen_def)
qed

lemma find_upt_Some:
  "i < n \<Longrightarrow> P i \<Longrightarrow> (\<And>j. j < i \<Longrightarrow> \<not> P j) \<Longrightarrow> find P [0..<n] = Some i"
  by (subst find_Some_iff) (auto intro!: exI [of _ i])

text \<open>A probe stops at bucket number \<open>i\<close>: everything before is another key.\<close>

lemma ht_probe_at:
  assumes wf: "ht_wf t" and i: "i < capacity t"
    and stop: "buckets t ! slot t k i = None \<or> (\<exists>e. buckets t ! slot t k i = Some e \<and> ckey e = c_str k)"
    and before: "\<And>j. j < i \<Longrightarrow> \<exists>e. buckets t ! slot t k j = Some e \<and> ckey e \<noteq> c_str k"
  shows "ht_probe t k = Some i"
proof -
  let ?P = "\<lambda>i. case buckets t ! bucket_at t (hash_key k) i of
      None \<Rightarrow> True | Some e \<Rightarrow> hash_match e k (strlen k)"
  have P: "?P j \<longleftrightarrow> buckets t ! slot t k j = None \<or>
      (\<exists>e. buckets t ! slot t k j = Some e \<and> ckey e = c_str k)" for j
    using hash_match_iff [OF wf ht_wfD(7) [OF wf], of k j _ k]
    by (auto simp: bucket_at_home [OF ht_wfD(2) [OF wf]] split: option.split)
  show ?thesis
    unfolding ht_probe_def
  proof (rule find_upt_Some [OF i])
    show "?P i" using stop P by blast
    show "\<not> ?P j" if "j < i" for j using before [OF that] P by auto
  qed
qed

lemma ht_probe_absent:
  assumes wf: "ht_wf t" and room: "count t < capacity t" and absent: "ht_map t k = None"
  obtains i where "i < capacity t" "ht_probe t k = Some i" "buckets t ! slot t k i = None"
    "\<And>j. j < i \<Longrightarrow> buckets t ! slot t k j \<noteq> None"
proof -
  note w = ht_wfD [OF wf]
  have "occupied (buckets t) < length (buckets t)" using room w by simp
  then obtain q where q: "q < length (buckets t)" "buckets t ! q = None" by (rule occupied_less)
  from q(1) have "q < capacity t" by (simp add: w(1))
  from mod_reach [OF w(8) this] obtain n where n: "n < capacity t" "slot t k n = q" .
  from n q(2) have "n < capacity t \<and> buckets t ! slot t k n = None" by simp
  then have ex: "\<exists>n. n < capacity t \<and> buckets t ! slot t k n = None" by blast
  define i where "i = (LEAST n. n < capacity t \<and> buckets t ! slot t k n = None)"
  have i: "i < capacity t" "buckets t ! slot t k i = None"
    using LeastI_ex [OF ex] by (auto simp: i_def)
  have less: "buckets t ! slot t k j \<noteq> None" if "j < i" for j
  proof -
    have "\<not> (j < capacity t \<and> buckets t ! slot t k j = None)"
      using that unfolding i_def by (rule not_less_Least)
    then show ?thesis using that i(1) by simp
  qed
  have "ht_probe t k = Some i"
  proof (rule ht_probe_at [OF wf i(1)])
    show "buckets t ! slot t k i = None \<or> (\<exists>e. buckets t ! slot t k i = Some e \<and> ckey e = c_str k)"
      using i(2) by simp
    show "\<exists>e. buckets t ! slot t k j = Some e \<and> ckey e \<noteq> c_str k" if j: "j < i" for j
    proof -
      obtain e where e: "buckets t ! slot t k j = Some e" using less [OF j] by blast
      moreover have "slot t k j < length (buckets t)" using w(1,7) by simp
      ultimately show ?thesis using ht_map_None [OF w(3), of k] absent by blast
    qed
  qed
  then show thesis using that i less by blast
qed

lemma ht_probe_present:
  assumes wf: "ht_wf t" and pk: "probe_ok t"
    and q: "q < capacity t" "buckets t ! q = Some e" "ckey e = c_str k"
  obtains i where "i < capacity t" "ht_probe t k = Some i" "slot t k i = q"
proof -
  note w = ht_wfD [OF wf]
  have hm: "home t (ekey e) = home t k" using q(3) hash_key_c_str by (simp add: home_def hash_key_def)
  obtain i where i: "i < capacity t" "slot t k i = q" using mod_reach [OF w(8) q(1)] by metis
  have "ht_probe t k = Some i"
  proof (rule ht_probe_at [OF wf i(1)])
    show "buckets t ! slot t k i = None \<or> (\<exists>e. buckets t ! slot t k i = Some e \<and> ckey e = c_str k)"
      using i q by simp
    fix j assume j: "j < i"
    then have "buckets t ! slot t k j \<noteq> None"
      using pk i q by (simp add: probe_ok_def hm [symmetric])
    then obtain f where f: "buckets t ! slot t k j = Some f" by blast
    have "slot t k j \<noteq> q" using mod_inj [of j "capacity t" i "home t k"] j i by auto
    then have "ckey f \<noteq> c_str k"
      using distinct_keysD [OF w(3), of "slot t k j" q f e] w(1,7) q f by auto
    with f show "\<exists>e. buckets t ! slot t k j = Some e \<and> ckey e \<noteq> c_str k" by blast
  qed
  then show thesis using that i by blast
qed

text \<open>Putting a new key needs room but no probing discipline.\<close>

definition new_entry :: "string \<Rightarrow> 'v \<Rightarrow> 'v ht_entry" where
  "new_entry k v = \<lparr>ekey = k, elength = strlen k, payload = v\<rparr>"

lemma ht_insert_new:
  assumes wf: "ht_wf t" and room: "count t < capacity t" and absent: "ht_map t k = None"
  obtains i where "i < capacity t" "buckets t ! slot t k i = None"
    "\<And>j. j < i \<Longrightarrow> buckets t ! slot t k j \<noteq> None"
    "ht_insert t k v = (t\<lparr>buckets := (buckets t)[slot t k i := Some (new_entry k v)],
                          count := count t + 1\<rparr>, [])"
proof -
  obtain i where "i < capacity t" "ht_probe t k = Some i" "buckets t ! slot t k i = None"
    "\<And>j. j < i \<Longrightarrow> buckets t ! slot t k j \<noteq> None"
    using ht_probe_absent [OF wf room absent] by metis
  then show thesis
    using that [of i] ht_wfD(2) [OF wf]
    by (simp add: ht_insert_def Let_def bucket_at_home new_entry_def)
qed

lemma lengths_ok_update:
  "lengths_ok bs \<Longrightarrow> (\<And>e. b = Some e \<Longrightarrow> elength e = strlen (ekey e)) \<Longrightarrow> lengths_ok (bs[j := b])"
  unfolding lengths_ok_def by (metis insertE set_update_subset_insert subsetD)

lemma distinct_keys_update:
  assumes "distinct_keys bs"
    and "\<And>e i f. b = Some e \<Longrightarrow> i < length bs \<Longrightarrow> i \<noteq> j \<Longrightarrow> bs ! i = Some f \<Longrightarrow> ckey f \<noteq> ckey e"
  shows "distinct_keys (bs[j := b])"
  unfolding distinct_keys_def
proof (intro allI impI)
  fix p q e f
  assume "p < length (bs[j := b])" "q < length (bs[j := b])" "bs[j := b] ! p = Some e"
    "bs[j := b] ! q = Some f" "ckey e = ckey f"
  then show "p = q"
    using assms(2) [of e q f] assms(2) [of f p e] distinct_keysD [OF assms(1), of p q e f]
    by (cases "p = j"; cases "q = j") (auto simp: nth_list_update split: if_splits)
qed

lemma ht_map_update_None:
  assumes "distinct_keys (buckets t)" "j < length (buckets t)"
    "buckets t ! j = None" "ht_map t k = None"
  shows "ht_map (t\<lparr>buckets := (buckets t)[j := Some (new_entry k v)], count := n\<rparr>) k' =
    (if c_str k' = c_str k then Some v else ht_map t k')"
proof -
  let ?t = "t\<lparr>buckets := (buckets t)[j := Some (new_entry k v)], count := n\<rparr>"
  have d: "distinct_keys (buckets ?t)"
    using assms(1,4) ht_map_None [OF assms(1), of k]
    by (auto simp: new_entry_def intro!: distinct_keys_update)
  note none = ht_map_None [THEN iffD1, OF assms(1,4), rule_format]
  have "ht_map ?t k' = Some w \<longleftrightarrow> (if c_str k' = c_str k then Some v else ht_map t k') = Some w" for w
  proof (cases "c_str k' = c_str k")
    case True
    have "ht_map ?t k' = Some v"
      unfolding ht_map_Some [OF d] using assms(2) True
      by (intro exI [of _ j]) (simp add: new_entry_def)
    then show ?thesis using True by auto
  next
    case False
    have "(i < length (buckets ?t) \<and> (\<exists>e. buckets ?t ! i = Some e \<and> ckey e = c_str k' \<and> payload e = w)) =
        (i < length (buckets t) \<and> (\<exists>e. buckets t ! i = Some e \<and> ckey e = c_str k' \<and> payload e = w))" for i
      using False assms(2,3) by (cases "i = j") (auto simp: new_entry_def)
    then show ?thesis
      unfolding ht_map_Some [OF d] using False by (simp only: ht_map_Some [OF assms(1)] if_False)
  qed
  then show ?thesis by (metis option.exhaust)
qed

section \<open>Put and get implement the map\<close>

lemma home_update [simp]:
  "home (t\<lparr>buckets := b\<rparr>) k = home t k" "home (t\<lparr>count := n\<rparr>) k = home t k"
  by (simp_all add: home_def)

lemma probe_ok_fill:
  assumes wf: "ht_wf t" and pk: "probe_ok t" and i: "i < capacity t"
    and before: "\<And>j. j < i \<Longrightarrow> buckets t ! slot t k j \<noteq> None"
  shows "probe_ok (t\<lparr>buckets := (buckets t)[slot t k i := Some (new_entry k v)], count := n\<rparr>)"
    (is "probe_ok ?t")
  unfolding probe_ok_def
proof (intro allI impI)
  fix e m j
  assume m: "m < capacity ?t" "buckets ?t ! slot ?t (ekey e) m = Some e" and j: "j < m"
  have len: "slot t k' n' < length (buckets t)" for k' n' using ht_wfD(1,7) [OF wf] by simp
  have "buckets t ! slot t (ekey e) j \<noteq> None"
  proof (cases "slot t (ekey e) m = slot t k i")
    case True
    then have "ekey e = k" using m(2) len by (auto simp: new_entry_def)
    moreover from this have "m = i" using mod_inj [of m "capacity t" i] True m(1) i by simp
    ultimately show ?thesis using before j by simp
  next
    case False
    then have "buckets t ! slot t (ekey e) m = Some e" using m(2) by simp
    then show ?thesis using pk m(1) j by (simp add: probe_ok_def)
  qed
  then show "buckets ?t ! slot ?t (ekey e) j \<noteq> None"
    using len [of "ekey e" j] by (cases "slot t (ekey e) j = slot t k i") auto
qed

lemma insert_new_post:
  fixes t :: "'v hashtable" and v :: 'v
  assumes wf: "ht_wf t" and room: "count t < capacity t" and absent: "ht_map t k = None"
    and i: "i < capacity t" "buckets t ! slot t k i = None"
  defines "t' \<equiv> t\<lparr>buckets := (buckets t)[slot t k i := Some (new_entry k v)], count := count t + 1\<rparr>"
  shows "ht_wf t'" "ht_map t' k' = (if c_str k' = c_str k then Some v else ht_map t k')"
proof -
  note w = ht_wfD [OF wf]
  have len: "slot t k i < length (buckets t)" using w(1,7) by simp
  have "distinct_keys (buckets t')"
    using ht_map_None [THEN iffD1, OF w(3) absent]
    unfolding t'_def by (auto intro!: distinct_keys_update w(3) simp: new_entry_def)
  moreover have "lengths_ok (buckets t')"
    unfolding t'_def by (auto intro!: lengths_ok_update w(4) simp: new_entry_def)
  ultimately show "ht_wf t'"
    using w(1,2,5) occupied_fill [OF len i(2)] by (simp add: ht_wf_def t'_def)
  show "ht_map t' k' = (if c_str k' = c_str k then Some v else ht_map t k')"
    unfolding t'_def by (rule ht_map_update_None [OF w(3) len i(2) absent])
qed

lemma insert_present_post:
  fixes t :: "'v hashtable" and v :: 'v
  assumes wf: "ht_wf t" and pk: "probe_ok t" and e: "q < capacity t" "buckets t ! q = Some e"
  defines "t' \<equiv> t\<lparr>buckets := (buckets t)[q := Some (e\<lparr>payload := v\<rparr>)]\<rparr>"
  shows "ht_wf t'" "probe_ok t'"
    "ht_map t' k' = (if c_str k' = ckey e then Some v else ht_map t k')"
proof -
  note w = ht_wfD [OF wf]
  have len: "q < length (buckets t)" using w(1) e by simp
  have d: "distinct_keys (buckets t')"
    using distinct_keysD [OF w(3) _ len _ e(2)] unfolding t'_def
    by (auto intro!: distinct_keys_update w(3))
  moreover have "elength e = strlen (ekey e)"
    using w(4) nth_mem [OF len] e(2) by (auto simp: lengths_ok_def)
  then have "lengths_ok (buckets t')"
    unfolding t'_def by (auto intro!: lengths_ok_update w(4))
  ultimately show "ht_wf t'"
    using w(1,2,5) e(2) occupied_replace [OF len] by (simp add: ht_wf_def t'_def)
  show "probe_ok t'"
    unfolding probe_ok_def
  proof (intro allI impI)
    fix f m j
    assume m: "m < capacity t'" "buckets t' ! slot t' (ekey f) m = Some f" and j: "j < m"
    obtain g where g: "buckets t ! slot t (ekey g) m = Some g" "ekey g = ekey f"
      using m(2) e len by (cases "slot t (ekey f) m = q") (auto simp: t'_def)
    then have "buckets t ! slot t (ekey f) j \<noteq> None"
      using pk m(1) j by (metis (no_types, lifting) hashtable.select_convs(3) hashtable.surjective
          hashtable.update_convs(1) probe_ok_def t'_def)
    then show "buckets t' ! slot t' (ekey f) j \<noteq> None"
      using len by (cases "slot t (ekey f) j = q") (auto simp: t'_def)
  qed
  have "ht_map t' k' = Some u \<longleftrightarrow> (if c_str k' = ckey e then Some v else ht_map t k') = Some u" for u
  proof (cases "c_str k' = ckey e")
    case True
    have "ht_map t' k' = Some v"
      unfolding ht_map_Some [OF d] using len True by (intro exI [of _ q]) (simp add: t'_def)
    then show ?thesis using True by auto
  next
    case False
    have "(i < length (buckets t') \<and> (\<exists>f. buckets t' ! i = Some f \<and> ckey f = c_str k' \<and> payload f = u)) =
        (i < length (buckets t) \<and> (\<exists>f. buckets t ! i = Some f \<and> ckey f = c_str k' \<and> payload f = u))" for i
      using False len e(2) by (cases "i = q") (auto simp: t'_def)
    then show ?thesis
      unfolding ht_map_Some [OF d] using False by (simp only: ht_map_Some [OF w(3)] if_False)
  qed
  then show "ht_map t' k' = (if c_str k' = ckey e then Some v else ht_map t k')"
    by (metis option.exhaust)
qed

lemma ht_insert_post:
  assumes wf: "ht_wf t" and pk: "probe_ok t" and room: "count t < capacity t"
  obtains t' where "ht_insert t k v =
      (t', case ht_map t k of None \<Rightarrow> [] | Some u \<Rightarrow> free_payload t u)"
    "ht_wf t'" "probe_ok t'" "capacity t' = capacity t" "is_inline t' = is_inline t"
    "count t' = (if ht_map t k = None then count t + 1 else count t)"
    "\<And>k'. ht_map t' k' = (if c_str k' = c_str k then Some v else ht_map t k')"
proof (cases "ht_map t k")
  case None
  obtain i where i: "i < capacity t" "buckets t ! slot t k i = None"
    "\<And>j. j < i \<Longrightarrow> buckets t ! slot t k j \<noteq> None"
    "ht_insert t k v = (t\<lparr>buckets := (buckets t)[slot t k i := Some (new_entry k v)],
                          count := count t + 1\<rparr>, [])"
    using ht_insert_new [OF wf room None, of v] by metis
  show thesis
    using that [OF _ insert_new_post(1) [OF wf room None i(1,2)] probe_ok_fill [OF wf pk i(1,3)]
        _ _ _ insert_new_post(2) [OF wf room None i(1,2)]] i(4) None by simp
next
  case (Some u)
  note w = ht_wfD [OF wf]
  obtain q e where q: "q < capacity t" "buckets t ! q = Some e" "ckey e = c_str k" "payload e = u"
    using Some w(1) by (auto simp: ht_map_Some [OF w(3)])
  obtain i where i: "i < capacity t" "ht_probe t k = Some i" "slot t k i = q"
    using ht_probe_present [OF wf pk q(1-3)] by metis
  have "ht_insert t k v = (t\<lparr>buckets := (buckets t)[q := Some (e\<lparr>payload := v\<rparr>)]\<rparr>, free_payload t u)"
    using i q by (simp add: ht_insert_def Let_def bucket_at_home [OF w(2)])
  moreover have "ht_map (t\<lparr>buckets := (buckets t)[q := Some (e\<lparr>payload := v\<rparr>)]\<rparr>) k' =
      (if c_str k' = c_str k then Some v else ht_map t k')" for k'
    using insert_present_post(3) [OF wf pk q(1,2), of v k'] q(3) by simp
  ultimately show thesis
    using that insert_present_post(1,2) [OF wf pk q(1,2), of v] Some by simp
qed

lemma load_room:
  assumes "is_pow2_cap (capacity t)" "load_ok t"
  shows "count t < capacity t"
proof -
  obtain m where "4 \<le> m" "capacity t = 2 ^ m" using assms(1) by (auto simp: is_pow2_cap_def)
  then have big: "16 \<le> capacity t" using power_increasing [of 4 m "2::nat"] by simp
  show ?thesis
  proof (cases "count t = 0")
    case False
    then have "(count t - 1) * 100 div capacity t < 70"
      using assms(2) by (simp add: load_ok_def HASHTABLE_HIGH_def)
    then have "(count t - 1) * 100 < 70 * capacity t"
      using big by (simp add: div_less_iff_less_mult)
    then show ?thesis using big by simp
  qed (use big in simp)
qed

lemma ht_invD:
  assumes "ht_inv t" "buckets t \<noteq> []"
  shows "ht_wf t" "probe_ok t" "load_ok t" "count t < capacity t"
  using assms load_room [of t] by (auto simp: ht_inv_def ht_wf_def)

lemma hashtable_get_map:
  assumes "ht_inv t"
  shows "hashtable_get t k = ht_map t k"
proof (cases "buckets t = []")
  case True
  then show ?thesis by (simp add: hashtable_get_def ht_map_def ht_entries_def)
next
  case False
  note v = ht_invD [OF assms False]
  note w = ht_wfD [OF v(1)]
  show ?thesis
  proof (cases "ht_map t k")
    case None
    obtain i where "ht_probe t k = Some i" "buckets t ! slot t k i = None"
      using ht_probe_absent [OF v(1,4) None] by metis
    then show ?thesis using False None by (simp add: hashtable_get_def bucket_at_home [OF w(2)])
  next
    case (Some u)
    obtain q e where q: "q < capacity t" "buckets t ! q = Some e" "ckey e = c_str k" "payload e = u"
      using Some w(1) by (auto simp: ht_map_Some [OF w(3)])
    obtain i where "ht_probe t k = Some i" "slot t k i = q"
      using ht_probe_present [OF v(1,2) q(1-3)] by metis
    then show ?thesis using False q Some by (simp add: hashtable_get_def bucket_at_home [OF w(2)])
  qed
qed

text \<open>
  The growth check multiplies the count by 100 in \<^verbatim>\<open>unsigned int\<close>; below this bound it does
  not wrap.
\<close>

definition HT_COUNT_SAFE :: nat where "HT_COUNT_SAFE = 42949672"

lemma u32_times_100: "n \<le> HT_COUNT_SAFE \<Longrightarrow> u32 (n * 100) = n * 100"
  by (simp add: HT_COUNT_SAFE_def)

lemma grow_capacity_post:
  assumes "is_pow2_cap cap" "n \<le> HT_COUNT_SAFE"
  shows "is_pow2_cap (grow_capacity n cap) \<and> cap \<le> grow_capacity n cap \<and>
    n * 100 div grow_capacity n cap < HASHTABLE_LOW"
  using assms
proof (induction n cap rule: grow_capacity.induct)
  case (1 n cap)
  note n = u32_times_100 [OF "1.prems"(2)]
  show ?case
  proof (cases "cap \<noteq> 0 \<and> HASHTABLE_LOW \<le> u32 (n * 100) div cap")
    case True
    obtain m where m: "4 \<le> m" "cap = 2 ^ m" using "1.prems"(1) by (auto simp: is_pow2_cap_def)
    have "50 \<le> n * 100 div cap" using True n by (simp add: HASHTABLE_LOW_def)
    then have "50 * cap \<le> n * 100" using True by (simp add: less_eq_div_iff_mult_less_eq)
    then have cap: "cap < 2 ^ 27" using "1.prems"(2) by (simp add: HT_COUNT_SAFE_def)
    then have "m < 27" using m(2) by (simp only: power_strict_increasing_iff [of "2::nat"])
    then have p: "is_pow2_cap (cap * 2)"
      unfolding is_pow2_cap_def using m by (intro exI [of _ "Suc m"]) simp
    have "u32 (cap * 2) = cap * 2" using cap by simp
    then show ?thesis
      using "1.IH" [OF True] p "1.prems"(2) grow_capacity.simps [of n cap] True by auto
  next
    case False
    have "0 < cap" using "1.prems"(1) by simp
    then show ?thesis
      using False "1.prems"(1) n grow_capacity.simps [of n cap] by auto
  qed
qed

definition bmap :: "'v ht_entry option list \<Rightarrow> string \<Rightarrow> 'v option" where
  "bmap bs k = map_of (map (\<lambda>e. (ckey e, payload e)) (map the (filter (\<lambda>b. b \<noteq> None) bs))) (c_str k)"

lemma ht_map_bmap: "ht_map t k = bmap (buckets t) k"
  by (simp add: ht_map_def bmap_def ht_entries_def)

lemma bmap_Cons:
  "bmap (b # bs) k = (case b of None \<Rightarrow> bmap bs k
     | Some e \<Rightarrow> if ckey e = c_str k then Some (payload e) else bmap bs k)"
  by (simp add: bmap_def split: option.split)

lemma bmap_absent:
  "(\<And>f. Some f \<in> set bs \<Longrightarrow> ckey f \<noteq> c_str k) \<Longrightarrow> bmap bs k = None"
proof (induction bs)
  case Nil
  show ?case by (simp add: bmap_def)
next
  case (Cons b bs)
  then show ?case by (auto simp: bmap_Cons split: option.split)
qed

lemma div_mono_less: "(m::nat) \<le> n \<Longrightarrow> n div c < b \<Longrightarrow> m div c < b"
  using div_le_mono le_less_trans by blast

text \<open>Under half load the nested puts of a rehash neither rehash nor overwrite.\<close>

lemma rehash_loop_post:
  assumes "ht_wf c" "probe_ok c" "distinct_keys bs"
    and "\<And>e. Some e \<in> set bs \<Longrightarrow> ht_map c (ekey e) = None"
    and "(count c + occupied bs) * 100 div capacity c < HASHTABLE_LOW"
    and "count c + occupied bs \<le> HT_COUNT_SAFE"
  shows "\<exists>c'. rehash_loop (Suc d) bs c = Some (c', []) \<and> ht_wf c' \<and> probe_ok c' \<and>
    capacity c' = capacity c \<and> is_inline c' = is_inline c \<and> count c' = count c + occupied bs \<and>
    (\<forall>k. ht_map c' k = (case bmap bs k of Some v \<Rightarrow> Some v | None \<Rightarrow> ht_map c k))"
  using assms
proof (induction bs arbitrary: c)
  case Nil
  then show ?case by (simp add: occupied_def bmap_def)
next
  case (Cons b bs)
  show ?case
  proof (cases b)
    case None
    then show ?thesis
      using Cons.IH [OF Cons.prems(1,2)] Cons.prems(3-6)
      by (simp add: distinct_keys_Cons occupied_def bmap_Cons)
  next
    case (Some e)
    have occ: "occupied (b # bs) = Suc (occupied bs)" by (simp add: Some occupied_def)
    note w = ht_wfD [OF Cons.prems(1)]
    have low: "count c * 100 div capacity c < HASHTABLE_LOW"
      using Cons.prems(5) by (rule div_mono_less [rotated]) simp
    then have room: "count c < capacity c"
      using w(6) by (simp add: HASHTABLE_LOW_def div_less_iff_less_mult)
    have absent: "ht_map c (ekey e) = None" using Cons.prems(4) Some by simp
    obtain c1 where c1: "ht_insert c (ekey e) (payload e) = (c1, [])" "ht_wf c1" "probe_ok c1"
      "capacity c1 = capacity c" "is_inline c1 = is_inline c" "count c1 = count c + 1"
      "\<And>k'. ht_map c1 k' = (if c_str k' = ckey e then Some (payload e) else ht_map c k')"
      using ht_insert_post [OF Cons.prems(1,2) room, of "ekey e" "payload e"] absent by auto
    have put: "hashtable_put_d (Suc d) c (ekey e) (payload e) = Some (c1, [])"
      using low w(1,6) u32_times_100 [of "count c"] Cons.prems(6) c1(1)
      by (auto simp: HASHTABLE_HIGH_def HASHTABLE_LOW_def)
    have fresh: "ht_map c1 (ekey f) = None" if "Some f \<in> set bs" for f
      using that Cons.prems(3,4) Some by (auto simp: c1(7) distinct_keys_Cons)
    have "(count c1 + occupied bs) * 100 div capacity c1 < HASHTABLE_LOW"
      "count c1 + occupied bs \<le> HT_COUNT_SAFE"
      using Cons.prems(5,6) occ c1(4,6) by simp_all
    from Cons.IH [OF c1(2,3) _ fresh this] Cons.prems(3)
    obtain c' where c': "rehash_loop (Suc d) bs c1 = Some (c', [])" "ht_wf c'" "probe_ok c'"
      "capacity c' = capacity c1" "is_inline c' = is_inline c1" "count c' = count c1 + occupied bs"
      "\<And>k. ht_map c' k = (case bmap bs k of Some v \<Rightarrow> Some v | None \<Rightarrow> ht_map c1 k)"
      by (auto simp: distinct_keys_Cons)
    have "bmap bs k = None" if "ckey e = c_str k" for k
      using Cons.prems(3) Some that by (intro bmap_absent) (auto simp: distinct_keys_Cons)
    then have "ht_map c' k = (case bmap (b # bs) k of Some v \<Rightarrow> Some v | None \<Rightarrow> ht_map c k)" for k
      by (auto simp: c'(7) c1(7) Some bmap_Cons split: option.split)
    then show ?thesis
      using c'(1-6) c1(4-6) put occ Some by simp
  qed
qed

definition put_post :: "'v hashtable \<Rightarrow> string \<Rightarrow> 'v \<Rightarrow> 'v hashtable \<Rightarrow> 'v list \<Rightarrow> bool" where
  "put_post t k v t' fs \<longleftrightarrow> ht_inv t' \<and> buckets t' \<noteq> [] \<and> is_inline t' = is_inline t \<and>
     count t' = (if ht_map t k = None then count t + 1 else count t) \<and>
     fs = (case ht_map t k of None \<Rightarrow> [] | Some u \<Rightarrow> free_payload t u) \<and>
     (\<forall>k'. ht_map t' k' = (if c_str k' = c_str k then Some v else ht_map t k'))"

text \<open>
  The insertion step of a put, from a table \<open>t\<close> whose load leaves room, standing for a table
  \<open>t0\<close> with the same map and count.
\<close>

lemma put_step:
  assumes wf: "ht_wf t" and pk: "probe_ok t" and load: "count t * 100 div capacity t < HASHTABLE_HIGH"
    and same: "\<And>k. ht_map t k = ht_map t0 k" "count t = count t0" "is_inline t = is_inline t0"
  shows "\<exists>t' fs. ht_insert t k v = (t', fs) \<and> put_post t0 k v t' fs"
proof -
  note w = ht_wfD [OF wf]
  obtain m where "4 \<le> m" "capacity t = 2 ^ m" using w(2) by (auto simp: is_pow2_cap_def)
  then have room: "count t < capacity t"
    using load w(6) by (simp add: HASHTABLE_HIGH_def div_less_iff_less_mult)
  obtain t' where t': "ht_insert t k v = (t', case ht_map t k of None \<Rightarrow> [] | Some u \<Rightarrow> free_payload t u)"
    "ht_wf t'" "probe_ok t'" "capacity t' = capacity t" "is_inline t' = is_inline t"
    "count t' = (if ht_map t k = None then count t + 1 else count t)"
    "\<And>k'. ht_map t' k' = (if c_str k' = c_str k then Some v else ht_map t k')"
    using ht_insert_post [OF wf pk room] by metis
  have "load_ok t'"
    unfolding load_ok_def t'(4,6) using div_mono_less [OF _ load, of "count t - 1"]
      div_mono_less [OF _ load, of "(count t - 1) * 100"] load by auto
  moreover have ne: "buckets t' \<noteq> []" using ht_wfD(1,6) [OF t'(2)] by auto
  ultimately have "ht_inv t'" using t'(2,3) by (simp add: ht_inv_def)
  moreover have "free_payload t = free_payload t0" using same(3) by (auto simp: free_payload_def)
  ultimately show ?thesis
    using t'(1,5-7) same ne by (auto simp: put_post_def)
qed

lemma empty_buckets_ok:
  fixes t :: "'v hashtable"
  assumes "is_pow2_cap cap"
  defines "c \<equiv> t\<lparr>buckets := replicate cap None, capacity := cap, count := 0\<rparr>"
  shows "ht_wf c" "probe_ok c" "ht_map c k = None"
  using assms by (auto simp: ht_wf_def probe_ok_def ht_map_def ht_entries_def distinct_keys_def
      lengths_ok_def occupied_def)

lemma hashtable_put_post:
  assumes inv: "ht_inv t" and safe: "count t < HT_COUNT_SAFE"
  shows "\<exists>t' fs. hashtable_put_d (Suc (Suc d)) t k v = Some (t', fs) \<and> put_post t k v t' fs"
proof -
  consider (null) "buckets t = []"
    | (plain) "buckets t \<noteq> []" "count t * 100 div capacity t < HASHTABLE_HIGH"
    | (grow) "buckets t \<noteq> []" "HASHTABLE_HIGH \<le> count t * 100 div capacity t"
    by linarith
  then show ?thesis
  proof cases
    case null
    let ?c = "t\<lparr>buckets := replicate HASHTABLE_INIT_SIZE None, capacity := HASHTABLE_INIT_SIZE\<rparr>"
    have t0: "count t = 0" using inv null by (simp add: ht_inv_def)
    then have c: "?c = t\<lparr>buckets := replicate 16 None, capacity := 16, count := 0\<rparr>"
      by (simp add: HASHTABLE_INIT_SIZE_def)
    have p: "is_pow2_cap 16" unfolding is_pow2_cap_def by (intro exI [of _ 4]) simp
    note e = empty_buckets_ok [OF p, of t, folded c]
    have tn: "ht_map t x = None" for x using null by (simp add: ht_map_def ht_entries_def)
    have "\<exists>t' fs. ht_insert ?c k v = (t', fs) \<and> put_post t k v t' fs"
      using t0 e tn by (intro put_step) (simp_all add: HASHTABLE_HIGH_def)
    then show ?thesis using null by auto
  next
    case plain
    note i = ht_invD [OF inv plain(1)]
    have "\<exists>t' fs. ht_insert t k v = (t', fs) \<and> put_post t k v t' fs"
      using i(1,2) plain(2) by (intro put_step) simp_all
    then show ?thesis using plain u32_times_100 [of "count t"] safe by auto
  next
    case grow
    note i = ht_invD [OF inv grow(1)]
    note w = ht_wfD [OF i(1)]
    define cap where "cap = grow_capacity (count t) (capacity t)"
    have cap: "is_pow2_cap cap" "count t * 100 div cap < HASHTABLE_LOW"
      using grow_capacity_post [OF w(2), of "count t"] safe by (auto simp: cap_def)
    let ?c = "t\<lparr>buckets := replicate cap None, capacity := cap, count := 0\<rparr>"
    have "\<exists>c'. rehash_loop (Suc d) (buckets t) ?c = Some (c', []) \<and> ht_wf c' \<and> probe_ok c' \<and>
      capacity c' = capacity ?c \<and> is_inline c' = is_inline ?c \<and> count c' = count ?c + occupied (buckets t) \<and>
      (\<forall>k. ht_map c' k = (case bmap (buckets t) k of Some v \<Rightarrow> Some v | None \<Rightarrow> ht_map ?c k))"
      by (rule rehash_loop_post) (use w(3,5) cap safe in \<open>simp_all add: empty_buckets_ok [OF cap(1)]\<close>)
    then obtain c' where c': "rehash_loop (Suc d) (buckets t) ?c = Some (c', [])" "ht_wf c'" "probe_ok c'"
      "capacity c' = cap" "is_inline c' = is_inline t" "count c' = count t"
      "\<And>k. ht_map c' k = (case bmap (buckets t) k of Some v \<Rightarrow> Some v | None \<Rightarrow> ht_map ?c k)"
      using w(5) by (auto simp: empty_buckets_ok [OF cap(1)])
    have map: "ht_map c' k = ht_map t k" for k
      by (simp add: c'(7) empty_buckets_ok [OF cap(1)] ht_map_bmap [of t] split: option.split)
    have "\<exists>t' fs. ht_insert c' k v = (t', fs) \<and> put_post t k v t' fs"
      using c'(2-6) map cap(2) by (intro put_step) (simp_all add: hashtable_consts)
    then show ?thesis
      using grow u32_times_100 [of "count t"] safe c'(1) by (auto simp: cap_def Let_def)
  qed
qed

section \<open>Backward-shifting deletion\<close>

text \<open>
  Some bucket \<open>e\<close> is empty before a removal and stays empty throughout. Numbering the buckets
  from the one after \<open>e\<close>, no probe path wraps around: \<open>lin t e y\<close> is bucket \<open>y\<close> in that numbering,
  \<open>lin_home\<close> the number of the home of a key.
\<close>

definition pos_of :: "'v hashtable \<Rightarrow> nat \<Rightarrow> nat \<Rightarrow> nat" where
  "pos_of t e y = (e + 1 + y) mod capacity t"

definition lin :: "'v hashtable \<Rightarrow> nat \<Rightarrow> nat \<Rightarrow> 'v ht_entry option" where
  "lin t e y = buckets t ! pos_of t e y"

definition lin_home :: "'v hashtable \<Rightarrow> nat \<Rightarrow> string \<Rightarrow> nat" where
  "lin_home t e k = (home t k + (capacity t - 1 - e)) mod capacity t"

lemma slot_pos:
  assumes "e < capacity t"
  shows "slot t k i = pos_of t e (lin_home t e k + i)"
proof -
  have "(e + 1 + (lin_home t e k + i)) mod capacity t =
      (e + 1 + i + (home t k + (capacity t - 1 - e)) mod capacity t) mod capacity t"
    by (simp add: lin_home_def ac_simps)
  also have "\<dots> = (e + 1 + i + (home t k + (capacity t - 1 - e))) mod capacity t"
    by (rule mod_add_right_eq)
  also have "e + 1 + i + (home t k + (capacity t - 1 - e)) = home t k + i + capacity t"
    using assms by simp
  finally show ?thesis by (simp add: pos_of_def)
qed

lemma lin_slot:
  "e < capacity t \<Longrightarrow> buckets t ! slot t k i = lin t e (lin_home t e k + i)"
  by (simp only: slot_pos lin_def)

lemma lin_home_less: "0 < capacity t \<Longrightarrow> lin_home t e k < capacity t"
  by (simp add: lin_home_def)

lemma lin_mod [simp]: "lin t e (y mod capacity t) = lin t e y"
  unfolding lin_def pos_of_def by (simp only: mod_add_right_eq)

lemma lin_last: "e < capacity t \<Longrightarrow> lin t e (capacity t - 1) = buckets t ! e"
  by (simp add: lin_def pos_of_def)

lemma pos_of_inj:
  "y < capacity t \<Longrightarrow> z < capacity t \<Longrightarrow> pos_of t e y = pos_of t e z \<longleftrightarrow> y = z"
  using mod_inj [of y "capacity t" z "e + 1"] by (auto simp: pos_of_def)

lemma pos_of_less: "0 < capacity t \<Longrightarrow> pos_of t e y < capacity t"
  by (simp add: pos_of_def)

lemma lin_update:
  assumes "y < capacity t" "z < capacity t" "length (buckets t) = capacity t"
  shows "lin (t\<lparr>buckets := (buckets t)[pos_of t e z := b], count := n\<rparr>) e y =
    (if y = z then b else lin t e y)"
proof -
  have "pos_of (t\<lparr>buckets := (buckets t)[pos_of t e z := b], count := n\<rparr>) e y = pos_of t e y"
    by (simp add: pos_of_def)
  then show ?thesis
    using assms pos_of_inj [OF assms(1,2), of e] pos_of_less [of t e z]
    by (auto simp: lin_def nth_list_update)
qed

lemma lin_home_update [simp]:
  "lin_home (t\<lparr>buckets := b, count := n\<rparr>) e k = lin_home t e k"
  by (simp add: lin_home_def home_def)

text \<open>
  The loop invariant with the loop at bucket \<open>x\<close>: nothing wraps, the paths of the entries
  already passed are intact, those ahead are intact from \<open>x\<close> on.
\<close>

definition shift_inv :: "'v hashtable \<Rightarrow> nat \<Rightarrow> nat \<Rightarrow> bool" where
  "shift_inv t e x \<longleftrightarrow> e < capacity t \<and> buckets t ! e = None \<and>
     (\<forall>y < capacity t. \<forall>a. lin t e y = Some a \<longrightarrow>
        lin_home t e (ekey a) \<le> y \<and>
        (\<forall>z. lin_home t e (ekey a) \<le> z \<longrightarrow> z < y \<longrightarrow> y < x \<or> x \<le> z \<longrightarrow> lin t e z \<noteq> None))"

lemma shift_invD:
  assumes "shift_inv t e x" "y < capacity t" "lin t e y = Some a"
  shows "lin_home t e (ekey a) \<le> y"
    "lin_home t e (ekey a) \<le> z \<Longrightarrow> z < y \<Longrightarrow> y < x \<or> x \<le> z \<Longrightarrow> lin t e z \<noteq> None"
  using assms by (auto simp: shift_inv_def)

lemma probe_ok_shift_inv:
  assumes pk: "probe_ok t" and e: "e < capacity t" "buckets t ! e = None"
  shows "shift_inv t e 0"
  unfolding shift_inv_def
proof (intro conjI allI impI e)
  fix y a
  assume y: "y < capacity t" "lin t e y = Some a"
  define h where "h = lin_home t e (ekey a)"
  have h: "h < capacity t" using e(1) lin_home_less [of t e "ekey a"] by (simp add: h_def)
  obtain i where i: "i < capacity t" "(h + i) mod capacity t = y" using mod_reach [OF h y(1)] by metis
  have sl: "buckets t ! slot t (ekey a) j = lin t e (h + j)" for j
    unfolding h_def by (rule lin_slot [OF e(1)])
  have "lin t e (h + i) = Some a" using i(2) y(2) lin_mod [of t e "h + i"] by simp
  then have path: "lin t e (h + j) \<noteq> None" if "j < i" for j
    using pk [unfolded probe_ok_def, rule_format, of i a j] i(1) that by (simp only: sl) blast
  have "h + i < capacity t"
  proof (rule ccontr)
    assume n: "\<not> h + i < capacity t"
    then have "lin t e (h + (capacity t - 1 - h)) \<noteq> None" using i h by (intro path) simp
    then show False using h e lin_last [of e t] by simp
  qed
  then have yi: "y = h + i" using i(2) by simp
  then show "h \<le> y" by simp
  show "lin t e z \<noteq> None" if "h \<le> z" "z < y" for z
    using path [of "z - h"] that yi by simp
qed

lemma shift_inv_probe_ok:
  assumes si: "shift_inv t e x" and stop: "lin t e x = None"
  shows "probe_ok t"
  unfolding probe_ok_def
proof (intro allI impI)
  fix a i j
  assume i: "i < capacity t" "buckets t ! slot t (ekey a) i = Some a" and j: "j < i"
  define h where "h = lin_home t e (ekey a)"
  have e: "e < capacity t" using si by (simp add: shift_inv_def)
  then have h: "h < capacity t" using lin_home_less [of t e "ekey a"] by (simp add: h_def)
  have sl: "buckets t ! slot t (ekey a) n = lin t e (h + n)" for n
    unfolding h_def by (rule lin_slot [OF e])
  define y where "y = (h + i) mod capacity t"
  have y: "y < capacity t" "lin t e y = Some a" using i sl e by (simp_all add: y_def)
  have hy: "h \<le> y" using shift_invD(1) [OF si y] by (simp add: h_def)
  have yi: "y = h + i"
  proof (rule ccontr)
    assume n: "y \<noteq> h + i"
    then have ge: "\<not> h + i < capacity t" by (auto simp: y_def)
    then have "y = h + i - capacity t" using h i(1) by (simp add: y_def mod_if)
    then show False using ge hy h i(1) by linarith
  qed
  note path = shift_invD(2) [OF si y, folded h_def]
  have "lin t e z \<noteq> None" if z: "h \<le> z" "z < y" for z
  proof (cases "y < x \<or> x < h")
    case True
    then show ?thesis using path z by auto
  next
    case False
    have "y \<noteq> x" using stop y(2) by auto
    then have "lin t e x \<noteq> None" using path [of x] False by simp
    then show ?thesis using stop by simp
  qed
  then show "buckets t ! slot t (ekey a) j \<noteq> None" using sl j yi by simp
qed

abbreviation clear_bucket :: "'v hashtable \<Rightarrow> nat \<Rightarrow> 'v hashtable" where
  "clear_bucket t q \<equiv> t\<lparr>buckets := (buckets t)[q := None], count := count t - 1\<rparr>"

lemma clear_bucket_post:
  assumes wf: "ht_wf t" and q: "q < capacity t" "buckets t ! q = Some a"
  shows "ht_wf (clear_bucket t q)" "count t = Suc (count (clear_bucket t q))"
    "ht_map (clear_bucket t q) k = (if c_str k = ckey a then None else ht_map t k)"
proof -
  note w = ht_wfD [OF wf]
  have len: "q < length (buckets t)" using q w(1) by simp
  have occ: "Suc (occupied ((buckets t)[q := None])) = occupied (buckets t)"
    by (rule occupied_clear) (use len q in simp_all)
  have d: "distinct_keys (buckets (clear_bucket t q))"
    using distinct_keys_update [OF w(3), of None q] by simp
  then show "ht_wf (clear_bucket t q)"
    using w(1,2,5) occ lengths_ok_update [OF w(4), of None q] by (simp add: ht_wf_def)
  show "count t = Suc (count (clear_bucket t q))" using w(5) occ by simp
  have "ht_map (clear_bucket t q) k = Some u \<longleftrightarrow>
      (if c_str k = ckey a then None else ht_map t k) = Some u" for u
  proof (cases "c_str k = ckey a")
    case True
    have "ht_map (clear_bucket t q) k = None"
      unfolding ht_map_None [OF d]
      using distinct_keysD [OF w(3) _ len _ q(2)] len True by (auto simp: nth_list_update)
    then show ?thesis using True by simp
  next
    case False
    have "(i < length (buckets (clear_bucket t q)) \<and>
          (\<exists>e. buckets (clear_bucket t q) ! i = Some e \<and> ckey e = c_str k \<and> payload e = u)) =
        (i < length (buckets t) \<and> (\<exists>e. buckets t ! i = Some e \<and> ckey e = c_str k \<and> payload e = u))" for i
      using False q len by (cases "i = q") auto
    then show ?thesis
      unfolding ht_map_Some [OF d] using False by (simp only: ht_map_Some [OF w(3)] if_False)
  qed
  then show "ht_map (clear_bucket t q) k = (if c_str k = ckey a then None else ht_map t k)"
    by (metis option.exhaust)
qed

lemma shift_inv_clear:
  assumes pk: "probe_ok t" and wf: "ht_wf t" and e: "e < capacity t" "buckets t ! e = None"
    and f: "f < capacity t" "lin t e f = Some a"
  shows "shift_inv (clear_bucket t (pos_of t e f)) e (Suc f)"
proof -
  note si = shift_invD [OF probe_ok_shift_inv [OF pk e]]
  have len: "length (buckets t) = capacity t" using wf by (rule ht_wfD)
  have e': "buckets (clear_bucket t (pos_of t e f)) ! e = None"
    using e len by (cases "pos_of t e f = e") simp_all
  show ?thesis
    unfolding shift_inv_def
  proof (intro conjI allI impI e')
    fix y b
    assume y: "y < capacity (clear_bucket t (pos_of t e f))"
      "lin (clear_bucket t (pos_of t e f)) e y = Some b"
    then have y': "y < capacity t" "lin t e y = Some b" "y \<noteq> f"
      using lin_update [where t = t and y = y and z = f and e = e] f(1) len by (auto split: if_splits)
    then show "lin_home (clear_bucket t (pos_of t e f)) e (ekey b) \<le> y" using si by simp
    show "lin (clear_bucket t (pos_of t e f)) e z \<noteq> None"
      if "lin_home (clear_bucket t (pos_of t e f)) e (ekey b) \<le> z" "z < y" "y < Suc f \<or> Suc f \<le> z" for z
      using that y' f(1) len lin_update [where t = t and y = z and z = f and e = e] si(2) [of y b z] by auto
  qed (use e in simp)
qed

lemma put_no_rehash:
  assumes "buckets t \<noteq> []" "count t * 100 div capacity t < HASHTABLE_HIGH"
  shows "hashtable_put t k v = Some (ht_insert t k v)"
proof -
  have "u32 (count t * 100) \<le> count t * 100" by (simp add: u32_def)
  then have "u32 (count t * 100) div capacity t < HASHTABLE_HIGH" using assms(2) by (rule div_mono_less)
  then show ?thesis
    using assms(1) by (auto simp: hashtable_put_def numeral_2_eq_2 split: prod.split)
qed

text \<open>One round of the loop: the entry at bucket \<open>x\<close> lands at or before \<open>x\<close>, never past it.\<close>

lemma reinsert_step:
  assumes wf: "ht_wf t" and si: "shift_inv t e x" and x: "x < capacity t" "lin t e x = Some a"
    and load: "(count t - 1) * 100 div capacity t < HASHTABLE_HIGH"
  shows "\<exists>t'. hashtable_put (clear_bucket t (pos_of t e x)) (ekey a) (payload a) = Some (t', []) \<and>
    ht_wf t' \<and> shift_inv t' e (Suc x) \<and> capacity t' = capacity t \<and> count t' = count t \<and>
    is_inline t' = is_inline t \<and> (\<forall>k. ht_map t' k = ht_map t k)"
proof -
  note w = ht_wfD [OF wf]
  let ?p = "pos_of t e x"
  let ?c = "clear_bucket t ?p"
  have e: "e < capacity t" "buckets t ! e = None" using si by (simp_all add: shift_inv_def)
  have p: "?p < capacity t" "buckets t ! ?p = Some a" using x(2) pos_of_less [OF w(6)] by (auto simp: lin_def)
  note c = clear_bucket_post [OF wf p]
  have ewf: "pos_of t e x \<noteq> e" using e p by auto
  have "count t \<le> capacity t" using w(1,5) occupied_le [of "buckets t"] by simp
  then have room: "count ?c < capacity ?c" using c(2) by simp
  have absent: "ht_map ?c (ekey a) = None" using c(3) by simp
  obtain i where i: "i < capacity ?c" "buckets ?c ! slot ?c (ekey a) i = None"
    "\<And>j. j < i \<Longrightarrow> buckets ?c ! slot ?c (ekey a) j \<noteq> None"
    "ht_insert ?c (ekey a) (payload a) =
       (?c\<lparr>buckets := (buckets ?c)[slot ?c (ekey a) i := Some (new_entry (ekey a) (payload a))],
           count := count ?c + 1\<rparr>, [])"
    using ht_insert_new [OF c(1) room absent, of "payload a"] by metis
  let ?t' = "?c\<lparr>buckets := (buckets ?c)[slot ?c (ekey a) i := Some (new_entry (ekey a) (payload a))],
           count := count ?c + 1\<rparr>"
  have post: "ht_wf ?t'" "\<And>k. ht_map ?t' k = (if c_str k = ckey a then Some (payload a) else ht_map ?c k)"
    using insert_new_post [OF c(1) room absent i(1,2)] by auto
  define h where "h = lin_home t e (ekey a)"
  have ec: "e < capacity ?c" using e by simp
  have linc: "y < capacity t \<Longrightarrow> lin ?c e y = (if y = x then None else lin t e y)" for y
    using lin_update x(1) w(1) by blast
  have slc: "buckets ?c ! slot ?c (ekey a) j = lin ?c e (h + j)" for j
    using lin_slot [OF ec, of "ekey a" j] by (simp add: h_def)
  have hx: "h \<le> x" using shift_invD(1) [OF si x] by (simp add: h_def)
  have land: "i \<le> x - h"
  proof (rule ccontr)
    assume "\<not> i \<le> x - h"
    then have "lin ?c e (h + (x - h)) \<noteq> None" using i(3) [of "x - h"] slc by simp
    then show False using linc [OF x(1)] hx by simp
  qed
  define z where "z = h + i"
  have z: "z \<le> x" "z < capacity t" using land hx x(1) by (simp_all add: z_def)
  have sz: "slot ?c (ekey a) i = pos_of ?c e z"
    using slot_pos [OF ec, of "ekey a" i] by (simp add: z_def h_def)
  have lin': "lin ?t' e y = (if y = z then Some (new_entry (ekey a) (payload a)) else lin ?c e y)"
    if "y < capacity t" for y
    unfolding sz by (rule lin_update) (use that z(2) w(1) in simp_all)
  have zl: "lin ?c e y \<noteq> None" if "h \<le> y" "y < z" for y
    using i(3) [of "y - h"] slc [of "y - h"] that by (simp add: z_def)
  have "lin t e (capacity t - 1) = None" using lin_last [OF e(1)] e(2) by simp
  then have xl: "x \<noteq> capacity t - 1" using x(2) by auto
  have last: "capacity t - 1 < capacity t" "capacity t - 1 \<noteq> z" "capacity t - 1 \<noteq> x"
    using w(6) z(1) x(1) xl by linarith+
  have "lin ?t' e (capacity t - 1) = lin t e (capacity t - 1)"
    unfolding lin' [OF last(1)] linc [OF last(1)] using last by (simp only: if_False)
  then have "lin ?t' e (capacity t - 1) = None" using lin_last [OF e(1)] e(2) by simp
  then have e': "buckets ?t' ! e = None"
    using lin_last [of e ?t'] e(1) by simp
  note sd = shift_invD [OF si]
  have "shift_inv ?t' e (Suc x)"
    unfolding shift_inv_def
  proof (intro conjI allI impI e')
    fix y b
    assume "y < capacity ?t'" "lin ?t' e y = Some b"
    then have y: "y < capacity t" "lin ?t' e y = Some b" by simp_all
    consider (new) "y = z" "ekey b = ekey a" | (old) "y \<noteq> z" "y \<noteq> x" "lin t e y = Some b"
      using y lin' linc by (auto simp: new_entry_def split: if_splits)
    then have "h' \<le> y \<and> (\<forall>q. h' \<le> q \<longrightarrow> q < y \<longrightarrow> y < Suc x \<or> Suc x \<le> q \<longrightarrow> lin ?t' e q \<noteq> None)"
      if "h' = lin_home t e (ekey b)" for h'
    proof cases
      case new
      then show ?thesis using that z zl lin' by (auto simp: h_def z_def)
    next
      case old
      then show ?thesis using that sd(1,2) [OF y(1) old(3)] y(1) lin' linc by auto
    qed
    then show "lin_home ?t' e (ekey b) \<le> y"
      "\<And>q. lin_home ?t' e (ekey b) \<le> q \<Longrightarrow> q < y \<Longrightarrow> y < Suc x \<or> Suc x \<le> q \<Longrightarrow> lin ?t' e q \<noteq> None"
      unfolding lin_home_update by blast+
  qed (use e in simp)
  moreover have "buckets ?c \<noteq> []" "count ?c * 100 div capacity ?c < HASHTABLE_HIGH"
    using w(1,6) load by auto
  note put_no_rehash [OF this, of "ekey a" "payload a"]
  moreover have "ht_map t (ekey a) = Some (payload a)"
    unfolding ht_map_Some [OF w(3)] using p w(1) by auto
  then have "ht_map ?t' k = ht_map t k" for k
    using post(2) c(3) by (auto simp: ht_map_def)
  ultimately show ?thesis using i(4) post(1) c(2) by auto
qed

lemma pos_of_Suc: "(pos_of t e x + 1) mod capacity t = pos_of t e (Suc x)"
  by (simp add: pos_of_def mod_Suc_eq)

lemma reinsert_loop_post:
  assumes "ht_wf t" "shift_inv t e x" "x < capacity t"
    and "(count t - 1) * 100 div capacity t < HASHTABLE_HIGH"
  shows "\<exists>t'. reinsert_loop (capacity t) t (pos_of t e x) = Some t' \<and> ht_wf t' \<and> probe_ok t' \<and>
    capacity t' = capacity t \<and> count t' = count t \<and> is_inline t' = is_inline t \<and>
    (\<forall>k. ht_map t' k = ht_map t k)"
  using assms
proof (induction "capacity t - x" arbitrary: t x)
  case 0
  then show ?case by simp
next
  case (Suc n)
  show ?case
  proof (cases "lin t e x")
    case None
    then have "reinsert_loop (capacity t) t (pos_of t e x) = Some t"
      by (simp add: reinsert_loop.simps [of _ _ "pos_of t e x"] lin_def)
    then show ?thesis using shift_inv_probe_ok [OF Suc.prems(2) None] Suc.prems(1) by auto
  next
    case (Some a)
    obtain t1 where t1: "hashtable_put (clear_bucket t (pos_of t e x)) (ekey a) (payload a) = Some (t1, [])"
      "ht_wf t1" "shift_inv t1 e (Suc x)" "capacity t1 = capacity t" "count t1 = count t"
      "is_inline t1 = is_inline t" "\<And>k. ht_map t1 k = ht_map t k"
      using reinsert_step [OF Suc.prems(1-3) Some Suc.prems(4)] by blast
    have e: "e < capacity t" "buckets t ! e = None" using Suc.prems(2) by (simp_all add: shift_inv_def)
    have "Suc x < capacity t"
    proof (rule ccontr)
      assume "\<not> Suc x < capacity t"
      then have "x = capacity t - 1" using Suc.prems(3) by simp
      then show False using Some lin_last [OF e(1)] e(2) by simp
    qed
    moreover have "n = capacity t1 - Suc x" using Suc.hyps(2) t1(4) by simp
    ultimately have "\<exists>t'. reinsert_loop (capacity t) t1 (pos_of t e (Suc x)) = Some t' \<and> ht_wf t' \<and>
      probe_ok t' \<and> capacity t' = capacity t \<and> count t' = count t \<and> is_inline t' = is_inline t \<and>
      (\<forall>k. ht_map t' k = ht_map t k)"
      using Suc.hyps(1) [of t1 "Suc x"] t1(2-7) Suc.prems(4) by (simp add: pos_of_def)
    moreover have "reinsert_loop (capacity t) t (pos_of t e x) =
        reinsert_loop (capacity t) t1 (pos_of t e (Suc x))"
      using t1(1) Some pos_of_Suc [of t e x]
      by (simp add: reinsert_loop.simps [of _ _ "pos_of t e x"] lin_def)
    ultimately show ?thesis by simp
  qed
qed

lemma hashtable_remove_post:
  assumes inv: "ht_inv t"
  shows "\<exists>t'. hashtable_remove t k = Some t' \<and> ht_inv t' \<and> is_inline t' = is_inline t \<and>
    capacity t' = capacity t \<and> count t' = (if ht_map t k = None then count t else count t - 1) \<and>
    (\<forall>k'. ht_map t' k' = (if c_str k' = c_str k then None else ht_map t k'))"
proof (cases "buckets t = []")
  case True
  then show ?thesis using inv by (simp add: hashtable_remove_def ht_map_def ht_entries_def)
next
  case False
  note i = ht_invD [OF inv False]
  note w = ht_wfD [OF i(1)]
  show ?thesis
  proof (cases "ht_map t k")
    case None
    obtain n where n: "ht_probe t k = Some n" "buckets t ! slot t k n = None"
      using ht_probe_absent [OF i(1,4) None] by metis
    then have "hashtable_remove t k = Some t"
      using False by (simp add: hashtable_remove_def ht_find_conv [OF w(2)] bucket_at_home [OF w(2)])
    moreover have "ht_map t k' = None" if "c_str k' = c_str k" for k'
      using None that by (simp add: ht_map_def)
    ultimately show ?thesis using inv None by simp
  next
    case (Some u)
    obtain q a where q: "q < capacity t" "buckets t ! q = Some a" "ckey a = c_str k"
      using Some w(1) by (auto simp: ht_map_Some [OF w(3)])
    obtain n where n: "ht_probe t k = Some n" "slot t k n = q"
      using ht_probe_present [OF i(1,2) q] by metis
    have f: "ht_find t k = Some q"
      using n q by (simp add: ht_find_conv [OF w(2)] bucket_at_home [OF w(2)])
    have "occupied (buckets t) < length (buckets t)" using i(4) w(1,5) by simp
    then obtain e where "e < length (buckets t)" "buckets t ! e = None" by (rule occupied_less)
    then have e: "e < capacity t" "buckets t ! e = None" using w(1) by simp_all
    obtain y where y: "y < capacity t" "pos_of t e y = q"
    proof -
      have e1: "(e + 1) mod capacity t < capacity t" using w(6) by simp
      obtain y where "y < capacity t" "((e + 1) mod capacity t + y) mod capacity t = q"
        using mod_reach [OF e1 q(1)] by metis
      then show ?thesis using that [of y] by (simp only: pos_of_def mod_add_left_eq)
    qed
    let ?c = "clear_bucket t q"
    note c = clear_bucket_post [OF i(1) q(1,2)]
    have si: "shift_inv ?c e (Suc y)"
      using shift_inv_clear [OF i(2,1) e y(1), of a] y q by (simp add: lin_def)
    have "lin t e (capacity t - 1) = None" "lin t e y = Some a"
      using lin_last [OF e(1)] e q y by (simp_all add: lin_def)
    then have "y \<noteq> capacity t - 1" by auto
    then have sy: "Suc y < capacity ?c" using y(1) by simp
    have load: "(count t - 1) * 100 div capacity t < HASHTABLE_HIGH"
      using i(3) c(2) by (auto simp: load_ok_def HASHTABLE_HIGH_def)
    then have load': "(count ?c - 1) * 100 div capacity ?c < HASHTABLE_HIGH"
      using div_mono_less [of "(count ?c - 1) * 100" "(count t - 1) * 100"] by simp
    obtain t' where t': "reinsert_loop (capacity ?c) ?c (pos_of ?c e (Suc y)) = Some t'" "ht_wf t'"
      "probe_ok t'" "capacity t' = capacity ?c" "count t' = count ?c" "is_inline t' = is_inline ?c"
      "\<And>k. ht_map t' k = ht_map ?c k"
      using reinsert_loop_post [OF c(1) si sy load'] by blast
    have "hashtable_remove t k = Some t'"
      using False f t'(1) y(2) pos_of_Suc [of t e y] by (simp add: hashtable_remove_def pos_of_def)
    moreover have "load_ok t'" using load' t'(4,5) by (simp add: load_ok_def)
    then have "ht_inv t'" using t'(2,3) ht_wfD(1,6) [OF t'(2)] by (auto simp: ht_inv_def)
    ultimately show ?thesis using t'(4-7) c(3) q(3) Some by simp
  qed
qed

section \<open>The interface of a string-keyed table\<close>

text \<open>
  What scopes, chunk indexes and dicts rely on: a put and a removal that change the looked-up
  map at one C string, as long as the number of entries stays under a bound.
\<close>

datatype 'v table_op = Put string 'v | Del string

fun run_ops :: "('t \<Rightarrow> string \<Rightarrow> 'v \<Rightarrow> 't option) \<Rightarrow> ('t \<Rightarrow> string \<Rightarrow> 't option) \<Rightarrow>
  't \<Rightarrow> 'v table_op list \<Rightarrow> 't option" where
  "run_ops pt rm t [] = Some t"
| "run_ops pt rm t (Put k v # ops) = do { t' \<leftarrow> pt t k v; run_ops pt rm t' ops }"
| "run_ops pt rm t (Del k # ops) = do { t' \<leftarrow> rm t k; run_ops pt rm t' ops }"

fun spec_ops :: "'v table_op list \<Rightarrow> (string \<Rightarrow> 'v option) \<Rightarrow> string \<Rightarrow> 'v option" where
  "spec_ops [] m = m"
| "spec_ops (Put k v # ops) m = spec_ops ops (m(c_str k := Some v))"
| "spec_ops (Del k # ops) m = spec_ops ops (m(c_str k := None))"

locale string_table =
  fixes inv :: "'t \<Rightarrow> bool" and entries :: "'t \<Rightarrow> nat" and bound :: nat
    and look :: "'t \<Rightarrow> string \<Rightarrow> 'v option"
    and put :: "'t \<Rightarrow> string \<Rightarrow> 'v \<Rightarrow> 't option"
    and del :: "'t \<Rightarrow> string \<Rightarrow> 't option"
  assumes put_law: "inv t \<Longrightarrow> entries t < bound \<Longrightarrow>
      \<exists>t'. put t k v = Some t' \<and> inv t' \<and> entries t' \<le> Suc (entries t) \<and>
        (\<forall>k'. look t' k' = (if c_str k' = c_str k then Some v else look t k'))"
    and del_law: "inv t \<Longrightarrow>
      \<exists>t'. del t k = Some t' \<and> inv t' \<and> entries t' \<le> entries t \<and>
        (\<forall>k'. look t' k' = (if c_str k' = c_str k then None else look t k'))"
begin

lemma look_c_str:
  assumes "inv t" "entries t < bound"
  shows "\<exists>t'. put t k v = Some t' \<and> look t' (c_str k) = Some v"
  using put_law [OF assms, of k v] by auto

lemma run_spec:
  assumes "inv t" "entries t + length ops \<le> bound" "\<And>k. look t k = m (c_str k)"
  shows "\<exists>t'. run_ops put del t ops = Some t' \<and> inv t' \<and> (\<forall>k. look t' k = spec_ops ops m (c_str k))"
  using assms
proof (induction ops arbitrary: t m)
  case Nil
  then show ?case by simp
next
  case (Cons a ops)
  show ?case
  proof (cases a)
    case (Put k v)
    obtain t' where t': "put t k v = Some t'" "inv t'" "entries t' \<le> Suc (entries t)"
      "\<And>k'. look t' k' = (if c_str k' = c_str k then Some v else look t k')"
      using put_law [of t k v] Cons.prems(1,2) by auto
    have eq: "look t' k' = (m(c_str k := Some v)) (c_str k')" for k'
      using t'(4) Cons.prems(3) by simp
    have "entries t' + length ops \<le> bound" using t'(3) Cons.prems(2) by simp
    note ih = Cons.IH [of t' "m(c_str k := Some v)", OF t'(2) this eq]
    have "run_ops put del t (a # ops) = run_ops put del t' ops" using t'(1) Put by simp
    moreover have "spec_ops (a # ops) m = spec_ops ops (m(c_str k := Some v))" using Put by simp
    ultimately show ?thesis using ih by (simp only:)
  next
    case (Del k)
    obtain t' where t': "del t k = Some t'" "inv t'" "entries t' \<le> entries t"
      "\<And>k'. look t' k' = (if c_str k' = c_str k then None else look t k')"
      using del_law [of t k] Cons.prems(1) by auto
    have eq: "look t' k' = (m(c_str k := None)) (c_str k')" for k'
      using t'(4) Cons.prems(3) by simp
    have "entries t' + length ops \<le> bound" using t'(3) Cons.prems(2) by simp
    note ih = Cons.IH [of t' "m(c_str k := None)", OF t'(2) this eq]
    have "run_ops put del t (a # ops) = run_ops put del t' ops" using t'(1) Del by simp
    moreover have "spec_ops (a # ops) m = spec_ops ops (m(c_str k := None))" using Del by simp
    ultimately show ?thesis using ih by (simp only:)
  qed
qed

end

lemma hashtable_put_some:
  assumes "ht_inv t" "count t < HT_COUNT_SAFE"
  obtains t' fs where "hashtable_put t k v = Some (t', fs)" "put_post t k v t' fs"
  using hashtable_put_post [OF assms, of 0 k v] by (auto simp: hashtable_put_def numeral_2_eq_2)

interpretation dict_table:
  string_table ht_inv count HT_COUNT_SAFE dictmap_get dictmap_put dictmap_remove
proof unfold_locales
  fix t :: "'a hashtable" and k v
  assume t: "ht_inv t" "count t < HT_COUNT_SAFE"
  obtain t' fs where "hashtable_put t k v = Some (t', fs)" "put_post t k v t' fs"
    using t by (rule hashtable_put_some)
  then show "\<exists>t'. dictmap_put t k v = Some t' \<and> ht_inv t' \<and> count t' \<le> Suc (count t) \<and>
      (\<forall>k'. dictmap_get t' k' = (if c_str k' = c_str k then Some v else dictmap_get t k'))"
    by (auto simp: table_faces put_post_def hashtable_get_map [OF t(1)] hashtable_get_map)
next
  fix t :: "'a hashtable" and k
  assume t: "ht_inv t"
  show "\<exists>t'. dictmap_remove t k = Some t' \<and> ht_inv t' \<and> count t' \<le> count t \<and>
      (\<forall>k'. dictmap_get t' k' = (if c_str k' = c_str k then None else dictmap_get t k'))"
    using hashtable_remove_post [OF t, of k]
    by (auto simp: table_faces hashtable_get_map [OF t] hashtable_get_map)
qed

lemma ht_inv_zero [simp]: "ht_inv (ht_zero b)" "count (ht_zero b) = 0" "ht_map (ht_zero b) k = None"
  by (simp_all add: ht_inv_def ht_zero_def ht_map_def ht_entries_def)

section \<open>Properties\<close>

text \<open>C4: Any sequence of puts and removals on an empty table, as long as it is no
  longer than 42949672, runs to its end; looking a key up afterwards gives what the same
  sequence gives on a finite map from the C strings of the keys. So probing, the two growth
  thresholds, rehashing and the shifting deletion together never lose, duplicate or revive an
  entry.\<close>

theorem dict_sequence:
  assumes "length ops \<le> HT_COUNT_SAFE"
  shows "\<exists>t. run_ops dictmap_put dictmap_remove (ht_zero b) ops = Some t \<and> ht_inv t \<and>
    (\<forall>k. dictmap_get t k = spec_ops ops (\<lambda>_. None) (c_str k))"
  using assms
  by (intro dict_table.run_spec) (simp_all add: dictmap_get_def hashtable_get_map)

theorem dict_sequence_witness:
  "\<exists>t. run_ops dictmap_put dictmap_remove (ht_zero True)
         [Put ''ab'' (1::int), Put ''cd'' 2, Del ''ab'', Put ''cd'' 3] = Some t \<and>
       dictmap_get t ''ab'' = None \<and> dictmap_get t ''cd'' = Some 3"
proof -
  have b: "length [Put ''ab'' (1::int), Put ''cd'' 2, Del ''ab'', Put ''cd'' 3] \<le> HT_COUNT_SAFE"
    by (simp add: HT_COUNT_SAFE_def)
  show ?thesis using dict_sequence [OF b, of True] by (auto simp: c_str_def)
qed

text \<open>C26: Below the bound where \<^verbatim>\<open>count * 100\<close> wraps, a put always returns (the puts
  nested in its rehash do not rehash again), keeps the invariant, changes the map at exactly its
  key, adds to the count exactly when the key is new, and frees exactly the payload it replaces,
  which is nothing in inline mode.\<close>

theorem hashtable_put_map:
  assumes "ht_inv t" "count t < HT_COUNT_SAFE"
  shows "\<exists>t' freed. hashtable_put t k v = Some (t', freed) \<and> ht_inv t' \<and>
    count t' = (if ht_map t k = None then count t + 1 else count t) \<and>
    freed = (case ht_map t k of None \<Rightarrow> [] | Some u \<Rightarrow> if is_inline t then [] else [u]) \<and>
    (\<forall>k'. hashtable_get t' k' = (if c_str k' = c_str k then Some v else hashtable_get t k'))"
proof -
  obtain t' fs where p: "hashtable_put t k v = Some (t', fs)" "put_post t k v t' fs"
    using assms by (rule hashtable_put_some)
  then show ?thesis
    by (auto simp: put_post_def hashtable_get_map assms(1) free_payload_def split: option.split)
qed

theorem hashtable_put_map_witness:
  "\<exists>t' freed. hashtable_put (ht_zero False) ''k'' (7::int) = Some (t', freed) \<and> count t' = 1 \<and>
    freed = [] \<and> hashtable_get t' ''k'' = Some 7"
  using hashtable_put_map [of "ht_zero False" "''k''" "7::int"]
  by (auto simp: HT_COUNT_SAFE_def)

text \<open>C25: Removing a key returns on every table, at any size: the reinsertion loop
  of the backward-shifting deletion ends, none of its puts rehashes the table under it (the
  capacity is unchanged), and afterwards exactly that key is gone and every other key is still
  found by probing.\<close>

theorem hashtable_remove_map:
  assumes "ht_inv t"
  shows "\<exists>t'. hashtable_remove t k = Some t' \<and> ht_inv t' \<and> capacity t' = capacity t \<and>
    count t' = (if hashtable_get t k = None then count t else count t - 1) \<and>
    (\<forall>k'. hashtable_get t' k' = (if c_str k' = c_str k then None else hashtable_get t k'))"
proof -
  obtain t' where "hashtable_remove t k = Some t'" "ht_inv t'" "capacity t' = capacity t"
    "count t' = (if ht_map t k = None then count t else count t - 1)"
    "\<And>k'. ht_map t' k' = (if c_str k' = c_str k then None else ht_map t k')"
    using hashtable_remove_post [OF assms] by blast
  then show ?thesis by (simp add: hashtable_get_map assms)
qed

theorem hashtable_remove_map_witness:
  "\<exists>t t'. hashtable_put (ht_zero True) ''k'' (7::int) = Some (t, []) \<and>
     hashtable_remove t ''k'' = Some t' \<and> count t' = 0 \<and> hashtable_get t' ''k'' = None"
proof -
  obtain t fs where p: "hashtable_put (ht_zero True) ''k'' (7::int) = Some (t, fs)"
    "put_post (ht_zero True) ''k'' 7 t fs"
    by (rule hashtable_put_some [of "ht_zero True" "''k''" "7::int"]) (simp_all add: HT_COUNT_SAFE_def)
  then have "ht_inv t" "fs = []" "count t = 1" "ht_map t ''k'' = Some 7"
    by (auto simp: put_post_def)
  then show ?thesis
    using hashtable_remove_map [of t "''k''"] p(1) by (auto simp: hashtable_get_map)
qed

text \<open>C27: From capacity \<open>2 ^ 26\<close> on, the growth check of \<^verbatim>\<open>hashtable_put\<close> can never
  fire, because \<^verbatim>\<open>count * 100\<close> is computed in 32 bits: a put is the bare insertion step, and once
  every bucket holds another key it silently drops the new entry (neither the table nor the
  freed payloads change).\<close>

theorem hashtable_put_full:
  assumes "2 ^ 26 \<le> capacity t" "length (buckets t) = capacity t"
    and "\<And>b. b \<in> set (buckets t) \<Longrightarrow> \<exists>e. b = Some e \<and> ckey e \<noteq> c_str k"
  shows "hashtable_put t k v = Some (ht_insert t k v) \<and> hashtable_put t k v = Some (t, [])"
proof -
  have ne: "buckets t \<noteq> []" using assms(1,2) by auto
  have "u32 (count t * 100) < 64 * 2 ^ 26" using u32_less [of "count t * 100"] by simp
  then have "u32 (count t * 100) < HASHTABLE_HIGH * capacity t"
    using assms(1) unfolding HASHTABLE_HIGH_def by linarith
  then have "\<not> HASHTABLE_HIGH \<le> u32 (count t * 100) div capacity t"
    using assms(1) by (simp add: not_le div_less_iff_less_mult)
  then have put: "hashtable_put t k v = Some (ht_insert t k v)"
    using ne by (simp add: hashtable_put_def numeral_2_eq_2 split: prod.split)
  have "(case buckets t ! bucket_at t (hash_key k) i of None \<Rightarrow> True
      | Some e \<Rightarrow> hash_match e k (strlen k)) = False" for i
  proof -
    have "bucket_at t (hash_key k) i < length (buckets t)"
      using assms(1,2) by (simp add: bucket_at_def)
    from assms(3) [OF nth_mem [OF this]] show ?thesis by (auto simp: hash_match_def)
  qed
  then have "ht_probe t k = None" by (simp add: ht_probe_def find_None_iff)
  then show ?thesis using put by (simp add: ht_insert_def)
qed

definition full_table :: "int hashtable" where
  "full_table = \<lparr>buckets = replicate (2 ^ 26) (Some \<lparr>ekey = ''a'', elength = 1, payload = 0\<rparr>),
                 count = 2 ^ 26, capacity = 2 ^ 26, is_inline = True\<rparr>"

theorem hashtable_put_full_witness:
  "hashtable_put full_table ''b'' 5 = Some (full_table, [])"
  by (rule conjunct2 [OF hashtable_put_full]) (auto simp: full_table_def c_str_def)

end
