(* ===== verification/ValueBox.thy ===== *)
theory ValueBox
  imports Prelude
begin

text \<open>
  The NaN-boxed words of \<^verbatim>\<open>source/core/value_box.h\<close>, on 64-bit words: the boxed test, the tag,
  the factories and accessors, the 47-bit inline integers with their escape to a \<open>long_pool\<close>
  cell (\<^verbatim>\<open>aer_int\<close> in \<^verbatim>\<open>source/core/vm.c\<close>), and the two conversions at the embedding boundary. A
  \<^verbatim>\<open>double\<close> is its bit pattern, an address a 64-bit word. The other theories work with the decoded
  values (\<open>Values.val\<close>); the theorems here are what makes that view sound: every value is read
  back as it was written, with its type.
\<close>

section \<open>Types and words\<close>

datatype value_type =
  TYPE_NULL | TYPE_BOOLEAN | TYPE_INTEGER | TYPE_REAL | TYPE_STRING | TYPE_FUNCTION | TYPE_ARRAY | TYPE_DICT

fun tag :: "value_type \<Rightarrow> u64" where
  "tag TYPE_NULL = 0" | "tag TYPE_BOOLEAN = 1" | "tag TYPE_INTEGER = 2" | "tag TYPE_REAL = 3"
| "tag TYPE_STRING = 4" | "tag TYPE_FUNCTION = 5" | "tag TYPE_ARRAY = 6" | "tag TYPE_DICT = 7"

definition type_of_tag :: "u64 \<Rightarrow> value_type" where
  "type_of_tag w =
     (if w = 0 then TYPE_NULL else if w = 1 then TYPE_BOOLEAN else if w = 2 then TYPE_INTEGER
      else if w = 3 then TYPE_REAL else if w = 4 then TYPE_STRING else if w = 5 then TYPE_FUNCTION
      else if w = 6 then TYPE_ARRAY else TYPE_DICT)"

definition AER_BOXED_MASK :: u64 where "AER_BOXED_MASK = 0xFFF8000000000000"
definition AER_BOXED_TEST :: u64 where "AER_BOXED_TEST = 0x7FF8000000000000"
definition AER_TAG_SHIFT :: nat where "AER_TAG_SHIFT = 48"
definition AER_PAYLOAD_MASK :: u64 where "AER_PAYLOAD_MASK = 0x0000FFFFFFFFFFFF"
definition AER_BIGFLAG_BIT :: u64 where "AER_BIGFLAG_BIT = push_bit 47 1"
definition AER_INT47_MASK :: u64 where "AER_INT47_MASK = 0x00007FFFFFFFFFFF"
definition AER_INT47_SIGNBIT :: u64 where "AER_INT47_SIGNBIT = push_bit 46 1"
definition AER_INT47_MIN :: int where "AER_INT47_MIN = - (2 ^ 46)"
definition AER_INT47_MAX :: int where "AER_INT47_MAX = 2 ^ 46 - 1"

text \<open>\<^verbatim>\<open>d != d\<close> on the bit pattern of a double.\<close>

definition is_nan_bits :: "u64 \<Rightarrow> bool" where
  "is_nan_bits d \<longleftrightarrow> drop_bit 52 d AND 0x7FF = 0x7FF \<and> d AND 0x000FFFFFFFFFFFFF \<noteq> 0"

section \<open>Factories and accessors\<close>

definition aer_is_boxed :: "u64 \<Rightarrow> bool" where
  "aer_is_boxed v \<longleftrightarrow> v AND AER_BOXED_MASK = AER_BOXED_TEST"

definition aer_type :: "u64 \<Rightarrow> value_type" where
  "aer_type v =
     (if \<not> aer_is_boxed v then TYPE_REAL else type_of_tag (drop_bit AER_TAG_SHIFT v AND 7))"

definition aer_null :: u64 where
  "aer_null = AER_BOXED_TEST OR push_bit AER_TAG_SHIFT (tag TYPE_NULL)"

definition aer_bool :: "bool \<Rightarrow> u64" where
  "aer_bool b = AER_BOXED_TEST OR push_bit AER_TAG_SHIFT (tag TYPE_BOOLEAN) OR (if b then 1 else 0)"

definition aer_real :: "u64 \<Rightarrow> u64" where
  "aer_real d =
     (if is_nan_bits d then AER_BOXED_TEST OR push_bit AER_TAG_SHIFT (tag TYPE_REAL) else d)"

definition aer_box_ptr :: "value_type \<Rightarrow> u64 \<Rightarrow> u64" where
  "aer_box_ptr t p = AER_BOXED_TEST OR push_bit AER_TAG_SHIFT (tag t) OR (p AND AER_PAYLOAD_MASK)"

text \<open>
  \<^verbatim>\<open>aer_int\<close> with the address of the \<open>long_pool\<close> cell it allocates when the integer is out of the
  inline range.
\<close>

definition aer_int_word :: "u64 \<Rightarrow> int \<Rightarrow> u64" where
  "aer_int_word box n =
     (if AER_INT47_MIN \<le> n \<and> n \<le> AER_INT47_MAX
      then AER_BOXED_TEST OR push_bit AER_TAG_SHIFT (tag TYPE_INTEGER) OR (word_of_int n AND AER_INT47_MASK)
      else AER_BOXED_TEST OR push_bit AER_TAG_SHIFT (tag TYPE_INTEGER) OR AER_BIGFLAG_BIT OR
           (box AND AER_INT47_MASK))"

definition aer_as_bool :: "u64 \<Rightarrow> bool" where
  "aer_as_bool v \<longleftrightarrow> v AND 1 \<noteq> 0"

definition aer_as_real :: "u64 \<Rightarrow> u64" where
  "aer_as_real v = (if \<not> aer_is_boxed v then v else AER_BOXED_TEST)"

definition aer_payload_ptr :: "u64 \<Rightarrow> u64" where
  "aer_payload_ptr v = v AND AER_PAYLOAD_MASK"

definition aer_int_is_boxed :: "u64 \<Rightarrow> bool" where
  "aer_int_is_boxed v \<longleftrightarrow> aer_type v = TYPE_INTEGER \<and> v AND AER_BIGFLAG_BIT \<noteq> 0"

definition aer_int_box_ptr :: "u64 \<Rightarrow> u64" where
  "aer_int_box_ptr v = v AND AER_INT47_MASK"

text \<open>\<open>mem\<close> reads a \<^verbatim>\<open>long long\<close> cell.\<close>

definition aer_as_int :: "(u64 \<Rightarrow> int) \<Rightarrow> u64 \<Rightarrow> int" where
  "aer_as_int mem v =
     (if aer_int_is_boxed v then mem (aer_int_box_ptr v)
      else let p47 = v AND AER_INT47_MASK
           in sint (if p47 AND AER_INT47_SIGNBIT \<noteq> 0 then p47 OR NOT AER_INT47_MASK else p47))"

section \<open>The embedding boundary\<close>

text \<open>The public tagged union; the union member is the one its tag selects.\<close>

datatype public_value =
  PNull | PBool bool | PInt int | PReal u64 | PString u64 | PFunction u64 | PArray u64 | PDict u64

definition aer_val_to_public :: "(u64 \<Rightarrow> int) \<Rightarrow> u64 \<Rightarrow> public_value" where
  "aer_val_to_public mem v =
     (case aer_type v of
        TYPE_NULL \<Rightarrow> PNull
      | TYPE_BOOLEAN \<Rightarrow> PBool (aer_as_bool v)
      | TYPE_INTEGER \<Rightarrow> PInt (aer_as_int mem v)
      | TYPE_REAL \<Rightarrow> PReal (aer_as_real v)
      | TYPE_STRING \<Rightarrow> PString (aer_payload_ptr v)
      | TYPE_FUNCTION \<Rightarrow> PFunction (aer_payload_ptr v)
      | TYPE_ARRAY \<Rightarrow> PArray (aer_payload_ptr v)
      | TYPE_DICT \<Rightarrow> PDict (aer_payload_ptr v))"

text \<open>\<open>box\<close> is the \<open>long_pool\<close> cell the conversion allocates if it needs one.\<close>

fun aer_val_from_public :: "u64 \<Rightarrow> public_value \<Rightarrow> u64" where
  "aer_val_from_public box PNull = aer_null"
| "aer_val_from_public box (PBool b) = aer_bool b"
| "aer_val_from_public box (PInt n) = aer_int_word box n"
| "aer_val_from_public box (PReal d) = aer_real d"
| "aer_val_from_public box (PString p) = aer_box_ptr TYPE_STRING p"
| "aer_val_from_public box (PFunction p) = aer_box_ptr TYPE_FUNCTION p"
| "aer_val_from_public box (PArray p) = aer_box_ptr TYPE_ARRAY p"
| "aer_val_from_public box (PDict p) = aer_box_ptr TYPE_DICT p"

section \<open>Bit views\<close>

lemma box_masks:
  "AER_BOXED_TEST = push_bit 51 (mask 12)" "AER_BOXED_MASK = push_bit 51 (mask 13)"
  "AER_PAYLOAD_MASK = mask 48" "AER_INT47_MASK = mask 47"
  by (simp_all add: AER_BOXED_TEST_def AER_BOXED_MASK_def AER_PAYLOAD_MASK_def AER_INT47_MASK_def
      mask_eq_exp_minus_1 push_bit_eq_mult)

lemma tag_le: "tag t = tag t AND mask 3"
  by (cases t) (simp_all add: mask_eq_exp_minus_1)

lemma bit_tag: "bit (tag t) n \<Longrightarrow> n < 3"
  by (subst (asm) tag_le) (simp add: bit_simps)

lemma type_of_tag_tag [simp]: "type_of_tag (tag t) = t"
  by (cases t) (simp_all add: type_of_tag_def)

text \<open>Every boxed word the factories build is a tag and a payload of 48 bits.\<close>

definition boxed :: "value_type \<Rightarrow> u64 \<Rightarrow> u64" where
  "boxed t p = AER_BOXED_TEST OR push_bit AER_TAG_SHIFT (tag t) OR (p AND mask 48)"

lemma boxed_is_boxed [word_views]: "aer_is_boxed (boxed t p)"
  unfolding aer_is_boxed_def boxed_def box_masks AER_TAG_SHIFT_def
  by (rule bit_word_eqI) (auto simp: bit_simps dest: bit_tag)

lemma boxed_tag: "drop_bit AER_TAG_SHIFT (boxed t p) AND 7 = tag t"
proof -
  have "drop_bit 48 (boxed t p) AND mask 3 = tag t"
    unfolding boxed_def box_masks AER_TAG_SHIFT_def
    by (rule bit_word_eqI) (auto simp: bit_simps dest: bit_tag)
  then show ?thesis by (simp add: AER_TAG_SHIFT_def mask_eq_exp_minus_1)
qed

lemma boxed_type [word_views]: "aer_type (boxed t p) = t"
  by (simp add: aer_type_def boxed_is_boxed boxed_tag)

lemma boxed_and_low [word_views]: "boxed t p AND mask 48 = p AND mask 48"
  unfolding boxed_def box_masks AER_TAG_SHIFT_def
  by (rule bit_word_eqI) (auto simp: bit_simps dest: bit_tag)

lemma factories_boxed [word_views]:
  "aer_null = boxed TYPE_NULL 0" "aer_bool b = boxed TYPE_BOOLEAN (if b then 1 else 0)"
  "aer_box_ptr t p = boxed t p"
  "is_nan_bits d \<Longrightarrow> aer_real d = boxed TYPE_REAL 0"
  by (simp_all add: aer_null_def aer_bool_def aer_box_ptr_def aer_real_def boxed_def box_masks
      mask_eq_exp_minus_1)

lemma bit_bigflag [simp]: "bit AER_BIGFLAG_BIT n \<longleftrightarrow> n = 47"
  unfolding AER_BIGFLAG_BIT_def push_bit_of_1 bit_exp_iff by auto

lemma bit_signbit: "w AND AER_INT47_SIGNBIT \<noteq> 0 \<longleftrightarrow> bit w 46"
  unfolding AER_INT47_SIGNBIT_def push_bit_of_1 by (simp only: and_exp_eq_0_iff not_not)

lemma aer_int_boxed [word_views]:
  "aer_int_word box n =
     boxed TYPE_INTEGER (if AER_INT47_MIN \<le> n \<and> n \<le> AER_INT47_MAX
                         then word_of_int n AND mask 47 else AER_BIGFLAG_BIT OR (box AND mask 47))"
  unfolding aer_int_word_def boxed_def box_masks AER_TAG_SHIFT_def
  by (rule bit_word_eqI) (auto simp: bit_simps)

lemma not_boxed_real:
  assumes "\<not> is_nan_bits d"
  shows "\<not> aer_is_boxed d"
proof
  assume b: "aer_is_boxed d"
  have bits: "bit d n" if "51 \<le> n" "n < 63" for n
  proof -
    have "bit (d AND AER_BOXED_MASK) n"
      using b that unfolding aer_is_boxed_def box_masks by (auto simp: bit_simps)
    then show ?thesis using that by (auto simp: bit_simps)
  qed
  have "drop_bit 52 d AND mask 11 = mask 11"
    by (rule bit_word_eqI) (auto simp: bit_simps intro!: bits)
  moreover have "bit (d AND mask 52) 51" using bits [of 51] by (simp add: bit_simps)
  then have "d AND mask 52 \<noteq> 0" by (metis bit_0_eq bot_apply bot_bool_def)
  ultimately have "is_nan_bits d" by (simp add: is_nan_bits_def mask_eq_exp_minus_1)
  then show False using assms by simp
qed

lemma not_nan_real [word_views]: "\<not> is_nan_bits d \<Longrightarrow> aer_real d = d"
  by (simp add: aer_real_def)

lemma payload_boxed [word_views]: "aer_payload_ptr (boxed t p) = p AND mask 48"
  by (simp add: aer_payload_ptr_def box_masks boxed_and_low)

lemma low_mask: "k \<le> 48 \<Longrightarrow> boxed t p AND mask k = p AND mask k"
proof -
  assume k: "k \<le> 48"
  have "boxed t p AND mask k = (boxed t p AND mask 48) AND mask k"
    by (rule bit_word_eqI) (use k in \<open>auto simp: bit_simps\<close>)
  also have "\<dots> = (p AND mask 48) AND mask k" by (simp add: boxed_and_low)
  also have "\<dots> = p AND mask k" by (rule bit_word_eqI) (use k in \<open>auto simp: bit_simps\<close>)
  finally show ?thesis .
qed

lemma bigflag_boxed: "boxed t p AND AER_BIGFLAG_BIT \<noteq> 0 \<longleftrightarrow> bit p 47"
proof -
  have "bit (boxed t p) 47 = bit (boxed t p AND mask 48) 47" by (simp add: bit_simps)
  also have "\<dots> = bit p 47" by (simp add: boxed_and_low bit_simps)
  finally show ?thesis
    unfolding AER_BIGFLAG_BIT_def push_bit_of_1 by (simp only: and_exp_eq_0_iff not_not)
qed

lemma as_bool_boxed [word_views]: "aer_as_bool (boxed t p) \<longleftrightarrow> bit p 0"
proof -
  have "bit (boxed t p) 0 = bit (boxed t p AND mask 48) 0" by (simp add: bit_simps)
  also have "\<dots> = bit p 0" by (simp add: boxed_and_low bit_simps)
  finally show ?thesis by (simp add: aer_as_bool_def bit_0 and_one_eq odd_iff_mod_2_eq_one)
qed

lemma sign_extend_47:
  assumes "AER_INT47_MIN \<le> n" "n \<le> AER_INT47_MAX"
  defines "q \<equiv> (word_of_int n :: u64) AND mask 47"
  shows "sint (if q AND AER_INT47_SIGNBIT \<noteq> 0 then q OR NOT (mask 47) else q) = n"
proof -
  have r: "- (2 ^ 46) \<le> n" "n < 2 ^ 46" using assms(1,2) by (simp_all add: AER_INT47_MIN_def AER_INT47_MAX_def)
  then have "signed_take_bit 46 n = n" by (simp add: signed_take_bit_int_eq_self)
  then have b: "bit n k = bit n (min 46 k)" for k
    using bit_signed_take_bit_iff [of 46 n k] by simp
  have s: "q AND AER_INT47_SIGNBIT \<noteq> 0 \<longleftrightarrow> bit n 46"
    by (simp add: bit_signbit q_def bit_simps)
  have "(if q AND AER_INT47_SIGNBIT \<noteq> 0 then q OR NOT (mask 47) else q) = word_of_int n"
  proof (rule bit_word_eqI)
    fix k assume k: "k < LENGTH(64)"
    have "bit n k = bit n 46" if "\<not> k < 47" using b [of k] that by (simp add: min_def)
    then show "bit (if q AND AER_INT47_SIGNBIT \<noteq> 0 then q OR NOT (mask 47) else q) k =
        bit (word_of_int n :: u64) k"
      using k by (cases "bit n 46"; cases "k < 47") (simp_all only: s if_True if_False, simp_all add: q_def bit_simps)
  qed
  moreover have "signed_take_bit 63 n = n" using r by (intro signed_take_bit_int_eq_self) simp_all
  then have "sint (word_of_int n :: u64) = n" by (simp add: sint_sbintrunc')
  ultimately show ?thesis by (simp only:)
qed

section \<open>Round trips\<close>

text \<open>
  What the runtime relies on: pooled pointers fit the 48-bit payload, \<open>long_pool\<close> pointers 47
  bits (their field shares the payload with the escape bit), and the cell holds the integer.
\<close>

definition storable :: "(u64 \<Rightarrow> int) \<Rightarrow> u64 \<Rightarrow> public_value \<Rightarrow> bool" where
  "storable mem box p \<longleftrightarrow>
     (case p of
        PInt n \<Rightarrow> (AER_INT47_MIN \<le> n \<and> n \<le> AER_INT47_MAX) \<or> (box AND mask 47 = box \<and> mem box = n)
      | PString q \<Rightarrow> q AND mask 48 = q | PFunction q \<Rightarrow> q AND mask 48 = q
      | PArray q \<Rightarrow> q AND mask 48 = q | PDict q \<Rightarrow> q AND mask 48 = q
      | _ \<Rightarrow> True)"

fun canonical :: "public_value \<Rightarrow> public_value" where
  "canonical (PReal d) = PReal (if is_nan_bits d then AER_BOXED_TEST else d)"
| "canonical p = p"

fun public_type :: "public_value \<Rightarrow> value_type" where
  "public_type PNull = TYPE_NULL" | "public_type (PBool _) = TYPE_BOOLEAN"
| "public_type (PInt _) = TYPE_INTEGER" | "public_type (PReal _) = TYPE_REAL"
| "public_type (PString _) = TYPE_STRING" | "public_type (PFunction _) = TYPE_FUNCTION"
| "public_type (PArray _) = TYPE_ARRAY" | "public_type (PDict _) = TYPE_DICT"

lemma from_public_type: "aer_type (aer_val_from_public box p) = public_type p"
proof (cases p)
  case (PReal d)
  then show ?thesis
    by (cases "is_nan_bits d") (simp_all add: word_views not_boxed_real aer_type_def [of d])
qed (simp_all add: word_views)

lemma as_int_word:
  assumes "storable mem box (PInt n)"
  shows "aer_as_int mem (aer_int_word box n) = n"
proof (cases "AER_INT47_MIN \<le> n \<and> n \<le> AER_INT47_MAX")
  case True
  then have w: "aer_int_word box n = boxed TYPE_INTEGER (word_of_int n AND mask 47)"
    by (simp add: word_views)
  have "\<not> aer_int_is_boxed (aer_int_word box n)"
    by (simp add: w aer_int_is_boxed_def bigflag_boxed bit_simps)
  moreover have "aer_int_word box n AND AER_INT47_MASK = word_of_int n AND mask 47"
    by (simp add: w box_masks low_mask)
  ultimately show ?thesis
    using sign_extend_47 [of n] True by (auto simp: aer_as_int_def Let_def box_masks split: if_splits)
next
  case False
  then have w: "aer_int_word box n = boxed TYPE_INTEGER (AER_BIGFLAG_BIT OR (box AND mask 47))"
    by (simp only: aer_int_boxed if_False)
  have "aer_int_is_boxed (aer_int_word box n)"
    unfolding w by (simp add: aer_int_is_boxed_def bigflag_boxed boxed_type bit_simps)
  moreover have "aer_int_box_ptr (aer_int_word box n) = box AND mask 47"
    unfolding w aer_int_box_ptr_def box_masks
    by (simp add: low_mask) (rule bit_word_eqI, auto simp: bit_simps)
  ultimately show ?thesis using assms False by (auto simp: aer_as_int_def storable_def)
qed

section \<open>Properties\<close>

text \<open>C29: Every public value that fits the encoding comes back unchanged through
  \<^verbatim>\<open>aer_val_from_public\<close> and \<^verbatim>\<open>aer_val_to_public\<close>, with its type: null, both booleans, every
  64-bit integer (inline in 47 bits or in a \<open>long_pool\<close> cell), every double up to NaN
  canonicalisation, and every pointer below the payload bound. In particular no double, infinities
  and negative NaNs included, is ever taken for a boxed value.\<close>

theorem value_roundtrip:
  assumes "storable mem box p"
  shows "aer_val_to_public mem (aer_val_from_public box p) = canonical p \<and>
    aer_type (aer_val_from_public box p) = public_type p"
proof (cases p)
  case (PInt n)
  then show ?thesis
    using as_int_word [of mem box n] assms from_public_type [of box p]
    by (simp add: aer_val_to_public_def)
next
  case (PReal d)
  show ?thesis
  proof (cases "is_nan_bits d")
    case True
    then show ?thesis
      using from_public_type [of box p] PReal
      by (simp add: aer_val_to_public_def word_views aer_as_real_def)
  next
    case False
    then show ?thesis
      using from_public_type [of box p] PReal not_boxed_real [of d]
      by (simp add: aer_val_to_public_def word_views aer_as_real_def)
  qed
qed (use assms in \<open>simp_all add: aer_val_to_public_def from_public_type word_views storable_def
       bit_simps\<close>)

theorem value_roundtrip_witness:
  "aer_val_to_public (\<lambda>_. 2 ^ 62) (aer_val_from_public 4096 (PInt (2 ^ 62))) = PInt (2 ^ 62)"
proof -
  have "storable (\<lambda>_. 2 ^ 62) 4096 (PInt (2 ^ 62))"
    by (simp add: storable_def mask_eq_exp_minus_1)
  from value_roundtrip [OF this] show ?thesis by simp
qed

end
