(* ===== verification/Values.thy ===== *)
theory Values
  imports Pool HashTable ValueBox
begin

text \<open>
  The values and heap objects of the runtime (\<^verbatim>\<open>source/value.h\<close>, \<^verbatim>\<open>AerDict\<close> of
  \<^verbatim>\<open>source/core/vm.h\<close>) and the six slab pools of \<^verbatim>\<open>source/core/vm.c\<close> with the allocation
  functions over them.

  A value is the decoded view of a NaN-boxed word (theory \<open>ValueBox\<close>): a pointer is a cell of the
  pool of its type, and an integer outside the 47-bit inline range is a cell of \<open>long_pool\<close>. The
  \<^verbatim>\<open>malloc\<close>ed buffers an object owns exclusively (string bytes, array items, the upvalue pointers
  of a closure) are stored in its cell; their capacities, which only steer \<^verbatim>\<open>realloc\<close>, are left
  out. A captured variable lives in a box: a cell of \<open>closure_box_pool\<close>, or the \<^verbatim>\<open>malloc\<close>ed
  payload of an overflowed scope.
\<close>

datatype val =
  VNull | VBool bool | VInt int | VBig ptr | VReal u64 | VString ptr | VFunction ptr | VArray ptr | VDict ptr

fun vtype :: "val \<Rightarrow> value_type" where
  "vtype VNull = TYPE_NULL" | "vtype (VBool _) = TYPE_BOOLEAN" | "vtype (VInt _) = TYPE_INTEGER"
| "vtype (VBig _) = TYPE_INTEGER" | "vtype (VReal _) = TYPE_REAL" | "vtype (VString _) = TYPE_STRING"
| "vtype (VFunction _) = TYPE_FUNCTION" | "vtype (VArray _) = TYPE_ARRAY" | "vtype (VDict _) = TYPE_DICT"

text \<open>A box pointer, and the type of the things a write barrier remembers.\<close>

datatype box_ref = BoxCell ptr | BoxOvf nat

datatype remembered = REMEMBERED_ARRAY ptr | REMEMBERED_DICT ptr | REMEMBERED_BOX box_ref

record aer_array =
  items :: "val list"
  shape :: "nat option"

record aer_function =
  defaults :: "val list option"
  upvalues :: "box_ref list option"
  code_offset :: nat
  arity :: nat
  min_arity :: nat
  receiver_type :: nat
  upvalue_count :: nat
  has_receiver :: bool

text \<open>
  The process-wide heap state: the pools and their shared allocation counter, the payloads of
  overflowed scopes (\<open>None\<close> once freed), the remembered set, and the collector's settings and
  counters.
\<close>

record heap =
  string_pool :: "string pool"
  array_pool :: "aer_array pool"
  dict_pool :: "val hashtable pool"
  function_pool :: "aer_function pool"
  closure_box_pool :: "val pool"
  long_pool :: "int pool"
  ovf_boxes :: "val option list"
  pool_total_alloc_count :: nat
  remembered_set :: "remembered list"
  minor_gc_threshold :: nat
  major_gc_every_n_minor :: nat
  gc_live_cell_ceiling :: nat
  minor_collections_run :: nat
  major_collections_run :: nat
  minor_since_major :: nat
  gc_suppress_depth :: nat

definition heap_init :: heap where
  "heap_init =
     \<lparr>string_pool = pool_init 256, array_pool = pool_init 256, dict_pool = pool_init 64,
      function_pool = pool_init 64, closure_box_pool = pool_init 64, long_pool = pool_init 64,
      ovf_boxes = [], pool_total_alloc_count = 0, remembered_set = [],
      minor_gc_threshold = 2048, major_gc_every_n_minor = 10, gc_live_cell_ceiling = 0,
      minor_collections_run = 0, major_collections_run = 0, minor_since_major = 0,
      gc_suppress_depth = 0\<rparr>"

section \<open>Allocation\<close>

definition count_alloc :: "heap \<Rightarrow> heap" where
  "count_alloc h = h\<lparr>pool_total_alloc_count := u32 (pool_total_alloc_count h + 1)\<rparr>"

definition aer_make_string :: "heap \<Rightarrow> string \<Rightarrow> (val \<times> heap) option" where
  "aer_make_string h data =
     do { (c, p) \<leftarrow> pool_new (string_pool h) data;
          Some (VString c, (count_alloc h)\<lparr>string_pool := p\<rparr>) }"

definition new_array :: "heap \<Rightarrow> aer_array \<Rightarrow> (val \<times> heap) option" where
  "new_array h a =
     do { (c, p) \<leftarrow> pool_new (array_pool h) a;
          Some (VArray c, (count_alloc h)\<lparr>array_pool := p\<rparr>) }"

definition new_dict :: "heap \<Rightarrow> val hashtable \<Rightarrow> (val \<times> heap) option" where
  "new_dict h d =
     do { (c, p) \<leftarrow> pool_new (dict_pool h) d;
          Some (VDict c, (count_alloc h)\<lparr>dict_pool := p\<rparr>) }"

definition new_function :: "heap \<Rightarrow> aer_function \<Rightarrow> (ptr \<times> heap) option" where
  "new_function h f =
     do { (c, p) \<leftarrow> pool_new (function_pool h) f;
          Some (c, (count_alloc h)\<lparr>function_pool := p\<rparr>) }"

definition new_box :: "heap \<Rightarrow> val \<Rightarrow> (ptr \<times> heap) option" where
  "new_box h v =
     do { (c, p) \<leftarrow> pool_new (closure_box_pool h) v;
          Some (c, (count_alloc h)\<lparr>closure_box_pool := p\<rparr>) }"

definition aer_int :: "heap \<Rightarrow> int \<Rightarrow> (val \<times> heap) option" where
  "aer_int h n =
     (if AER_INT47_MIN \<le> n \<and> n \<le> AER_INT47_MAX then Some (VInt n, h)
      else do { (c, p) \<leftarrow> pool_new (long_pool h) n;
                Some (VBig c, (count_alloc h)\<lparr>long_pool := p\<rparr>) })"

section \<open>Reading values\<close>

definition aer_as_int_v :: "heap \<Rightarrow> val \<Rightarrow> int option" where
  "aer_as_int_v h v =
     (case v of VInt n \<Rightarrow> Some n | VBig c \<Rightarrow> pool_read (long_pool h) c | _ \<Rightarrow> None)"

definition str_of :: "heap \<Rightarrow> val \<Rightarrow> string option" where
  "str_of h v = (case v of VString c \<Rightarrow> pool_read (string_pool h) c | _ \<Rightarrow> None)"

definition arr_of :: "heap \<Rightarrow> val \<Rightarrow> aer_array option" where
  "arr_of h v = (case v of VArray c \<Rightarrow> pool_read (array_pool h) c | _ \<Rightarrow> None)"

definition dict_of :: "heap \<Rightarrow> val \<Rightarrow> val hashtable option" where
  "dict_of h v = (case v of VDict c \<Rightarrow> pool_read (dict_pool h) c | _ \<Rightarrow> None)"

definition fun_of :: "heap \<Rightarrow> val \<Rightarrow> aer_function option" where
  "fun_of h v = (case v of VFunction c \<Rightarrow> pool_read (function_pool h) c | _ \<Rightarrow> None)"

definition read_ovf :: "heap \<Rightarrow> nat \<Rightarrow> val option" where
  "read_ovf h b = (if b < length (ovf_boxes h) then ovf_boxes h ! b else None)"

definition read_box :: "heap \<Rightarrow> box_ref \<Rightarrow> val option" where
  "read_box h b =
     (case b of BoxCell c \<Rightarrow> pool_read (closure_box_pool h) c | BoxOvf i \<Rightarrow> read_ovf h i)"

definition write_ovf :: "heap \<Rightarrow> nat \<Rightarrow> val \<Rightarrow> heap option" where
  "write_ovf h b v =
     (case read_ovf h b of None \<Rightarrow> None | Some _ \<Rightarrow> Some (h\<lparr>ovf_boxes := (ovf_boxes h)[b := Some v]\<rparr>))"

definition write_box :: "heap \<Rightarrow> box_ref \<Rightarrow> val \<Rightarrow> heap option" where
  "write_box h b v =
     (case b of
        BoxCell c \<Rightarrow> do { p \<leftarrow> pool_write (closure_box_pool h) c v; Some (h\<lparr>closure_box_pool := p\<rparr>) }
      | BoxOvf i \<Rightarrow> write_ovf h i v)"

definition new_ovf :: "heap \<Rightarrow> val \<Rightarrow> nat \<times> heap" where
  "new_ovf h v = (length (ovf_boxes h), h\<lparr>ovf_boxes := ovf_boxes h @ [Some v]\<rparr>)"

definition free_ovf :: "heap \<Rightarrow> nat list \<Rightarrow> heap" where
  "free_ovf h bs = h\<lparr>ovf_boxes := fold (\<lambda>b xs. xs[b := None]) bs (ovf_boxes h)\<rparr>"

lemmas heap_reads = str_of_def arr_of_def dict_of_def fun_of_def read_box_def

section \<open>Objects\<close>

text \<open>The heap cell a value refers to, if any.\<close>

datatype obj = OStr ptr | OArr ptr | ODict ptr | OFun ptr | OBig ptr

fun obj_of :: "val \<Rightarrow> obj option" where
  "obj_of (VString c) = Some (OStr c)" | "obj_of (VArray c) = Some (OArr c)"
| "obj_of (VDict c) = Some (ODict c)" | "obj_of (VFunction c) = Some (OFun c)"
| "obj_of (VBig c) = Some (OBig c)" | "obj_of _ = None"

fun obj_live :: "heap \<Rightarrow> obj \<Rightarrow> bool" where
  "obj_live h (OStr c) \<longleftrightarrow> c \<in> live (string_pool h)"
| "obj_live h (OArr c) \<longleftrightarrow> c \<in> live (array_pool h)"
| "obj_live h (ODict c) \<longleftrightarrow> c \<in> live (dict_pool h)"
| "obj_live h (OFun c) \<longleftrightarrow> c \<in> live (function_pool h)"
| "obj_live h (OBig c) \<longleftrightarrow> c \<in> live (long_pool h)"

fun obj_flag :: "heap \<Rightarrow> nat \<Rightarrow> obj \<Rightarrow> bool" where
  "obj_flag h n (OStr c) \<longleftrightarrow> flagged (string_pool h) n c"
| "obj_flag h n (OArr c) \<longleftrightarrow> flagged (array_pool h) n c"
| "obj_flag h n (ODict c) \<longleftrightarrow> flagged (dict_pool h) n c"
| "obj_flag h n (OFun c) \<longleftrightarrow> flagged (function_pool h) n c"
| "obj_flag h n (OBig c) \<longleftrightarrow> flagged (long_pool h) n c"

text \<open>What an object's cell holds.\<close>

datatype content = CStr string | CArr aer_array | CDict "val hashtable" | CFun aer_function | CBig int

fun obj_content :: "heap \<Rightarrow> obj \<Rightarrow> content option" where
  "obj_content h (OStr c) = map_option CStr (pool_read (string_pool h) c)"
| "obj_content h (OArr c) = map_option CArr (pool_read (array_pool h) c)"
| "obj_content h (ODict c) = map_option CDict (pool_read (dict_pool h) c)"
| "obj_content h (OFun c) = map_option CFun (pool_read (function_pool h) c)"
| "obj_content h (OBig c) = map_option CBig (pool_read (long_pool h) c)"

definition pools_inv :: "heap \<Rightarrow> bool" where
  "pools_inv h \<longleftrightarrow> pool_inv (string_pool h) \<and> pool_inv (array_pool h) \<and> pool_inv (dict_pool h) \<and>
     pool_inv (function_pool h) \<and> pool_inv (closure_box_pool h) \<and> pool_inv (long_pool h)"

lemma pools_invD:
  assumes "pools_inv h"
  shows "pool_inv (string_pool h)" "pool_inv (array_pool h)" "pool_inv (dict_pool h)"
    "pool_inv (function_pool h)" "pool_inv (closure_box_pool h)" "pool_inv (long_pool h)"
  using assms by (auto simp: pools_inv_def)

lemma heap_init_inv: "pools_inv heap_init"
  by (simp add: pools_inv_def heap_init_def pool_init_inv)

end
