(* ===== verification/Machine.thy ===== *)
theory Machine
  imports Values
begin

text \<open>
  The machine the byte code runs on: struct shapes, chunks, scopes, call frames, one VM per
  source file (\<^verbatim>\<open>source/core/vm.h\<close>), and the process state around the VM that is running: the
  heap, the file modules, the error flag, what was printed, the state of \<^verbatim>\<open>rand()\<close> and how often
  the clock was read.

  Fixed C arrays with a fill count are lists of the filled part (the stack with its top first,
  the call stack, the pending captures), except the scopes and their slots, whose stale
  contents later code can still see: they keep all \<^verbatim>\<open>VM_SCOPE_MAX\<close> scopes and
  \<^verbatim>\<open>SCOPE_SLOT_MAX\<close> slots beside their counts.
\<close>

definition VM_STACK_MAX :: nat where "VM_STACK_MAX = 256"
definition VM_SCOPE_MAX :: nat where "VM_SCOPE_MAX = 64"
definition VM_CALL_MAX :: nat where "VM_CALL_MAX = 64"
definition SCOPE_SLOT_MAX :: nat where "SCOPE_SLOT_MAX = 24"
definition VM_KEY_MAX :: nat where "VM_KEY_MAX = 4096"
definition MAX_STRUCT_FIELDS :: nat where "MAX_STRUCT_FIELDS = 16"
definition MAX_CAPTURES :: nat where "MAX_CAPTURES = 16"
definition MAX_DEFERS_PER_CALL :: nat where "MAX_DEFERS_PER_CALL = 8"
definition MAX_DEFER_ARGS :: nat where "MAX_DEFER_ARGS = 8"

lemmas vm_limits = VM_STACK_MAX_def VM_SCOPE_MAX_def VM_CALL_MAX_def SCOPE_SLOT_MAX_def
  VM_KEY_MAX_def MAX_STRUCT_FIELDS_def MAX_CAPTURES_def MAX_DEFERS_PER_CALL_def MAX_DEFER_ARGS_def

text \<open>
  A \<^verbatim>\<open>Shape*\<close> is the number of a shape in the order of their allocation; shapes are never freed
  or moved.
\<close>

record shape_rec =
  sh_name :: nat
  field_names :: "nat list"
  field_defaults :: "val list"

text \<open>
  A cached address points at the inline value of a slot of the global scope; it is the number
  of that slot.
\<close>

record chunk =
  code :: "int list"
  cpool :: "val list"
  name_index :: "nat hashtable"
  chunk_shapes :: "nat list"
  imported_modules :: "string list"
  line_marks :: "(nat \<times> nat) list"
  addr_cache :: "nat option list"

record scope_slot =
  sl_name :: nat
  sl_val :: val
  sl_box :: "box_ref option"

record aer_scope =
  slots :: "scope_slot list"
  scount :: nat
  overflow :: bool
  smap :: "nat hashtable"
  overflow_has_captures :: bool

record deferred_call =
  name_idx :: nat
  dargs :: "val list"

record call_frame =
  return_ip :: nat
  return_scope_depth :: nat
  fr_upvalues :: "box_ref list option"
  fr_function :: "ptr option"
  defers :: "deferred_call list"
  defers_draining :: bool
  pending_return_value :: val

record vm =
  ip :: nat
  stack :: "val list"
  scopes :: "aer_scope list"
  scope_depth :: nat
  call_stack :: "call_frame list"
  pending_upvalues :: "box_ref list"

text \<open>The innermost call frame is the head of \<open>call_stack\<close>.\<close>

abbreviation call_depth :: "vm \<Rightarrow> nat" where
  "call_depth v \<equiv> length (call_stack v)"

abbreviation stack_top :: "vm \<Rightarrow> nat" where
  "stack_top v \<equiv> length (stack v)"

record file_module =
  mod_name :: string
  mod_chunk :: chunk
  mod_vm :: vm
  halt_addr :: nat

record mach =
  heap :: heap
  shapes :: "shape_rec list"
  modules :: "file_module list"
  runtime_had_error :: bool
  error_log :: "string list"
  assert_failures :: nat
  printed :: "string list"
  rng :: nat
  clock_reads :: nat
  vm :: vm
  chunk :: chunk

section \<open>Initial states\<close>

definition chunk_init :: chunk where
  "chunk_init = \<lparr>code = [], cpool = [], name_index = ht_zero False, chunk_shapes = [],
     imported_modules = [], line_marks = [], addr_cache = []\<rparr>"

definition slot_zero :: scope_slot where
  "slot_zero = \<lparr>sl_name = 0, sl_val = VReal 0, sl_box = None\<rparr>"

definition scope_zero :: aer_scope where
  "scope_zero = \<lparr>slots = replicate SCOPE_SLOT_MAX slot_zero, scount = 0, overflow = False,
     smap = ht_zero False, overflow_has_captures = False\<rparr>"

definition vm_init :: vm where
  "vm_init = \<lparr>ip = 0, stack = [], scopes = replicate VM_SCOPE_MAX scope_zero, scope_depth = 1,
     call_stack = [], pending_upvalues = []\<rparr>"

definition mach_init :: mach where
  "mach_init = \<lparr>heap = heap_init, shapes = [], modules = [], runtime_had_error = False,
     error_log = [], assert_failures = 0, printed = [], rng = 1, clock_reads = 0, vm = vm_init, chunk = chunk_init\<rparr>"

text \<open>\<^verbatim>\<open>error()\<close>: the flag and the message, without its line prefix.\<close>

definition error :: "string \<Rightarrow> mach \<Rightarrow> mach" where
  "error msg m = m\<lparr>runtime_had_error := True, error_log := error_log m @ [msg]\<rparr>"

lemma error_simps [simp]:
  "heap (error s m) = heap m" "vm (error s m) = vm m" "chunk (error s m) = chunk m"
  "shapes (error s m) = shapes m" "modules (error s m) = modules m" "printed (error s m) = printed m"
  "runtime_had_error (error s m) = True" "rng (error s m) = rng m" "clock_reads (error s m) = clock_reads m"
  by (simp_all add: error_def)

end
