(* ===== verification/Float64.thy ===== *)
theory Float64
  imports ValueBox
begin

text \<open>
  What the interpreter uses of C's \<^verbatim>\<open>double\<close>: the IEEE-754 binary64 operations on bit patterns
  (round to nearest, ties to even), \<^verbatim>\<open>floor\<close>, \<^verbatim>\<open>fmod\<close>, the conversions from and to
  \<^verbatim>\<open>long long\<close>, and \<^verbatim>\<open>printf\<close> of \<^verbatim>\<open>%lld\<close> and \<^verbatim>\<open>%g\<close>. All of it computes.
\<close>

section \<open>Bit patterns\<close>

text \<open>\<open>FFin s m e\<close> is \<open>(-1)^s * m * 2^e\<close>.\<close>

datatype fnum = FNan | FInf bool | FFin bool nat int

definition f_sign :: "u64 \<Rightarrow> bool" where "f_sign d \<longleftrightarrow> bit d 63"
definition f_expo :: "u64 \<Rightarrow> nat" where "f_expo d = unat (drop_bit 52 d AND 0x7FF)"
definition f_mant :: "u64 \<Rightarrow> nat" where "f_mant d = unat (d AND 0x000FFFFFFFFFFFFF)"

definition f_decode :: "u64 \<Rightarrow> fnum" where
  "f_decode d =
     (if f_expo d = 2047 then (if f_mant d = 0 then FInf (f_sign d) else FNan)
      else if f_expo d = 0 then FFin (f_sign d) (f_mant d) (- 1074)
      else FFin (f_sign d) (f_mant d + 2 ^ 52) (int (f_expo d) - 1075))"

definition f_pack :: "bool \<Rightarrow> nat \<Rightarrow> u64" where
  "f_pack s n = of_nat ((if s then 2 ^ 63 else 0) + n)"

definition f_nan :: u64 where "f_nan = 0x7FF8000000000000"
definition f_inf :: "bool \<Rightarrow> u64" where "f_inf s = f_pack s (2047 * 2 ^ 52)"
definition f_zero :: "bool \<Rightarrow> u64" where "f_zero s = f_pack s 0"

fun bitlen :: "nat \<Rightarrow> nat" where
  "bitlen n = (if n = 0 then 0 else 1 + bitlen (n div 2))"

declare bitlen.simps [simp del]

text \<open>Division rounded to nearest, ties to even.\<close>

definition div_rne :: "nat \<Rightarrow> nat \<Rightarrow> nat" where
  "div_rne n d =
     (let q = n div d; r = n mod d
      in if d < 2 * r \<or> (2 * r = d \<and> odd q) then q + 1 else q)"

text \<open>\<open>n / d\<close> scaled by \<open>2 ^ -e\<close>, as a quotient of naturals.\<close>

definition scale_rne :: "nat \<Rightarrow> nat \<Rightarrow> int \<Rightarrow> nat" where
  "scale_rne n d e =
     (if e \<ge> 0 then div_rne n (d * 2 ^ nat e) else div_rne (n * 2 ^ nat (- e)) d)"

text \<open>The double nearest to \<open>(-1)^s * n / d\<close>.\<close>

definition round_frac :: "bool \<Rightarrow> nat \<Rightarrow> nat \<Rightarrow> u64" where
  "round_frac s n d =
     (if n = 0 then f_zero s
      else let e0 = int (bitlen n) - int (bitlen d) - 53;
               big = (if e0 \<ge> 0 then n \<ge> d * 2 ^ nat (e0 + 53) else n * 2 ^ nat (- e0) \<ge> d * 2 ^ 53);
               e = max (if big then e0 + 1 else e0) (- 1074);
               q = scale_rne n d e
           in if q < 2 ^ 52 then f_pack s q
              else let w = nat (e + 1075) * 2 ^ 52 + (q - 2 ^ 52)
                   in if w \<ge> 2047 * 2 ^ 52 then f_inf s else f_pack s w)"

definition round_dyadic :: "bool \<Rightarrow> nat \<Rightarrow> int \<Rightarrow> u64" where
  "round_dyadic s m e =
     (if e \<ge> 0 then round_frac s (m * 2 ^ nat e) 1 else round_frac s m (2 ^ nat (- e)))"

section \<open>Arithmetic\<close>

definition signed :: "bool \<Rightarrow> nat \<Rightarrow> int" where
  "signed s m = (if s then - int m else int m)"

definition f_neg :: "u64 \<Rightarrow> u64" where "f_neg d = d XOR 0x8000000000000000"

definition f_add :: "u64 \<Rightarrow> u64 \<Rightarrow> u64" where
  "f_add a b =
     (case (f_decode a, f_decode b) of
        (FNan, _) \<Rightarrow> f_nan | (_, FNan) \<Rightarrow> f_nan
      | (FInf s, FInf t) \<Rightarrow> if s = t then f_inf s else f_nan
      | (FInf s, _) \<Rightarrow> f_inf s | (_, FInf t) \<Rightarrow> f_inf t
      | (FFin s m e, FFin t n g) \<Rightarrow>
          (let k = min e g;
               x = signed s m * 2 ^ nat (e - k) + signed t n * 2 ^ nat (g - k)
           in if x = 0 then f_zero (s \<and> t) else round_dyadic (x < 0) (nat \<bar>x\<bar>) k))"

definition f_sub :: "u64 \<Rightarrow> u64 \<Rightarrow> u64" where "f_sub a b = f_add a (f_neg b)"

definition f_mul :: "u64 \<Rightarrow> u64 \<Rightarrow> u64" where
  "f_mul a b =
     (case (f_decode a, f_decode b) of
        (FNan, _) \<Rightarrow> f_nan | (_, FNan) \<Rightarrow> f_nan
      | (FInf s, FInf t) \<Rightarrow> f_inf (s \<noteq> t)
      | (FInf s, FFin t n _) \<Rightarrow> if n = 0 then f_nan else f_inf (s \<noteq> t)
      | (FFin s m _, FInf t) \<Rightarrow> if m = 0 then f_nan else f_inf (s \<noteq> t)
      | (FFin s m e, FFin t n g) \<Rightarrow> round_dyadic (s \<noteq> t) (m * n) (e + g))"

definition f_div :: "u64 \<Rightarrow> u64 \<Rightarrow> u64" where
  "f_div a b =
     (case (f_decode a, f_decode b) of
        (FNan, _) \<Rightarrow> f_nan | (_, FNan) \<Rightarrow> f_nan
      | (FInf s, FInf t) \<Rightarrow> f_nan
      | (FInf s, FFin t _ _) \<Rightarrow> f_inf (s \<noteq> t)
      | (FFin s _ _, FInf t) \<Rightarrow> f_zero (s \<noteq> t)
      | (FFin s m e, FFin t n g) \<Rightarrow>
          if n = 0 then (if m = 0 then f_nan else f_inf (s \<noteq> t))
          else let k = e - g
               in if k \<ge> 0 then round_frac (s \<noteq> t) (m * 2 ^ nat k) n
                  else round_frac (s \<noteq> t) m (n * 2 ^ nat (- k)))"

definition f_fmod :: "u64 \<Rightarrow> u64 \<Rightarrow> u64" where
  "f_fmod a b =
     (case (f_decode a, f_decode b) of
        (FNan, _) \<Rightarrow> f_nan | (_, FNan) \<Rightarrow> f_nan
      | (FInf s, _) \<Rightarrow> f_nan
      | (FFin _ _ _, FInf _) \<Rightarrow> a
      | (FFin s m e, FFin t n g) \<Rightarrow>
          if n = 0 then f_nan
          else let k = min e g
               in round_dyadic s ((m * 2 ^ nat (e - k)) mod (n * 2 ^ nat (g - k))) k)"

text \<open>The integer part towards minus infinity of a finite value.\<close>

definition floor_fin :: "bool \<Rightarrow> nat \<Rightarrow> int \<Rightarrow> int" where
  "floor_fin s m e =
     (if e \<ge> 0 then signed s m * 2 ^ nat e else signed s m div 2 ^ nat (- e))"

definition trunc_fin :: "bool \<Rightarrow> nat \<Rightarrow> int \<Rightarrow> int" where
  "trunc_fin s m e =
     (if e \<ge> 0 then signed s m * 2 ^ nat e else signed s (m div 2 ^ nat (- e)))"

definition f_floor :: "u64 \<Rightarrow> u64" where
  "f_floor d =
     (case f_decode d of
        FFin s m e \<Rightarrow> (let x = floor_fin s m e in if x = 0 then f_zero s else round_dyadic (x < 0) (nat \<bar>x\<bar>) 0)
      | _ \<Rightarrow> d)"

section \<open>Comparison and conversion\<close>

definition f_less :: "u64 \<Rightarrow> u64 \<Rightarrow> bool" where
  "f_less a b =
     (case (f_decode a, f_decode b) of
        (FNan, _) \<Rightarrow> False | (_, FNan) \<Rightarrow> False
      | (FInf s, FInf t) \<Rightarrow> s \<and> \<not> t
      | (FInf s, _) \<Rightarrow> s | (_, FInf t) \<Rightarrow> \<not> t
      | (FFin s m e, FFin t n g) \<Rightarrow>
          (let k = min e g
           in signed s m * 2 ^ nat (e - k) < signed t n * 2 ^ nat (g - k)))"

definition is_zero_bits :: "u64 \<Rightarrow> bool" where
  "is_zero_bits d \<longleftrightarrow> d AND 0x7FFFFFFFFFFFFFFF = 0"

text \<open>\<^verbatim>\<open>==\<close> on doubles.\<close>

definition real_eq :: "u64 \<Rightarrow> u64 \<Rightarrow> bool" where
  "real_eq a b \<longleftrightarrow> \<not> is_nan_bits a \<and> \<not> is_nan_bits b \<and> (a = b \<or> is_zero_bits a \<and> is_zero_bits b)"

definition f_le :: "u64 \<Rightarrow> u64 \<Rightarrow> bool" where
  "f_le a b \<longleftrightarrow> f_less a b \<or> real_eq a b"

definition f_of_int :: "int \<Rightarrow> u64" where
  "f_of_int n = round_dyadic (n < 0) (nat \<bar>n\<bar>) 0"

text \<open>\<^verbatim>\<open>(long long)d\<close>: undefined when the truncated value does not fit.\<close>

definition f_to_int :: "u64 \<Rightarrow> int option" where
  "f_to_int d =
     (case f_decode d of
        FFin s m e \<Rightarrow> (let x = trunc_fin s m e in if in_i64 x then Some x else None)
      | _ \<Rightarrow> None)"

section \<open>Formatting\<close>

definition digit_char :: "nat \<Rightarrow> char" where
  "digit_char n = char_of (48 + n)"

fun show_nat :: "nat \<Rightarrow> string" where
  "show_nat n = (if n < 10 then [digit_char n] else show_nat (n div 10) @ [digit_char (n mod 10)])"

declare show_nat.simps [simp del]

definition show_int :: "int \<Rightarrow> string" where
  "show_int n = (if n < 0 then CHR ''-'' # show_nat (nat (- n)) else show_nat (nat n))"

text \<open>The decimal exponent of \<open>n / d\<close>: \<open>10 ^ x \<le> n / d < 10 ^ (x + 1)\<close>.\<close>

definition dec_exp :: "nat \<Rightarrow> nat \<Rightarrow> int" where
  "dec_exp n d =
     (let lens = int (length (show_nat n)) - int (length (show_nat d))
      in if (if lens \<ge> 0 then n \<ge> d * 10 ^ nat lens else n * 10 ^ nat (- lens) \<ge> d)
         then lens else lens - 1)"

definition strip_zeros :: "string \<Rightarrow> string" where
  "strip_zeros s = rev (dropWhile (\<lambda>c. c = CHR ''0'') (rev s))"

definition point :: "string \<Rightarrow> string \<Rightarrow> string" where
  "point a b = (if b = [] then a else a @ CHR ''.'' # b)"

text \<open>\<^verbatim>\<open>%g\<close> of a positive fraction: six significant digits, trailing zeros dropped.\<close>

definition g_digits :: "nat \<Rightarrow> nat \<Rightarrow> nat \<times> int" where
  "g_digits n d =
     (let x = dec_exp n d; k = 5 - x;
          q = (if k \<ge> 0 then div_rne (n * 10 ^ nat k) d else div_rne n (d * 10 ^ nat (- k)))
      in if q = 1000000 then (100000, x + 1) else (q, x))"

definition g_pos :: "nat \<Rightarrow> nat \<Rightarrow> string" where
  "g_pos n d =
     (let (q, x) = g_digits n d; ds = show_nat q
      in if - 4 \<le> x \<and> x < 6
         then (if x \<ge> 0 then point (take (nat x + 1) ds) (strip_zeros (drop (nat x + 1) ds))
               else ''0.'' @ replicate (nat (- x - 1)) (CHR ''0'') @ strip_zeros ds)
         else point (take 1 ds) (strip_zeros (drop 1 ds)) @ CHR ''e'' #
              (if x < 0 then CHR ''-'' else CHR ''+'') #
              (if \<bar>x\<bar> < 10 then CHR ''0'' # show_nat (nat \<bar>x\<bar>) else show_nat (nat \<bar>x\<bar>)))"

definition format_g :: "u64 \<Rightarrow> string" where
  "format_g d =
     (if f_sign d then ''-'' else '''') @
     (case f_decode d of
        FNan \<Rightarrow> ''nan''
      | FInf _ \<Rightarrow> ''inf''
      | FFin _ m e \<Rightarrow>
          if m = 0 then ''0''
          else if e \<ge> 0 then g_pos (m * 2 ^ nat e) 1 else g_pos m (2 ^ nat (- e)))"

end
