(* ===== verification/Chunk.thy ===== *)
theory Chunk
  imports Machine Float64
begin

text \<open>
  Building and querying a chunk (\<^verbatim>\<open>source/core/vm.c\<close>, chunk management): emitted words, the
  deduplicating constant pool with its name index, line marks and their binary search, inline
  cache slots, struct shapes, recorded imports.
\<close>

section \<open>Operations\<close>

definition chunk_emit :: "int \<Rightarrow> chunk \<Rightarrow> chunk" where
  "chunk_emit word c = c\<lparr>code := code c @ [word]\<rparr>"

definition chunk_add_addr_cache :: "chunk \<Rightarrow> nat \<times> chunk" where
  "chunk_add_addr_cache c = (length (addr_cache c), c\<lparr>addr_cache := addr_cache c @ [None]\<rparr>)"

definition chunk_mark_line :: "nat \<Rightarrow> nat \<Rightarrow> chunk \<Rightarrow> chunk" where
  "chunk_mark_line offset line c =
     (if line_marks c \<noteq> [] \<and> fst (last (line_marks c)) \<ge> offset then c
      else c\<lparr>line_marks := line_marks c @ [(offset, line)]\<rparr>)"

text \<open>The binary search of \<^verbatim>\<open>chunk_line_for_offset\<close>: the first mark beyond the offset.\<close>

function line_search :: "(nat \<times> nat) list \<Rightarrow> nat \<Rightarrow> nat \<Rightarrow> nat \<Rightarrow> nat" where
  "line_search ms offset lo hi =
     (if lo < hi
      then let mid = lo + (hi - lo) div 2
           in if fst (ms ! mid) \<le> offset then line_search ms offset (mid + 1) hi
              else line_search ms offset lo mid
      else lo)"
  by pat_completeness auto
termination
  by (relation "measure (\<lambda>(ms, offset, lo, hi). hi - lo)") (auto simp: Let_def)

declare line_search.simps [simp del]

definition chunk_line_for_offset :: "chunk \<Rightarrow> nat \<Rightarrow> nat" where
  "chunk_line_for_offset c offset =
     (if line_marks c = [] then 0
      else let lo = line_search (line_marks c) offset 0 (length (line_marks c))
           in if lo = 0 then 0 else snd (line_marks c ! (lo - 1)))"

definition chunk_pool_append :: "val \<Rightarrow> chunk \<Rightarrow> nat \<times> chunk" where
  "chunk_pool_append v c = (length (cpool c), c\<lparr>cpool := cpool c @ [v]\<rparr>)"

text \<open>The test of the scan for a non-string literal equal to \<open>v\<close>.\<close>

definition pool_match :: "heap \<Rightarrow> val \<Rightarrow> val \<Rightarrow> bool option" where
  "pool_match h e v =
     (if vtype e \<noteq> vtype v then Some False
      else case vtype v of
             TYPE_NULL \<Rightarrow> Some True
           | TYPE_INTEGER \<Rightarrow>
               do { a \<leftarrow> aer_as_int_v h e; b \<leftarrow> aer_as_int_v h v; Some (a = b) }
           | TYPE_REAL \<Rightarrow> (case (e, v) of (VReal a, VReal b) \<Rightarrow> Some (real_eq a b) | _ \<Rightarrow> None)
           | TYPE_BOOLEAN \<Rightarrow> (case (e, v) of (VBool a, VBool b) \<Rightarrow> Some (a = b) | _ \<Rightarrow> None)
           | TYPE_FUNCTION \<Rightarrow>
               do { f \<leftarrow> fun_of h e; g \<leftarrow> fun_of h v;
                    Some (code_offset f = code_offset g \<and> arity f = arity g) }
           | _ \<Rightarrow> Some False)"

fun pool_scan :: "heap \<Rightarrow> val list \<Rightarrow> val \<Rightarrow> nat \<Rightarrow> nat option option" where
  "pool_scan h [] v i = Some None"
| "pool_scan h (e # es) v i =
     do { b \<leftarrow> pool_match h e v; if b then Some (Some i) else pool_scan h es v (i + 1) }"

definition chunk_add_pool :: "val \<Rightarrow> heap \<Rightarrow> chunk \<Rightarrow> (nat \<times> chunk) option" where
  "chunk_add_pool v h c =
     (if vtype v = TYPE_STRING
      then do { key \<leftarrow> str_of h v;
                case hashmap_get (name_index c) key of
                  Some i \<Rightarrow> Some (i, c)
                | None \<Rightarrow>
                    (let (idx, c') = chunk_pool_append v c
                     in do { (t, _) \<leftarrow> hashmap_put (name_index c) (c_str key) idx;
                             Some (idx, c'\<lparr>name_index := t\<rparr>) }) }
      else do { r \<leftarrow> pool_scan h (cpool c) v 0;
                case r of Some i \<Rightarrow> Some (i, c) | None \<Rightarrow> Some (chunk_pool_append v c) })"

text \<open>The name a pool index stands for, as C code sees it.\<close>

definition pool_name :: "heap \<Rightarrow> chunk \<Rightarrow> nat \<Rightarrow> string option" where
  "pool_name h c i =
     (if i < length (cpool c) then map_option c_str (str_of h (cpool c ! i)) else None)"

fun find_shape :: "heap \<Rightarrow> shape_rec list \<Rightarrow> chunk \<Rightarrow> nat list \<Rightarrow> string \<Rightarrow> nat option option" where
  "find_shape h shs c [] name = Some None"
| "find_shape h shs c (s # ss) name =
     do { n \<leftarrow> (if s < length shs then pool_name h c (sh_name (shs ! s)) else None);
          if n = c_str name then Some (Some s) else find_shape h shs c ss name }"

text \<open>Newest first.\<close>

definition chunk_find_shape :: "heap \<Rightarrow> shape_rec list \<Rightarrow> chunk \<Rightarrow> string \<Rightarrow> nat option option" where
  "chunk_find_shape h shs c name = find_shape h shs c (rev (chunk_shapes c)) name"

definition chunk_is_imported :: "chunk \<Rightarrow> string \<Rightarrow> bool" where
  "chunk_is_imported c name \<longleftrightarrow> name \<in> set (imported_modules c)"

text \<open>
  Recording an import; \<open>resolves\<close> says whether the name is a native or host module or its file
  was loaded (\<^verbatim>\<open>aer_module_load\<close>).
\<close>

definition chunk_add_import :: "(string \<Rightarrow> bool) \<Rightarrow> string \<Rightarrow> chunk \<Rightarrow> bool \<times> chunk" where
  "chunk_add_import resolves name c =
     (if \<not> resolves name then (False, c)
      else if chunk_is_imported c name then (True, c)
      else (True, c\<lparr>imported_modules := imported_modules c @ [name]\<rparr>))"

section \<open>Line marks\<close>

definition marks_inv :: "chunk \<Rightarrow> bool" where
  "marks_inv c \<longleftrightarrow> sorted_wrt (<) (map fst (line_marks c))"

lemma line_search_post:
  assumes "sorted_wrt (<) (map fst ms)" "lo \<le> hi" "hi \<le> length ms"
    "\<And>i. i < lo \<Longrightarrow> fst (ms ! i) \<le> offset" "\<And>i. hi \<le> i \<Longrightarrow> i < length ms \<Longrightarrow> offset < fst (ms ! i)"
  shows "line_search ms offset lo hi \<le> length ms \<and>
    (\<forall>i < length ms. fst (ms ! i) \<le> offset \<longleftrightarrow> i < line_search ms offset lo hi)"
  using assms
proof (induction ms offset lo hi rule: line_search.induct)
  case (1 ms offset lo hi)
  have mono: "i < j \<Longrightarrow> j < length ms \<Longrightarrow> fst (ms ! i) < fst (ms ! j)" for i j
    using sorted_wrt_nth_less [OF "1.prems"(1), of i j] by simp
  show ?case
  proof (cases "lo < hi")
    case False
    then have "line_search ms offset lo hi = lo" by (simp add: line_search.simps)
    then show ?thesis using "1.prems" False by (metis le_less_linear le_trans linorder_not_less nat_less_le)
  next
    case True
    define mid where "mid = lo + (hi - lo) div 2"
    have mid: "lo \<le> mid" "mid < hi" using True by (auto simp: mid_def)
    show ?thesis
    proof (cases "fst (ms ! mid) \<le> offset")
      case le: True
      have eq: "line_search ms offset lo hi = line_search ms offset (mid + 1) hi"
        using line_search.simps [of ms offset lo hi] True le by (simp add: Let_def mid_def)
      have "fst (ms ! i) \<le> offset" if "i < mid + 1" for i
        using that le mono [of i mid] mid "1.prems"(3) by (cases "i = mid") auto
      then show ?thesis
        using "1.IH"(1) [OF True mid_def le] "1.prems" mid
        by (simp add: eq)
    next
      case gt: False
      have eq: "line_search ms offset lo hi = line_search ms offset lo mid"
        using line_search.simps [of ms offset lo hi] True gt by (simp add: Let_def mid_def)
      have "offset < fst (ms ! i)" if "mid \<le> i" "i < length ms" for i
        using that gt mono [of mid i] by (cases "i = mid") auto
      then show ?thesis
        using "1.IH"(2) [OF True mid_def gt] "1.prems" mid
        by (simp add: eq)
    qed
  qed
qed

lemma last_filter_split:
  assumes "k \<le> length ms" "0 < k" "\<And>i. i < length ms \<Longrightarrow> P (ms ! i) \<longleftrightarrow> i < k"
  shows "filter P ms \<noteq> [] \<and> last (filter P ms) = ms ! (k - 1)"
proof -
  have "filter P (take k ms) = take k ms"
    using assms by (intro filter_True) (auto simp: in_set_conv_nth)
  moreover have "filter P (drop k ms) = []"
    using assms by (auto simp: filter_empty_conv in_set_conv_nth)
  ultimately have "filter P ms = take k ms"
    by (metis append_Nil2 append_take_drop_id filter_append)
  moreover have ne: "take k ms \<noteq> []" using assms(1,2) by auto
  moreover have "last (take k ms) = ms ! (k - 1)"
    using last_conv_nth [OF ne] assms(1,2) by (simp add: min_def)
  ultimately show ?thesis by simp
qed

lemma marks_inv_mark_line:
  assumes "marks_inv c"
  shows "marks_inv (chunk_mark_line offset line c)"
proof (cases "line_marks c = [] \<or> fst (last (line_marks c)) < offset")
  case True
  have lt: "fst m < offset" if m: "m \<in> set (line_marks c)" for m
  proof -
    obtain ms l where ml: "line_marks c = ms @ [l]" using m by (metis empty_iff empty_set rev_exhaust)
    then have "\<forall>x \<in> set ms. fst x < fst l" using assms by (simp add: marks_inv_def sorted_wrt_append)
    moreover have "fst l < offset" using True ml by simp
    ultimately show ?thesis using m ml by fastforce
  qed
  have "chunk_mark_line offset line c = c\<lparr>line_marks := line_marks c @ [(offset, line)]\<rparr>"
    using True by (auto simp: chunk_mark_line_def)
  then show ?thesis using assms lt by (simp add: marks_inv_def sorted_wrt_append)
next
  case False
  then show ?thesis using assms by (simp add: chunk_mark_line_def)
qed

section \<open>Properties of line marks\<close>

text \<open>The lines a statement-by-statement compilation records.\<close>

inductive marked_chunk :: "chunk \<Rightarrow> bool" where
  start: "line_marks c = [] \<Longrightarrow> marked_chunk c"
| mark: "marked_chunk c \<Longrightarrow> marked_chunk (chunk_mark_line offset line c)"
| other: "marked_chunk c \<Longrightarrow> line_marks c' = line_marks c \<Longrightarrow> marked_chunk c'"

lemma marked_chunk_inv: "marked_chunk c \<Longrightarrow> marks_inv c"
proof (induction rule: marked_chunk.induct)
  case (mark c offset line)
  then show ?case by (intro marks_inv_mark_line)
qed (simp_all add: marks_inv_def)

text \<open>C30: For a chunk whose marks were recorded by \<^verbatim>\<open>chunk_mark_line\<close>, in any order of
  offsets, the binary search of \<^verbatim>\<open>chunk_line_for_offset\<close> returns the line of the last mark at or
  before the offset, and 0 when there is none; it never reads outside the mark array.\<close>

theorem line_lookup:
  assumes "marked_chunk c"
  shows "chunk_line_for_offset c offset =
    (let ms = filter (\<lambda>m. fst m \<le> offset) (line_marks c) in if ms = [] then 0 else snd (last ms)) \<and>
    line_search (line_marks c) offset 0 (length (line_marks c)) \<le> length (line_marks c)"
proof -
  let ?ms = "line_marks c"
  let ?k = "line_search ?ms offset 0 (length ?ms)"
  have k: "?k \<le> length ?ms" "\<And>i. i < length ?ms \<Longrightarrow> fst (?ms ! i) \<le> offset \<longleftrightarrow> i < ?k"
    using line_search_post [of ?ms 0 "length ?ms" offset] marked_chunk_inv [OF assms]
    by (auto simp: marks_inv_def)
  show ?thesis
  proof (cases "?k = 0")
    case True
    then have "\<not> fst m \<le> offset" if "m \<in> set ?ms" for m
      using that k(2) unfolding in_set_conv_nth by auto
    then have "filter (\<lambda>m. fst m \<le> offset) ?ms = []" by (simp add: filter_empty_conv)
    then show ?thesis using True k by (simp add: chunk_line_for_offset_def Let_def)
  next
    case False
    then have "filter (\<lambda>m. fst m \<le> offset) ?ms \<noteq> [] \<and> last (filter (\<lambda>m. fst m \<le> offset) ?ms) = ?ms ! (?k - 1)"
      using k by (intro last_filter_split) auto
    then show ?thesis using False k(1) by (auto simp: chunk_line_for_offset_def Let_def)
  qed
qed

theorem line_lookup_witness:
  "chunk_line_for_offset (chunk_mark_line 9 3 (chunk_mark_line 4 2 (chunk_mark_line 0 1 chunk_init))) 7 = 2"
proof -
  have "marked_chunk (chunk_mark_line 9 3 (chunk_mark_line 4 2 (chunk_mark_line 0 1 chunk_init)))"
    by (intro marked_chunk.intros) (simp add: chunk_init_def)
  from conjunct1 [OF line_lookup [OF this]] show ?thesis
    by (simp add: chunk_mark_line_def chunk_init_def)
qed

section \<open>The constant pool\<close>

text \<open>The name index is exactly the inverse of the pool's strings, so no string occurs twice.\<close>

definition names_ok :: "heap \<Rightarrow> chunk \<Rightarrow> bool" where
  "names_ok h c \<longleftrightarrow> ht_inv (name_index c) \<and> count (name_index c) \<le> length (cpool c) \<and>
     (\<forall>k i. hashmap_get (name_index c) k = Some i \<longleftrightarrow> pool_name h c i = Some (c_str k))"

lemma pool_name_snoc:
  "pool_name h (c\<lparr>cpool := cpool c @ [v], name_index := t\<rparr>) i =
     (if i = length (cpool c) then map_option c_str (str_of h v) else pool_name h c i)"
  by (auto simp: pool_name_def nth_append)

lemma str_of_string: "str_of h v = Some s \<Longrightarrow> vtype v = TYPE_STRING"
  by (cases v) (simp_all add: str_of_def)

lemma str_of_other: "vtype v \<noteq> TYPE_STRING \<Longrightarrow> str_of h v = None"
  by (cases v) (simp_all add: str_of_def)

lemma add_pool_string:
  assumes ok: "names_ok h c" and s: "str_of h v = Some s" and room: "length (cpool c) < HT_COUNT_SAFE"
  obtains i c' where "chunk_add_pool v h c = Some (i, c')" "names_ok h c'" "pool_name h c' i = Some (c_str s)"
    "\<exists>vs. cpool c' = cpool c @ vs" "length (cpool c') \<le> length (cpool c) + 1"
proof (cases "hashmap_get (name_index c) s")
  case (Some i)
  then have "chunk_add_pool v h c = Some (i, c)" by (simp add: chunk_add_pool_def str_of_string [OF s] s)
  then show thesis using that [of i c] ok Some by (auto simp: names_ok_def)
next
  case None
  note o = ok [unfolded names_ok_def]
  obtain t fs where t: "hashtable_put (name_index c) (c_str s) (length (cpool c)) = Some (t, fs)"
    "put_post (name_index c) (c_str s) (length (cpool c)) t fs"
    using hashtable_put_some [of "name_index c" "c_str s" "length (cpool c)"] o room by auto
  let ?c = "c\<lparr>cpool := cpool c @ [v], name_index := t\<rparr>"
  have inv: "ht_inv t" using t(2) by (simp add: put_post_def)
  have get: "hashmap_get t k = (if c_str k = c_str s then Some (length (cpool c)) else hashmap_get (name_index c) k)" for k
    using t(2) o by (simp add: hashmap_get_def hashtable_get_map inv put_post_def)
  have new: "pool_name h ?c i = (if i = length (cpool c) then Some (c_str s) else pool_name h c i)" for i
    by (simp add: pool_name_snoc s)
  have absent: "pool_name h c i \<noteq> Some (c_str s)" for i using None o by (metis option.distinct(1))
  have "pool_name h c (length (cpool c)) = None" by (simp add: pool_name_def)
  then have "hashmap_get t k = Some i \<longleftrightarrow> pool_name h ?c i = Some (c_str k)" for k i
    unfolding get new using o absent [of i] by auto
  moreover have "count t \<le> length (cpool ?c)" using t(2) o by (auto simp: put_post_def split: if_splits)
  ultimately have "names_ok h ?c" using inv by (simp add: names_ok_def)
  moreover have "chunk_add_pool v h c = Some (length (cpool c), ?c)"
    using None t(1) by (simp add: chunk_add_pool_def str_of_string [OF s] s chunk_pool_append_def hashmap_put_def)
  ultimately show thesis using that [of "length (cpool c)" ?c] new by auto
qed

lemma names_ok_init: "names_ok h chunk_init"
  by (simp add: names_ok_def chunk_init_def hashmap_get_def hashtable_get_map pool_name_def)

text \<open>C31: Adding a string constant to a chunk in use returns an index at which the pool
  holds that string, leaves every earlier index as it was, and adding the same bytes again from
  any other string object returns the same index without growing the pool.\<close>

theorem add_pool_dedup:
  assumes "names_ok h c" "str_of h v = Some s" "length (cpool c) + 1 < HT_COUNT_SAFE"
  shows "\<exists>i c' vs. chunk_add_pool v h c = Some (i, c') \<and> names_ok h c' \<and> pool_name h c' i = Some (c_str s) \<and>
    cpool c' = cpool c @ vs \<and>
    (\<forall>w s'. str_of h w = Some s' \<longrightarrow> c_str s' = c_str s \<longrightarrow> chunk_add_pool w h c' = Some (i, c'))"
proof -
  obtain i c' where c': "chunk_add_pool v h c = Some (i, c')" "names_ok h c'" "pool_name h c' i = Some (c_str s)"
    "\<exists>vs. cpool c' = cpool c @ vs"
    by (rule add_pool_string [OF assms(1,2)]) (use assms(3) in simp, rule that)
  have "chunk_add_pool w h c' = Some (i, c')" if "str_of h w = Some s'" "c_str s' = c_str s" for w s'
  proof -
    have "hashmap_get (name_index c') s' = Some i" using c'(2,3) that(2) by (simp add: names_ok_def)
    then show ?thesis using that(1) by (simp add: chunk_add_pool_def str_of_string [OF that(1)])
  qed
  then show ?thesis using c' by blast
qed

theorem add_pool_dedup_witness:
  "\<exists>p h i c'. aer_make_string heap_init ''x'' = Some (VString p, h) \<and>
     chunk_add_pool (VString p) h chunk_init = Some (i, c') \<and> pool_name h c' i = Some ''x''"
proof -
  obtain p q where q: "pool_new (string_pool heap_init) ''x'' = Some (p, q)" "pool_read q p = Some ''x''"
    using slab.new_cell_post [OF pools_invD(1) [OF heap_init_inv], of "''x''"] unfolding pool_new_eq by blast
  define h where "h = (count_alloc heap_init)\<lparr>string_pool := q\<rparr>"
  have s: "str_of h (VString p) = Some ''x''" using q(2) by (simp add: str_of_def h_def)
  have r: "length (cpool chunk_init) + 1 < HT_COUNT_SAFE" by (simp add: chunk_init_def HT_COUNT_SAFE_def)
  have "aer_make_string heap_init ''x'' = Some (VString p, h)"
    using q(1) by (simp add: aer_make_string_def h_def)
  then show ?thesis
    using add_pool_dedup [OF names_ok_init s r] by (auto simp: c_str_def)
qed

end
