(* ===== verification/Gc.thy ===== *)
theory Gc
  imports Machine Float64
begin

text \<open>
  The generational mark-and-sweep collector of \<^verbatim>\<open>source/core/vm.c\<close>: write barriers and
  remembered set, the worklist mark phase over all root sets, the two kinds of collection,
  their trigger and the memory ceiling.

  The main results: the mark phase ends and marks exactly the objects reachable from the
  roots; a collection never frees a reachable string, array, dict, function or big integer, and
  a major one frees every other; but no collection ever marks a closure box, so each one frees
  the boxes of captured variables that are still in use.
\<close>

section \<open>Write barrier and remembered set\<close>

definition value_is_young :: "heap \<Rightarrow> val \<Rightarrow> bool option" where
  "value_is_young h v =
     (case v of
        VString c \<Rightarrow> pool_is_young (string_pool h) c
      | VArray c \<Rightarrow> pool_is_young (array_pool h) c
      | VDict c \<Rightarrow> pool_is_young (dict_pool h) c
      | VFunction c \<Rightarrow> pool_is_young (function_pool h) c
      | VBig c \<Rightarrow> pool_is_young (long_pool h) c
      | _ \<Rightarrow> Some False)"

definition remember :: "remembered \<Rightarrow> heap \<Rightarrow> heap" where
  "remember r h = h\<lparr>remembered_set := remembered_set h @ [r]\<rparr>"

definition gc_remember :: "remembered \<Rightarrow> heap \<Rightarrow> heap option" where
  "gc_remember r h =
     (case r of
        REMEMBERED_ARRAY c \<Rightarrow>
          do { b \<leftarrow> pool_is_remembered (array_pool h) c;
               if b then Some h
               else do { p \<leftarrow> pool_mark_remembered (array_pool h) c;
                         Some (remember r (h\<lparr>array_pool := p\<rparr>)) } }
      | REMEMBERED_DICT c \<Rightarrow>
          do { b \<leftarrow> pool_is_remembered (dict_pool h) c;
               if b then Some h
               else do { p \<leftarrow> pool_mark_remembered (dict_pool h) c;
                         Some (remember r (h\<lparr>dict_pool := p\<rparr>)) } }
      | REMEMBERED_BOX b \<Rightarrow>
          (case b of
             BoxCell c \<Rightarrow>
               if pool_owns (closure_box_pool h) c
               then do { b \<leftarrow> pool_is_remembered (closure_box_pool h) c;
                         if b then Some h
                         else do { p \<leftarrow> pool_mark_remembered (closure_box_pool h) c;
                                   Some (remember r (h\<lparr>closure_box_pool := p\<rparr>)) } }
               else Some (if r \<in> set (remembered_set h) then h else remember r h)
           | BoxOvf _ \<Rightarrow> Some (if r \<in> set (remembered_set h) then h else remember r h)))"

definition gc_barrier_array :: "ptr \<Rightarrow> val \<Rightarrow> heap \<Rightarrow> heap option" where
  "gc_barrier_array a v h =
     do { y \<leftarrow> pool_is_young (array_pool h) a;
          if y then Some h
          else do { vy \<leftarrow> value_is_young h v;
                    if \<not> vy then Some h else gc_remember (REMEMBERED_ARRAY a) h } }"

definition gc_barrier_dict :: "ptr \<Rightarrow> val \<Rightarrow> heap \<Rightarrow> heap option" where
  "gc_barrier_dict d v h =
     do { y \<leftarrow> pool_is_young (dict_pool h) d;
          if y then Some h
          else do { vy \<leftarrow> value_is_young h v;
                    if \<not> vy then Some h else gc_remember (REMEMBERED_DICT d) h } }"

definition gc_barrier_box :: "box_ref \<Rightarrow> val \<Rightarrow> heap \<Rightarrow> heap option" where
  "gc_barrier_box b v h =
     do { vy \<leftarrow> value_is_young h v;
          if \<not> vy then Some h else gc_remember (REMEMBERED_BOX b) h }"

section \<open>Mark phase\<close>

text \<open>The worklist is a stack, its top first.\<close>

type_synonym marking = "heap \<times> val list"

text \<open>The boxes \<^verbatim>\<open>upvalues[0 .. upvalue_count)\<close> of a closure.\<close>

definition upvalue_boxes :: "aer_function \<Rightarrow> box_ref list option" where
  "upvalue_boxes f =
     (if upvalue_count f = 0 then Some []
      else case upvalues f of
             None \<Rightarrow> None
           | Some bs \<Rightarrow> if upvalue_count f \<le> length bs then Some (take (upvalue_count f) bs) else None)"

definition read_upvalues :: "heap \<Rightarrow> aer_function \<Rightarrow> val list option" where
  "read_upvalues h f = do { bs \<leftarrow> upvalue_boxes f; those (map (read_box h) bs) }"

definition dict_values :: "val hashtable \<Rightarrow> val list" where
  "dict_values d = map payload (ht_entries d)"

definition mark_function :: "ptr \<Rightarrow> marking \<Rightarrow> marking option" where
  "mark_function c hw =
     (case hw of (h, wl) \<Rightarrow>
       do { (b, p) \<leftarrow> pool_mark (function_pool h) c;
            let h' = h\<lparr>function_pool := p\<rparr>;
            if b then Some (h', wl)
            else do { f \<leftarrow> pool_read (function_pool h') c;
                      vs \<leftarrow> read_upvalues h' f;
                      Some (h', rev vs @ wl) } })"

definition mark_value :: "val \<Rightarrow> marking \<Rightarrow> marking option" where
  "mark_value v hw =
     (case hw of (h, wl) \<Rightarrow>
       (case v of
          VString c \<Rightarrow>
            do { (_, p) \<leftarrow> pool_mark (string_pool h) c; Some (h\<lparr>string_pool := p\<rparr>, wl) }
        | VArray c \<Rightarrow>
            do { (b, p) \<leftarrow> pool_mark (array_pool h) c;
                 let h' = h\<lparr>array_pool := p\<rparr>;
                 if b then Some (h', wl)
                 else do { a \<leftarrow> pool_read (array_pool h') c; Some (h', rev (items a) @ wl) } }
        | VDict c \<Rightarrow>
            do { (b, p) \<leftarrow> pool_mark (dict_pool h) c;
                 let h' = h\<lparr>dict_pool := p\<rparr>;
                 if b then Some (h', wl)
                 else do { d \<leftarrow> pool_read (dict_pool h') c; Some (h', rev (dict_values d) @ wl) } }
        | VFunction c \<Rightarrow> mark_function c (h, wl)
        | VBig c \<Rightarrow>
            do { (_, p) \<leftarrow> pool_mark (long_pool h) c; Some (h\<lparr>long_pool := p\<rparr>, wl) }
        | _ \<Rightarrow> Some (h, wl)))"

partial_function (option) mark_drain :: "heap \<Rightarrow> val list \<Rightarrow> heap option" where
  "mark_drain h wl =
     (case wl of
        [] \<Rightarrow> Some h
      | v # vs \<Rightarrow> do { hw \<leftarrow> mark_value v (h, vs); mark_drain (fst hw) (snd hw) })"

section \<open>Roots\<close>

definition slot_value :: "heap \<Rightarrow> scope_slot \<Rightarrow> val option" where
  "slot_value h s = (case sl_box s of Some b \<Rightarrow> read_box h b | None \<Rightarrow> Some (sl_val s))"

definition scope_values :: "heap \<Rightarrow> aer_scope \<Rightarrow> val list option" where
  "scope_values h s =
     do { vs \<leftarrow> those (map (slot_value h) (take (scount s) (slots s)));
          ws \<leftarrow> (if overflow s
                then those (map (read_ovf h) (map payload (ht_entries (smap s)))) else Some []);
          Some (vs @ ws) }"

definition mark_frame :: "call_frame \<Rightarrow> marking \<Rightarrow> marking option" where
  "mark_frame f hw =
     do { (h, wl) \<leftarrow> (case fr_function f of None \<Rightarrow> Some hw | Some c \<Rightarrow> mark_function c hw);
          Some (h, (if defers_draining f then [pending_return_value f] else []) @
                   rev (concat (map dargs (defers f))) @ wl) }"

definition mark_vm_roots :: "vm \<Rightarrow> marking \<Rightarrow> marking option" where
  "mark_vm_roots v hw =
     (case hw of (h, wl) \<Rightarrow>
       do { ps \<leftarrow> those (map (read_box h) (pending_upvalues v));
            ss \<leftarrow> those (map (scope_values h) (take (scope_depth v) (scopes v)));
            foldM mark_frame (rev (call_stack v)) (h, rev (concat ss) @ rev ps @ stack v @ wl) })"

definition chunk_roots :: "shape_rec list \<Rightarrow> chunk \<Rightarrow> val list" where
  "chunk_roots shs c = cpool c @ concat (map (\<lambda>i. field_defaults (shs ! i)) (chunk_shapes c))"

definition mark_chunk_roots :: "shape_rec list \<Rightarrow> chunk \<Rightarrow> marking \<Rightarrow> marking" where
  "mark_chunk_roots shs c hw = (fst hw, rev (chunk_roots shs c) @ snd hw)"

definition rem_alive :: "heap \<Rightarrow> remembered \<Rightarrow> bool option" where
  "rem_alive h e =
     (case e of
        REMEMBERED_ARRAY c \<Rightarrow> map_option Not (pool_is_freed (array_pool h) c)
      | REMEMBERED_DICT c \<Rightarrow> map_option Not (pool_is_freed (dict_pool h) c)
      | REMEMBERED_BOX (BoxCell c) \<Rightarrow>
          if \<not> pool_owns (closure_box_pool h) c then Some True
          else map_option Not (pool_is_freed (closure_box_pool h) c)
      | REMEMBERED_BOX (BoxOvf _) \<Rightarrow> Some True)"

definition rem_values :: "heap \<Rightarrow> remembered \<Rightarrow> val list option" where
  "rem_values h e =
     (case e of
        REMEMBERED_ARRAY c \<Rightarrow> map_option items (pool_read (array_pool h) c)
      | REMEMBERED_DICT c \<Rightarrow> map_option dict_values (pool_read (dict_pool h) c)
      | REMEMBERED_BOX b \<Rightarrow> map_option (\<lambda>v. [v]) (read_box h b))"

text \<open>The pass over the remembered set: values to trace, and the entries kept.\<close>

fun remembered_roots :: "heap \<Rightarrow> remembered list \<Rightarrow> (val list \<times> remembered list) option" where
  "remembered_roots h [] = Some ([], [])"
| "remembered_roots h (e # es) =
     do { alive \<leftarrow> rem_alive h e;
          if \<not> alive then remembered_roots h es
          else do { vs \<leftarrow> rem_values h e;
                    (ws, ks) \<leftarrow> remembered_roots h es;
                    Some (vs @ ws, e # ks) } }"

section \<open>Collection\<close>

definition clear_all_marks :: "heap \<Rightarrow> heap" where
  "clear_all_marks h = h\<lparr>
     string_pool := pool_clear_marks (string_pool h),
     array_pool := pool_clear_marks (array_pool h),
     dict_pool := pool_clear_marks (dict_pool h),
     function_pool := pool_clear_marks (function_pool h),
     closure_box_pool := pool_clear_marks (closure_box_pool h),
     long_pool := pool_clear_marks (long_pool h)\<rparr>"

text \<open>
  The finalizers free the buffers an object owns; those are part of its cell here, which the
  sweep turns into a free-list link.
\<close>

definition sweep_all :: "bool \<Rightarrow> heap \<Rightarrow> heap option" where
  "sweep_all minor h =
     do { (sp, _) \<leftarrow> pool_sweep (string_pool h) minor;
          (ap, _) \<leftarrow> pool_sweep (array_pool h) minor;
          (dp, _) \<leftarrow> pool_sweep (dict_pool h) minor;
          (fp, _) \<leftarrow> pool_sweep (function_pool h) minor;
          (bp, _) \<leftarrow> pool_sweep (closure_box_pool h) minor;
          (lp, _) \<leftarrow> pool_sweep (long_pool h) minor;
          Some (h\<lparr>string_pool := sp, array_pool := ap, dict_pool := dp, function_pool := fp,
                  closure_box_pool := bp, long_pool := lp\<rparr>) }"

definition mark_module :: "shape_rec list \<Rightarrow> file_module \<Rightarrow> marking \<Rightarrow> marking option" where
  "mark_module shs fm hw =
     map_option (mark_chunk_roots shs (mod_chunk fm)) (mark_vm_roots (mod_vm fm) hw)"

definition gc_collect :: "bool \<Rightarrow> mach \<Rightarrow> mach option" where
  "gc_collect minor m =
     do { hw1 \<leftarrow> mark_vm_roots (vm m) (clear_all_marks (heap m), []);
          (h, wl) \<leftarrow> foldM (mark_module (shapes m)) (modules m)
                       (mark_chunk_roots (shapes m) (chunk m) hw1);
          (h, wl) \<leftarrow> (if minor
                      then do { (vs, ks) \<leftarrow> remembered_roots h (remembered_set h);
                                Some (h\<lparr>remembered_set := ks\<rparr>, rev vs @ wl) }
                      else Some (h, wl));
          h' \<leftarrow> mark_drain h wl;
          h'' \<leftarrow> sweep_all minor h';
          Some (m\<lparr>heap := h''\<rparr>) }"

section \<open>Trigger\<close>

definition pool_live_cells :: "'a pool \<Rightarrow> nat" where
  "pool_live_cells p = length (filter (\<lambda>c. the (row_get (cell_state p) c) AND POOL_FREE = 0) (carved p))"

definition gc_count_live_cells :: "heap \<Rightarrow> nat" where
  "gc_count_live_cells h =
     pool_live_cells (string_pool h) + pool_live_cells (array_pool h) + pool_live_cells (dict_pool h) +
     pool_live_cells (function_pool h) + pool_live_cells (closure_box_pool h) +
     pool_live_cells (long_pool h)"

definition vm_gc_suppress :: "heap \<Rightarrow> heap" where
  "vm_gc_suppress h = h\<lparr>gc_suppress_depth := gc_suppress_depth h + 1\<rparr>"

definition vm_gc_unsuppress :: "heap \<Rightarrow> heap" where
  "vm_gc_unsuppress h =
     (if gc_suppress_depth h > 0 then h\<lparr>gc_suppress_depth := gc_suppress_depth h - 1\<rparr> else h)"

definition aer_gc_configure :: "nat \<Rightarrow> nat \<Rightarrow> heap \<Rightarrow> heap" where
  "aer_gc_configure minor_threshold every h =
     h\<lparr>minor_gc_threshold := (if minor_threshold \<noteq> 0 then minor_threshold else minor_gc_threshold h),
       major_gc_every_n_minor := (if every \<noteq> 0 then every else major_gc_every_n_minor h)\<rparr>"

definition aer_gc_set_ceiling :: "nat \<Rightarrow> heap \<Rightarrow> heap" where
  "aer_gc_set_ceiling n h = h\<lparr>gc_live_cell_ceiling := n\<rparr>"

text \<open>A major collection with its counters.\<close>

definition run_major :: "mach \<Rightarrow> mach option" where
  "run_major m =
     do { m' \<leftarrow> gc_collect False m;
          Some (m'\<lparr>heap := (heap m')\<lparr>major_collections_run := major_collections_run (heap m') + 1,
                                       minor_since_major := 0\<rparr>\<rparr>) }"

definition ceiling_msg :: "nat \<Rightarrow> nat \<Rightarrow> string" where
  "ceiling_msg n lim =
     ''Memory ceiling exceeded: '' @ show_nat n @ '' live cells (limit '' @ show_nat lim @ '')''"

definition gc_run_collection_cycle :: "mach \<Rightarrow> mach option" where
  "gc_run_collection_cycle m =
     do { m1 \<leftarrow> gc_collect True m;
          let h1 = heap m1;
          let m2 = m1\<lparr>heap := h1\<lparr>minor_collections_run := minor_collections_run h1 + 1,
                                 pool_total_alloc_count := 0,
                                 minor_since_major := minor_since_major h1 + 1\<rparr>\<rparr>;
          let major_ran = major_gc_every_n_minor (heap m2) \<le> minor_since_major (heap m2);
          m3 \<leftarrow> (if major_ran then run_major m2 else Some m2);
          let ceiling = gc_live_cell_ceiling (heap m3);
          if ceiling = 0 \<or> gc_count_live_cells (heap m3) \<le> ceiling then Some m3
          else do { m4 \<leftarrow> (if major_ran then Some m3 else run_major m3);
                    if \<not> major_ran \<and> gc_count_live_cells (heap m4) \<le> ceiling then Some m4
                    else Some (error (ceiling_msg (gc_count_live_cells (heap m4)) ceiling) m4) } }"

definition gc_maybe_collect :: "mach \<Rightarrow> mach option" where
  "gc_maybe_collect m =
     (if gc_suppress_depth (heap m) > 0 then Some m
      else if pool_total_alloc_count (heap m) < minor_gc_threshold (heap m) then Some m
      else gc_run_collection_cycle m)"

definition aer_gc_stats :: "heap \<Rightarrow> nat \<times> nat \<times> nat" where
  "aer_gc_stats h = (gc_count_live_cells h, minor_collections_run h, major_collections_run h)"

section \<open>Objects, children and marks\<close>

fun children :: "heap \<Rightarrow> obj \<Rightarrow> val list option" where
  "children h (OStr c) = Some []"
| "children h (OArr c) = map_option items (pool_read (array_pool h) c)"
| "children h (ODict c) = map_option dict_values (pool_read (dict_pool h) c)"
| "children h (OFun c) = Option.bind (pool_read (function_pool h) c) (read_upvalues h)"
| "children h (OBig c) = Some []"

fun mark_obj :: "obj \<Rightarrow> heap \<Rightarrow> (bool \<times> heap) option" where
  "mark_obj (OStr c) h = do { (b, p) \<leftarrow> pool_mark (string_pool h) c; Some (b, h\<lparr>string_pool := p\<rparr>) }"
| "mark_obj (OArr c) h = do { (b, p) \<leftarrow> pool_mark (array_pool h) c; Some (b, h\<lparr>array_pool := p\<rparr>) }"
| "mark_obj (ODict c) h = do { (b, p) \<leftarrow> pool_mark (dict_pool h) c; Some (b, h\<lparr>dict_pool := p\<rparr>) }"
| "mark_obj (OFun c) h = do { (b, p) \<leftarrow> pool_mark (function_pool h) c; Some (b, h\<lparr>function_pool := p\<rparr>) }"
| "mark_obj (OBig c) h = do { (b, p) \<leftarrow> pool_mark (long_pool h) c; Some (b, h\<lparr>long_pool := p\<rparr>) }"

text \<open>One visit of an object: mark it, and push its children the first time.\<close>

definition visit :: "obj \<Rightarrow> marking \<Rightarrow> marking option" where
  "visit ob hw =
     do { (b, h') \<leftarrow> mark_obj ob (fst hw);
          if b then Some (h', snd hw)
          else do { cs \<leftarrow> children h' ob; Some (h', rev cs @ snd hw) } }"

lemma mark_function_visit: "mark_function c hw = visit (OFun c) hw"
proof (cases hw)
  case (Pair h wl)
  show ?thesis
    by (cases "pool_mark (function_pool h) c")
      (simp_all add: mark_function_def visit_def Pair Let_def split: prod.split)
qed

lemma mark_value_visit:
  "mark_value v hw = (case obj_of v of None \<Rightarrow> Some hw | Some ob \<Rightarrow> visit ob hw)"
proof (cases hw)
  case (Pair h wl)
  have map_bind: "do { x \<leftarrow> map_option f y; g x } = do { x \<leftarrow> y; g (f x) }"
    for f :: "'a \<Rightarrow> 'b" and y :: "'a option" and g :: "'b \<Rightarrow> 'c option" by (cases y) simp_all
  show ?thesis
  proof (cases v)
    case (VString c)
    then show ?thesis
      by (cases "pool_mark (string_pool h) c") (simp_all add: Pair mark_value_def visit_def split: prod.split)
  next
    case (VArray c)
    then show ?thesis
      by (cases "pool_mark (array_pool h) c")
        (simp_all add: Pair mark_value_def visit_def map_bind Let_def split: prod.split)
  next
    case (VDict c)
    then show ?thesis
      by (cases "pool_mark (dict_pool h) c")
        (simp_all add: Pair mark_value_def visit_def map_bind Let_def split: prod.split)
  next
    case (VBig c)
    then show ?thesis
      by (cases "pool_mark (long_pool h) c") (simp_all add: Pair mark_value_def visit_def split: prod.split)
  qed (simp_all add: Pair mark_value_def mark_function_visit)
qed

text \<open>Two pools, and two heaps, that differ in mark bits of objects only.\<close>

definition same_pool :: "'a pool \<Rightarrow> 'a pool \<Rightarrow> bool" where
  "same_pool p p' \<longleftrightarrow> live p' = live p \<and> pool_read p' = pool_read p \<and>
     carved p' = carved p \<and> (\<forall>n. n \<noteq> 0 \<longrightarrow> flagged p' n = flagged p n)"

lemma same_pool_refl [simp]: "same_pool p p"
  by (simp add: same_pool_def)

lemma same_pool_trans: "same_pool p q \<Longrightarrow> same_pool q r \<Longrightarrow> same_pool p r"
  by (simp add: same_pool_def)

lemma pool_read_slabs: "slabs p' = slabs p \<Longrightarrow> pool_read p' = pool_read p"
  by (auto simp: pool_read_def fun_eq_iff)

lemma mark_pool_ex:
  assumes "pool_inv p" "c \<in> live p"
  shows "\<exists>p'. pool_mark p c = Some (flagged p 0 c, p') \<and> pool_inv p' \<and> same_pool p p' \<and>
    (\<forall>d. flagged p' 0 d \<longleftrightarrow> flagged p 0 d \<or> d = c)"
proof -
  obtain p' where
    p: "pool_mark p c = Some (flagged p 0 c, p')" "pool_inv p'" "live p' = live p" "slabs p' = slabs p"
    "carved p' = carved p" "\<And>n d. flagged p' n d \<longleftrightarrow> flagged p n d \<or> n = 0 \<and> d = c"
    by (rule pool_mark_post [OF assms]) (rule that)
  have "same_pool p p'"
    unfolding same_pool_def using p(3,5) pool_read_slabs [OF p(4)] p(6) by (simp add: fun_eq_iff)
  then show ?thesis using p(1,2) p(6) [of 0] by (intro exI [of _ p']) simp
qed

definition same_data :: "heap \<Rightarrow> heap \<Rightarrow> bool" where
  "same_data h h' \<longleftrightarrow>
     same_pool (string_pool h) (string_pool h') \<and> same_pool (array_pool h) (array_pool h') \<and>
     same_pool (dict_pool h) (dict_pool h') \<and> same_pool (function_pool h) (function_pool h') \<and>
     same_pool (long_pool h) (long_pool h') \<and> same_pool (closure_box_pool h) (closure_box_pool h') \<and>
     ovf_boxes h' = ovf_boxes h"

lemma same_data_refl [simp]: "same_data h h"
  by (simp add: same_data_def)

lemma same_data_trans: "same_data h h' \<Longrightarrow> same_data h' h'' \<Longrightarrow> same_data h h''"
  by (auto simp: same_data_def intro: same_pool_trans)

lemma obj_all:
  "(\<forall>ob. P ob) \<longleftrightarrow> (\<forall>c. P (OStr c)) \<and> (\<forall>c. P (OArr c)) \<and> (\<forall>c. P (ODict c)) \<and>
     (\<forall>c. P (OFun c)) \<and> (\<forall>c. P (OBig c))"
  by (metis obj.exhaust)

lemma same_dataD:
  assumes "same_data h h'"
  shows "obj_live h' ob = obj_live h ob" "obj_content h' ob = obj_content h ob"
    "n \<noteq> 0 \<Longrightarrow> obj_flag h' n ob = obj_flag h n ob" "read_box h' = read_box h"
    "read_ovf h' = read_ovf h"
proof -
  show "obj_live h' ob = obj_live h ob" "obj_content h' ob = obj_content h ob"
    "n \<noteq> 0 \<Longrightarrow> obj_flag h' n ob = obj_flag h n ob"
    using assms by (cases ob; simp add: same_data_def same_pool_def)+
  show o: "read_ovf h' = read_ovf h"
    using assms by (auto simp: same_data_def read_ovf_def fun_eq_iff)
  show "read_box h' = read_box h"
    using assms o by (auto simp: same_data_def same_pool_def read_box_def fun_eq_iff split: box_ref.split)
qed

lemma same_data_children: "same_data h h' \<Longrightarrow> children h' ob = children h ob"
proof -
  assume s: "same_data h h'"
  have "read_upvalues h' = read_upvalues h"
    by (simp add: read_upvalues_def fun_eq_iff same_dataD(4) [OF s])
  then show ?thesis using s by (cases ob) (simp_all add: same_data_def same_pool_def)
qed

lemma mark_obj_post:
  assumes inv: "pools_inv h" and live: "obj_live h ob"
  shows "\<exists>h'. mark_obj ob h = Some (obj_flag h 0 ob, h') \<and> pools_inv h' \<and> same_data h h' \<and>
    closure_box_pool h' = closure_box_pool h \<and> remembered_set h' = remembered_set h \<and>
    (\<forall>ob'. obj_flag h' 0 ob' \<longleftrightarrow> obj_flag h 0 ob' \<or> ob' = ob)"
proof (cases ob)
  case (OStr c)
  then have "c \<in> live (string_pool h)" using live by simp
  from mark_pool_ex [OF pools_invD(1) [OF inv] this] obtain p where
    p: "pool_mark (string_pool h) c = Some (flagged (string_pool h) 0 c, p)" "pool_inv p"
    "same_pool (string_pool h) p" "\<And>d. flagged p 0 d \<longleftrightarrow> flagged (string_pool h) 0 d \<or> d = c" by blast
  have "obj_flag (h\<lparr>string_pool := p\<rparr>) 0 ob' \<longleftrightarrow> obj_flag h 0 ob' \<or> ob' = ob" for ob'
    using p(4) by (cases ob') (simp_all add: OStr)
  then show ?thesis
    using inv p(1-3) OStr
    by (intro exI [of _ "h\<lparr>string_pool := p\<rparr>"]) (simp add: same_data_def pools_inv_def)
next
  case (OArr c)
  then have "c \<in> live (array_pool h)" using live by simp
  from mark_pool_ex [OF pools_invD(2) [OF inv] this] obtain p where
    p: "pool_mark (array_pool h) c = Some (flagged (array_pool h) 0 c, p)" "pool_inv p"
    "same_pool (array_pool h) p" "\<And>d. flagged p 0 d \<longleftrightarrow> flagged (array_pool h) 0 d \<or> d = c" by blast
  have "obj_flag (h\<lparr>array_pool := p\<rparr>) 0 ob' \<longleftrightarrow> obj_flag h 0 ob' \<or> ob' = ob" for ob'
    using p(4) by (cases ob') (simp_all add: OArr)
  then show ?thesis
    using inv p(1-3) OArr
    by (intro exI [of _ "h\<lparr>array_pool := p\<rparr>"]) (simp add: same_data_def pools_inv_def)
next
  case (ODict c)
  then have "c \<in> live (dict_pool h)" using live by simp
  from mark_pool_ex [OF pools_invD(3) [OF inv] this] obtain p where
    p: "pool_mark (dict_pool h) c = Some (flagged (dict_pool h) 0 c, p)" "pool_inv p"
    "same_pool (dict_pool h) p" "\<And>d. flagged p 0 d \<longleftrightarrow> flagged (dict_pool h) 0 d \<or> d = c" by blast
  have "obj_flag (h\<lparr>dict_pool := p\<rparr>) 0 ob' \<longleftrightarrow> obj_flag h 0 ob' \<or> ob' = ob" for ob'
    using p(4) by (cases ob') (simp_all add: ODict)
  then show ?thesis
    using inv p(1-3) ODict
    by (intro exI [of _ "h\<lparr>dict_pool := p\<rparr>"]) (simp add: same_data_def pools_inv_def)
next
  case (OFun c)
  then have "c \<in> live (function_pool h)" using live by simp
  from mark_pool_ex [OF pools_invD(4) [OF inv] this] obtain p where
    p: "pool_mark (function_pool h) c = Some (flagged (function_pool h) 0 c, p)" "pool_inv p"
    "same_pool (function_pool h) p" "\<And>d. flagged p 0 d \<longleftrightarrow> flagged (function_pool h) 0 d \<or> d = c" by blast
  have "obj_flag (h\<lparr>function_pool := p\<rparr>) 0 ob' \<longleftrightarrow> obj_flag h 0 ob' \<or> ob' = ob" for ob'
    using p(4) by (cases ob') (simp_all add: OFun)
  then show ?thesis
    using inv p(1-3) OFun
    by (intro exI [of _ "h\<lparr>function_pool := p\<rparr>"]) (simp add: same_data_def pools_inv_def)
next
  case (OBig c)
  then have "c \<in> live (long_pool h)" using live by simp
  from mark_pool_ex [OF pools_invD(6) [OF inv] this] obtain p where
    p: "pool_mark (long_pool h) c = Some (flagged (long_pool h) 0 c, p)" "pool_inv p"
    "same_pool (long_pool h) p" "\<And>d. flagged p 0 d \<longleftrightarrow> flagged (long_pool h) 0 d \<or> d = c" by blast
  have "obj_flag (h\<lparr>long_pool := p\<rparr>) 0 ob' \<longleftrightarrow> obj_flag h 0 ob' \<or> ob' = ob" for ob'
    using p(4) by (cases ob') (simp_all add: OBig)
  then show ?thesis
    using inv p(1-3) OBig
    by (intro exI [of _ "h\<lparr>long_pool := p\<rparr>"]) (simp add: same_data_def pools_inv_def)
qed

section \<open>Marking over an abstract heap\<close>

text \<open>Objects reachable from a set of root values.\<close>

inductive_set reach :: "('o \<Rightarrow> 'v list option) \<Rightarrow> ('v \<Rightarrow> 'o option) \<Rightarrow> 'v set \<Rightarrow> 'o set"
  for kids ref R where
  root: "v \<in> R \<Longrightarrow> ref v = Some ob \<Longrightarrow> ob \<in> reach kids ref R"
| step: "ob \<in> reach kids ref R \<Longrightarrow> kids ob = Some cs \<Longrightarrow> v \<in> set cs \<Longrightarrow> ref v = Some ob' \<Longrightarrow>
    ob' \<in> reach kids ref R"

text \<open>
  What the mark phase needs of the heap: marking an object that is alive sets its mark bit and
  changes nothing else.
\<close>

locale markable =
  fixes mark :: "'o \<Rightarrow> 'h \<Rightarrow> (bool \<times> 'h) option"
    and kids :: "'h \<Rightarrow> 'o \<Rightarrow> 'v list option"
    and ref :: "'v \<Rightarrow> 'o option"
    and marked :: "'h \<Rightarrow> 'o \<Rightarrow> bool"
    and alive :: "'h \<Rightarrow> 'o \<Rightarrow> bool"
    and inv :: "'h \<Rightarrow> bool"
  assumes mark_law: "inv h \<Longrightarrow> alive h ob \<Longrightarrow> \<exists>h'. mark ob h = Some (marked h ob, h') \<and> inv h' \<and>
      alive h' = alive h \<and> kids h' = kids h \<and> (\<forall>ob'. marked h' ob' \<longleftrightarrow> marked h ob' \<or> ob' = ob)"
    and finite_alive: "inv h \<Longrightarrow> finite {ob. alive h ob}"
begin

definition visit_ob :: "'o \<Rightarrow> 'h \<times> 'v list \<Rightarrow> ('h \<times> 'v list) option" where
  "visit_ob ob hw =
     Option.bind (mark ob (fst hw)) (\<lambda>(b, h').
       if b then Some (h', snd hw)
       else Option.bind (kids h' ob) (\<lambda>cs. Some (h', rev cs @ snd hw)))"

definition covered :: "'h \<Rightarrow> 'v list \<Rightarrow> 'v \<Rightarrow> bool" where
  "covered h wl v \<longleftrightarrow> (\<forall>ob. ref v = Some ob \<longrightarrow> marked h ob \<or> (\<exists>u \<in> set wl. ref u = Some ob))"

text \<open>The tricolour invariant, for roots \<open>R\<close>.\<close>

definition tri :: "'v set \<Rightarrow> 'h \<Rightarrow> 'v list \<Rightarrow> bool" where
  "tri R h wl \<longleftrightarrow> inv h \<and>
     (\<forall>ob \<in> reach (kids h) ref R. alive h ob \<and> kids h ob \<noteq> None) \<and>
     (\<forall>ob. marked h ob \<longrightarrow> ob \<in> reach (kids h) ref R) \<and>
     (\<forall>v \<in> set wl. \<forall>ob. ref v = Some ob \<longrightarrow> ob \<in> reach (kids h) ref R) \<and>
     (\<forall>ob cs v. marked h ob \<longrightarrow> kids h ob = Some cs \<longrightarrow> v \<in> set cs \<longrightarrow> covered h wl v)"

definition white :: "'h \<Rightarrow> nat" where
  "white h = card {ob. alive h ob \<and> \<not> marked h ob}"

lemma visit_step:
  assumes tri: "tri R h (v # wl)" and ob: "ref v = Some ob"
  shows "\<exists>h' wl'. visit_ob ob (h, wl) = Some (h', wl') \<and> tri R h' wl' \<and> kids h' = kids h \<and>
    alive h' = alive h \<and> (\<forall>u. covered h (v # wl) u \<longrightarrow> covered h' wl' u) \<and>
    (white h' < white h \<or> white h' = white h \<and> wl' = wl)"
proof -
  note t = tri [unfolded tri_def]
  have r: "ob \<in> reach (kids h) ref R" using t ob by auto
  obtain h' where h': "mark ob h = Some (marked h ob, h')" "inv h'" "alive h' = alive h"
    "kids h' = kids h" "\<And>ob'. marked h' ob' \<longleftrightarrow> marked h ob' \<or> ob' = ob"
    using mark_law [of h ob] t r by blast
  obtain cs where cs: "kids h ob = Some cs" using t r by blast
  define wl' where "wl' = (if marked h ob then wl else rev cs @ wl)"
  have visit: "visit_ob ob (h, wl) = Some (h', wl')"
    using h'(1,4) cs by (simp add: visit_ob_def wl'_def)
  have mono: "covered h' wl' u" if "covered h (v # wl) u" for u
    using that ob h'(5) by (auto simp: covered_def wl'_def)
  have "covered h' wl' u" if "marked h' ob'" "kids h ob' = Some ds" "u \<in> set ds" for ob' ds u
  proof (cases "marked h ob'")
    case True
    then show ?thesis using mono t that by blast
  next
    case False
    then have "ob' = ob" "\<not> marked h ob" "ds = cs" using that h'(5) cs by auto
    then show ?thesis using that by (auto simp: covered_def wl'_def)
  qed
  moreover have "ob' \<in> reach (kids h) ref R" if "u \<in> set wl'" "ref u = Some ob'" for u ob'
    using that t cs r reach.step [of ob "kids h" ref R cs u ob'] by (auto simp: wl'_def split: if_splits)
  ultimately have "tri R h' wl'"
    using t h' r unfolding tri_def by auto
  moreover have "white h' < white h \<or> white h' = white h \<and> wl' = wl"
  proof (cases "marked h ob")
    case True
    then have "marked h' = marked h" using h'(5) by auto
    then show ?thesis using True h'(3) by (simp add: white_def wl'_def)
  next
    case False
    have "{x. alive h' x \<and> \<not> marked h' x} \<subset> {x. alive h x \<and> \<not> marked h x}"
      using False t r h'(3,5) by auto
    moreover have "finite {x. alive h x \<and> \<not> marked h x}"
      using finite_alive [of h] t by (auto elim: finite_subset [rotated])
    ultimately show ?thesis unfolding white_def by (simp add: psubset_card_mono)
  qed
  ultimately show ?thesis using visit h'(3,4) mono by blast
qed

lemma tri_skip:
  assumes "tri R h (v # wl)" "ref v = None"
  shows "tri R h wl" "covered h (v # wl) u \<Longrightarrow> covered h wl u"
  using assms unfolding tri_def covered_def by auto

lemma tri_push:
  assumes "tri R h wl" "set vs \<subseteq> R"
  shows "tri R h (vs @ wl)" "covered h wl u \<Longrightarrow> covered h (vs @ wl) u" "v \<in> set vs \<Longrightarrow> covered h (vs @ wl) v"
proof -
  show mono: "covered h wl u \<Longrightarrow> covered h (vs @ wl) u" for u by (auto simp: covered_def)
  show "v \<in> set vs \<Longrightarrow> covered h (vs @ wl) v" by (auto simp: covered_def)
  have "ob \<in> reach (kids h) ref R" if "u \<in> set vs" "ref u = Some ob" for u ob
    using that assms(2) by (auto intro: reach.root)
  then show "tri R h (vs @ wl)"
    using assms(1) mono unfolding tri_def by auto
qed

text \<open>When the worklist is empty, the marked objects are the reachable ones.\<close>

lemma tri_done:
  assumes tri: "tri R h []" and roots: "\<And>v. v \<in> R \<Longrightarrow> covered h [] v"
  shows "marked h ob \<longleftrightarrow> ob \<in> reach (kids h) ref R"
proof
  assume "marked h ob"
  then show "ob \<in> reach (kids h) ref R" using tri by (auto simp: tri_def)
next
  assume "ob \<in> reach (kids h) ref R"
  then show "marked h ob"
  proof induction
    case (root v ob)
    then show ?case using roots [of v] by (auto simp: covered_def)
  next
    case (step ob cs v ob')
    then have "covered h [] v" using tri unfolding tri_def by blast
    then show ?case using step by (auto simp: covered_def)
  qed
qed

end

text \<open>A loop that visits the values on the worklist until it is empty.\<close>

locale marker = markable +
  fixes drain :: "'b \<Rightarrow> 'c list \<Rightarrow> 'b option"
  assumes drain_Nil: "drain h [] = Some h"
    and drain_skip: "ref v = None \<Longrightarrow> drain h (v # wl) = drain h wl"
    and drain_visit: "ref v = Some ob \<Longrightarrow>
      drain h (v # wl) = Option.bind (visit_ob ob (h, wl)) (\<lambda>hw. drain (fst hw) (snd hw))"
begin

lemma drain_done:
  assumes "tri R h wl"
  shows "\<exists>h'. drain h wl = Some h' \<and> tri R h' [] \<and> kids h' = kids h \<and> alive h' = alive h \<and>
    (\<forall>u. covered h wl u \<longrightarrow> covered h' [] u)"
  using assms
proof (induction "(white h, length wl)" arbitrary: h wl rule: wf_induct_rule [OF wf_lex_prod [OF wf_less_than wf_less_than]])
  case 1
  show ?case
  proof (cases wl)
    case Nil
    then show ?thesis using "1.prems" by (simp add: drain_Nil)
  next
    case (Cons v vs)
    show ?thesis
    proof (cases "ref v")
      case None
      have "\<exists>h'. drain h vs = Some h' \<and> tri R h' [] \<and> kids h' = kids h \<and> alive h' = alive h \<and>
          (\<forall>u. covered h vs u \<longrightarrow> covered h' [] u)"
        by (rule "1.hyps") (use Cons None "1.prems" tri_skip(1) in auto)
      then show ?thesis using drain_skip [OF None] tri_skip(2) [OF "1.prems" [unfolded Cons] None] Cons by auto
    next
      case (Some ob)
      obtain h1 wl1 where s: "visit_ob ob (h, vs) = Some (h1, wl1)" "tri R h1 wl1" "kids h1 = kids h"
        "alive h1 = alive h" "\<And>u. covered h (v # vs) u \<Longrightarrow> covered h1 wl1 u"
        "white h1 < white h \<or> white h1 = white h \<and> wl1 = vs"
        using visit_step [OF "1.prems" [unfolded Cons] Some] by blast
      have "\<exists>h'. drain h1 wl1 = Some h' \<and> tri R h' [] \<and> kids h' = kids h1 \<and> alive h' = alive h1 \<and>
          (\<forall>u. covered h1 wl1 u \<longrightarrow> covered h' [] u)"
        by (rule "1.hyps") (use Cons s in auto)
      then show ?thesis using drain_visit [OF Some, of h vs] s Cons by auto
    qed
  qed
qed

end

section \<open>The mark phase of the runtime\<close>

text \<open>The heaps the mark phase starting at \<open>h0\<close> goes through.\<close>

definition marking_heap :: "heap \<Rightarrow> heap \<Rightarrow> bool" where
  "marking_heap h0 h \<longleftrightarrow> pools_inv h \<and> same_data h0 h \<and> closure_box_pool h = closure_box_pool h0 \<and>
     remembered_set h = remembered_set h0"

lemma finite_live: "finite (live p)"
  by (rule finite_subset [of _ "set (carved p)"]) (auto simp: live_def)

lemma finite_obj_live: "finite {ob. obj_live h ob}"
proof -
  have "finite (OStr ` live (string_pool h) \<union> OArr ` live (array_pool h) \<union>
      ODict ` live (dict_pool h) \<union> OFun ` live (function_pool h) \<union> OBig ` live (long_pool h))"
    by (simp add: finite_live)
  moreover have "{ob. obj_live h ob} \<subseteq> \<dots>"
    by (rule subsetI) (case_tac x; simp)
  ultimately show ?thesis by (rule finite_subset [rotated])
qed

interpretation gcm: markable mark_obj children obj_of "\<lambda>h. obj_flag h 0" obj_live "marking_heap h0" for h0
proof unfold_locales
  fix h ob assume a: "marking_heap h0 h" "obj_live h ob"
  then obtain h' where h': "mark_obj ob h = Some (obj_flag h 0 ob, h')" "pools_inv h'" "same_data h h'"
    "closure_box_pool h' = closure_box_pool h" "remembered_set h' = remembered_set h"
    "\<And>ob'. obj_flag h' 0 ob' \<longleftrightarrow> obj_flag h 0 ob' \<or> ob' = ob"
    using mark_obj_post [of h ob] unfolding marking_heap_def by blast
  have "obj_live h' = obj_live h" "children h' = children h"
    using same_dataD(1) [OF h'(3)] same_data_children [OF h'(3)] by (auto simp: fun_eq_iff)
  moreover have "marking_heap h0 h'"
    using a(1) h'(2-5) same_data_trans by (auto simp: marking_heap_def)
  ultimately show "\<exists>h'. mark_obj ob h = Some (obj_flag h 0 ob, h') \<and> marking_heap h0 h' \<and>
      obj_live h' = obj_live h \<and> children h' = children h \<and>
      (\<forall>ob'. obj_flag h' 0 ob' \<longleftrightarrow> obj_flag h 0 ob' \<or> ob' = ob)"
    using h'(1,6) by blast
qed (rule finite_obj_live)

lemma visit_ob_visit: "gcm.visit_ob ob hw = visit ob hw"
  by (simp add: gcm.visit_ob_def visit_def)

interpretation gcmark: marker mark_obj children obj_of "\<lambda>h. obj_flag h 0" obj_live "marking_heap h0" mark_drain for h0
proof unfold_locales
  show "mark_drain h [] = Some h" for h by (subst mark_drain.simps) simp
  show "mark_drain h (v # wl) = mark_drain h wl" if "obj_of v = None" for v h wl
    using that by (subst mark_drain.simps) (simp add: mark_value_visit)
  show "mark_drain h (v # wl) = Option.bind (gcm.visit_ob ob (h, wl)) (\<lambda>hw. mark_drain (fst hw) (snd hw))"
    if "obj_of v = Some ob" for v ob h wl
    using that by (subst mark_drain.simps) (simp add: mark_value_visit visit_ob_visit)
qed

section \<open>The root sets\<close>

definition frame_values :: "call_frame \<Rightarrow> val list" where
  "frame_values f =
     (case fr_function f of None \<Rightarrow> [] | Some c \<Rightarrow> [VFunction c]) @ concat (map dargs (defers f)) @
     (if defers_draining f then [pending_return_value f] else [])"

definition vm_roots :: "heap \<Rightarrow> vm \<Rightarrow> val list option" where
  "vm_roots h v =
     do { ps \<leftarrow> those (map (read_box h) (pending_upvalues v));
          ss \<leftarrow> those (map (scope_values h) (take (scope_depth v) (scopes v)));
          Some (stack v @ ps @ concat ss @ concat (map frame_values (call_stack v))) }"

definition module_roots :: "heap \<Rightarrow> shape_rec list \<Rightarrow> file_module \<Rightarrow> val list option" where
  "module_roots h shs fm = map_option (\<lambda>vs. vs @ chunk_roots shs (mod_chunk fm)) (vm_roots h (mod_vm fm))"

definition gc_roots :: "bool \<Rightarrow> mach \<Rightarrow> val list option" where
  "gc_roots minor m =
     do { vs \<leftarrow> vm_roots (heap m) (vm m);
          ms \<leftarrow> those (map (module_roots (heap m) (shapes m)) (modules m));
          rs \<leftarrow> (if minor then map_option fst (remembered_roots (heap m) (remembered_set (heap m)))
                else Some []);
          Some (vs @ chunk_roots (shapes m) (chunk m) @ concat ms @ rs) }"

abbreviation heap_reach :: "heap \<Rightarrow> val set \<Rightarrow> obj set" where
  "heap_reach h R \<equiv> reach (children h) obj_of R"

abbreviation heap_tri :: "heap \<Rightarrow> val set \<Rightarrow> heap \<Rightarrow> val list \<Rightarrow> bool" where
  "heap_tri h0 \<equiv> markable.tri children obj_of (\<lambda>h. obj_flag h 0) obj_live (marking_heap h0)"

abbreviation heap_covered :: "heap \<Rightarrow> val list \<Rightarrow> val \<Rightarrow> bool" where
  "heap_covered \<equiv> markable.covered obj_of (\<lambda>h. obj_flag h 0)"

text \<open>The mark phase for roots \<open>R\<close> has taken in the values \<open>S\<close>.\<close>

definition taken :: "heap \<Rightarrow> val set \<Rightarrow> val set \<Rightarrow> marking \<Rightarrow> bool" where
  "taken h0 R S hw \<longleftrightarrow> heap_tri h0 R (fst hw) (snd hw) \<and> (\<forall>u \<in> S. heap_covered (fst hw) (snd hw) u)"

lemma taken_heap: "taken h0 R S hw \<Longrightarrow> marking_heap h0 (fst hw)"
  by (simp add: taken_def gcm.tri_def)

lemma taken_push:
  assumes "taken h0 R S (h, wl)" "set vs \<subseteq> R"
  shows "taken h0 R (S \<union> set vs) (h, vs @ wl)"
  using assms gcm.tri_push [of h0 R h wl vs] unfolding taken_def by auto

lemma taken_function:
  assumes "taken h0 R S (h, wl)" "VFunction c \<in> R"
  shows "\<exists>hw. mark_function c (h, wl) = Some hw \<and> taken h0 R (S \<union> {VFunction c}) hw"
proof -
  have "taken h0 R (S \<union> {VFunction c}) (h, VFunction c # wl)"
    using taken_push [OF assms(1), of "[VFunction c]"] assms(2) by simp
  then have t: "heap_tri h0 R h (VFunction c # wl)"
    "\<And>u. u \<in> S \<union> {VFunction c} \<Longrightarrow> heap_covered h (VFunction c # wl) u" by (auto simp: taken_def)
  obtain h' wl' where "visit (OFun c) (h, wl) = Some (h', wl')" "heap_tri h0 R h' wl'"
    "\<And>u. heap_covered h (VFunction c # wl) u \<Longrightarrow> heap_covered h' wl' u"
    using gcm.visit_step [OF t(1), of "OFun c"] by (auto simp: visit_ob_visit)
  then show ?thesis using t(2) by (auto simp: mark_function_visit taken_def)
qed

lemma taken_frame:
  assumes t: "taken h0 R S hw" and f: "set (frame_values f) \<subseteq> R"
  shows "\<exists>hw'. mark_frame f hw = Some hw' \<and> taken h0 R (S \<union> set (frame_values f)) hw'"
proof -
  let ?F = "case fr_function f of None \<Rightarrow> [] | Some c \<Rightarrow> [VFunction c]"
  have "\<exists>hw'. (case fr_function f of None \<Rightarrow> Some hw | Some c \<Rightarrow> mark_function c hw) = Some hw' \<and>
      taken h0 R (S \<union> set ?F) hw'"
    using taken_function [of h0 R S "fst hw" "snd hw"] t f
    by (cases "fr_function f") (auto simp: frame_values_def)
  then obtain h' wl' where h': "(case fr_function f of None \<Rightarrow> Some hw | Some c \<Rightarrow> mark_function c hw) = Some (h', wl')"
    "taken h0 R (S \<union> set ?F) (h', wl')" by auto
  let ?vs = "(if defers_draining f then [pending_return_value f] else []) @ rev (concat (map dargs (defers f)))"
  have sub: "set ?vs \<subseteq> R" using f by (auto simp: frame_values_def split: if_splits)
  have "S \<union> set ?F \<union> set ?vs = S \<union> set (frame_values f)" by (auto simp: frame_values_def)
  then show ?thesis
    using taken_push [OF h'(2) sub] h'(1) by (simp add: mark_frame_def)
qed

lemma taken_frames:
  assumes "taken h0 R S hw" "set (concat (map frame_values fs)) \<subseteq> R"
  shows "\<exists>hw'. foldM mark_frame fs hw = Some hw' \<and> taken h0 R (S \<union> set (concat (map frame_values fs))) hw'"
  using assms
proof (induction fs arbitrary: S hw)
  case (Cons f fs)
  obtain hw1 where "mark_frame f hw = Some hw1" "taken h0 R (S \<union> set (frame_values f)) hw1"
    using taken_frame [OF Cons.prems(1), of f] Cons.prems(2) by auto
  then show ?case
    using Cons.IH [of "S \<union> set (frame_values f)" hw1] Cons.prems(2) by (simp add: Un_assoc)
qed simp

lemma marking_reads:
  assumes "marking_heap h0 h"
  shows "read_box h = read_box h0" "scope_values h = scope_values h0"
proof -
  have s: "same_data h0 h" using assms by (simp add: marking_heap_def)
  show b: "read_box h = read_box h0" using same_dataD(4) [OF s] .
  have v: "slot_value h = slot_value h0" unfolding slot_value_def b ..
  show "scope_values h = scope_values h0" unfolding scope_values_def v same_dataD(5) [OF s] ..
qed

lemma taken_vm:
  assumes t: "taken h0 R S hw" and r: "vm_roots h0 v = Some vs" and sub: "set vs \<subseteq> R"
  shows "\<exists>hw'. mark_vm_roots v hw = Some hw' \<and> taken h0 R (S \<union> set vs) hw'"
proof -
  obtain h wl where hw: "hw = (h, wl)" by force
  note rd = marking_reads [OF taken_heap [OF t], unfolded hw fst_conv]
  obtain ps ss where p: "those (map (read_box h0) (pending_upvalues v)) = Some ps"
    "those (map (scope_values h0) (take (scope_depth v) (scopes v))) = Some ss"
    and vs: "vs = stack v @ ps @ concat ss @ concat (map frame_values (call_stack v))"
    using r by (auto simp: vm_roots_def bind_eq_Some_conv simp del: those_eq_Some)
  let ?ws = "rev (concat ss) @ rev ps @ stack v"
  have "taken h0 R (S \<union> set ?ws) (h, ?ws @ wl)"
    using taken_push [OF t [unfolded hw], of ?ws] sub vs by auto
  from taken_frames [OF this, of "rev (call_stack v)"] sub vs
  obtain hw' where hw': "foldM mark_frame (rev (call_stack v)) (h, ?ws @ wl) = Some hw'"
    "taken h0 R (S \<union> set ?ws \<union> set (concat (map frame_values (rev (call_stack v))))) hw'" by auto
  have "S \<union> set ?ws \<union> set (concat (map frame_values (rev (call_stack v)))) = S \<union> set vs"
    by (auto simp: vs)
  then show ?thesis using hw' p rd by (simp add: mark_vm_roots_def hw del: those_eq_Some)
qed

lemma taken_chunk:
  assumes "taken h0 R S hw" "set (chunk_roots shs c) \<subseteq> R"
  shows "taken h0 R (S \<union> set (chunk_roots shs c)) (mark_chunk_roots shs c hw)"
  using taken_push [of h0 R S "fst hw" "snd hw" "rev (chunk_roots shs c)"] assms
  by (simp add: mark_chunk_roots_def)

lemma taken_modules:
  assumes "taken h0 R S hw" "those (map (module_roots h0 shs) fms) = Some ms" "set (concat ms) \<subseteq> R"
  shows "\<exists>hw'. foldM (mark_module shs) fms hw = Some hw' \<and> taken h0 R (S \<union> set (concat ms)) hw'"
  using assms
proof (induction fms arbitrary: S hw ms)
  case (Cons fm fms)
  obtain r ms' where r: "module_roots h0 shs fm = Some r" "ms = r # ms'"
    and v3: "those (map (module_roots h0 shs) fms) = Some ms'"
    using Cons.prems(2) by (auto simp del: those_eq_Some split: option.splits)
  obtain vs where v: "vm_roots h0 (mod_vm fm) = Some vs" "ms = (vs @ chunk_roots shs (mod_chunk fm)) # ms'"
    using r by (auto simp: module_roots_def)
  obtain hw1 where hw1: "mark_vm_roots (mod_vm fm) hw = Some hw1" "taken h0 R (S \<union> set vs) hw1"
    using taken_vm [OF Cons.prems(1) v(1)] Cons.prems(3) v(2) by auto
  have "taken h0 R (S \<union> set vs \<union> set (chunk_roots shs (mod_chunk fm))) (mark_chunk_roots shs (mod_chunk fm) hw1)"
    using taken_chunk [OF hw1(2)] Cons.prems(3) v(2) by auto
  from Cons.IH [OF this v3] Cons.prems(3) v(2) hw1(1) show ?case
    by (auto simp: mark_module_def Un_assoc)
qed simp

section \<open>Clearing, remembered set and sweep\<close>

lemma clear_pool:
  assumes "pool_inv p"
  shows "pool_inv (pool_clear_marks p)" "same_pool p (pool_clear_marks p)"
    "\<not> flagged (pool_clear_marks p) 0 c"
  using pool_clear_marks_post [OF assms] pool_read_slabs [OF pool_clear_marks_post(3) [OF assms]]
  by (auto simp: same_pool_def fun_eq_iff)

lemma clear_all_marks_post:
  assumes "pools_inv h"
  shows "pools_inv (clear_all_marks h)" "same_data h (clear_all_marks h)"
    "\<not> obj_flag (clear_all_marks h) 0 ob" "\<not> flagged (closure_box_pool (clear_all_marks h)) 0 c"
    "remembered_set (clear_all_marks h) = remembered_set h"
proof -
  note i = pools_invD [OF assms]
  note cl = clear_pool [OF i(1)] clear_pool [OF i(2)] clear_pool [OF i(3)] clear_pool [OF i(4)]
    clear_pool [OF i(5)] clear_pool [OF i(6)]
  show "pools_inv (clear_all_marks h)" using cl by (simp add: pools_inv_def clear_all_marks_def)
  show "same_data h (clear_all_marks h)" using cl by (simp add: same_data_def clear_all_marks_def)
  show "\<not> obj_flag (clear_all_marks h) 0 ob" using cl by (cases ob) (simp_all add: clear_all_marks_def)
  show "\<not> flagged (closure_box_pool (clear_all_marks h)) 0 c" using cl by (simp add: clear_all_marks_def)
  show "remembered_set (clear_all_marks h) = remembered_set h" by (simp add: clear_all_marks_def)
qed

lemma carved_freed:
  assumes "pool_inv p" "c \<in> set (carved p)"
  shows "pool_is_freed p c = Some (flagged p 2 c)" "pool_owns p c"
proof -
  have sh: "shape_ok p" using assms(1) by (simp add: pool_inv_def)
  have "pstate p c \<noteq> None" using pstate_carved [OF sh] assms(2) by blast
  then obtain s where s: "pstate p c = Some s" by blast
  then have "pool_cell_state p c = Some s"
    using pool_cell_state_eq [OF sh] pstate_row_get [OF sh assms(2)] by simp
  then show "pool_is_freed p c = Some (flagged p 2 c)" "pool_owns p c"
    using s by (auto simp: pool_is_freed_def flagged_def cell_simps pool_owns_def pool_cell_state_def)
qed

text \<open>Remembered entries point at cells their pool handed out once.\<close>

fun rem_carved :: "heap \<Rightarrow> remembered \<Rightarrow> bool" where
  "rem_carved h (REMEMBERED_ARRAY c) \<longleftrightarrow> c \<in> set (carved (array_pool h))"
| "rem_carved h (REMEMBERED_DICT c) \<longleftrightarrow> c \<in> set (carved (dict_pool h))"
| "rem_carved h (REMEMBERED_BOX (BoxCell c)) \<longleftrightarrow> c \<in> set (carved (closure_box_pool h))"
| "rem_carved h (REMEMBERED_BOX (BoxOvf _)) \<longleftrightarrow> True"

lemma rem_alive_same:
  assumes s: "same_data h h'" and inv: "pools_inv h" "pools_inv h'" and r: "rem_carved h e"
  shows "rem_alive h' e = rem_alive h e"
proof -
  have "pool_is_freed p' c = pool_is_freed p c" "pool_owns p' c = pool_owns p c"
    if "same_pool p p'" "pool_inv p" "pool_inv p'" "c \<in> set (carved p)"
    for p p' :: "'b pool" and c
    using that carved_freed [of p c] carved_freed [of p' c] by (auto simp: same_pool_def)
  note st = this
  show ?thesis
    using s r pools_invD [OF inv(1)] pools_invD [OF inv(2)]
      carved_freed [of "array_pool h"] carved_freed [of "array_pool h'"]
      carved_freed [of "dict_pool h"] carved_freed [of "dict_pool h'"]
      carved_freed [of "closure_box_pool h"] carved_freed [of "closure_box_pool h'"]
    by (cases "(h, e)" rule: rem_carved.cases) (auto simp: rem_alive_def same_data_def same_pool_def)
qed

lemma rem_values_same: "same_data h h' \<Longrightarrow> rem_values h' e = rem_values h e"
  using same_dataD(4) [of h h']
  by (cases e) (simp_all add: rem_values_def same_data_def same_pool_def)

lemma remembered_roots_same:
  assumes "same_data h h'" "pools_inv h" "pools_inv h'" "\<And>e. e \<in> set es \<Longrightarrow> rem_carved h e"
  shows "remembered_roots h' es = remembered_roots h es"
  using assms(4)
proof (induction es)
  case (Cons e es)
  then have "remembered_roots h' es = remembered_roots h es" "rem_carved h e" by simp_all
  then show ?case
    by (simp only: remembered_roots.simps rem_alive_same [OF assms(1-3)] rem_values_same [OF assms(1)])
qed simp

lemma sweep_pool:
  assumes inv: "pool_inv p"
  shows "\<exists>p' fs. pool_sweep p y = Some (p', fs) \<and> pool_inv p' \<and>
    live p' = {c \<in> live p. flagged p 0 c \<or> y \<and> flagged p 1 c} \<and> carved p' = carved p \<and>
    (\<forall>c \<in> live p'. pool_read p' c = pool_read p c)"
proof -
  obtain p' where "pool_sweep p y = Some (p', filter (\<lambda>c. sweep_dies y (the (pstate p c))) (carved p))"
    "pool_inv p'" "live p' = {c \<in> live p. flagged p 0 c \<or> y \<and> flagged p 1 c}" "carved p' = carved p"
    "\<And>d. d \<in> live p' \<Longrightarrow> row_get (slabs p') d = row_get (slabs p) d"
    by (rule pool_sweep_post [OF inv, of y]) (rule that)
  then show ?thesis by (auto simp: pool_read_def)
qed

lemma sweep_all_post:
  assumes inv: "pools_inv h"
  shows "\<exists>h'. sweep_all minor h = Some h' \<and> pools_inv h' \<and>
    (\<forall>ob. obj_live h' ob \<longleftrightarrow> obj_live h ob \<and> (obj_flag h 0 ob \<or> minor \<and> obj_flag h 1 ob)) \<and>
    (\<forall>ob. obj_live h' ob \<longrightarrow> obj_content h' ob = obj_content h ob) \<and>
    live (closure_box_pool h') = {c \<in> live (closure_box_pool h).
      flagged (closure_box_pool h) 0 c \<or> minor \<and> flagged (closure_box_pool h) 1 c} \<and>
    (\<forall>c \<in> live (closure_box_pool h'). pool_read (closure_box_pool h') c = pool_read (closure_box_pool h) c) \<and>
    carved (closure_box_pool h') = carved (closure_box_pool h) \<and> ovf_boxes h' = ovf_boxes h"
proof -
  note i = pools_invD [OF inv]
  obtain sp f1 where s: "pool_sweep (string_pool h) minor = Some (sp, f1)" "pool_inv sp"
    "live sp = {c \<in> live (string_pool h). flagged (string_pool h) 0 c \<or> minor \<and> flagged (string_pool h) 1 c}"
    "carved sp = carved (string_pool h)"
    "\<forall>c \<in> live sp. pool_read sp c = pool_read (string_pool h) c"
    using sweep_pool [OF i(1), of minor] by blast
  obtain ap f2 where a: "pool_sweep (array_pool h) minor = Some (ap, f2)" "pool_inv ap"
    "live ap = {c \<in> live (array_pool h). flagged (array_pool h) 0 c \<or> minor \<and> flagged (array_pool h) 1 c}"
    "carved ap = carved (array_pool h)"
    "\<forall>c \<in> live ap. pool_read ap c = pool_read (array_pool h) c"
    using sweep_pool [OF i(2), of minor] by blast
  obtain dp f3 where d: "pool_sweep (dict_pool h) minor = Some (dp, f3)" "pool_inv dp"
    "live dp = {c \<in> live (dict_pool h). flagged (dict_pool h) 0 c \<or> minor \<and> flagged (dict_pool h) 1 c}"
    "carved dp = carved (dict_pool h)"
    "\<forall>c \<in> live dp. pool_read dp c = pool_read (dict_pool h) c"
    using sweep_pool [OF i(3), of minor] by blast
  obtain fp f4 where f: "pool_sweep (function_pool h) minor = Some (fp, f4)" "pool_inv fp"
    "live fp = {c \<in> live (function_pool h). flagged (function_pool h) 0 c \<or> minor \<and> flagged (function_pool h) 1 c}"
    "carved fp = carved (function_pool h)"
    "\<forall>c \<in> live fp. pool_read fp c = pool_read (function_pool h) c"
    using sweep_pool [OF i(4), of minor] by blast
  obtain bp f5 where b: "pool_sweep (closure_box_pool h) minor = Some (bp, f5)" "pool_inv bp"
    "live bp = {c \<in> live (closure_box_pool h). flagged (closure_box_pool h) 0 c \<or> minor \<and> flagged (closure_box_pool h) 1 c}"
    "carved bp = carved (closure_box_pool h)"
    "\<forall>c \<in> live bp. pool_read bp c = pool_read (closure_box_pool h) c"
    using sweep_pool [OF i(5), of minor] by blast
  obtain lp f6 where l: "pool_sweep (long_pool h) minor = Some (lp, f6)" "pool_inv lp"
    "live lp = {c \<in> live (long_pool h). flagged (long_pool h) 0 c \<or> minor \<and> flagged (long_pool h) 1 c}"
    "carved lp = carved (long_pool h)"
    "\<forall>c \<in> live lp. pool_read lp c = pool_read (long_pool h) c"
    using sweep_pool [OF i(6), of minor] by blast
  let ?h = "h\<lparr>string_pool := sp, array_pool := ap, dict_pool := dp, function_pool := fp,
                  closure_box_pool := bp, long_pool := lp\<rparr>"
  have "sweep_all minor h = Some ?h"
    by (simp add: sweep_all_def s(1) a(1) d(1) f(1) b(1) l(1))
  moreover have "pools_inv ?h" by (simp add: pools_inv_def s(2) a(2) d(2) f(2) b(2) l(2))
  moreover have "obj_live ?h ob \<longleftrightarrow> obj_live h ob \<and> (obj_flag h 0 ob \<or> minor \<and> obj_flag h 1 ob)" for ob
    by (cases ob) (simp_all add: s(3) a(3) d(3) f(3) l(3))
  moreover have "obj_live ?h ob \<longrightarrow> obj_content ?h ob = obj_content h ob" for ob
    using s(5) a(5) d(5) f(5) l(5) by (cases ob) simp_all
  ultimately show ?thesis using b(3-5) by (intro exI [of _ ?h]) simp
qed

section \<open>A whole collection\<close>

definition rem_ok :: "heap \<Rightarrow> bool" where
  "rem_ok h \<longleftrightarrow> (\<forall>e \<in> set (remembered_set h). rem_carved h e)"

text \<open>Everything reachable from \<open>R\<close> is a cell in use that can be read.\<close>

definition closed_from :: "heap \<Rightarrow> val set \<Rightarrow> bool" where
  "closed_from h R \<longleftrightarrow> (\<forall>ob \<in> heap_reach h R. obj_live h ob \<and> children h ob \<noteq> None)"

lemma same_data_kids: "same_data h h' \<Longrightarrow> children h' = children h" "same_data h h' \<Longrightarrow> obj_live h' = obj_live h"
  using same_data_children [of h h'] same_dataD(1) [of h h'] by (auto simp: fun_eq_iff)

lemma vm_roots_same: "same_data h h' \<Longrightarrow> vm_roots h' v = vm_roots h v"
proof -
  assume s: "same_data h h'"
  have b: "read_box h' = read_box h" using same_dataD(4) [OF s] .
  have v: "slot_value h' = slot_value h" unfolding slot_value_def b ..
  have "scope_values h' = scope_values h" unfolding scope_values_def v same_dataD(5) [OF s] ..
  then show ?thesis by (simp only: vm_roots_def b)
qed

lemma taken_start:
  assumes inv: "pools_inv h" and cl: "closed_from h R"
  shows "taken (clear_all_marks h) R {} (clear_all_marks h, [])"
proof -
  note c = clear_all_marks_post [OF inv]
  note k = same_data_kids [OF c(2)]
  show ?thesis
    using c cl k
    by (simp add: taken_def gcm.tri_def marking_heap_def closed_from_def)
qed

text \<open>
  The mark phase of \<open>gc_collect\<close>, up to the sweep: it ends with exactly the reachable objects
  marked, and with no box marked.
\<close>

lemma mark_phase:
  assumes inv: "pools_inv (heap m)" and rem: "rem_ok (heap m)" and R: "gc_roots minor m = Some rs"
    and cl: "closed_from (heap m) (set rs)"
  obtains h' where "gc_collect minor m = map_option (\<lambda>h''. m\<lparr>heap := h''\<rparr>) (sweep_all minor h')"
    "pools_inv h'" "same_data (heap m) h'" "\<And>c. \<not> flagged (closure_box_pool h') 0 c"
    "\<And>ob. obj_flag h' 0 ob \<longleftrightarrow> ob \<in> heap_reach (heap m) (set rs)"
proof -
  let ?h0 = "clear_all_marks (heap m)" and ?R = "set rs"
  note c = clear_all_marks_post [OF inv]
  have same: "same_data (heap m) ?h0" by (rule c(2))
  obtain vs ms ws where v: "vm_roots (heap m) (vm m) = Some vs"
    and ms: "those (map (module_roots (heap m) (shapes m)) (modules m)) = Some ms"
    and ws: "(if minor then map_option fst (remembered_roots (heap m) (remembered_set (heap m)))
                else Some []) = Some ws"
    and rs: "rs = vs @ chunk_roots (shapes m) (chunk m) @ concat ms @ ws"
    using R by (auto simp: gc_roots_def bind_eq_Some_conv simp del: those_eq_Some)
  have v0: "vm_roots ?h0 (vm m) = Some vs" using v vm_roots_same [OF same] by simp
  have "set vs \<subseteq> ?R" using rs by auto
  from taken_vm [OF taken_start [OF inv cl] v0 this]
  obtain hw1 where hw1: "mark_vm_roots (vm m) (?h0, []) = Some hw1" "taken ?h0 ?R (set vs) hw1"
    unfolding Un_empty_left by blast
  have hw2: "taken ?h0 ?R (set vs \<union> set (chunk_roots (shapes m) (chunk m)))
      (mark_chunk_roots (shapes m) (chunk m) hw1)"
    using taken_chunk [OF hw1(2)] rs by auto
  have "module_roots ?h0 (shapes m) = module_roots (heap m) (shapes m)"
    using vm_roots_same [OF same] by (simp add: module_roots_def fun_eq_iff)
  then have ms0: "those (map (module_roots ?h0 (shapes m)) (modules m)) = Some ms" using ms by simp
  have "set (concat ms) \<subseteq> ?R" using rs by auto
  from taken_modules [OF hw2 ms0 this] obtain h3 wl3 where
    hw3: "foldM (mark_module (shapes m)) (modules m) (mark_chunk_roots (shapes m) (chunk m) hw1) = Some (h3, wl3)"
    "taken ?h0 ?R (set vs \<union> set (chunk_roots (shapes m) (chunk m)) \<union> set (concat ms)) (h3, wl3)"
    by (metis prod.exhaust)
  have mh3: "marking_heap ?h0 h3" using taken_heap [OF hw3(2)] by simp
  then have s3: "same_data (heap m) h3" "pools_inv h3" "remembered_set h3 = remembered_set (heap m)"
    using same_data_trans [OF same] c(5) by (auto simp: marking_heap_def)
  have rr: "remembered_roots h3 (remembered_set h3) = remembered_roots (heap m) (remembered_set (heap m))"
    unfolding s3(3) using remembered_roots_same [OF s3(1) inv s3(2)] rem by (simp add: rem_ok_def)
  define h4 where "h4 = (if minor then h3\<lparr>remembered_set :=
      snd (the (remembered_roots (heap m) (remembered_set (heap m))))\<rparr> else h3)"
  have step4: "(if minor then do { (vs, ks) \<leftarrow> remembered_roots h3 (remembered_set h3);
                   Some (h3\<lparr>remembered_set := ks\<rparr>, rev vs @ wl3) } else Some (h3, wl3)) = Some (h4, rev ws @ wl3)"
    using ws unfolding rr h4_def by (auto split: if_splits)
  text \<open>Trimming the remembered set is invisible to marking: restart the invariant from it.\<close>
  let ?h04 = "?h0\<lparr>remembered_set := remembered_set h4\<rparr>"
  have k4: "children h4 = children h3" "obj_live h4 = obj_live h3" "obj_flag h4 = obj_flag h3"
  proof -
    have "same_data h3 h4" by (simp add: h4_def same_data_def)
    then show "children h4 = children h3" "obj_live h4 = obj_live h3" using same_data_kids by auto
    show "obj_flag h4 = obj_flag h3" by (rule ext, rule ext, case_tac xa) (simp_all add: h4_def)
  qed
  have "marking_heap ?h04 h4"
    using mh3 by (auto simp: marking_heap_def h4_def same_data_def pools_inv_def)
  then have t4: "taken ?h04 ?R (set vs \<union> set (chunk_roots (shapes m) (chunk m)) \<union> set (concat ms)) (h4, wl3)"
    using hw3(2) k4 by (simp add: taken_def gcm.tri_def gcm.covered_def)
  have t5: "taken ?h04 ?R ?R (h4, rev ws @ wl3)"
  proof -
    have "set (rev ws) \<subseteq> ?R" using rs by auto
    moreover have "set vs \<union> set (chunk_roots (shapes m) (chunk m)) \<union> set (concat ms) \<union> set (rev ws) = ?R"
      using rs by auto
    ultimately show ?thesis using taken_push [OF t4, of "rev ws"] by (simp only:)
  qed
  then obtain h' where h': "mark_drain h4 (rev ws @ wl3) = Some h'" "heap_tri ?h04 ?R h' []"
    "children h' = children h4" "\<And>u. heap_covered h4 (rev ws @ wl3) u \<Longrightarrow> heap_covered h' [] u"
    using gcmark.drain_done [of ?h04 ?R h4 "rev ws @ wl3"] unfolding taken_def by auto
  have "\<And>u. u \<in> ?R \<Longrightarrow> heap_covered h' [] u" using t5 h'(4) by (auto simp: taken_def)
  from gcm.tri_done [OF h'(2) this]
  have marks: "obj_flag h' 0 ob \<longleftrightarrow> ob \<in> reach (children h') obj_of ?R" for ob by blast
  have kids: "children h' = children (heap m)" using h'(3) k4(1) same_data_kids(1) [OF s3(1)] by simp
  have mh: "marking_heap ?h04 h'" using h'(2) by (simp add: gcm.tri_def)
  have "same_data ?h0 h'" using mh by (simp add: marking_heap_def same_data_def)
  then have same': "same_data (heap m) h'" by (rule same_data_trans [OF same])
  have gc: "gc_collect minor m = map_option (\<lambda>h''. m\<lparr>heap := h''\<rparr>) (sweep_all minor h')"
    unfolding gc_collect_def hw1(1) bind.bind_lunit hw3(1) prod.case step4 h'(1)
    by (cases "sweep_all minor h'") auto
  show thesis
    using that [OF gc _ same' _ marks [unfolded kids]] mh c(4) by (simp add: marking_heap_def)
qed

definition gc_ok :: "bool \<Rightarrow> mach \<Rightarrow> val list \<Rightarrow> bool" where
  "gc_ok minor m rs \<longleftrightarrow> pools_inv (heap m) \<and> rem_ok (heap m) \<and> gc_roots minor m = Some rs \<and>
     closed_from (heap m) (set rs)"

lemma freed_read:
  assumes inv: "pool_inv p" and c: "c \<in> set (carved p)" "c \<notin> live p"
  shows "pool_read p c = None"
proof -
  obtain xs where ch: "chain (slabs p) (free_list p) xs" "set xs = {c \<in> set (carved p). flagged p 2 c}"
    using inv by (auto simp: pool_inv_def)
  have ln: "chain sl fl xs \<Longrightarrow> c \<in> set xs \<Longrightarrow> \<exists>nxt. row_get sl c = Some (Link nxt)" for sl :: "'a cell list list" and fl
    by (induction xs arbitrary: fl) (case_tac fl; auto)+
  have "c \<in> set xs" using ch(2) c by (simp add: live_def)
  from ln [OF ch(1) this] obtain nxt where "row_get (slabs p) c = Some (Link nxt)" ..
  then show ?thesis by (simp add: pool_read_def)
qed

lemma gc_collect_post:
  assumes ok: "gc_ok minor m rs"
  obtains m' where "gc_collect minor m = Some m'" "m' = m\<lparr>heap := heap m'\<rparr>" "pools_inv (heap m')"
    "\<And>ob. obj_live (heap m') ob \<longleftrightarrow>
       obj_live (heap m) ob \<and> (ob \<in> heap_reach (heap m) (set rs) \<or> minor \<and> obj_flag (heap m) 1 ob)"
    "\<And>ob. obj_live (heap m') ob \<Longrightarrow> obj_content (heap m') ob = obj_content (heap m) ob"
    "live (closure_box_pool (heap m')) =
       {c \<in> live (closure_box_pool (heap m)). minor \<and> flagged (closure_box_pool (heap m)) 1 c}"
    "carved (closure_box_pool (heap m')) = carved (closure_box_pool (heap m))"
proof -
  obtain h' where h': "gc_collect minor m = map_option (\<lambda>h''. m\<lparr>heap := h''\<rparr>) (sweep_all minor h')"
    "pools_inv h'" "same_data (heap m) h'" "\<And>c. \<not> flagged (closure_box_pool h') 0 c"
    "\<And>ob. obj_flag h' 0 ob \<longleftrightarrow> ob \<in> heap_reach (heap m) (set rs)"
    using ok mark_phase [of m minor rs] by (auto simp: gc_ok_def)
  obtain h'' where s: "sweep_all minor h' = Some h''" "pools_inv h''"
    "\<And>ob. obj_live h'' ob \<longleftrightarrow> obj_live h' ob \<and> (obj_flag h' 0 ob \<or> minor \<and> obj_flag h' 1 ob)"
    "\<And>ob. obj_live h'' ob \<Longrightarrow> obj_content h'' ob = obj_content h' ob"
    "live (closure_box_pool h'') = {c \<in> live (closure_box_pool h').
      flagged (closure_box_pool h') 0 c \<or> minor \<and> flagged (closure_box_pool h') 1 c}"
    "carved (closure_box_pool h'') = carved (closure_box_pool h')"
    using sweep_all_post [OF h'(2), of minor] by blast
  have cb: "same_pool (closure_box_pool (heap m)) (closure_box_pool h')" using h'(3) by (simp add: same_data_def)
  show thesis
  proof (rule that [of "m\<lparr>heap := h''\<rparr>"])
    show "gc_collect minor m = Some (m\<lparr>heap := h''\<rparr>)" using h'(1) s(1) by simp
    show "live (closure_box_pool (heap (m\<lparr>heap := h''\<rparr>))) =
       {c \<in> live (closure_box_pool (heap m)). minor \<and> flagged (closure_box_pool (heap m)) 1 c}"
      using s(5) h'(4) cb by (auto simp: same_pool_def)
    show "carved (closure_box_pool (heap (m\<lparr>heap := h''\<rparr>))) = carved (closure_box_pool (heap m))"
      using s(6) cb by (simp add: same_pool_def)
  qed (use s h'(5) same_dataD(1-3) [OF h'(3)] in auto)
qed

section \<open>Properties\<close>

text \<open>C2: From every state in which whatever is reachable is readable, a collection runs
  to its end, and a string, array, dict, function or big integer survives it exactly when it is
  reachable from the roots of all VMs and chunks or, in a minor collection, old; survivors keep
  their contents. So no reachable object is ever freed, and a major collection leaves no
  garbage.\<close>

theorem gc_collect_exact:
  assumes "gc_ok minor m rs"
  shows "\<exists>m'. gc_collect minor m = Some m' \<and> m' = m\<lparr>heap := heap m'\<rparr> \<and> pools_inv (heap m') \<and>
    (\<forall>ob. obj_live (heap m') ob \<longleftrightarrow>
       ob \<in> heap_reach (heap m) (set rs) \<or> minor \<and> obj_live (heap m) ob \<and> obj_flag (heap m) 1 ob) \<and>
    (\<forall>ob. obj_live (heap m') ob \<longrightarrow> obj_content (heap m') ob = obj_content (heap m) ob)"
proof -
  obtain m' where m': "gc_collect minor m = Some m'" "m' = m\<lparr>heap := heap m'\<rparr>" "pools_inv (heap m')"
    "\<And>ob. obj_live (heap m') ob \<longleftrightarrow>
       obj_live (heap m) ob \<and> (ob \<in> heap_reach (heap m) (set rs) \<or> minor \<and> obj_flag (heap m) 1 ob)"
    "\<And>ob. obj_live (heap m') ob \<Longrightarrow> obj_content (heap m') ob = obj_content (heap m) ob"
    by (rule gc_collect_post [OF assms]) (rule that)
  have "obj_live (heap m) ob" if "ob \<in> heap_reach (heap m) (set rs)" for ob
    using assms that by (simp add: gc_ok_def closed_from_def)
  then show ?thesis using m' by blast
qed

text \<open>C22: No collection ever marks a closure box, so every collection frees all
  boxes that are not old, although a closure that survives still points at them: reading its
  captured variables is then a read of freed memory. (The comments of \<^verbatim>\<open>free_function\<close> and
  \<^verbatim>\<open>vm_pools_init_once\<close> count on the boxes being tracked.)\<close>

theorem gc_drops_closure_boxes:
  assumes "gc_ok minor m rs" "\<And>c. \<not> flagged (closure_box_pool (heap m)) 1 c"
  shows "\<exists>m'. gc_collect minor m = Some m' \<and> live (closure_box_pool (heap m')) = {} \<and>
    (\<forall>c \<in> live (closure_box_pool (heap m)). read_box (heap m') (BoxCell c) = None) \<and>
    (\<forall>f fn. OFun f \<in> heap_reach (heap m) (set rs) \<longrightarrow> pool_read (function_pool (heap m)) f = Some fn \<longrightarrow>
       obj_live (heap m') (OFun f) \<and>
       (\<forall>bs c. upvalue_boxes fn = Some bs \<longrightarrow> BoxCell c \<in> set bs \<longrightarrow>
          c \<in> live (closure_box_pool (heap m)) \<longrightarrow> read_upvalues (heap m') fn = None))"
proof -
  obtain m' where m': "gc_collect minor m = Some m'" "m' = m\<lparr>heap := heap m'\<rparr>" "pools_inv (heap m')"
    "\<And>ob. obj_live (heap m') ob \<longleftrightarrow>
       obj_live (heap m) ob \<and> (ob \<in> heap_reach (heap m) (set rs) \<or> minor \<and> obj_flag (heap m) 1 ob)"
    "live (closure_box_pool (heap m')) =
       {c \<in> live (closure_box_pool (heap m)). minor \<and> flagged (closure_box_pool (heap m)) 1 c}"
    "carved (closure_box_pool (heap m')) = carved (closure_box_pool (heap m))"
    by (rule gc_collect_post [OF assms(1)]) (rule that)
  have none: "live (closure_box_pool (heap m')) = {}" using m'(5) assms(2) by auto
  have rd: "read_box (heap m') (BoxCell c) = None" if "c \<in> live (closure_box_pool (heap m))" for c
    using freed_read [OF pools_invD(5) [OF m'(3)], of c] none that m'(6)
    by (simp add: read_box_def live_def)
  have "read_upvalues (heap m') fn = None"
    if "upvalue_boxes fn = Some bs" "BoxCell c \<in> set bs" "c \<in> live (closure_box_pool (heap m))" for fn bs c
  proof -
    have "None \<in> set (map (read_box (heap m')) bs)" using rd [OF that(3)] that(2) by force
    then have "\<nexists>vs. map (read_box (heap m')) bs = map Some vs" by (metis ex_map_conv option.distinct(1))
    then have "those (map (read_box (heap m')) bs) = None" by (metis not_None_eq those_eq_Some)
    then show ?thesis using that(1) by (simp add: read_upvalues_def)
  qed
  moreover have "obj_live (heap m') (OFun f)" if "OFun f \<in> heap_reach (heap m) (set rs)" for f
    using assms(1) that m'(4) by (simp only: gc_ok_def closed_from_def) blast
  ultimately show ?thesis using m'(1) none rd by blast
qed

text \<open>A machine that only has a stack, for the examples.\<close>

definition stack_mach :: "heap \<Rightarrow> val list \<Rightarrow> mach" where
  "stack_mach h st = mach_init\<lparr>heap := h, vm := vm_init\<lparr>stack := st\<rparr>\<rparr>"

lemma stack_mach_heap [simp]: "heap (stack_mach h st) = h"
  by (simp add: stack_mach_def)

lemma stack_mach_roots: "remembered_set h = [] \<Longrightarrow> gc_roots minor (stack_mach h st) = Some st"
  by (simp add: gc_roots_def stack_mach_def mach_init_def vm_roots_def vm_init_def chunk_init_def
      chunk_roots_def scope_values_def scope_zero_def VM_SCOPE_MAX_def)

lemma pool_new_post:
  assumes "pool_inv p"
  obtains c p' where "pool_new p x = Some (c, p')" "pool_inv p'" "c \<notin> live p"
    "live p' = insert c (live p)" "pool_read p' c = Some x"
  using slab.new_cell_post [OF assms, of x] unfolding pool_new_eq by blast

lemma pool_new_flags:
  assumes inv: "pool_inv p" and new: "pool_new p x = Some (c, p')"
  shows "flagged p' n d \<longleftrightarrow> d \<noteq> c \<and> flagged p n d"
proof -
  obtain c1 p1 where a: "pool_alloc p = Some (c1, p1)" "alloc_post p c1 p1"
    using pool_alloc_post [OF inv] by metis
  then have l: "pool_inv p1" "c1 \<in> live p1" by (auto simp: alloc_post_def)
  obtain p2 where "pool_write p1 c1 x = Some p2" "\<And>d. pstate p2 d = pstate p1 d"
    by (rule pool_write_post [OF l, of x]) (rule that)
  then show ?thesis using a new by (cases "d = c") (auto simp: pool_new_def alloc_post_def flagged_def)
qed

theorem gc_collect_exact_witness:
  "\<exists>c h m'. aer_make_string heap_init ''hi'' = Some (VString c, h) \<and>
     gc_collect False (stack_mach h [VString c]) = Some m' \<and>
     obj_content (heap m') (OStr c) = Some (CStr ''hi'')"
proof -
  obtain c p where p: "pool_new (string_pool heap_init) ''hi'' = Some (c, p)" "pool_inv p"
    "live p = insert c (live (string_pool heap_init))" "pool_read p c = Some ''hi''"
    by (rule pool_new_post [OF pools_invD(1) [OF heap_init_inv], of "''hi''"]) (rule that)
  define h where "h = (count_alloc heap_init)\<lparr>string_pool := p\<rparr>"
  have r: "heap_reach h {VString c} = {OStr c}"
  proof (intro equalityI subsetI)
    fix ob assume "ob \<in> heap_reach h {VString c}"
    then show "ob \<in> {OStr c}" by induction auto
  qed (auto intro: reach.root)
  have "pools_inv h" using pools_invD [OF heap_init_inv] p(2) by (simp add: pools_inv_def h_def count_alloc_def)
  moreover have rs: "remembered_set h = []" by (simp add: h_def count_alloc_def heap_init_def)
  ultimately have ok: "gc_ok False (stack_mach h [VString c]) [VString c]"
    using stack_mach_roots [OF rs, of False "[VString c]"] p(3) r
    by (simp add: gc_ok_def closed_from_def rem_ok_def stack_mach_heap) (simp add: h_def)
  obtain m' where m': "gc_collect False (stack_mach h [VString c]) = Some m'"
    "\<And>ob. obj_live (heap m') ob \<longleftrightarrow> ob \<in> heap_reach h {VString c}"
    "\<And>ob. obj_live (heap m') ob \<Longrightarrow> obj_content (heap m') ob = obj_content h ob"
    using gc_collect_exact [OF ok] by auto
  have "obj_live (heap m') (OStr c)" using m'(2) r by blast
  then have "obj_content (heap m') (OStr c) = obj_content h (OStr c)" by (rule m'(3))
  note m'(1) this
  moreover have "aer_make_string heap_init ''hi'' = Some (VString c, h)"
    using p(1) by (simp add: aer_make_string_def h_def)
  moreover have "obj_content h (OStr c) = Some (CStr ''hi'')" using p(4) by (simp add: h_def)
  ultimately show ?thesis by metis
qed

definition demo_closure :: "ptr \<Rightarrow> aer_function" where
  "demo_closure b = \<lparr>defaults = None, upvalues = Some [BoxCell b], code_offset = 0, arity = 0,
     min_arity = 0, receiver_type = 0, upvalue_count = 1, has_receiver = False\<rparr>"

theorem gc_drops_closure_boxes_witness:
  "\<exists>b f h h' m'. new_box heap_init (VInt 7) = Some (b, h) \<and> new_function h (demo_closure b) = Some (f, h') \<and>
     read_upvalues h' (demo_closure b) = Some [VInt 7] \<and>
     gc_collect True (stack_mach h' [VFunction f]) = Some m' \<and>
     obj_live (heap m') (OFun f) \<and> read_upvalues (heap m') (demo_closure b) = None"
proof -
  obtain b p where p: "pool_new (closure_box_pool heap_init) (VInt 7) = Some (b, p)" "pool_inv p"
    "live p = insert b (live (closure_box_pool heap_init))" "pool_read p b = Some (VInt 7)"
    by (rule pool_new_post [OF pools_invD(5) [OF heap_init_inv], of "VInt 7"]) (rule that)
  define h where "h = (count_alloc heap_init)\<lparr>closure_box_pool := p\<rparr>"
  have hi: "pool_inv (function_pool h)" using heap_init_inv by (simp add: h_def count_alloc_def pools_inv_def)
  obtain f q where q: "pool_new (function_pool h) (demo_closure b) = Some (f, q)" "pool_inv q"
    "live q = insert f (live (function_pool h))" "pool_read q f = Some (demo_closure b)"
    by (rule pool_new_post [OF hi, of "demo_closure b"]) (rule that)
  define h' where "h' = (count_alloc h)\<lparr>function_pool := q\<rparr>"
  have ub: "upvalue_boxes (demo_closure b) = Some [BoxCell b]"
    by (simp add: upvalue_boxes_def demo_closure_def)
  have ru: "read_upvalues h' (demo_closure b) = Some [VInt 7]"
    using p(4) by (simp add: read_upvalues_def ub read_box_def h'_def h_def count_alloc_def)
  have kids: "children h' (OFun f) = Some [VInt 7]"
    using q(4) ru by (simp add: h'_def)
  have r: "heap_reach h' {VFunction f} = {OFun f}"
  proof (intro equalityI subsetI)
    fix ob assume "ob \<in> heap_reach h' {VFunction f}"
    then show "ob \<in> {OFun f}" by induction (use kids in auto)
  qed (auto intro: reach.root)
  have "pools_inv h'"
    using pools_invD [OF heap_init_inv] p(2) q(2) by (simp add: pools_inv_def h'_def h_def count_alloc_def)
  moreover have rs: "remembered_set h' = []" by (simp add: h'_def h_def count_alloc_def heap_init_def)
  moreover have "obj_live h' (OFun f)" using q(3) by (simp add: h'_def)
  ultimately have ok: "gc_ok True (stack_mach h' [VFunction f]) [VFunction f]"
    using stack_mach_roots [OF rs, of True "[VFunction f]"] kids r
    by (simp add: gc_ok_def closed_from_def rem_ok_def)
  have "\<not> flagged (closure_box_pool heap_init) 1 c" for c
    by (simp add: heap_init_def flagged_def pstate_def carved_def pool_init_def)
  then have young: "\<not> flagged (closure_box_pool (heap (stack_mach h' [VFunction f]))) 1 c" for c
    using pool_new_flags [OF pools_invD(5) [OF heap_init_inv] p(1), of 1 c]
    by (simp add: h'_def h_def count_alloc_def)
  have lv: "b \<in> live (closure_box_pool h')" using p(3) by (simp add: h'_def h_def count_alloc_def)
  obtain m' where "gc_collect True (stack_mach h' [VFunction f]) = Some m'"
    "obj_live (heap m') (OFun f)" "read_upvalues (heap m') (demo_closure b) = None"
    using gc_drops_closure_boxes [OF ok young] r q(4) ub lv by (auto simp: h'_def)
  moreover have "new_box heap_init (VInt 7) = Some (b, h)" using p(1) by (simp add: new_box_def h_def)
  moreover have "new_function h (demo_closure b) = Some (f, h')" using q(1) by (simp add: new_function_def h'_def)
  ultimately show ?thesis using ru by metis
qed

end
