(* ===== verification/Scope.thy ===== *)
theory Scope
  imports Chunk Gc
begin

text \<open>
  Variables: the scope helpers of \<^verbatim>\<open>source/core/vm.c\<close> over the scope stack of the running VM.
  An \<^verbatim>\<open>AerVal*\<close> into a scope is an \<open>addr\<close>: the inline value of a slot, or a box. The operations
  return \<open>None\<close> only for reads outside the arrays or of freed memory.
\<close>

datatype addr = ASlot nat nat | ABox box_ref

section \<open>Operations\<close>

definition vm_scope_floor :: "vm \<Rightarrow> nat" where
  "vm_scope_floor v = (case call_stack v of [] \<Rightarrow> 0 | f # _ \<Rightarrow> return_scope_depth f)"

definition find_slot :: "aer_scope \<Rightarrow> nat \<Rightarrow> nat option" where
  "find_slot s name = find (\<lambda>j. sl_name (slots s ! j) = name) [0..<scount s]"

definition slot_addr :: "aer_scope \<Rightarrow> nat \<Rightarrow> nat \<Rightarrow> addr" where
  "slot_addr s i j = (case sl_box (slots s ! j) of Some b \<Rightarrow> ABox b | None \<Rightarrow> ASlot i j)"

text \<open>One scope of the walk: its slots, then its overflow map.\<close>

definition scope_addr :: "heap \<Rightarrow> chunk \<Rightarrow> vm \<Rightarrow> nat \<Rightarrow> nat \<Rightarrow> addr option option" where
  "scope_addr h c v i name =
     (let s = scopes v ! i
      in case find_slot s name of
           Some j \<Rightarrow> Some (Some (slot_addr s i j))
         | None \<Rightarrow>
             if overflow s
             then do { key \<leftarrow> pool_name h c name;
                       Some (map_option (\<lambda>b. ABox (BoxOvf b)) (hashmap_get (smap s) key)) }
             else Some None)"

fun walk_scopes :: "heap \<Rightarrow> chunk \<Rightarrow> vm \<Rightarrow> nat list \<Rightarrow> nat \<Rightarrow> addr option option" where
  "walk_scopes h c v [] name = Some None"
| "walk_scopes h c v (i # is) name =
     do { r \<leftarrow> scope_addr h c v i name;
          case r of Some a \<Rightarrow> Some (Some a) | None \<Rightarrow> walk_scopes h c v is name }"

text \<open>
  The scopes a name is looked up in: those of the current call, innermost first, then the
  global one.
\<close>

definition visible_scopes :: "vm \<Rightarrow> nat list" where
  "visible_scopes v =
     (let floor = vm_scope_floor v
      in rev [floor..<scope_depth v] @ (if floor = 0 then [] else [0]))"

definition vm_scope_get :: "heap \<Rightarrow> chunk \<Rightarrow> vm \<Rightarrow> nat \<Rightarrow> addr option option" where
  "vm_scope_get h c v name = walk_scopes h c v (visible_scopes v) name"

definition vm_global_slot_address :: "vm \<Rightarrow> nat \<Rightarrow> nat option" where
  "vm_global_slot_address v name =
     (let g = scopes v ! 0
      in find (\<lambda>j. sl_name (slots g ! j) = name \<and> sl_box (slots g ! j) = None) [0..<scount g])"

definition set_scope :: "nat \<Rightarrow> aer_scope \<Rightarrow> vm \<Rightarrow> vm" where
  "set_scope i s v = v\<lparr>scopes := (scopes v)[i := s]\<rparr>"

definition set_slot :: "nat \<Rightarrow> nat \<Rightarrow> scope_slot \<Rightarrow> vm \<Rightarrow> vm" where
  "set_slot i j x v =
     set_scope i ((scopes v ! i)\<lparr>slots := (slots (scopes v ! i))[j := x]\<rparr>) v"

definition read_addr :: "mach \<Rightarrow> addr \<Rightarrow> val option" where
  "read_addr m a =
     (case a of
        ASlot i j \<Rightarrow>
          if i < length (scopes (vm m)) \<and> j < length (slots (scopes (vm m) ! i))
          then Some (sl_val (slots (scopes (vm m) ! i) ! j)) else None
      | ABox b \<Rightarrow> read_box (heap m) b)"

definition write_addr :: "addr \<Rightarrow> val \<Rightarrow> mach \<Rightarrow> mach option" where
  "write_addr a x m =
     (case a of
        ASlot i j \<Rightarrow>
          if i < length (scopes (vm m)) \<and> j < length (slots (scopes (vm m) ! i))
          then Some (m\<lparr>vm := set_slot i j ((slots (scopes (vm m) ! i) ! j)\<lparr>sl_val := x\<rparr>) (vm m)\<rparr>)
          else None
      | ABox b \<Rightarrow> map_option (\<lambda>h. m\<lparr>heap := h\<rparr>) (write_box (heap m) b x))"

definition not_defined :: "nat \<Rightarrow> mach \<Rightarrow> mach option" where
  "not_defined name m =
     do { s \<leftarrow> pool_name (heap m) (chunk m) name; Some (error (CHR 0x27 # s @ [CHR 0x27] @ '' is not defined'') m) }"

text \<open>
  \<^verbatim>\<open>vm_resolve_name_cached\<close>: a cached address is returned as it is; a fresh resolution is cached
  when it is the inline value of a global slot.
\<close>

definition vm_resolve_name_cached :: "nat \<Rightarrow> nat \<Rightarrow> mach \<Rightarrow> (addr option \<times> mach) option" where
  "vm_resolve_name_cached name cache m =
     (if length (addr_cache (chunk m)) \<le> cache then None
      else case addr_cache (chunk m) ! cache of
        Some j \<Rightarrow> Some (Some (ASlot 0 j), m)
      | None \<Rightarrow>
          do { r \<leftarrow> vm_scope_get (heap m) (chunk m) (vm m) name;
               case r of
                 None \<Rightarrow> do { m' \<leftarrow> not_defined name m; Some (None, m') }
               | Some a \<Rightarrow>
                   (case vm_global_slot_address (vm m) name of
                      Some j \<Rightarrow>
                        if a = ASlot 0 j
                        then Some (Some a, m\<lparr>chunk := (chunk m)\<lparr>addr_cache := (addr_cache (chunk m))[cache := Some j]\<rparr>\<rparr>)
                        else Some (Some a, m)
                    | None \<Rightarrow> Some (Some a, m)) })"

definition local_addr :: "vm \<Rightarrow> nat \<Rightarrow> addr option" where
  "local_addr v j =
     (let i = vm_scope_floor v
      in if i < length (scopes v) \<and> j < length (slots (scopes v ! i))
         then Some (slot_addr (scopes v ! i) i j) else None)"

definition vm_read_local_slot :: "mach \<Rightarrow> nat \<Rightarrow> val option" where
  "vm_read_local_slot m j = do { a \<leftarrow> local_addr (vm m) j; read_addr m a }"

definition vm_write_local_slot :: "nat \<Rightarrow> val \<Rightarrow> mach \<Rightarrow> mach option" where
  "vm_write_local_slot j x m = do { a \<leftarrow> local_addr (vm m) j; write_addr a x m }"

text \<open>The spill of \<^verbatim>\<open>vm_scope_define\<close> into the overflow map of scope \<open>i\<close>.\<close>

definition define_overflow :: "nat \<Rightarrow> nat \<Rightarrow> val \<Rightarrow> mach \<Rightarrow> mach option" where
  "define_overflow i name x m =
     do { key \<leftarrow> pool_name (heap m) (chunk m) name;
          let s = (scopes (vm m) ! i)\<lparr>overflow := True\<rparr>;
          case hashmap_get (smap s) key of
            Some b \<Rightarrow> write_addr (ABox (BoxOvf b)) x (m\<lparr>vm := set_scope i s (vm m)\<rparr>)
          | None \<Rightarrow>
              (let (b, h) = new_ovf (heap m) x
               in do { (t, freed) \<leftarrow> hashmap_put (smap s) key b;
                       Some (m\<lparr>heap := free_ovf h freed, vm := set_scope i (s\<lparr>smap := t\<rparr>) (vm m)\<rparr>) }) }"

definition vm_scope_define :: "nat \<Rightarrow> val \<Rightarrow> mach \<Rightarrow> mach option" where
  "vm_scope_define name x m =
     (let v = vm m; i = scope_depth v - 1; s = scopes v ! i
      in if scope_depth v = 0 \<or> length (scopes v) < scope_depth v then None
         else case find_slot s name of
           Some j \<Rightarrow> write_addr (slot_addr s i j) x m
         | None \<Rightarrow>
             if scount s < SCOPE_SLOT_MAX
             then Some (m\<lparr>vm := set_scope i (s\<lparr>slots := (slots s)[scount s := \<lparr>sl_name = name, sl_val = x, sl_box = None\<rparr>],
                                               scount := scount s + 1\<rparr>) v\<rparr>)
             else define_overflow i name x m)"

definition vm_scope_set :: "nat \<Rightarrow> val \<Rightarrow> mach \<Rightarrow> mach option" where
  "vm_scope_set name x m =
     do { r \<leftarrow> vm_scope_get (heap m) (chunk m) (vm m) name;
          case r of Some a \<Rightarrow> write_addr a x m | None \<Rightarrow> vm_scope_define name x m }"

text \<open>
  \<^verbatim>\<open>vm_box_slot\<close>: box the nearest binding; an overflowed one keeps its payload as its box and pins
  the map of its scope.
\<close>

fun box_walk :: "nat list \<Rightarrow> nat \<Rightarrow> mach \<Rightarrow> (box_ref option \<times> mach) option" where
  "box_walk [] name m = Some (None, m)"
| "box_walk (i # is) name m =
     (let s = scopes (vm m) ! i
      in case find_slot s name of
           Some j \<Rightarrow>
             (case sl_box (slots s ! j) of
                Some b \<Rightarrow> Some (Some b, m)
              | None \<Rightarrow>
                  do { (b, h) \<leftarrow> new_box (heap m) (sl_val (slots s ! j));
                       Some (Some (BoxCell b),
                             m\<lparr>heap := h, vm := set_slot i j ((slots s ! j)\<lparr>sl_box := Some (BoxCell b)\<rparr>) (vm m)\<rparr>) })
         | None \<Rightarrow>
             if overflow s
             then do { key \<leftarrow> pool_name (heap m) (chunk m) name;
                       case hashmap_get (smap s) key of
                         Some b \<Rightarrow> Some (Some (BoxOvf b),
                                         m\<lparr>vm := set_scope i (s\<lparr>overflow_has_captures := True\<rparr>) (vm m)\<rparr>)
                       | None \<Rightarrow> box_walk is name m }
             else box_walk is name m)"

definition vm_box_slot :: "nat \<Rightarrow> mach \<Rightarrow> (box_ref option \<times> mach) option" where
  "vm_box_slot name m =
     do { (r, m') \<leftarrow> box_walk (visible_scopes (vm m)) name m;
          case r of
            Some b \<Rightarrow> Some (Some b, m')
          | None \<Rightarrow> do { m'' \<leftarrow> not_defined name m'; Some (None, m'') } }"

end
