(* ===== verification/Ops.thy ===== *)
theory Ops
  imports Scope
begin

text \<open>
  The operations the byte code handlers share (\<^verbatim>\<open>source/core/vm.c\<close>): value formatting, truth,
  equality, the binary operators with their integer and real paths, string conversion, slice
  bounds, call setup, the builtins, and indexing. Run-time errors set the error flag of the
  machine and yield the value the C code returns; \<open>None\<close> is undefined behaviour of the C code
  (signed overflow, a shift by a bad count, \<^verbatim>\<open>LLONG_MIN % -1\<close>, a double that does not fit
  \<^verbatim>\<open>long long\<close>) or unbounded recursion.
\<close>

section \<open>Opcodes\<close>

datatype (plugins only: code) opcode =
  OP_PUSH | OP_LOAD | OP_STORE | OP_DEFINE
| OP_LOAD_LOCAL | OP_STORE_LOCAL | OP_DEFINE_LOCAL
| OP_COMPOUND_NAME_CONST | OP_COMPOUND_NAME_NAME | OP_COMPOUND_LOCAL_CONST
| OP_COMPOUND_LOCAL_LOCAL | OP_COMPOUND_LOCAL_NAME | OP_COMPOUND_NAME_LOCAL
| OP_ADD | OP_SUB | OP_MUL | OP_DIV | OP_MOD | OP_FLOOR_DIV
| OP_EQ | OP_NEQ | OP_LT | OP_GT | OP_LTE | OP_GTE | OP_IN
| OP_AND | OP_OR | OP_PIPE
| OP_BITWISE_AND | OP_BITWISE_OR | OP_BITWISE_XOR | OP_LSHIFT | OP_RSHIFT
| OP_NEGATE | OP_NOT | OP_BITWISE_NOT
| OP_JUMP | OP_JUMP_IF_FALSE | OP_JUMP_IF_TRUE
| OP_PUSH_SCOPE | OP_POP_SCOPE
| OP_CALL | OP_TAIL_CALL | OP_CALL_VALUE | OP_RETURN | OP_DEFER_PUSH
| OP_ARRAY_NEW | OP_DICT_NEW | OP_INDEX_GET
| OP_INDEX_GET_LOCAL_CONST | OP_INDEX_GET_LOCAL_LOCAL | OP_INDEX_GET_LOCAL_NAME
| OP_INDEX_GET_NAME_CONST | OP_INDEX_GET_NAME_LOCAL | OP_INDEX_GET_NAME_NAME
| OP_INDEX_SET | OP_SLICE_GET | OP_UNPACK | OP_ITER_NEXT | OP_ITER_NEXT_PAIR | OP_ITER_RANGE
| OP_DEFINE_STRUCT | OP_FIELD_GET | OP_FIELD_SET | OP_CHECK_SHAPE
| OP_CAPTURE | OP_MAKE_CLOSURE | OP_LOAD_UPVALUE | OP_STORE_UPVALUE
| OP_CALL_MODULE
| OP_PRINT_REPL | OP_POP | OP_TO_STR | OP_CAST | OP_HALT

definition opcodes :: "opcode list" where
  "opcodes =
     [OP_PUSH, OP_LOAD, OP_STORE, OP_DEFINE, OP_LOAD_LOCAL, OP_STORE_LOCAL, OP_DEFINE_LOCAL,
      OP_COMPOUND_NAME_CONST, OP_COMPOUND_NAME_NAME, OP_COMPOUND_LOCAL_CONST,
      OP_COMPOUND_LOCAL_LOCAL, OP_COMPOUND_LOCAL_NAME, OP_COMPOUND_NAME_LOCAL,
      OP_ADD, OP_SUB, OP_MUL, OP_DIV, OP_MOD, OP_FLOOR_DIV,
      OP_EQ, OP_NEQ, OP_LT, OP_GT, OP_LTE, OP_GTE, OP_IN, OP_AND, OP_OR, OP_PIPE,
      OP_BITWISE_AND, OP_BITWISE_OR, OP_BITWISE_XOR, OP_LSHIFT, OP_RSHIFT,
      OP_NEGATE, OP_NOT, OP_BITWISE_NOT, OP_JUMP, OP_JUMP_IF_FALSE, OP_JUMP_IF_TRUE,
      OP_PUSH_SCOPE, OP_POP_SCOPE, OP_CALL, OP_TAIL_CALL, OP_CALL_VALUE, OP_RETURN, OP_DEFER_PUSH,
      OP_ARRAY_NEW, OP_DICT_NEW, OP_INDEX_GET, OP_INDEX_GET_LOCAL_CONST, OP_INDEX_GET_LOCAL_LOCAL,
      OP_INDEX_GET_LOCAL_NAME, OP_INDEX_GET_NAME_CONST, OP_INDEX_GET_NAME_LOCAL,
      OP_INDEX_GET_NAME_NAME, OP_INDEX_SET, OP_SLICE_GET, OP_UNPACK, OP_ITER_NEXT,
      OP_ITER_NEXT_PAIR, OP_ITER_RANGE, OP_DEFINE_STRUCT, OP_FIELD_GET, OP_FIELD_SET,
      OP_CHECK_SHAPE, OP_CAPTURE, OP_MAKE_CLOSURE, OP_LOAD_UPVALUE, OP_STORE_UPVALUE,
      OP_CALL_MODULE, OP_PRINT_REPL, OP_POP, OP_TO_STR, OP_CAST, OP_HALT]"

text \<open>The word of an opcode, and back.\<close>

definition opcode_of :: "int \<Rightarrow> opcode option" where
  "opcode_of w = (if 0 \<le> w \<and> nat w < length opcodes then Some (opcodes ! nat w) else None)"

definition word_of_op :: "opcode \<Rightarrow> int" where
  "word_of_op op = int (the (find (\<lambda>i. opcodes ! i = op) [0..<length opcodes]))"

section \<open>Formatting\<close>

fun join :: "string \<Rightarrow> string list \<Rightarrow> string" where
  "join sep [] = []"
| "join sep [s] = s"
| "join sep (s # t # ss) = s @ sep @ join sep (t # ss)"

definition builtin_type_name :: "value_type \<Rightarrow> string" where
  "builtin_type_name t =
     (case t of TYPE_NULL \<Rightarrow> ''null'' | TYPE_BOOLEAN \<Rightarrow> ''boolean'' | TYPE_INTEGER \<Rightarrow> ''integer''
      | TYPE_REAL \<Rightarrow> ''real'' | TYPE_STRING \<Rightarrow> ''string'' | TYPE_FUNCTION \<Rightarrow> ''function''
      | TYPE_ARRAY \<Rightarrow> ''array'' | TYPE_DICT \<Rightarrow> ''dict'')"

definition shape_at :: "mach \<Rightarrow> nat \<Rightarrow> shape_rec option" where
  "shape_at m s = (if s < length (shapes m) then Some (shapes m ! s) else None)"

definition vm_type_name :: "mach \<Rightarrow> val \<Rightarrow> string option" where
  "vm_type_name m v =
     (case v of
        VArray c \<Rightarrow>
          do { a \<leftarrow> pool_read (array_pool (heap m)) c;
               case shape a of
                 Some s \<Rightarrow> do { sh \<leftarrow> shape_at m s; pool_name (heap m) (chunk m) (sh_name sh) }
               | None \<Rightarrow> Some (builtin_type_name TYPE_ARRAY) }
      | _ \<Rightarrow> Some (builtin_type_name (vtype v)))"

definition quote :: "bool \<Rightarrow> string \<Rightarrow> string" where
  "quote q s = (if q then CHR 0x22 # s @ [CHR 0x22] else s)"

text \<open>The items \<^verbatim>\<open>0 .. n\<close> of an array, undefined past its end.\<close>

definition first_items :: "nat \<Rightarrow> val list \<Rightarrow> val list option" where
  "first_items n xs = (if n \<le> length xs then Some (take n xs) else None)"

text \<open>\<^verbatim>\<open>vm_format_value\<close>; the first argument bounds the depth of the recursion.\<close>

fun fmt :: "nat \<Rightarrow> mach \<Rightarrow> bool \<Rightarrow> val \<Rightarrow> string option" where
  "fmt 0 m inc v = None"
| "fmt (Suc n) m inc v =
     (case v of
        VNull \<Rightarrow> Some ''null''
      | VBool b \<Rightarrow> Some (if b then ''true'' else ''false'')
      | VInt i \<Rightarrow> Some (show_int i)
      | VBig c \<Rightarrow> map_option show_int (pool_read (long_pool (heap m)) c)
      | VReal d \<Rightarrow> Some (format_g d)
      | VFunction _ \<Rightarrow> Some ''<function>''
      | VString c \<Rightarrow> map_option (quote inc) (pool_read (string_pool (heap m)) c)
      | VArray c \<Rightarrow>
          do { a \<leftarrow> pool_read (array_pool (heap m)) c;
               case shape a of
                 None \<Rightarrow> do { ss \<leftarrow> those (map (fmt n m True) (items a));
                             Some (''['' @ join '', '' ss @ '']'') }
               | Some s \<Rightarrow>
                   do { sh \<leftarrow> shape_at m s;
                        name \<leftarrow> pool_name (heap m) (chunk m) (sh_name sh);
                        fs \<leftarrow> those (map (pool_name (heap m) (chunk m)) (field_names sh));
                        xs \<leftarrow> first_items (length (field_names sh)) (items a);
                        ss \<leftarrow> those (map (fmt n m True) xs);
                        Some (name @ ''{'' @ join '', '' (map2 (\<lambda>f x. f @ '': '' @ x) fs ss) @ ''}'') } }
      | VDict c \<Rightarrow>
          do { d \<leftarrow> pool_read (dict_pool (heap m)) c;
               ss \<leftarrow> those (map (\<lambda>e. map_option (\<lambda>x. CHR 0x22 # ckey e @ CHR 0x22 # '': '' @ x)
                                         (fmt n m True (payload e))) (ht_entries d));
               Some (''{'' @ join '', '' ss @ ''}'') })"

text \<open>
  No terminating run nests deeper than there are array and dict cells (\<open>fmt_fuel\<close>).
\<close>

definition fmt_depth :: "mach \<Rightarrow> nat" where
  "fmt_depth m = length (carved (array_pool (heap m))) + length (carved (dict_pool (heap m))) + 2"

definition vm_format_value :: "mach \<Rightarrow> val \<Rightarrow> string option" where
  "vm_format_value m v = fmt (fmt_depth m) m False v"

definition vm_print_value :: "val \<Rightarrow> mach \<Rightarrow> mach option" where
  "vm_print_value v m =
     do { s \<leftarrow> vm_format_value m v; Some (m\<lparr>printed := printed m @ [c_str s]\<rparr>) }"

definition vm_to_str :: "val \<Rightarrow> mach \<Rightarrow> (val \<times> mach) option" where
  "vm_to_str v m =
     (case v of
        VString _ \<Rightarrow> Some (v, m)
      | _ \<Rightarrow> do { s \<leftarrow> vm_format_value m v;
                 (r, h) \<leftarrow> aer_make_string (heap m) s;
                 Some (r, m\<lparr>heap := h\<rparr>) })"

definition quoted :: "string \<Rightarrow> string" where
  "quoted s = CHR 0x27 # s @ [CHR 0x27]"

section \<open>Truth and equality\<close>

definition vm_truthy :: "heap \<Rightarrow> val \<Rightarrow> bool option" where
  "vm_truthy h v =
     (case v of
        VNull \<Rightarrow> Some False
      | VBool b \<Rightarrow> Some b
      | VInt n \<Rightarrow> Some (n \<noteq> 0)
      | VBig c \<Rightarrow> map_option (\<lambda>n. n \<noteq> 0) (pool_read (long_pool h) c)
      | VReal d \<Rightarrow> Some (\<not> real_eq d 0)
      | VString c \<Rightarrow> map_option (\<lambda>s. s \<noteq> []) (pool_read (string_pool h) c)
      | VFunction _ \<Rightarrow> Some True
      | VArray c \<Rightarrow> map_option (\<lambda>a. items a \<noteq> []) (pool_read (array_pool h) c)
      | VDict c \<Rightarrow> map_option (\<lambda>d. count d > 0) (pool_read (dict_pool h) c))"

text \<open>
  Two strings of the same length under \<^verbatim>\<open>strncmp\<close> of that length: equal up to the first NUL.
\<close>

definition str_eq :: "string \<Rightarrow> string \<Rightarrow> bool" where
  "str_eq a b \<longleftrightarrow> length a = length b \<and> c_str a = c_str b"

definition values_equal :: "heap \<Rightarrow> val \<Rightarrow> val \<Rightarrow> bool option" where
  "values_equal h a b =
     (if vtype a \<noteq> vtype b then Some False
      else case vtype a of
        TYPE_NULL \<Rightarrow> Some True
      | TYPE_BOOLEAN \<Rightarrow> Some (a = b)
      | TYPE_INTEGER \<Rightarrow> do { x \<leftarrow> aer_as_int_v h a; y \<leftarrow> aer_as_int_v h b; Some (x = y) }
      | TYPE_REAL \<Rightarrow> (case (a, b) of (VReal x, VReal y) \<Rightarrow> Some (real_eq x y) | _ \<Rightarrow> None)
      | TYPE_STRING \<Rightarrow> do { x \<leftarrow> str_of h a; y \<leftarrow> str_of h b; Some (str_eq x y) }
      | TYPE_FUNCTION \<Rightarrow> do { x \<leftarrow> fun_of h a; y \<leftarrow> fun_of h b; Some (code_offset x = code_offset y) }
      | TYPE_ARRAY \<Rightarrow> Some (a = b)
      | TYPE_DICT \<Rightarrow> Some (a = b))"

fun scan_equal :: "heap \<Rightarrow> val \<Rightarrow> val list \<Rightarrow> bool option" where
  "scan_equal h a [] = Some False"
| "scan_equal h a (x # xs) =
     do { e \<leftarrow> values_equal h a x; if e then Some True else scan_equal h a xs }"

section \<open>Binary operators\<close>

text \<open>Results that carry the machine on: a value, a value after an error, a fresh integer.\<close>

definition ret :: "val \<Rightarrow> mach \<Rightarrow> (val \<times> mach) option" where
  "ret v m = Some (v, m)"

definition fail :: "string \<Rightarrow> val \<Rightarrow> mach \<Rightarrow> (val \<times> mach) option" where
  "fail msg v m = Some (v, error msg m)"

definition ret_int :: "int \<Rightarrow> mach \<Rightarrow> (val \<times> mach) option" where
  "ret_int n m =
     (if in_i64 n then do { (v, h) \<leftarrow> aer_int (heap m) n; Some (v, m\<lparr>heap := h\<rparr>) } else None)"

definition real_val :: "u64 \<Rightarrow> val" where
  "real_val d = VReal (if is_nan_bits d then AER_BOXED_TEST else d)"

text \<open>
  The integer paths that yield an integer. Signed overflow, a shift count outside 0..63 and
  \<^verbatim>\<open>LLONG_MIN % -1\<close> are undefined; \<^verbatim>\<open>/\<close> on doubles and \<^verbatim>\<open>floor\<close> make \<^verbatim>\<open>//\<close>.
\<close>

definition wrap_i64 :: "int \<Rightarrow> int" where
  "wrap_i64 n = signed_take_bit 63 n"

definition c_rem :: "int \<Rightarrow> int \<Rightarrow> int" where
  "c_rem l r = sgn l * (\<bar>l\<bar> mod \<bar>r\<bar>)"

definition int_floor_div :: "int \<Rightarrow> int \<Rightarrow> int option" where
  "int_floor_div l r = f_to_int (f_floor (f_div (f_of_int l) (f_of_int r)))"

definition int_binary :: "opcode \<Rightarrow> int \<Rightarrow> int \<Rightarrow> mach \<Rightarrow> (val \<times> mach) option" where
  "int_binary op l r m =
     (case op of
        OP_ADD \<Rightarrow> ret_int (l + r) m
      | OP_SUB \<Rightarrow> ret_int (l - r) m
      | OP_MUL \<Rightarrow> ret_int (l * r) m
      | OP_DIV \<Rightarrow> if r = 0 then fail ''Division by zero'' (VInt 0) m
                  else ret (real_val (f_div (f_of_int l) (f_of_int r))) m
      | OP_FLOOR_DIV \<Rightarrow> if r = 0 then fail ''Division by zero'' (VInt 0) m
                        else do { q \<leftarrow> int_floor_div l r; ret_int q m }
      | OP_MOD \<Rightarrow> if r = 0 then fail ''Modulo by zero'' (VInt 0) m
                  else if l = - (2 ^ 63) \<and> r = - 1 then None
                  else ret_int (c_rem l r) m
      | OP_LSHIFT \<Rightarrow> if 0 \<le> r \<and> r < 64 then ret_int (wrap_i64 (push_bit (nat r) l)) m else None
      | OP_RSHIFT \<Rightarrow> if 0 \<le> r \<and> r < 64 then ret_int (drop_bit (nat r) l) m else None
      | OP_BITWISE_AND \<Rightarrow> ret_int (l AND r) m
      | OP_BITWISE_OR \<Rightarrow> ret_int (l OR r) m
      | OP_BITWISE_XOR \<Rightarrow> ret_int (l XOR r) m
      | OP_EQ \<Rightarrow> ret (VBool (l = r)) m
      | OP_NEQ \<Rightarrow> ret (VBool (l \<noteq> r)) m
      | OP_LT \<Rightarrow> ret (VBool (l < r)) m
      | OP_GT \<Rightarrow> ret (VBool (l > r)) m
      | OP_LTE \<Rightarrow> ret (VBool (l \<le> r)) m
      | OP_GTE \<Rightarrow> ret (VBool (l \<ge> r)) m
      | _ \<Rightarrow> fail ''Operator not valid for integers'' (VInt 0) m)"

definition real_binary :: "opcode \<Rightarrow> u64 \<Rightarrow> u64 \<Rightarrow> mach \<Rightarrow> (val \<times> mach) option" where
  "real_binary op l r m =
     (case op of
        OP_ADD \<Rightarrow> ret (real_val (f_add l r)) m
      | OP_SUB \<Rightarrow> ret (real_val (f_sub l r)) m
      | OP_MUL \<Rightarrow> ret (real_val (f_mul l r)) m
      | OP_DIV \<Rightarrow> if real_eq r 0 then fail ''Division by zero'' (VReal 0) m else ret (real_val (f_div l r)) m
      | OP_FLOOR_DIV \<Rightarrow> if real_eq r 0 then fail ''Division by zero'' (VReal 0) m
                        else ret (real_val (f_floor (f_div l r))) m
      | OP_MOD \<Rightarrow> ret (real_val (f_fmod l r)) m
      | OP_EQ \<Rightarrow> ret (VBool (real_eq l r)) m
      | OP_NEQ \<Rightarrow> ret (VBool (\<not> real_eq l r)) m
      | OP_LT \<Rightarrow> ret (VBool (f_less l r)) m
      | OP_GT \<Rightarrow> ret (VBool (f_less r l)) m
      | OP_LTE \<Rightarrow> ret (VBool (f_le l r)) m
      | OP_GTE \<Rightarrow> ret (VBool (f_le r l)) m
      | _ \<Rightarrow> fail ''Operator not valid for reals'' (VReal 0) m)"

definition vm_promote_real :: "heap \<Rightarrow> val \<Rightarrow> val option" where
  "vm_promote_real h v =
     (if vtype v = TYPE_INTEGER then map_option (\<lambda>n. VReal (f_of_int n)) (aer_as_int_v h v) else Some v)"

text \<open>Copying a dict key into \<^verbatim>\<open>kbuf\<close>: at most \<^verbatim>\<open>VM_KEY_MAX\<close> bytes.\<close>

definition key_too_long :: string where
  "key_too_long = ''Dict key too long (max 4096 bytes)''"

definition in_binary :: "val \<Rightarrow> val \<Rightarrow> mach \<Rightarrow> (val \<times> mach) option" where
  "in_binary a b m =
     (case b of
        VDict c \<Rightarrow>
          (case a of
             VString k \<Rightarrow>
               do { key \<leftarrow> pool_read (string_pool (heap m)) k;
                    if length key > VM_KEY_MAX then fail key_too_long (VBool False) m
                    else do { d \<leftarrow> pool_read (dict_pool (heap m)) c;
                              ret (VBool (dictmap_get d key \<noteq> None)) m } }
           | _ \<Rightarrow> fail ''Left side of 'in' must be a string when testing dict membership'' (VBool False) m)
      | VArray c \<Rightarrow>
          do { a' \<leftarrow> pool_read (array_pool (heap m)) c;
               r \<leftarrow> scan_equal (heap m) a (items a');
               ret (VBool r) m }
      | _ \<Rightarrow> fail ''Right side of 'in' must be a dict or array'' (VBool False) m)"

definition logic_binary :: "opcode \<Rightarrow> val \<Rightarrow> val \<Rightarrow> mach \<Rightarrow> (val \<times> mach) option" where
  "logic_binary op a b m =
     do { x \<leftarrow> vm_truthy (heap m) a;
          if op = OP_AND \<and> \<not> x then ret (VBool False) m
          else if op = OP_OR \<and> x then ret (VBool True) m
          else do { y \<leftarrow> vm_truthy (heap m) b; ret (VBool y) m } }"

text \<open>Comparison of two values of the same reference type.\<close>

definition same_binary :: "opcode \<Rightarrow> bool \<Rightarrow> string \<Rightarrow> mach \<Rightarrow> (val \<times> mach) option" where
  "same_binary op eq msg m =
     (if op = OP_EQ then ret (VBool eq) m
      else if op = OP_NEQ then ret (VBool (\<not> eq)) m
      else fail msg (VBool False) m)"

definition string_binary :: "opcode \<Rightarrow> ptr \<Rightarrow> ptr \<Rightarrow> mach \<Rightarrow> (val \<times> mach) option" where
  "string_binary op a b m =
     do { x \<leftarrow> pool_read (string_pool (heap m)) a;
          y \<leftarrow> pool_read (string_pool (heap m)) b;
          if op = OP_ADD
          then do { (v, h) \<leftarrow> aer_make_string (heap m) (x @ y); Some (v, m\<lparr>heap := h\<rparr>) }
          else same_binary op (str_eq x y) ''Operator not valid for strings'' m }"

definition vm_binary :: "val \<Rightarrow> val \<Rightarrow> opcode \<Rightarrow> mach \<Rightarrow> (val \<times> mach) option" where
  "vm_binary a b op m =
     (if op = OP_AND \<or> op = OP_OR then logic_binary op a b m
      else if op = OP_IN then in_binary a b m
      else if vtype a = TYPE_INTEGER \<and> vtype b = TYPE_INTEGER
      then do { l \<leftarrow> aer_as_int_v (heap m) a; r \<leftarrow> aer_as_int_v (heap m) b; int_binary op l r m }
      else if vtype a = TYPE_NULL \<or> vtype b = TYPE_NULL
      then same_binary op (vtype a = TYPE_NULL \<and> vtype b = TYPE_NULL) ''Operator not valid for null'' m
      else do {
        a' \<leftarrow> (if vtype a = TYPE_REAL \<or> vtype b = TYPE_REAL then vm_promote_real (heap m) a else Some a);
        b' \<leftarrow> (if vtype a = TYPE_REAL \<or> vtype b = TYPE_REAL then vm_promote_real (heap m) b else Some b);
        case (a', b') of
          (VReal l, VReal r) \<Rightarrow> real_binary op l r m
        | (VBool p, VBool q) \<Rightarrow> same_binary op (p = q) ''Operator not valid for booleans'' m
        | (VString x, VString y) \<Rightarrow> string_binary op x y m
        | (VArray x, VArray y) \<Rightarrow> same_binary op (x = y) ''Operator not valid for arrays'' m
        | (VDict x, VDict y) \<Rightarrow> same_binary op (x = y) ''Operator not valid for dicts'' m
        | _ \<Rightarrow> fail ''Type mismatch in binary expression'' (VBool False) m })"

section \<open>Slices\<close>

text \<open>\<^verbatim>\<open>vm_slice_bounds\<close> once both bounds are integers or null.\<close>

definition slice_range :: "int option \<Rightarrow> int option \<Rightarrow> int \<Rightarrow> int \<times> int" where
  "slice_range s e len =
     (let start = (case s of None \<Rightarrow> 0 | Some n \<Rightarrow> n);
          fin = (case e of None \<Rightarrow> len | Some n \<Rightarrow> n);
          start = (if start < 0 then start + len else start);
          fin = (if fin < 0 then fin + len else fin);
          start = (if start < 0 then 0 else start);
          fin = (if fin > len then len else fin);
          fin = (if fin < start then start else fin)
      in (start, fin))"

definition bound_of :: "heap \<Rightarrow> val \<Rightarrow> int option option" where
  "bound_of h v = (if vtype v = TYPE_NULL then Some None else map_option Some (aer_as_int_v h v))"

definition vm_slice_bounds :: "val \<Rightarrow> val \<Rightarrow> int \<Rightarrow> mach \<Rightarrow> ((int \<times> int) option \<times> mach) option" where
  "vm_slice_bounds sv ev len m =
     (if vtype sv \<notin> {TYPE_NULL, TYPE_INTEGER} \<or> vtype ev \<notin> {TYPE_NULL, TYPE_INTEGER}
      then Some (None, error ''Slice bounds must be integers'' m)
      else do { s \<leftarrow> bound_of (heap m) sv; e \<leftarrow> bound_of (heap m) ev;
                Some (Some (slice_range s e len), m) })"

section \<open>Call setup\<close>

definition is_receiver :: "mach \<Rightarrow> aer_function \<Rightarrow> val \<Rightarrow> bool option" where
  "is_receiver m f v =
     (case v of
        VArray c \<Rightarrow>
          do { a \<leftarrow> pool_read (array_pool (heap m)) c;
               case shape a of
                 None \<Rightarrow> Some False
               | Some s \<Rightarrow> do { sh \<leftarrow> shape_at m s; Some (sh_name sh = receiver_type f) } }
      | _ \<Rightarrow> Some False)"

text \<open>The values of omitted trailing parameters, \<^verbatim>\<open>defaults[n - min_arity ..]\<close>.\<close>

definition missing_defaults :: "aer_function \<Rightarrow> nat \<Rightarrow> val list option" where
  "missing_defaults f n =
     (if n \<ge> arity f then Some []
      else case defaults f of
             None \<Rightarrow> None
           | Some ds \<Rightarrow> if arity f - min_arity f \<le> length ds
                        then Some (take (arity f - n) (drop (n - min_arity f) ds)) else None)"

definition new_frame :: "nat \<Rightarrow> ptr \<Rightarrow> aer_function \<Rightarrow> vm \<Rightarrow> call_frame" where
  "new_frame rip fp f v =
     \<lparr>return_ip = rip, return_scope_depth = scope_depth v, fr_upvalues = upvalues f,
      fr_function = Some fp, defers = [], defers_draining = False, pending_return_value = VNull\<rparr>"

definition enter :: "nat \<Rightarrow> ptr \<Rightarrow> aer_function \<Rightarrow> mach \<Rightarrow> mach" where
  "enter rip fp f m =
     m\<lparr>vm := (vm m)\<lparr>call_stack := new_frame rip fp f (vm m) # call_stack (vm m), ip := code_offset f\<rparr>\<rparr>"

definition plural :: "nat \<Rightarrow> string" where
  "plural n = (if n = 1 then '''' else ''s'')"

definition arity_msg :: "string \<Rightarrow> aer_function \<Rightarrow> nat \<Rightarrow> string" where
  "arity_msg who f n =
     (if min_arity f = arity f
      then who @ '' expects '' @ show_nat (arity f) @ '' arguments, got '' @ show_nat n
      else who @ '' expects between '' @ show_nat (min_arity f) @ '' and '' @ show_nat (arity f) @
           '' arguments, got '' @ show_nat n)"

text \<open>
  \<^verbatim>\<open>vm_setup_call\<close> on the VM and chunk of the machine; \<open>arg0\<close> is the deepest argument on the stack.
  The result tells whether the call was set up.
\<close>

definition vm_setup_call :: "val \<Rightarrow> nat \<Rightarrow> nat \<Rightarrow> mach \<Rightarrow> (bool \<times> mach) option" where
  "vm_setup_call fv n rip m =
     (case fv of
        VFunction fp \<Rightarrow>
          do { f \<leftarrow> pool_read (function_pool (heap m)) fp;
               if n < min_arity f \<or> arity f < n then Some (False, error (arity_msg ''Function'' f n) m)
               else do {
                 ok \<leftarrow> (if has_receiver f
                        then (if n = 0 \<or> length (stack (vm m)) < n then None
                              else is_receiver m f (stack (vm m) ! (n - 1)))
                        else Some True);
                 if \<not> ok
                 then do { t \<leftarrow> pool_name (heap m) (chunk m) (receiver_type f);
                           Some (False, error (''Function expects its first argument to be a '' @ t) m) }
                 else if call_depth (vm m) \<ge> VM_CALL_MAX then Some (False, error ''Call stack overflow'' m)
                 else if n < arity f \<and> stack_top (vm m) + (arity f - n) > VM_STACK_MAX
                 then Some (False, error ''Stack overflow'' m)
                 else do { ds \<leftarrow> missing_defaults f n;
                           Some (True, enter rip fp f
                             (m\<lparr>vm := (vm m)\<lparr>stack := rev ds @ stack (vm m)\<rparr>\<rparr>)) } } }
      | _ \<Rightarrow> Some (False, error ''Value is not callable'' m))"

section \<open>Builtins\<close>

definition write_array :: "ptr \<Rightarrow> aer_array \<Rightarrow> mach \<Rightarrow> mach option" where
  "write_array c a m =
     do { p \<leftarrow> pool_write (array_pool (heap m)) c a; Some (m\<lparr>heap := (heap m)\<lparr>array_pool := p\<rparr>\<rparr>) }"

definition write_dict :: "ptr \<Rightarrow> val hashtable \<Rightarrow> mach \<Rightarrow> mach option" where
  "write_dict c d m =
     do { p \<leftarrow> pool_write (dict_pool (heap m)) c d; Some (m\<lparr>heap := (heap m)\<lparr>dict_pool := p\<rparr>\<rparr>) }"

text \<open>A possibly negative index, in range, as a position.\<close>

definition index_pos :: "int \<Rightarrow> nat \<Rightarrow> nat option" where
  "index_pos i len =
     (let j = (if i < 0 then i + int len else i)
      in if j < 0 \<or> int len \<le> j then None else Some (nat j))"

definition bad_index :: "string \<Rightarrow> int \<Rightarrow> nat \<Rightarrow> string" where
  "bad_index what i len =
     what @ '' index '' @ show_int i @ '' out of bounds (len '' @ show_nat len @ '')''"

text \<open>The three bytes of an em dash in UTF-8.\<close>

definition em_dash :: string where
  "em_dash = [CHR 0xE2, CHR 0x80, CHR 0x94]"

definition builtin_length :: "val \<Rightarrow> mach \<Rightarrow> (val \<times> mach) option" where
  "builtin_length a m =
     (case a of
        VArray c \<Rightarrow> do { x \<leftarrow> pool_read (array_pool (heap m)) c; ret_int (int (length (items x))) m }
      | VString c \<Rightarrow> do { x \<leftarrow> pool_read (string_pool (heap m)) c; ret_int (int (length x)) m }
      | VDict c \<Rightarrow> do { x \<leftarrow> pool_read (dict_pool (heap m)) c; ret_int (int (count x)) m }
      | _ \<Rightarrow> fail ''length() requires an array, dict, or string'' VNull m)"

definition builtin_delete :: "val \<Rightarrow> val \<Rightarrow> mach \<Rightarrow> (val \<times> mach) option" where
  "builtin_delete ob key m =
     (case ob of
        VDict c \<Rightarrow>
          (case key of
             VString k \<Rightarrow>
               do { s \<leftarrow> pool_read (string_pool (heap m)) k;
                    if length s > VM_KEY_MAX then fail key_too_long VNull m
                    else do { d \<leftarrow> pool_read (dict_pool (heap m)) c;
                              d' \<leftarrow> dictmap_remove d s;
                              m' \<leftarrow> write_dict c d' m;
                              ret ob m' } }
           | _ \<Rightarrow> fail ''delete() key must be a string'' VNull m)
      | VArray c \<Rightarrow>
          do { a \<leftarrow> pool_read (array_pool (heap m)) c;
               if shape a \<noteq> None
               then fail (''delete() cannot remove fields from a struct instance '' @ em_dash @ '' structs have a fixed shape'') VNull m
               else if vtype key \<noteq> TYPE_INTEGER then fail ''Array delete() index must be an integer'' VNull m
               else do { i \<leftarrow> aer_as_int_v (heap m) key;
                         case index_pos i (length (items a)) of
                           None \<Rightarrow> fail (bad_index ''Array'' i (length (items a))) VNull m
                         | Some j \<Rightarrow>
                             do { m' \<leftarrow> write_array c (a\<lparr>items := take j (items a) @ drop (Suc j) (items a)\<rparr>) m;
                                  ret ob m' } } }
      | _ \<Rightarrow> fail ''delete() requires a dict or array'' VNull m)"

definition builtin_append :: "val \<Rightarrow> val \<Rightarrow> mach \<Rightarrow> (val \<times> mach) option" where
  "builtin_append arr x m =
     (case arr of
        VArray c \<Rightarrow>
          do { a \<leftarrow> pool_read (array_pool (heap m)) c;
               if shape a \<noteq> None
               then fail (''append() cannot add fields to a struct instance '' @ em_dash @ '' structs have a fixed shape'') VNull m
               else do { h \<leftarrow> gc_barrier_array c x (heap m);
                         m' \<leftarrow> write_array c (a\<lparr>items := items a @ [x]\<rparr>) (m\<lparr>heap := h\<rparr>);
                         ret arr m' } }
      | _ \<Rightarrow> fail ''append() requires an array'' VNull m)"

definition put_line :: "string \<Rightarrow> mach \<Rightarrow> mach" where
  "put_line s m = m\<lparr>printed := printed m @ [s @ [CHR 0x0A]]\<rparr>"

definition builtin_print :: "val \<Rightarrow> mach \<Rightarrow> (val \<times> mach) option" where
  "builtin_print v m = do { s \<leftarrow> vm_format_value m v; ret VNull (put_line (c_str s) m) }"

definition builtin_type :: "val \<Rightarrow> mach \<Rightarrow> (val \<times> mach) option" where
  "builtin_type v m =
     do { t \<leftarrow> vm_type_name m v;
          (r, h) \<leftarrow> aer_make_string (heap m) t;
          ret r (m\<lparr>heap := h\<rparr>) }"

definition builtin_assert :: "val \<Rightarrow> val \<Rightarrow> mach \<Rightarrow> (val \<times> mach) option" where
  "builtin_assert cond msg m =
     (case msg of
        VString c \<Rightarrow>
          do { b \<leftarrow> vm_truthy (heap m) cond;
               if b then ret VNull m
               else do { s \<leftarrow> pool_read (string_pool (heap m)) c;
                         ret VNull (put_line (''ASSERT FAILED: '' @ c_str s)
                                     (m\<lparr>assert_failures := assert_failures m + 1\<rparr>)) } }
      | _ \<Rightarrow> fail ''assert() requires a string message as its second argument'' VNull m)"

definition builtin_panic :: "val \<Rightarrow> mach \<Rightarrow> (val \<times> mach) option" where
  "builtin_panic msg m =
     (case msg of
        VString c \<Rightarrow> do { s \<leftarrow> pool_read (string_pool (heap m)) c; fail (''panic: '' @ c_str s) VNull m }
      | _ \<Rightarrow> fail ''panic() requires a string message'' VNull m)"

text \<open>A struct instance from its leading fields; the rest takes the defaults.\<close>

definition too_many_msg :: "string \<Rightarrow> shape_rec \<Rightarrow> nat \<Rightarrow> string" where
  "too_many_msg name sh n =
     (let k = length (field_names sh)
      in quoted name @ '' takes at most '' @ show_nat k @ '' argument'' @ plural k @
         '', got '' @ show_nat n)"

definition struct_new :: "string \<Rightarrow> nat \<Rightarrow> val list \<Rightarrow> mach \<Rightarrow> (val \<times> mach) option" where
  "struct_new name s args m =
     do { sh \<leftarrow> shape_at m s;
          if length args > length (field_names sh) then fail (too_many_msg name sh (length args)) VNull m
          else do { (v, h) \<leftarrow> new_array (heap m)
                      \<lparr>items = args @ drop (length args) (field_defaults sh), shape = Some s\<rparr>;
                    ret v (m\<lparr>heap := h\<rparr>) } }"

text \<open>
  \<^verbatim>\<open>vm_call_builtin\<close>: \<open>None\<close> when the name is neither a builtin with that argument count nor
  a struct, which is when the C function returns false.
\<close>

definition vm_call_builtin :: "string \<Rightarrow> val list \<Rightarrow> mach \<Rightarrow> (val \<times> mach) option option" where
  "vm_call_builtin name args m =
     (let n = length args in
      if name = ''length'' \<and> n = 1 then Some (builtin_length (args ! 0) m)
      else if name = ''delete'' \<and> n = 2 then Some (builtin_delete (args ! 0) (args ! 1) m)
      else if name = ''append'' \<and> n = 2 then Some (builtin_append (args ! 0) (args ! 1) m)
      else if name = ''print'' \<and> n = 1 then Some (builtin_print (args ! 0) m)
      else if name = ''type'' \<and> n = 1 then Some (builtin_type (args ! 0) m)
      else if name = ''assert'' \<and> n = 2 then Some (builtin_assert (args ! 0) (args ! 1) m)
      else if name = ''panic'' \<and> n = 1 then Some (builtin_panic (args ! 0) m)
      else case chunk_find_shape (heap m) (shapes m) (chunk m) name of
             None \<Rightarrow> Some None
           | Some None \<Rightarrow> None
           | Some (Some s) \<Rightarrow> Some (struct_new name s args m))"

section \<open>Indexing\<close>

definition vm_index_get_compute :: "val \<Rightarrow> val \<Rightarrow> mach \<Rightarrow> (val \<times> mach) option" where
  "vm_index_get_compute ob idx m =
     (case ob of
        VArray c \<Rightarrow>
          do { a \<leftarrow> pool_read (array_pool (heap m)) c;
               if shape a \<noteq> None then fail (''Struct fields are accessed with '.', not '' @ quoted ''[]'') VNull m
               else if vtype idx \<noteq> TYPE_INTEGER then fail ''Array index must be an integer'' VNull m
               else do { i \<leftarrow> aer_as_int_v (heap m) idx;
                         case index_pos i (length (items a)) of
                           None \<Rightarrow> fail (bad_index ''Array'' i (length (items a))) VNull m
                         | Some j \<Rightarrow> ret (items a ! j) m } }
      | VDict c \<Rightarrow>
          (case idx of
             VString k \<Rightarrow>
               do { s \<leftarrow> pool_read (string_pool (heap m)) k;
                    if length s > VM_KEY_MAX then fail key_too_long VNull m
                    else do { d \<leftarrow> pool_read (dict_pool (heap m)) c;
                              ret (case dictmap_get d s of None \<Rightarrow> VNull | Some v \<Rightarrow> v) m } }
           | _ \<Rightarrow> fail ''Dict key must be a string'' VNull m)
      | VString c \<Rightarrow>
          do { s \<leftarrow> pool_read (string_pool (heap m)) c;
               if vtype idx \<noteq> TYPE_INTEGER then fail ''String index must be an integer'' VNull m
               else do { i \<leftarrow> aer_as_int_v (heap m) idx;
                         case index_pos i (length s) of
                           None \<Rightarrow> fail (bad_index ''String'' i (length s)) VNull m
                         | Some j \<Rightarrow> do { (v, h) \<leftarrow> aer_make_string (heap m) [s ! j];
                                          ret v (m\<lparr>heap := h\<rparr>) } } }
      | _ \<Rightarrow> fail ''Cannot index type'' VNull m)"

end
