(* ===== verification/Strto.thy ===== *)
theory Strto
  imports Float64
begin

text \<open>
  The number parsers of the C library the sources call, as ISO C describes them: \<^verbatim>\<open>strtoll\<close>
  (bases 10 and 16, saturating), \<^verbatim>\<open>strtod\<close> (decimal, hexadecimal, infinities and NaNs, correctly
  rounded), \<^verbatim>\<open>atoll\<close> and \<^verbatim>\<open>atof\<close>. A parser returns its value and how many characters it
  consumed. The subject stops at the first NUL.
\<close>

definition c_isspace :: "char \<Rightarrow> bool" where
  "c_isspace c \<longleftrightarrow> c \<in> {CHR '' '', CHR 0x09, CHR 0x0A, CHR 0x0B, CHR 0x0C, CHR 0x0D}"

definition char_code :: "char \<Rightarrow> nat" where
  "char_code c = of_char c"

definition c_isdigit :: "char \<Rightarrow> bool" where
  "c_isdigit c \<longleftrightarrow> 48 \<le> char_code c \<and> char_code c \<le> 57"

definition c_isupper :: "char \<Rightarrow> bool" where
  "c_isupper c \<longleftrightarrow> 65 \<le> char_code c \<and> char_code c \<le> 90"

definition c_islower :: "char \<Rightarrow> bool" where
  "c_islower c \<longleftrightarrow> 97 \<le> char_code c \<and> char_code c \<le> 122"

definition c_isalpha :: "char \<Rightarrow> bool" where
  "c_isalpha c \<longleftrightarrow> c_isupper c \<or> c_islower c"

definition c_isalnum :: "char \<Rightarrow> bool" where
  "c_isalnum c \<longleftrightarrow> c_isalpha c \<or> c_isdigit c"

definition c_tolower :: "char \<Rightarrow> char" where
  "c_tolower c = (if c_isupper c then char_of (char_code c + 32) else c)"

definition c_toupper :: "char \<Rightarrow> char" where
  "c_toupper c = (if c_islower c then char_of (char_code c - 32) else c)"

definition digit_val :: "char \<Rightarrow> nat" where
  "digit_val c =
     (if c_isdigit c then char_code c - 48
      else if c_isalpha c then char_code (c_tolower c) - 97 + 10 else 36)"

definition digits :: "nat \<Rightarrow> string \<Rightarrow> string" where
  "digits base s = takeWhile (\<lambda>c. digit_val c < base) s"

definition numeral_val :: "nat \<Rightarrow> string \<Rightarrow> nat" where
  "numeral_val base s = foldl (\<lambda>n c. n * base + digit_val c) 0 s"

text \<open>White space and a sign: whether it is a minus, and how many characters.\<close>

definition sign_of :: "string \<Rightarrow> bool \<times> nat" where
  "sign_of s =
     (let w = length (takeWhile c_isspace s)
      in case drop w s of
           [] \<Rightarrow> (False, w)
         | c # _ \<Rightarrow> if c = CHR ''-'' then (True, w + 1)
                     else if c = CHR ''+'' then (False, w + 1) else (False, w))"

definition saturate :: "int \<Rightarrow> int" where
  "saturate n = max (- (2 ^ 63)) (min (2 ^ 63 - 1) n)"

definition hex_prefix :: "string \<Rightarrow> bool" where
  "hex_prefix s \<longleftrightarrow> (case s of z # x # _ \<Rightarrow> z = CHR ''0'' \<and> c_tolower x = CHR ''x'' | _ \<Rightarrow> False)"

definition strtoll :: "nat \<Rightarrow> string \<Rightarrow> int \<times> nat" where
  "strtoll base str =
     (let s = c_str str; (neg, k) = sign_of s; r = drop k s;
          p = (if base = 16 \<and> hex_prefix r \<and> digits 16 (drop 2 r) \<noteq> [] then 2 else 0);
          ds = digits base (drop p r)
      in if ds = [] then (0, 0)
         else (saturate ((if neg then - 1 else 1) * int (numeral_val base ds)), k + p + length ds))"

definition atoll :: "string \<Rightarrow> int" where
  "atoll s = fst (strtoll 10 s)"

text \<open>An exponent part introduced by \<open>e\<close>, when its digits are there: its value and length.\<close>

definition exponent :: "char \<Rightarrow> string \<Rightarrow> int \<times> nat" where
  "exponent e s =
     (case s of
        [] \<Rightarrow> (0, 0)
      | c # r \<Rightarrow>
          if c_tolower c \<noteq> e then (0, 0)
          else let (neg, k) = (case r of [] \<Rightarrow> (False, 0)
                                | d # _ \<Rightarrow> if d = CHR ''-'' then (True, 1)
                                           else if d = CHR ''+'' then (False, 1) else (False, 0));
                   ds = digits 10 (drop k r)
               in if ds = [] then (0, 0)
                  else ((if neg then - 1 else 1) * int (numeral_val 10 ds), 1 + k + length ds))"

text \<open>
  A significand with an optional point: its digits as one numeral, how many follow the point,
  and its length; at least one digit is required.
\<close>

definition significand :: "nat \<Rightarrow> string \<Rightarrow> (nat \<times> nat \<times> nat) option" where
  "significand base s =
     (let a = digits base s; r = drop (length a) s;
          b = (case r of c # r' \<Rightarrow> if c = CHR ''.'' then digits base r' else [] | [] \<Rightarrow> []);
          dot = (case r of c # _ \<Rightarrow> if c = CHR ''.'' then 1 else 0 | [] \<Rightarrow> (0::nat))
      in if a = [] \<and> b = [] then None
         else Some (numeral_val base (a @ b), length b, length a + dot + length b))"

definition round_scaled :: "bool \<Rightarrow> nat \<Rightarrow> nat \<Rightarrow> int \<Rightarrow> u64" where
  "round_scaled neg m base e =
     (if m = 0 then f_zero neg
      else if e \<ge> 0 then round_frac neg (m * base ^ nat e) 1 else round_frac neg m (base ^ nat (- e)))"

definition is_word :: "string \<Rightarrow> string \<Rightarrow> bool" where
  "is_word w s \<longleftrightarrow> map c_tolower (take (length w) s) = w"

definition nan_tail :: "string \<Rightarrow> nat" where
  "nan_tail s =
     (case s of
        c # r \<Rightarrow>
          if c = CHR ''('' then
            let n = length (takeWhile (\<lambda>c. c_isalnum c \<or> c = CHR ''_'') r)
            in (case drop n r of d # _ \<Rightarrow> if d = CHR '')'' then n + 2 else 0 | [] \<Rightarrow> 0)
          else 0
      | [] \<Rightarrow> 0)"

definition strtod :: "string \<Rightarrow> u64 \<times> nat" where
  "strtod str =
     (let s = c_str str; (neg, k) = sign_of s; r = drop k s
      in if is_word ''infinity'' r then (f_inf neg, k + 8)
         else if is_word ''inf'' r then (f_inf neg, k + 3)
         else if is_word ''nan'' r then (f_nan, k + 3 + nan_tail (drop 3 r))
         else case (if hex_prefix r then significand 16 (drop 2 r) else None) of
           Some (m, f, n) \<Rightarrow>
             (let (e, x) = exponent (CHR ''p'') (drop (2 + n) r)
              in (round_scaled neg m 2 (e - 4 * int f), k + 2 + n + x))
         | None \<Rightarrow>
             (case significand 10 r of
                None \<Rightarrow> (f_zero False, 0)
              | Some (m, f, n) \<Rightarrow>
                  (let (e, x) = exponent (CHR ''e'') (drop n r)
                   in (round_scaled neg m 10 (e - int f), k + n + x))))"

definition atof :: "string \<Rightarrow> u64" where
  "atof s = fst (strtod s)"

end
