(* ===== verification/Vm.thy ===== *)
theory Vm
  imports Ops Strto
begin

text \<open>
  The interpreter loop \<^verbatim>\<open>vm_run\<close> of \<^verbatim>\<open>source/core/vm.c\<close>: one definition per handler (\<^verbatim>\<open>lbl_*\<close>),
  one per instruction but for the module calls (theory \<open>Run\<close>).
  A handler either leaves a running machine or ends the run with
  the \<^verbatim>\<open>bool\<close> that \<^verbatim>\<open>vm_run\<close> returns, or starts a nested run of a file module \<open>i\<close>, the VM and
  chunk of the caller put aside. \<open>Overrun\<close> is an access outside the fixed arrays of the VM that
  hold its scopes and their slots, which C does not check; what it reads or overwrites there is
  not modelled. \<open>None\<close> is a read outside the code or the pool, below the bottom of the stack or of
  freed memory.
\<close>

datatype outcome = Running mach | Stopped bool mach | Nested nat vm chunk mach | Overrun

section \<open>Operands and the operand stack\<close>

definition set_stack :: "val list \<Rightarrow> mach \<Rightarrow> mach" where
  "set_stack st m = m\<lparr>vm := (vm m)\<lparr>stack := st\<rparr>\<rparr>"

definition set_ip :: "nat \<Rightarrow> mach \<Rightarrow> mach" where
  "set_ip i m = m\<lparr>vm := (vm m)\<lparr>ip := i\<rparr>\<rparr>"

definition set_heap :: "heap \<Rightarrow> mach \<Rightarrow> mach" where
  "set_heap h m = m\<lparr>heap := h\<rparr>"

text \<open>\<^verbatim>\<open>READ()\<close>.\<close>

definition read_word :: "mach \<Rightarrow> (int \<times> mach) option" where
  "read_word m =
     (if ip (vm m) < length (code (chunk m))
      then Some (code (chunk m) ! ip (vm m), set_ip (ip (vm m) + 1) m) else None)"

text \<open>An operand that is an index, a count or an address.\<close>

definition read_nat :: "mach \<Rightarrow> (nat \<times> mach) option" where
  "read_nat m = do { (w, m') \<leftarrow> read_word m; if w < 0 then None else Some (nat w, m') }"

fun read_nats :: "nat \<Rightarrow> mach \<Rightarrow> (nat list \<times> mach) option" where
  "read_nats 0 m = Some ([], m)"
| "read_nats (Suc n) m =
     do { (i, m1) \<leftarrow> read_nat m; (is, m2) \<leftarrow> read_nats n m1; Some (i # is, m2) }"

definition read_op :: "mach \<Rightarrow> (opcode \<times> mach) option" where
  "read_op m = do { (w, m') \<leftarrow> read_word m; op \<leftarrow> opcode_of w; Some (op, m') }"

definition pool_at :: "mach \<Rightarrow> nat \<Rightarrow> val option" where
  "pool_at m i = (if i < length (cpool (chunk m)) then Some (cpool (chunk m) ! i) else None)"

text \<open>\<^verbatim>\<open>POP()\<close>.\<close>

definition pop :: "mach \<Rightarrow> val \<times> mach" where
  "pop m = (case stack (vm m) of
              [] \<Rightarrow> (VNull, error ''Stack underflow'' m)
            | v # st \<Rightarrow> (v, set_stack st m))"

text \<open>\<open>n\<close> values, the last one popped first in the list: the order they were pushed in.\<close>

fun pops :: "nat \<Rightarrow> mach \<Rightarrow> val list \<times> mach" where
  "pops 0 m = ([], m)"
| "pops (Suc n) m = (let (v, m1) = pop m; (vs, m2) = pops n m1 in (vs @ [v], m2))"

text \<open>
  \<^verbatim>\<open>PUSH(e)\<close>: the bounds check comes before \<open>e\<close> is evaluated.
\<close>

definition push_with :: "(mach \<Rightarrow> (val \<times> mach) option) \<Rightarrow> mach \<Rightarrow> outcome option" where
  "push_with e m =
     (if stack_top (vm m) \<ge> VM_STACK_MAX then Some (Stopped False (error ''Stack overflow'' m))
      else do { (v, m') \<leftarrow> e m; Some (Running (set_stack (v # stack (vm m')) m')) })"

definition push :: "val \<Rightarrow> mach \<Rightarrow> outcome option" where
  "push v = push_with (ret v)"

fun then_do :: "outcome option \<Rightarrow> (mach \<Rightarrow> outcome option) \<Rightarrow> outcome option" where
  "then_do None f = None"
| "then_do (Some (Stopped b m)) f = Some (Stopped b m)"
| "then_do (Some (Nested i v c m)) f = Some (Nested i v c m)"
| "then_do (Some Overrun) f = Some Overrun"
| "then_do (Some (Running m)) f = f m"

text \<open>An error, the \<open>n\<close> values of the instruction discarded, and a null in their place.\<close>

definition fail_pops :: "string \<Rightarrow> nat \<Rightarrow> mach \<Rightarrow> outcome option" where
  "fail_pops msg n m = push VNull (snd (pops n (error msg m)))"

definition fail_push :: "string \<Rightarrow> mach \<Rightarrow> outcome option" where
  "fail_push msg m = push VNull (error msg m)"

section \<open>Constants, variables\<close>

definition lbl_push :: "mach \<Rightarrow> outcome option" where
  "lbl_push = push_with (\<lambda>m. do { (i, m) \<leftarrow> read_nat m; v \<leftarrow> pool_at m i; Some (v, m) })"

text \<open>Caching a resolution that is the inline value of a global slot.\<close>

definition cache_address :: "nat \<Rightarrow> nat \<Rightarrow> addr \<Rightarrow> mach \<Rightarrow> mach" where
  "cache_address name cache a m =
     (case vm_global_slot_address (vm m) name of
        Some j \<Rightarrow> if a = ASlot 0 j
                  then m\<lparr>chunk := (chunk m)\<lparr>addr_cache := (addr_cache (chunk m))[cache := Some j]\<rparr>\<rparr>
                  else m
      | None \<Rightarrow> m)"

definition cached :: "mach \<Rightarrow> nat \<Rightarrow> nat option option" where
  "cached m cache =
     (if cache < length (addr_cache (chunk m)) then Some (addr_cache (chunk m) ! cache) else None)"

text \<open>The cached address, or a fresh resolution, which is then cached when it may be.\<close>

definition find_cached :: "nat \<Rightarrow> nat \<Rightarrow> mach \<Rightarrow> (addr option \<times> mach) option" where
  "find_cached name cache m =
     do { k \<leftarrow> cached m cache;
          case k of
            Some j \<Rightarrow> Some (Some (ASlot 0 j), m)
          | None \<Rightarrow>
              do { r \<leftarrow> vm_scope_get (heap m) (chunk m) (vm m) name;
                   case r of None \<Rightarrow> Some (None, m) | Some a \<Rightarrow> Some (Some a, cache_address name cache a m) } }"

text \<open>Reading and writing through an address, which must be one in the arrays.\<close>

definition addr_fits :: "vm \<Rightarrow> addr \<Rightarrow> bool" where
  "addr_fits v a =
     (case a of ASlot i j \<Rightarrow> i < length (scopes v) \<and> j < length (slots (scopes v ! i)) | ABox _ \<Rightarrow> True)"

definition push_from :: "addr \<Rightarrow> mach \<Rightarrow> outcome option" where
  "push_from a m =
     (if stack_top (vm m) < VM_STACK_MAX \<and> \<not> addr_fits (vm m) a then Some Overrun
      else push_with (\<lambda>m. do { v \<leftarrow> read_addr m a; Some (v, m) }) m)"

definition write_to :: "addr \<Rightarrow> val \<Rightarrow> mach \<Rightarrow> outcome option" where
  "write_to a v m =
     (if addr_fits (vm m) a then map_option Running (write_addr a v m) else Some Overrun)"

text \<open>\<^verbatim>\<open>vm_scope_define\<close> in the innermost scope, which must be one of the array.\<close>

definition define_var :: "nat \<Rightarrow> val \<Rightarrow> mach \<Rightarrow> outcome option" where
  "define_var name v m =
     (if scope_depth (vm m) = 0 \<or> length (scopes (vm m)) < scope_depth (vm m) then Some Overrun
      else map_option Running (vm_scope_define name v m))"

definition lbl_load :: "mach \<Rightarrow> outcome option" where
  "lbl_load m =
     do { (name, m) \<leftarrow> read_nat m; (cache, m) \<leftarrow> read_nat m;
          (r, m) \<leftarrow> find_cached name cache m;
          case r of
            None \<Rightarrow> do { m \<leftarrow> not_defined name m; push VNull m }
          | Some a \<Rightarrow> push_from a m }"

definition lbl_store :: "mach \<Rightarrow> outcome option" where
  "lbl_store m =
     do { (name, m) \<leftarrow> read_nat m; (cache, m) \<leftarrow> read_nat m;
          let (v, m) = pop m;
          k \<leftarrow> cached m cache;
          case k of
            Some j \<Rightarrow> write_to (ASlot 0 j) v m
          | None \<Rightarrow>
              do { r \<leftarrow> vm_scope_get (heap m) (chunk m) (vm m) name;
                   case r of
                     Some a \<Rightarrow> then_do (write_to a v m) (\<lambda>m. Some (Running (cache_address name cache a m)))
                   | None \<Rightarrow> define_var name v m } }"

definition lbl_define :: "mach \<Rightarrow> outcome option" where
  "lbl_define m =
     do { (name, m) \<leftarrow> read_nat m;
          let (v, m) = pop m;
          define_var name v m }"

definition lbl_load_local :: "mach \<Rightarrow> outcome option" where
  "lbl_load_local m =
     do { (slot, m) \<leftarrow> read_nat m;
          if stack_top (vm m) < VM_STACK_MAX \<and> local_addr (vm m) slot = None then Some Overrun
          else push_with (\<lambda>m. do { v \<leftarrow> vm_read_local_slot m slot; Some (v, m) }) m }"

definition lbl_store_local :: "mach \<Rightarrow> outcome option" where
  "lbl_store_local m =
     do { (slot, m) \<leftarrow> read_nat m;
          let (v, m) = pop m;
          if local_addr (vm m) slot = None then Some Overrun
          else map_option Running (vm_write_local_slot slot v m) }"

definition lbl_define_local :: "mach \<Rightarrow> outcome option" where
  "lbl_define_local m =
     do { (slot, m) \<leftarrow> read_nat m; (name, m) \<leftarrow> read_nat m;
          let (v, m) = pop m;
          let i = scope_depth (vm m) - 1;
          let s = scopes (vm m) ! i;
          if scope_depth (vm m) = 0 \<or> length (scopes (vm m)) \<le> i \<or> length (slots s) \<le> slot then Some Overrun
          else Some (Running (m\<lparr>vm := set_scope i
                 (s\<lparr>slots := (slots s)[slot := \<lparr>sl_name = name, sl_val = v, sl_box = None\<rparr>],
                    scount := max (scount s) (slot + 1)\<rparr>) (vm m)\<rparr>)) }"

section \<open>Fused compound assignment\<close>

text \<open>
  An operand of a fused instruction: its name and cache, its local slot, or its constant. It is
  resolved to where its value is read from. \<open>None\<close> after an error: the check that follows the
  resolution of a name also sees an error the collector left in the same dispatch.
\<close>

datatype operand = ByName nat nat | ByLocal nat | ByConst nat

datatype source = At addr | Slot nat | Const val

definition resolve :: "operand \<Rightarrow> mach \<Rightarrow> (source option \<times> mach) option" where
  "resolve x m =
     (case x of
        ByName name cache \<Rightarrow>
          do { (r, m) \<leftarrow> vm_resolve_name_cached name cache m; Some (if runtime_had_error m then None else map_option At r, m) }
      | ByLocal j \<Rightarrow> Some (Some (Slot j), m)
      | ByConst i \<Rightarrow> do { v \<leftarrow> pool_at m i; Some (Some (Const v), m) })"

definition source_value :: "mach \<Rightarrow> source \<Rightarrow> val option" where
  "source_value m x =
     (case x of At a \<Rightarrow> read_addr m a | Slot j \<Rightarrow> vm_read_local_slot m j | Const v \<Rightarrow> Some v)"

definition source_fits :: "vm \<Rightarrow> source \<Rightarrow> bool" where
  "source_fits v x =
     (case x of At a \<Rightarrow> addr_fits v a | Slot j \<Rightarrow> local_addr v j \<noteq> None | Const _ \<Rightarrow> True)"

definition source_write :: "source \<Rightarrow> val \<Rightarrow> mach \<Rightarrow> mach option" where
  "source_write x v m =
     (case x of At a \<Rightarrow> write_addr a v m | Slot j \<Rightarrow> vm_write_local_slot j v m | Const _ \<Rightarrow> None)"

text \<open>The body the six handlers share once their operand words are read.\<close>

definition compound :: "operand \<Rightarrow> operand \<Rightarrow> opcode \<Rightarrow> mach \<Rightarrow> outcome option" where
  "compound x y op m =
     do { (l, m) \<leftarrow> resolve x m;
          case l of
            None \<Rightarrow> Some (Running m)
          | Some l \<Rightarrow>
              if \<not> source_fits (vm m) l then Some Overrun
              else do { (r, m) \<leftarrow> resolve y m;
                   case r of
                     None \<Rightarrow> Some (Running m)
                   | Some r \<Rightarrow>
                       if \<not> source_fits (vm m) r then Some Overrun
                       else do { a \<leftarrow> source_value m l; b \<leftarrow> source_value m r;
                            (v, m) \<leftarrow> vm_binary a b op m;
                            if runtime_had_error m then Some (Running m)
                            else map_option Running (source_write l v m) } } }"

definition lbl_compound_name_const :: "mach \<Rightarrow> outcome option" where
  "lbl_compound_name_const m =
     do { (name, m) \<leftarrow> read_nat m; (cache, m) \<leftarrow> read_nat m; (op, m) \<leftarrow> read_op m; (i, m) \<leftarrow> read_nat m;
          compound (ByName name cache) (ByConst i) op m }"

definition lbl_compound_name_name :: "mach \<Rightarrow> outcome option" where
  "lbl_compound_name_name m =
     do { (name, m) \<leftarrow> read_nat m; (cache, m) \<leftarrow> read_nat m; (op, m) \<leftarrow> read_op m;
          (name2, m) \<leftarrow> read_nat m; (cache2, m) \<leftarrow> read_nat m;
          compound (ByName name cache) (ByName name2 cache2) op m }"

definition lbl_compound_local_const :: "mach \<Rightarrow> outcome option" where
  "lbl_compound_local_const m =
     do { (slot, m) \<leftarrow> read_nat m; (op, m) \<leftarrow> read_op m; (i, m) \<leftarrow> read_nat m;
          compound (ByLocal slot) (ByConst i) op m }"

definition lbl_compound_local_local :: "mach \<Rightarrow> outcome option" where
  "lbl_compound_local_local m =
     do { (slot, m) \<leftarrow> read_nat m; (op, m) \<leftarrow> read_op m; (slot2, m) \<leftarrow> read_nat m;
          compound (ByLocal slot) (ByLocal slot2) op m }"

definition lbl_compound_local_name :: "mach \<Rightarrow> outcome option" where
  "lbl_compound_local_name m =
     do { (slot, m) \<leftarrow> read_nat m; (op, m) \<leftarrow> read_op m; (name, m) \<leftarrow> read_nat m; (cache, m) \<leftarrow> read_nat m;
          compound (ByLocal slot) (ByName name cache) op m }"

definition lbl_compound_name_local :: "mach \<Rightarrow> outcome option" where
  "lbl_compound_name_local m =
     do { (name, m) \<leftarrow> read_nat m; (cache, m) \<leftarrow> read_nat m; (op, m) \<leftarrow> read_op m; (slot, m) \<leftarrow> read_nat m;
          compound (ByName name cache) (ByLocal slot) op m }"

section \<open>Operators and jumps\<close>

definition lbl_binary :: "opcode \<Rightarrow> mach \<Rightarrow> outcome option" where
  "lbl_binary op m =
     (let (b, m) = pop m; (a, m) = pop m in push_with (vm_binary a b op) m)"

definition lbl_negate :: "mach \<Rightarrow> outcome option" where
  "lbl_negate m =
     (let (v, m) = pop m
      in if vtype v = TYPE_INTEGER
         then push_with (\<lambda>m. do { n \<leftarrow> aer_as_int_v (heap m) v; ret_int (- n) m }) m
         else case v of
           VReal d \<Rightarrow> push (real_val (f_neg d)) m
         | _ \<Rightarrow> fail_push ''Negation requires a numeric type'' m)"

definition lbl_not :: "mach \<Rightarrow> outcome option" where
  "lbl_not m =
     (let (v, m) = pop m
      in push_with (\<lambda>m. do { b \<leftarrow> vm_truthy (heap m) v; ret (VBool (\<not> b)) m }) m)"

definition lbl_bitwise_not :: "mach \<Rightarrow> outcome option" where
  "lbl_bitwise_not m =
     (let (v, m) = pop m
      in if vtype v \<noteq> TYPE_INTEGER then fail_push ''Bitwise NOT requires an integer'' m
         else push_with (\<lambda>m. do { n \<leftarrow> aer_as_int_v (heap m) v; ret_int (NOT n) m }) m)"

definition lbl_jump :: "mach \<Rightarrow> outcome option" where
  "lbl_jump m = do { (target, m) \<leftarrow> read_nat m; Some (Running (set_ip target m)) }"

definition jump_when :: "bool \<Rightarrow> mach \<Rightarrow> outcome option" where
  "jump_when want m =
     do { (target, m) \<leftarrow> read_nat m;
          let (v, m) = pop m;
          b \<leftarrow> vm_truthy (heap m) v;
          Some (Running (if b = want then set_ip target m else m)) }"

definition lbl_jump_if_false :: "mach \<Rightarrow> outcome option" where
  "lbl_jump_if_false = jump_when False"

definition lbl_jump_if_true :: "mach \<Rightarrow> outcome option" where
  "lbl_jump_if_true = jump_when True"

section \<open>Scopes\<close>

definition lbl_push_scope :: "mach \<Rightarrow> outcome option" where
  "lbl_push_scope m =
     (let v = vm m; d = scope_depth v
      in if d \<ge> VM_SCOPE_MAX then Some (Stopped False (error ''Scope stack overflow'' m))
         else if length (scopes v) \<le> d then Some Overrun
         else Some (Running (m\<lparr>vm := set_scope d
                ((scopes v ! d)\<lparr>scount := 0, overflow := False, smap := ht_zero False,
                                overflow_has_captures := False\<rparr>) (v\<lparr>scope_depth := d + 1\<rparr>)\<rparr>)))"

text \<open>Leaving the innermost scope: its overflow map is freed unless a closure captured from it.\<close>

definition leave_scope :: "mach \<Rightarrow> mach" where
  "leave_scope m =
     (let d = scope_depth (vm m) - 1; s = scopes (vm m) ! d; v = (vm m)\<lparr>scope_depth := d\<rparr>
      in if overflow s \<and> \<not> overflow_has_captures s
         then let (t, freed) = hashmap_free (smap s)
              in m\<lparr>heap := free_ovf (heap m) freed, vm := set_scope d (s\<lparr>smap := t\<rparr>) v\<rparr>
         else m\<lparr>vm := v\<rparr>)"

definition lbl_pop_scope :: "mach \<Rightarrow> outcome option" where
  "lbl_pop_scope m =
     (if scope_depth (vm m) \<le> 1 then Some (Stopped False (error ''Scope stack underflow'' m))
      else if length (scopes (vm m)) < scope_depth (vm m) then Some Overrun
      else Some (Running (leave_scope m)))"

text \<open>The loop of a return: leave scopes down to the depth of the call.\<close>

definition leave_scopes :: "nat \<Rightarrow> mach \<Rightarrow> mach" where
  "leave_scopes base m = (leave_scope ^^ (scope_depth (vm m) - base)) m"

definition lbl_print_repl :: "mach \<Rightarrow> outcome option" where
  "lbl_print_repl m =
     (let (v, m) = pop m
      in if vtype v = TYPE_NULL then Some (Running m)
         else do { s \<leftarrow> vm_format_value m v; Some (Running (put_line (c_str s) m)) })"

section \<open>Calls\<close>

fun push_all :: "val list \<Rightarrow> mach \<Rightarrow> outcome option" where
  "push_all [] m = Some (Running m)"
| "push_all (v # vs) m = then_do (push v m) (push_all vs)"

definition push_result :: "(val \<times> mach) option \<Rightarrow> outcome option" where
  "push_result r = do { (v, m) \<leftarrow> r; push v m }"

text \<open>
  The builtins inlined in \<^verbatim>\<open>lbl_call\<close>: their arguments come from the stack, and \<^verbatim>\<open>length\<close> answers
  0 instead of null on a bad argument.
\<close>

definition inline_length :: "val \<Rightarrow> mach \<Rightarrow> (val \<times> mach) option" where
  "inline_length a m =
     (if vtype a = TYPE_ARRAY \<or> vtype a = TYPE_STRING \<or> vtype a = TYPE_DICT then builtin_length a m
      else fail ''length() requires an array, dict, or string'' (VInt 0) m)"

definition struct_call :: "string \<Rightarrow> nat \<Rightarrow> nat \<Rightarrow> mach \<Rightarrow> outcome option" where
  "struct_call name s n m =
     do { sh \<leftarrow> shape_at m s;
          if n > length (field_names sh) then fail_pops (too_many_msg name sh n) n m
          else let (args, m) = pops n m in push_result (struct_new name s args m) }"

definition inline_builtin :: "string \<Rightarrow> nat \<Rightarrow> mach \<Rightarrow> outcome option" where
  "inline_builtin name n m =
     (let (x, m1) = pop m; (y, m2) = pop m1
      in if name = ''length'' \<and> n = 1 then push_result (inline_length x m1)
         else if name = ''delete'' \<and> n = 2 then push_result (builtin_delete y x m2)
         else if name = ''append'' \<and> n = 2 then push_result (builtin_append y x m2)
         else if name = ''print'' \<and> n = 1 then push_result (builtin_print x m1)
         else if name = ''type'' \<and> n = 1 then push_result (builtin_type x m1)
         else if name = ''assert'' \<and> n = 2 then push_result (builtin_assert y x m2)
         else if name = ''panic'' \<and> n = 1 then push_result (builtin_panic x m1)
         else do { r \<leftarrow> chunk_find_shape (heap m) (shapes m) (chunk m) name;
                   case r of
                     Some s \<Rightarrow> struct_call name s n m
                   | None \<Rightarrow> fail_pops (quoted name @ '' is not defined'') n m })"

text \<open>The receiver of a call of \<open>f\<close>, its arguments being on the stack.\<close>

definition receiver_ok :: "aer_function \<Rightarrow> nat \<Rightarrow> mach \<Rightarrow> bool option" where
  "receiver_ok f n m =
     (if \<not> has_receiver f then Some True
      else if n = 0 \<or> length (stack (vm m)) < n then None
      else is_receiver m f (stack (vm m) ! (n - 1)))"

definition plain_call :: "ptr \<Rightarrow> aer_function \<Rightarrow> mach \<Rightarrow> outcome option" where
  "plain_call fp f m =
     (if call_depth (vm m) \<ge> VM_CALL_MAX then Some (Stopped False (error ''Call stack overflow'' m))
      else Some (Running (enter (ip (vm m)) fp f m)))"

text \<open>\<^verbatim>\<open>OP_TAIL_CALL\<close> reuses the frame of the caller unless it has pending defers.\<close>

definition tail_call :: "ptr \<Rightarrow> aer_function \<Rightarrow> mach \<Rightarrow> outcome option" where
  "tail_call fp f m =
     (case call_stack (vm m) of
        [] \<Rightarrow> None
      | fr # frs \<Rightarrow>
          if defers fr \<noteq> [] then plain_call fp f m
          else let m = leave_scopes (return_scope_depth fr) m
               in Some (Running (m\<lparr>vm := (vm m)\<lparr>
                    call_stack := fr\<lparr>fr_upvalues := upvalues f, fr_function := Some fp\<rparr> # frs,
                    ip := code_offset f\<rparr>\<rparr>)))"

definition call_function :: "string \<Rightarrow> val \<Rightarrow> nat \<Rightarrow> opcode \<Rightarrow> mach \<Rightarrow> outcome option" where
  "call_function name fv n op m =
     (case fv of
        VFunction fp \<Rightarrow>
          do { f \<leftarrow> pool_read (function_pool (heap m)) fp;
               if n < min_arity f \<or> arity f < n then fail_pops (arity_msg (quoted name) f n) n m
               else do {
                 ds \<leftarrow> missing_defaults f n;
                 then_do (push_all ds m) (\<lambda>m. do {
                   ok \<leftarrow> receiver_ok f (arity f) m;
                   if \<not> ok
                   then do { t \<leftarrow> pool_name (heap m) (chunk m) (receiver_type f);
                             fail_pops (quoted name @ '' expects its first argument to be a '' @ t) (arity f) m }
                   else if op = OP_TAIL_CALL then tail_call fp f m
                   else plain_call fp f m }) } }
      | _ \<Rightarrow> fail_pops (quoted name @ '' is not a function'') n m)"

definition lbl_call :: "opcode \<Rightarrow> mach \<Rightarrow> outcome option" where
  "lbl_call op m =
     do { (name, m) \<leftarrow> read_nat m; (n, m) \<leftarrow> read_nat m; (cache, m) \<leftarrow> read_nat m;
          (r, m) \<leftarrow> find_cached name cache m;
          who \<leftarrow> pool_name (heap m) (chunk m) name;
          case r of
            None \<Rightarrow> inline_builtin who n m
          | Some a \<Rightarrow> do { fv \<leftarrow> read_addr m a; call_function who fv n op m } }"

section \<open>Return and deferred calls\<close>

definition set_frame :: "call_frame \<Rightarrow> mach \<Rightarrow> mach" where
  "set_frame fr m = m\<lparr>vm := (vm m)\<lparr>call_stack := fr # tl (call_stack (vm m))\<rparr>\<rparr>"

definition finish_return :: "mach \<Rightarrow> outcome option" where
  "finish_return m =
     (case call_stack (vm m) of
        [] \<Rightarrow> None
      | fr # frs \<Rightarrow>
          (let m = leave_scopes (return_scope_depth fr) m
           in push (pending_return_value fr)
                (m\<lparr>vm := (vm m)\<lparr>call_stack := frs, ip := return_ip fr\<rparr>\<rparr>)))"

text \<open>
  The loop over the pending defers, the last one first: the list is the pending ones in that
  order. A deferred call of a function leaves the loop; its own return comes back to it.
\<close>

fun run_defers :: "nat \<Rightarrow> deferred_call list \<Rightarrow> mach \<Rightarrow> outcome option" where
  "run_defers raddr [] m = finish_return m"
| "run_defers raddr (d # ds) m =
     (case call_stack (vm m) of
        [] \<Rightarrow> None
      | fr # frs \<Rightarrow>
          do { let m = set_frame (fr\<lparr>defers := rev ds\<rparr>) m;
               who \<leftarrow> pool_name (heap m) (chunk m) (name_idx d);
               r \<leftarrow> vm_scope_get (heap m) (chunk m) (vm m) (name_idx d);
               case r of
                 Some a \<Rightarrow>
                   do { fv \<leftarrow> read_addr m a;
                        if vtype fv \<noteq> TYPE_FUNCTION
                        then Some (Running (error (quoted who @ '' is not a function'') m))
                        else then_do (push_all (dargs d) m) (\<lambda>m. do {
                          (ok, m) \<leftarrow> vm_setup_call fv (length (dargs d)) raddr m;
                          Some (Running (if ok then m else snd (pops (length (dargs d)) m))) }) }
               | None \<Rightarrow>
                   (case vm_call_builtin who (dargs d) m of
                      None \<Rightarrow> Some (Running (error (quoted who @ '' is not defined'') m))
                    | Some None \<Rightarrow> None
                    | Some (Some (_, m)) \<Rightarrow>
                        if runtime_had_error m then Some (Running m) else run_defers raddr ds m) })"

definition lbl_return :: "mach \<Rightarrow> outcome option" where
  "lbl_return m =
     (case call_stack (vm m) of
        [] \<Rightarrow> None
      | fr # frs \<Rightarrow>
          (let raddr = ip (vm m) - 1;
               (v, m) = pop m;
               fr = (if defers_draining fr then fr
                     else fr\<lparr>pending_return_value := v, defers_draining := True\<rparr>)
           in run_defers raddr (rev (defers fr)) (set_frame fr m)))"

definition lbl_defer_push :: "mach \<Rightarrow> outcome option" where
  "lbl_defer_push m =
     do { (name, m) \<leftarrow> read_nat m; (n, m) \<leftarrow> read_nat m;
          case call_stack (vm m) of
            [] \<Rightarrow> None
          | fr # frs \<Rightarrow>
              if n > MAX_DEFER_ARGS
              then Some (Running (snd (pops n (error ''Too many arguments to a deferred call (max 8)'' m))))
              else if length (defers fr) \<ge> MAX_DEFERS_PER_CALL
              then Some (Running (snd (pops n (error ''Too many deferred calls in one function (max 8)'' m))))
              else let (args, m) = pops n m
                   in Some (Running (set_frame (fr\<lparr>defers := defers fr @ [\<lparr>name_idx = name, dargs = args\<rparr>]\<rparr>) m)) }"

text \<open>The function value lies below its arguments and is removed once the call is set up.\<close>

definition lbl_call_value :: "mach \<Rightarrow> outcome option" where
  "lbl_call_value m =
     do { (n, m) \<leftarrow> read_nat m;
          if stack_top (vm m) \<le> n then None
          else do {
            let fv = stack (vm m) ! n;
            (ok, m) \<leftarrow> vm_setup_call fv n (ip (vm m)) m;
            if \<not> ok then push VNull (snd (pops (n + 1) m))
            else do { f \<leftarrow> fun_of (heap m) fv;
                      let st = stack (vm m);
                      Some (Running (set_stack (take (arity f) st @ drop (arity f + 1) st) m)) } } }"

section \<open>Closures\<close>

definition lbl_capture :: "mach \<Rightarrow> outcome option" where
  "lbl_capture m =
     do { (name, m) \<leftarrow> read_nat m;
          (r, m) \<leftarrow> vm_box_slot name m;
          case r of
            None \<Rightarrow> Some (Running m)
          | Some b \<Rightarrow>
              if length (pending_upvalues (vm m)) \<ge> MAX_CAPTURES
              then Some (Running (error ''Too many captured variables in one closure (max 16)'' m))
              else Some (Running (m\<lparr>vm := (vm m)\<lparr>pending_upvalues := pending_upvalues (vm m) @ [b]\<rparr>\<rparr>)) }"

definition lbl_make_closure :: "mach \<Rightarrow> outcome option" where
  "lbl_make_closure m =
     do { (off, m) \<leftarrow> read_nat m; (ar, m) \<leftarrow> read_nat m; (mn, m) \<leftarrow> read_nat m;
          (recv, m) \<leftarrow> read_word m; (rty, m) \<leftarrow> read_nat m; (nup, m) \<leftarrow> read_nat m;
          let pend = pending_upvalues (vm m);
          if length pend < nup then None
          else do {
            let m = m\<lparr>vm := (vm m)\<lparr>pending_upvalues := []\<rparr>\<rparr>;
            (ids, m) \<leftarrow> read_nats (ar - mn) m;
            ds \<leftarrow> those (map (pool_at m) ids);
            (fp, h) \<leftarrow> new_function (heap m)
              \<lparr>defaults = (if ar - mn > 0 then Some ds else None),
               upvalues = (if nup > 0 then Some (take nup pend) else None),
               code_offset = off, arity = ar, min_arity = mn, receiver_type = rty,
               upvalue_count = nup, has_receiver = (recv \<noteq> 0)\<rparr>;
            push (VFunction fp) (set_heap h m) } }"

definition frame_upvalue :: "mach \<Rightarrow> nat \<Rightarrow> box_ref option" where
  "frame_upvalue m j =
     (case call_stack (vm m) of
        [] \<Rightarrow> None
      | fr # _ \<Rightarrow> (case fr_upvalues fr of
                   None \<Rightarrow> None
                 | Some us \<Rightarrow> if j < length us then Some (us ! j) else None))"

definition lbl_load_upvalue :: "mach \<Rightarrow> outcome option" where
  "lbl_load_upvalue m =
     do { (j, m) \<leftarrow> read_nat m;
          push_with (\<lambda>m. do { b \<leftarrow> frame_upvalue m j; v \<leftarrow> read_box (heap m) b; Some (v, m) }) m }"

definition lbl_store_upvalue :: "mach \<Rightarrow> outcome option" where
  "lbl_store_upvalue m =
     do { (j, m) \<leftarrow> read_nat m;
          let (v, m) = pop m;
          b \<leftarrow> frame_upvalue m j;
          h \<leftarrow> gc_barrier_box b v (heap m);
          h \<leftarrow> write_box h b v;
          Some (Running (set_heap h m)) }"

section \<open>Arrays, dicts, indexing\<close>

definition lbl_array_new :: "mach \<Rightarrow> outcome option" where
  "lbl_array_new m =
     do { (n, m) \<leftarrow> read_nat m;
          let (vs, m) = pops n m;
          (v, h) \<leftarrow> new_array (heap m) \<lparr>items = vs, shape = None\<rparr>;
          push v (set_heap h m) }"

definition unpack_msg :: "nat \<Rightarrow> nat \<Rightarrow> string" where
  "unpack_msg i n =
     ''Cannot unpack index '' @ show_nat i @ '': array has '' @ show_nat n @ '' element'' @ plural n"

definition lbl_unpack :: "mach \<Rightarrow> outcome option" where
  "lbl_unpack m =
     do { (i, m) \<leftarrow> read_nat m;
          case stack (vm m) of
            [] \<Rightarrow> None
          | v # _ \<Rightarrow>
              (case v of
                 VArray c \<Rightarrow>
                   do { a \<leftarrow> pool_read (array_pool (heap m)) c;
                        if i \<ge> length (items a) then fail_push (unpack_msg i (length (items a))) m
                        else push (items a ! i) m }
               | _ \<Rightarrow> fail_push ''Cannot unpack a non-array'' m) }"

text \<open>
  The pairs of a dict literal come off the stack last first, so of two equal keys the first
  one in the source is put last and wins.
\<close>

fun dict_pairs :: "nat \<Rightarrow> val hashtable \<Rightarrow> mach \<Rightarrow> (val hashtable \<times> mach) option" where
  "dict_pairs 0 t m = Some (t, m)"
| "dict_pairs (Suc n) t m =
     (let (v, m) = pop m; (key, m) = pop m
      in case key of
           VString c \<Rightarrow>
             do { s \<leftarrow> pool_read (string_pool (heap m)) c;
                  t \<leftarrow> dictmap_put t s v;
                  dict_pairs n t m }
         | _ \<Rightarrow> dict_pairs n t (error ''Dict keys must be strings'' m))"

definition lbl_dict_new :: "mach \<Rightarrow> outcome option" where
  "lbl_dict_new m =
     do { (n, m) \<leftarrow> read_nat m;
          (t, m) \<leftarrow> dict_pairs n (ht_zero True) m;
          (v, h) \<leftarrow> new_dict (heap m) t;
          push v (set_heap h m) }"

definition lbl_index_get :: "mach \<Rightarrow> outcome option" where
  "lbl_index_get m =
     (let (idx, m) = pop m; (ob, m) = pop m in push_with (vm_index_get_compute ob idx) m)"

text \<open>The body the six fused reads share.\<close>

definition index_fused :: "operand \<Rightarrow> operand \<Rightarrow> mach \<Rightarrow> outcome option" where
  "index_fused x y m =
     do { (a, m) \<leftarrow> resolve x m;
          case a of
            None \<Rightarrow> Some (Running m)
          | Some a \<Rightarrow>
              if \<not> source_fits (vm m) a then Some Overrun
              else do { (i, m) \<leftarrow> resolve y m;
                   case i of
                     None \<Rightarrow> Some (Running m)
                   | Some i \<Rightarrow>
                       if \<not> source_fits (vm m) i then Some Overrun
                       else push_with (\<lambda>m. do { ob \<leftarrow> source_value m a; idx \<leftarrow> source_value m i;
                                          vm_index_get_compute ob idx m }) m } }"

definition lbl_index_get_local_const :: "mach \<Rightarrow> outcome option" where
  "lbl_index_get_local_const m =
     do { (j, m) \<leftarrow> read_nat m; (i, m) \<leftarrow> read_nat m; index_fused (ByLocal j) (ByConst i) m }"

definition lbl_index_get_local_local :: "mach \<Rightarrow> outcome option" where
  "lbl_index_get_local_local m =
     do { (j, m) \<leftarrow> read_nat m; (i, m) \<leftarrow> read_nat m; index_fused (ByLocal j) (ByLocal i) m }"

definition lbl_index_get_local_name :: "mach \<Rightarrow> outcome option" where
  "lbl_index_get_local_name m =
     do { (j, m) \<leftarrow> read_nat m; (name, m) \<leftarrow> read_nat m; (cache, m) \<leftarrow> read_nat m;
          index_fused (ByLocal j) (ByName name cache) m }"

definition lbl_index_get_name_const :: "mach \<Rightarrow> outcome option" where
  "lbl_index_get_name_const m =
     do { (name, m) \<leftarrow> read_nat m; (cache, m) \<leftarrow> read_nat m; (i, m) \<leftarrow> read_nat m;
          index_fused (ByName name cache) (ByConst i) m }"

definition lbl_index_get_name_local :: "mach \<Rightarrow> outcome option" where
  "lbl_index_get_name_local m =
     do { (name, m) \<leftarrow> read_nat m; (cache, m) \<leftarrow> read_nat m; (i, m) \<leftarrow> read_nat m;
          index_fused (ByName name cache) (ByLocal i) m }"

definition lbl_index_get_name_name :: "mach \<Rightarrow> outcome option" where
  "lbl_index_get_name_name m =
     do { (name, m) \<leftarrow> read_nat m; (cache, m) \<leftarrow> read_nat m; (name2, m) \<leftarrow> read_nat m; (cache2, m) \<leftarrow> read_nat m;
          index_fused (ByName name cache) (ByName name2 cache2) m }"

text \<open>Overwriting the payload of a key that is there.\<close>

definition dict_overwrite :: "val hashtable \<Rightarrow> string \<Rightarrow> val \<Rightarrow> val hashtable" where
  "dict_overwrite t key v =
     (case ht_probe t key of
        None \<Rightarrow> t
      | Some i \<Rightarrow>
          (let j = bucket_at t (hash_key key) i
           in case buckets t ! j of
                None \<Rightarrow> t
              | Some e \<Rightarrow> t\<lparr>buckets := (buckets t)[j := Some (e\<lparr>payload := v\<rparr>)]\<rparr>))"

definition dict_store :: "val hashtable \<Rightarrow> string \<Rightarrow> val \<Rightarrow> val hashtable option" where
  "dict_store t key v =
     (if dictmap_get t key \<noteq> None then Some (dict_overwrite t key v) else dictmap_put t key v)"

definition index_set_array :: "ptr \<Rightarrow> val \<Rightarrow> val \<Rightarrow> mach \<Rightarrow> mach option" where
  "index_set_array c idx v m =
     do { a \<leftarrow> pool_read (array_pool (heap m)) c;
          if shape a \<noteq> None then Some (error (''Struct fields are assigned with '.', not '' @ quoted ''[]'') m)
          else if vtype idx \<noteq> TYPE_INTEGER then Some (error ''Array index must be an integer'' m)
          else do { i \<leftarrow> aer_as_int_v (heap m) idx;
                    case index_pos i (length (items a)) of
                      None \<Rightarrow> Some (error (bad_index ''Array'' i (length (items a))) m)
                    | Some j \<Rightarrow> do { h \<leftarrow> gc_barrier_array c v (heap m);
                                     write_array c (a\<lparr>items := (items a)[j := v]\<rparr>) (set_heap h m) } } }"

definition index_set_dict :: "ptr \<Rightarrow> val \<Rightarrow> val \<Rightarrow> mach \<Rightarrow> mach option" where
  "index_set_dict c idx v m =
     (case idx of
        VString k \<Rightarrow>
          do { s \<leftarrow> pool_read (string_pool (heap m)) k;
               if length s > VM_KEY_MAX then Some (error key_too_long m)
               else do { h \<leftarrow> gc_barrier_dict c v (heap m);
                         d \<leftarrow> pool_read (dict_pool h) c;
                         d \<leftarrow> dict_store d s v;
                         write_dict c d (set_heap h m) } }
      | _ \<Rightarrow> Some (error ''Dict key must be a string'' m))"

definition lbl_index_set :: "mach \<Rightarrow> outcome option" where
  "lbl_index_set m =
     (let (v, m) = pop m; (idx, m) = pop m; (ob, m) = pop m
      in map_option Running
           (case ob of
              VArray c \<Rightarrow> index_set_array c idx v m
            | VDict c \<Rightarrow> index_set_dict c idx v m
            | VString _ \<Rightarrow> Some (error (''Strings are immutable '' @ em_dash @ '' cannot assign to an index'') m)
            | _ \<Rightarrow> Some (error ''Cannot index type'' m)))"

text \<open>The elements of a slice.\<close>

definition slice_of :: "'a list \<Rightarrow> int \<times> int \<Rightarrow> 'a list" where
  "slice_of xs r = take (nat (snd r - fst r)) (drop (nat (fst r)) xs)"

definition lbl_slice_get :: "mach \<Rightarrow> outcome option" where
  "lbl_slice_get m =
     (let (ev, m) = pop m; (sv, m) = pop m; (ob, m) = pop m
      in case ob of
           VArray c \<Rightarrow>
             do { a \<leftarrow> pool_read (array_pool (heap m)) c;
                  if shape a \<noteq> None then fail_push ''Structs cannot be sliced'' m
                  else do { (r, m) \<leftarrow> vm_slice_bounds sv ev (int (length (items a))) m;
                            case r of
                              None \<Rightarrow> push VNull m
                            | Some r \<Rightarrow> do { (v, h) \<leftarrow> new_array (heap m) \<lparr>items = slice_of (items a) r, shape = None\<rparr>;
                                           push v (set_heap h m) } } }
         | VString c \<Rightarrow>
             do { s \<leftarrow> pool_read (string_pool (heap m)) c;
                  (r, m) \<leftarrow> vm_slice_bounds sv ev (int (length s)) m;
                  case r of
                    None \<Rightarrow> push VNull m
                  | Some r \<Rightarrow> push_with (\<lambda>m. do { (v, h) \<leftarrow> aer_make_string (heap m) (slice_of s r);
                                                Some (v, set_heap h m) }) m }
         | _ \<Rightarrow> fail_push ''Cannot slice this type'' m)"

section \<open>Structs\<close>

fun read_fields :: "nat \<Rightarrow> mach \<Rightarrow> ((nat \<times> val) list \<times> mach) option" where
  "read_fields 0 m = Some ([], m)"
| "read_fields (Suc n) m =
     do { (name, m) \<leftarrow> read_nat m; (i, m) \<leftarrow> read_nat m; d \<leftarrow> pool_at m i;
          (fs, m) \<leftarrow> read_fields n m;
          Some ((name, d) # fs, m) }"

definition lbl_define_struct :: "mach \<Rightarrow> outcome option" where
  "lbl_define_struct m =
     do { (name, m) \<leftarrow> read_nat m; (n, m) \<leftarrow> read_nat m;
          if n > MAX_STRUCT_FIELDS then None
          else do { (fs, m) \<leftarrow> read_fields n m;
                    Some (Running (m\<lparr>
                      shapes := shapes m @ [\<lparr>sh_name = name, field_names = map fst fs, field_defaults = map snd fs\<rparr>],
                      chunk := (chunk m)\<lparr>chunk_shapes := chunk_shapes (chunk m) @ [length (shapes m)]\<rparr>\<rparr>)) } }"

definition field_pos :: "shape_rec \<Rightarrow> nat \<Rightarrow> nat option" where
  "field_pos sh f = find (\<lambda>i. field_names sh ! i = f) [0..<length (field_names sh)]"

definition no_field :: "shape_rec \<Rightarrow> nat \<Rightarrow> mach \<Rightarrow> mach option" where
  "no_field sh f m =
     do { s \<leftarrow> pool_name (heap m) (chunk m) (sh_name sh); t \<leftarrow> pool_name (heap m) (chunk m) f;
          Some (error (quoted s @ '' has no field '' @ quoted t) m) }"

text \<open>The array and shape of a struct instance.\<close>

definition struct_of :: "mach \<Rightarrow> val \<Rightarrow> (ptr \<times> aer_array \<times> shape_rec) option option" where
  "struct_of m v =
     (case v of
        VArray c \<Rightarrow>
          do { a \<leftarrow> pool_read (array_pool (heap m)) c;
               case shape a of
                 None \<Rightarrow> Some None
               | Some s \<Rightarrow> do { sh \<leftarrow> shape_at m s; Some (Some (c, a, sh)) } }
      | _ \<Rightarrow> Some None)"

definition lbl_field_get :: "mach \<Rightarrow> outcome option" where
  "lbl_field_get m =
     do { (f, m) \<leftarrow> read_nat m;
          let (ob, m) = pop m;
          r \<leftarrow> struct_of m ob;
          case r of
            None \<Rightarrow> fail_push (quoted ''.'' @ '' field access requires a struct instance'') m
          | Some (c, a, sh) \<Rightarrow>
              (case field_pos sh f of
                 None \<Rightarrow> do { m \<leftarrow> no_field sh f m; push VNull m }
               | Some j \<Rightarrow> if j < length (items a) then push (items a ! j) m else None) }"

definition lbl_field_set :: "mach \<Rightarrow> outcome option" where
  "lbl_field_set m =
     do { (f, m) \<leftarrow> read_nat m;
          let (v, m) = pop m;
          let (ob, m) = pop m;
          r \<leftarrow> struct_of m ob;
          case r of
            None \<Rightarrow> Some (Running (error (quoted ''.'' @ '' field access requires a struct instance'') m))
          | Some (c, a, sh) \<Rightarrow>
              (case field_pos sh f of
                 None \<Rightarrow> map_option Running (no_field sh f m)
               | Some j \<Rightarrow>
                   if j < length (items a)
                   then do { h \<leftarrow> gc_barrier_array c v (heap m);
                             map_option Running (write_array c (a\<lparr>items := (items a)[j := v]\<rparr>) (set_heap h m)) }
                   else None) }"

definition lbl_check_shape :: "mach \<Rightarrow> outcome option" where
  "lbl_check_shape m =
     do { (name, m) \<leftarrow> read_nat m;
          let (v, m) = pop m;
          r \<leftarrow> struct_of m v;
          if (case r of None \<Rightarrow> False | Some (c, a, sh) \<Rightarrow> sh_name sh = name) then push v m
          else do { s \<leftarrow> pool_name (heap m) (chunk m) name;
                    t \<leftarrow> vm_type_name m v;
                    fail_push (''Expected a '' @ quoted s @ '', got a '' @ quoted t) m } }"

section \<open>Iteration\<close>

text \<open>Leaving a loop: its \<open>n\<close> stack slots dropped, control at the end of the loop.\<close>

definition leave_loop :: "nat \<Rightarrow> nat \<Rightarrow> mach \<Rightarrow> outcome option" where
  "leave_loop n target m = Some (Running (set_ip target (set_stack (drop n (stack (vm m))) m)))"

text \<open>An index compared as \<^verbatim>\<open>unsigned long long\<close>.\<close>

definition past :: "int \<Rightarrow> nat \<Rightarrow> bool" where
  "past idx n \<longleftrightarrow> idx < 0 \<or> int n \<le> idx"

text \<open>The index slot, on top of the stack, set to \<open>idx\<close>.\<close>

definition bump :: "int \<Rightarrow> mach \<Rightarrow> mach option" where
  "bump idx m =
     do { (v, m) \<leftarrow> ret_int idx m; Some (set_stack (v # tl (stack (vm m))) m) }"

text \<open>The next occupied bucket at or after \<open>idx\<close>.\<close>

definition next_bucket :: "'v hashtable \<Rightarrow> nat \<Rightarrow> nat option" where
  "next_bucket t idx = find (\<lambda>i. buckets t ! i \<noteq> None) [idx..<capacity t]"

definition push_string :: "string \<Rightarrow> mach \<Rightarrow> outcome option" where
  "push_string s = push_with (\<lambda>m. do { (v, h) \<leftarrow> aer_make_string (heap m) s; Some (v, set_heap h m) })"

definition entry_key :: "'v ht_entry \<Rightarrow> string" where
  "entry_key e = take (elength e) (ekey e)"

definition lbl_iter_next :: "mach \<Rightarrow> outcome option" where
  "lbl_iter_next m =
     do { (target, m) \<leftarrow> read_nat m;
          case stack (vm m) of
            iv # col # _ \<Rightarrow>
              do { idx \<leftarrow> aer_as_int_v (heap m) iv;
                   case col of
                     VArray c \<Rightarrow>
                       do { a \<leftarrow> pool_read (array_pool (heap m)) c;
                            if past idx (length (items a)) then leave_loop 2 target m
                            else do { m \<leftarrow> bump (idx + 1) m; push (items a ! nat idx) m } }
                   | VDict c \<Rightarrow>
                       do { d \<leftarrow> pool_read (dict_pool (heap m)) c;
                            case (if idx < 0 then None else next_bucket d (nat idx)) of
                              None \<Rightarrow> leave_loop 2 target m
                            | Some i \<Rightarrow>
                                do { e \<leftarrow> buckets d ! i;
                                     m \<leftarrow> bump (int i + 1) m;
                                     push_string (entry_key e) m } }
                   | VString c \<Rightarrow>
                       do { s \<leftarrow> pool_read (string_pool (heap m)) c;
                            if past idx (length s) then leave_loop 2 target m
                            else do { m \<leftarrow> bump (idx + 1) m; push_string [s ! nat idx] m } }
                   | _ \<Rightarrow> leave_loop 2 target (error ''Cannot iterate over this type'' m) }
          | _ \<Rightarrow> None }"

definition lbl_iter_next_pair :: "mach \<Rightarrow> outcome option" where
  "lbl_iter_next_pair m =
     do { (target, m) \<leftarrow> read_nat m;
          case stack (vm m) of
            iv # col # _ \<Rightarrow>
              do { idx \<leftarrow> aer_as_int_v (heap m) iv;
                   case col of
                     VDict c \<Rightarrow>
                       do { d \<leftarrow> pool_read (dict_pool (heap m)) c;
                            case (if idx < 0 then None else next_bucket d (nat idx)) of
                              None \<Rightarrow> leave_loop 2 target m
                            | Some i \<Rightarrow>
                                do { e \<leftarrow> buckets d ! i;
                                     m \<leftarrow> bump (int i + 1) m;
                                     then_do (push_string (entry_key e) m) (push (payload e)) } }
                   | _ \<Rightarrow> leave_loop 2 target (error ''for k, v requires a dict'' m) }
          | _ \<Rightarrow> None }"

definition range_step_msg :: string where
  "range_step_msg = ''Range step must be a positive integer (direction is inferred from the bounds, '' @
     ''not the step'' @ [CHR 0x27] @ ''s sign)''"

text \<open>
  \<open>Some c\<close> is the next value of a range counter at \<open>cur\<close>, \<open>None\<close> the end of the loop. The direction
  is inferred afresh on every iteration. The next value is exact here; the handler is undefined
  when it does not fit \<^verbatim>\<open>long long\<close>.
\<close>

definition range_next :: "int \<Rightarrow> int \<Rightarrow> int \<Rightarrow> int option" where
  "range_next cur fin step =
     (let ascending = cur < fin
      in if (if ascending then fin \<le> cur else cur \<le> fin) then None
         else Some (cur + (if ascending then step else - step)))"

definition lbl_iter_range :: "mach \<Rightarrow> outcome option" where
  "lbl_iter_range m =
     do { (target, m) \<leftarrow> read_nat m;
          case stack (vm m) of
            sv # ev # cv # st \<Rightarrow>
              if vtype cv \<noteq> TYPE_INTEGER \<or> vtype ev \<noteq> TYPE_INTEGER \<or> vtype sv \<noteq> TYPE_INTEGER
              then leave_loop 3 target (error ''Range bounds and step must be integers'' m)
              else do {
                cur \<leftarrow> aer_as_int_v (heap m) cv; fin \<leftarrow> aer_as_int_v (heap m) ev; stp \<leftarrow> aer_as_int_v (heap m) sv;
                if stp \<le> 0 then leave_loop 3 target (error range_step_msg m)
                else case range_next cur fin stp of
                  None \<Rightarrow> leave_loop 3 target m
                | Some n \<Rightarrow>
                    then_do (push cv m) (\<lambda>m. do {
                      (nv, m) \<leftarrow> ret_int n m;
                      Some (Running (set_stack (cv # sv # ev # nv # st) m)) }) }
          | _ \<Rightarrow> None }"

section \<open>Conversion\<close>

definition lbl_to_str :: "mach \<Rightarrow> outcome option" where
  "lbl_to_str m = (let (v, m) = pop m in push_with (vm_to_str v) m)"

text \<open>The prefix that fits the conversion buffer.\<close>

definition cast_buf :: "string \<Rightarrow> string" where
  "cast_buf s = take 63 s"

definition cast_integer :: "val \<Rightarrow> mach \<Rightarrow> (val \<times> mach) option" where
  "cast_integer v m =
     (case v of
        VInt _ \<Rightarrow> ret v m
      | VBig _ \<Rightarrow> ret v m
      | VReal d \<Rightarrow> do { n \<leftarrow> f_to_int d; ret_int n m }
      | VBool b \<Rightarrow> ret_int (if b then 1 else 0) m
      | VString c \<Rightarrow> do { s \<leftarrow> pool_read (string_pool (heap m)) c; ret_int (atoll (cast_buf s)) m }
      | _ \<Rightarrow> fail ''Cannot convert this type to integer'' (VInt 0) m)"

definition cast_float :: "val \<Rightarrow> mach \<Rightarrow> (val \<times> mach) option" where
  "cast_float v m =
     (if vtype v = TYPE_INTEGER then do { n \<leftarrow> aer_as_int_v (heap m) v; ret (VReal (f_of_int n)) m }
      else case v of
        VReal _ \<Rightarrow> ret v m
      | VBool b \<Rightarrow> ret (VReal (if b then f_of_int 1 else 0)) m
      | VString c \<Rightarrow> do { s \<leftarrow> pool_read (string_pool (heap m)) c; ret (real_val (atof (cast_buf s))) m }
      | _ \<Rightarrow> fail ''Cannot convert this type to float'' (VReal 0) m)"

definition cast_value :: "int \<Rightarrow> val \<Rightarrow> mach \<Rightarrow> (val \<times> mach) option" where
  "cast_value kind v m =
     (if kind = 0 then cast_integer v m
      else if kind = 1 then cast_float v m
      else if kind = 2 then do { b \<leftarrow> vm_truthy (heap m) v; ret (VBool b) m }
      else ret VNull m)"

definition lbl_cast :: "mach \<Rightarrow> outcome option" where
  "lbl_cast m =
     do { (kind, m) \<leftarrow> read_word m;
          let (v, m) = pop m;
          (r, m) \<leftarrow> cast_value kind v m;
          push r m }"

definition lbl_pop :: "mach \<Rightarrow> outcome option" where
  "lbl_pop m = Some (Running (snd (pop m)))"

definition lbl_halt :: "mach \<Rightarrow> outcome option" where
  "lbl_halt m = Some (Stopped True m)"

section \<open>Dispatch\<close>

text \<open>The jump table, but for \<open>OP_CALL_MODULE\<close>.\<close>

definition handler :: "opcode \<Rightarrow> mach \<Rightarrow> outcome option" where
  "handler op =
     (case op of
        OP_PUSH \<Rightarrow> lbl_push | OP_LOAD \<Rightarrow> lbl_load | OP_STORE \<Rightarrow> lbl_store | OP_DEFINE \<Rightarrow> lbl_define
      | OP_LOAD_LOCAL \<Rightarrow> lbl_load_local | OP_STORE_LOCAL \<Rightarrow> lbl_store_local
      | OP_DEFINE_LOCAL \<Rightarrow> lbl_define_local
      | OP_COMPOUND_NAME_CONST \<Rightarrow> lbl_compound_name_const
      | OP_COMPOUND_NAME_NAME \<Rightarrow> lbl_compound_name_name
      | OP_COMPOUND_LOCAL_CONST \<Rightarrow> lbl_compound_local_const
      | OP_COMPOUND_LOCAL_LOCAL \<Rightarrow> lbl_compound_local_local
      | OP_COMPOUND_LOCAL_NAME \<Rightarrow> lbl_compound_local_name
      | OP_COMPOUND_NAME_LOCAL \<Rightarrow> lbl_compound_name_local
      | OP_NEGATE \<Rightarrow> lbl_negate | OP_NOT \<Rightarrow> lbl_not | OP_BITWISE_NOT \<Rightarrow> lbl_bitwise_not
      | OP_JUMP \<Rightarrow> lbl_jump | OP_JUMP_IF_FALSE \<Rightarrow> lbl_jump_if_false | OP_JUMP_IF_TRUE \<Rightarrow> lbl_jump_if_true
      | OP_PUSH_SCOPE \<Rightarrow> lbl_push_scope | OP_POP_SCOPE \<Rightarrow> lbl_pop_scope
      | OP_CALL \<Rightarrow> lbl_call OP_CALL | OP_TAIL_CALL \<Rightarrow> lbl_call OP_TAIL_CALL
      | OP_CALL_VALUE \<Rightarrow> lbl_call_value | OP_RETURN \<Rightarrow> lbl_return | OP_DEFER_PUSH \<Rightarrow> lbl_defer_push
      | OP_ARRAY_NEW \<Rightarrow> lbl_array_new | OP_DICT_NEW \<Rightarrow> lbl_dict_new | OP_INDEX_GET \<Rightarrow> lbl_index_get
      | OP_INDEX_GET_LOCAL_CONST \<Rightarrow> lbl_index_get_local_const
      | OP_INDEX_GET_LOCAL_LOCAL \<Rightarrow> lbl_index_get_local_local
      | OP_INDEX_GET_LOCAL_NAME \<Rightarrow> lbl_index_get_local_name
      | OP_INDEX_GET_NAME_CONST \<Rightarrow> lbl_index_get_name_const
      | OP_INDEX_GET_NAME_LOCAL \<Rightarrow> lbl_index_get_name_local
      | OP_INDEX_GET_NAME_NAME \<Rightarrow> lbl_index_get_name_name
      | OP_INDEX_SET \<Rightarrow> lbl_index_set | OP_SLICE_GET \<Rightarrow> lbl_slice_get | OP_UNPACK \<Rightarrow> lbl_unpack
      | OP_ITER_NEXT \<Rightarrow> lbl_iter_next | OP_ITER_NEXT_PAIR \<Rightarrow> lbl_iter_next_pair
      | OP_ITER_RANGE \<Rightarrow> lbl_iter_range
      | OP_DEFINE_STRUCT \<Rightarrow> lbl_define_struct | OP_FIELD_GET \<Rightarrow> lbl_field_get
      | OP_FIELD_SET \<Rightarrow> lbl_field_set | OP_CHECK_SHAPE \<Rightarrow> lbl_check_shape
      | OP_CAPTURE \<Rightarrow> lbl_capture | OP_MAKE_CLOSURE \<Rightarrow> lbl_make_closure
      | OP_LOAD_UPVALUE \<Rightarrow> lbl_load_upvalue | OP_STORE_UPVALUE \<Rightarrow> lbl_store_upvalue
      | OP_PRINT_REPL \<Rightarrow> lbl_print_repl | OP_POP \<Rightarrow> lbl_pop | OP_TO_STR \<Rightarrow> lbl_to_str
      | OP_CAST \<Rightarrow> lbl_cast | OP_HALT \<Rightarrow> lbl_halt
      | OP_CALL_MODULE \<Rightarrow> (\<lambda>m. None)
      | _ \<Rightarrow> lbl_binary op)"

end
