(* ===== verification/HeapLaws.thy ===== *)
theory HeapLaws
  imports Values
begin

text \<open>
  What an allocation keeps: a heap that extends another has every object and box of it, with
  the same contents. Each allocator of theory \<open>Values\<close> succeeds, extends the heap and leaves its
  value readable; the facts come from the contract \<open>cell_store\<close> of the pools.
\<close>

named_theorems heap_ext_intros

section \<open>Extension\<close>

definition heap_ext :: "heap \<Rightarrow> heap \<Rightarrow> bool" where
  "heap_ext h h' \<longleftrightarrow> pools_inv h' \<and>
     (\<forall>ob. obj_live h ob \<longrightarrow> obj_live h' ob \<and> obj_content h' ob = obj_content h ob) \<and>
     (\<forall>c \<in> live (closure_box_pool h).
        c \<in> live (closure_box_pool h') \<and> pool_read (closure_box_pool h') c = pool_read (closure_box_pool h) c) \<and>
     ovf_boxes h' = ovf_boxes h"

text \<open>A value whose object, if it has one, is in use.\<close>

definition val_ok :: "heap \<Rightarrow> val \<Rightarrow> bool" where
  "val_ok h v \<longleftrightarrow> (\<forall>ob. obj_of v = Some ob \<longrightarrow> obj_live h ob)"

lemma val_ok_simps [simp]:
  "val_ok h VNull" "val_ok h (VBool b)" "val_ok h (VInt i)" "val_ok h (VReal d)"
  "val_ok h (VBig c) \<longleftrightarrow> c \<in> live (long_pool h)" "val_ok h (VString c) \<longleftrightarrow> c \<in> live (string_pool h)"
  "val_ok h (VArray c) \<longleftrightarrow> c \<in> live (array_pool h)" "val_ok h (VDict c) \<longleftrightarrow> c \<in> live (dict_pool h)"
  "val_ok h (VFunction c) \<longleftrightarrow> c \<in> live (function_pool h)"
  by (simp_all add: val_ok_def)

lemma heap_ext_inv: "heap_ext h h' \<Longrightarrow> pools_inv h'"
  by (simp add: heap_ext_def)

lemma heap_ext_refl [heap_ext_intros]: "pools_inv h \<Longrightarrow> heap_ext h h"
  by (simp add: heap_ext_def)

lemma heap_ext_trans: "heap_ext h h' \<Longrightarrow> heap_ext h' h'' \<Longrightarrow> heap_ext h h''"
  by (simp add: heap_ext_def)

lemma heap_ext_obj:
  assumes "heap_ext h h'" "obj_live h ob"
  shows "obj_live h' ob" "obj_content h' ob = obj_content h ob"
  using assms by (simp_all add: heap_ext_def)

lemma heap_ext_val_ok: "heap_ext h h' \<Longrightarrow> val_ok h v \<Longrightarrow> val_ok h' v"
  by (auto simp: heap_ext_def val_ok_def)

lemma inj_map_option_eq: "inj f \<Longrightarrow> map_option f x = map_option f y \<longleftrightarrow> x = y"
  by (cases x; cases y) (auto dest: injD)

lemma heap_ext_pool:
  assumes e: "heap_ext h h'"
  shows "c \<in> live (string_pool h) \<Longrightarrow> pool_read (string_pool h') c = pool_read (string_pool h) c"
    "c \<in> live (array_pool h) \<Longrightarrow> pool_read (array_pool h') c = pool_read (array_pool h) c"
    "c \<in> live (dict_pool h) \<Longrightarrow> pool_read (dict_pool h') c = pool_read (dict_pool h) c"
    "c \<in> live (function_pool h) \<Longrightarrow> pool_read (function_pool h') c = pool_read (function_pool h) c"
    "c \<in> live (long_pool h) \<Longrightarrow> pool_read (long_pool h') c = pool_read (long_pool h) c"
  using heap_ext_obj(2) [OF e, of "OStr c"] heap_ext_obj(2) [OF e, of "OArr c"]
    heap_ext_obj(2) [OF e, of "ODict c"] heap_ext_obj(2) [OF e, of "OFun c"] heap_ext_obj(2) [OF e, of "OBig c"]
  by (simp_all add: inj_map_option_eq inj_def)

lemma heap_ext_reads:
  assumes e: "heap_ext h h'" and v: "val_ok h v"
  shows "str_of h' v = str_of h v" "arr_of h' v = arr_of h v" "dict_of h' v = dict_of h v"
    "fun_of h' v = fun_of h v" "aer_as_int_v h' v = aer_as_int_v h v"
  using v heap_ext_pool [OF e] by (cases v; simp add: heap_reads aer_as_int_v_def)+

section \<open>Allocation\<close>

lemma count_alloc_simps [simp]:
  "string_pool (count_alloc h) = string_pool h" "array_pool (count_alloc h) = array_pool h"
  "dict_pool (count_alloc h) = dict_pool h" "function_pool (count_alloc h) = function_pool h"
  "closure_box_pool (count_alloc h) = closure_box_pool h" "long_pool (count_alloc h) = long_pool h"
  "ovf_boxes (count_alloc h) = ovf_boxes h" "remembered_set (count_alloc h) = remembered_set h"
  by (simp_all add: count_alloc_def)

text \<open>A pool that grew, cells in use unchanged; a heap all of whose pools grew.\<close>

definition pool_ext :: "'a pool \<Rightarrow> 'a pool \<Rightarrow> bool" where
  "pool_ext p p' \<longleftrightarrow> pool_inv p' \<and> live p \<subseteq> live p' \<and> (\<forall>d \<in> live p. pool_read p' d = pool_read p d)"

lemma pool_ext_refl: "pool_inv p \<Longrightarrow> pool_ext p p"
  by (simp add: pool_ext_def)

lemma heap_extI:
  assumes "pool_ext (string_pool h) (string_pool h')" "pool_ext (array_pool h) (array_pool h')"
    "pool_ext (dict_pool h) (dict_pool h')" "pool_ext (function_pool h) (function_pool h')"
    "pool_ext (closure_box_pool h) (closure_box_pool h')" "pool_ext (long_pool h) (long_pool h')"
    "ovf_boxes h' = ovf_boxes h"
  shows "heap_ext h h'"
  unfolding heap_ext_def
proof (intro conjI allI)
  fix ob show "obj_live h ob \<longrightarrow> obj_live h' ob \<and> obj_content h' ob = obj_content h ob"
    using assms by (cases ob) (auto simp: pool_ext_def)
qed (use assms in \<open>auto simp: pools_inv_def pool_ext_def\<close>)

lemmas pools_ext_refl = pools_invD [THEN pool_ext_refl]

lemma heap_ext_grown:
  assumes "pools_inv h"
  shows "pool_ext (string_pool h) p \<Longrightarrow> heap_ext h ((count_alloc h)\<lparr>string_pool := p\<rparr>)"
    "pool_ext (array_pool h) q \<Longrightarrow> heap_ext h ((count_alloc h)\<lparr>array_pool := q\<rparr>)"
    "pool_ext (dict_pool h) r \<Longrightarrow> heap_ext h ((count_alloc h)\<lparr>dict_pool := r\<rparr>)"
    "pool_ext (long_pool h) s \<Longrightarrow> heap_ext h ((count_alloc h)\<lparr>long_pool := s\<rparr>)"
  by (rule heap_extI; simp add: pools_ext_refl assms)+

lemma pool_new_ok:
  assumes "pool_inv p"
  obtains c p' where "pool_new p x = Some (c, p')" "pool_ext p p'" "c \<notin> live p" "c \<in> live p'" "pool_read p' c = Some x"
proof -
  obtain c p' where "pool_new p x = Some (c, p')" "pool_inv p'" "c \<notin> live p"
    "live p' = insert c (live p)" "pool_read p' c = Some x" "\<forall>d \<in> live p. pool_read p' d = pool_read p d"
    using slab.new_cell_post [OF assms, of x] unfolding pool_new_eq by blast
  then show ?thesis by (intro that [of c p']) (auto simp: pool_ext_def)
qed

lemma aer_make_string_ok:
  assumes h: "pools_inv h"
  obtains c h' where "aer_make_string h s = Some (VString c, h')" "heap_ext h h'"
    "val_ok h' (VString c)" "str_of h' (VString c) = Some s" "c \<notin> live (string_pool h)"
proof -
  obtain c p where "pool_new (string_pool h) s = Some (c, p)" "pool_ext (string_pool h) p"
    "c \<notin> live (string_pool h)" "c \<in> live p" "pool_read p c = Some s"
    by (rule pool_new_ok [OF pools_invD(1) [OF h], of s]) (rule that)
  then show ?thesis
    using that heap_ext_grown(1) [OF h, of p] by (simp add: aer_make_string_def heap_reads)
qed

lemma new_array_ok:
  assumes h: "pools_inv h"
  obtains c h' where "new_array h a = Some (VArray c, h')" "heap_ext h h'"
    "val_ok h' (VArray c)" "arr_of h' (VArray c) = Some a" "c \<notin> live (array_pool h)"
proof -
  obtain c p where "pool_new (array_pool h) a = Some (c, p)" "pool_ext (array_pool h) p"
    "c \<notin> live (array_pool h)" "c \<in> live p" "pool_read p c = Some a"
    by (rule pool_new_ok [OF pools_invD(2) [OF h], of a]) (rule that)
  then show ?thesis
    using that heap_ext_grown(2) [OF h, of p] by (simp add: new_array_def heap_reads)
qed

lemma new_dict_ok:
  assumes h: "pools_inv h"
  obtains c h' where "new_dict h d = Some (VDict c, h')" "heap_ext h h'"
    "val_ok h' (VDict c)" "dict_of h' (VDict c) = Some d" "c \<notin> live (dict_pool h)"
proof -
  obtain c p where "pool_new (dict_pool h) d = Some (c, p)" "pool_ext (dict_pool h) p"
    "c \<notin> live (dict_pool h)" "c \<in> live p" "pool_read p c = Some d"
    by (rule pool_new_ok [OF pools_invD(3) [OF h], of d]) (rule that)
  then show ?thesis
    using that heap_ext_grown(3) [OF h, of p] by (simp add: new_dict_def heap_reads)
qed

lemma aer_int_ok:
  assumes h: "pools_inv h"
  obtains v h' where "aer_int h n = Some (v, h')" "heap_ext h h'"
    "val_ok h' v" "vtype v = TYPE_INTEGER" "aer_as_int_v h' v = Some n"
proof (cases "AER_INT47_MIN \<le> n \<and> n \<le> AER_INT47_MAX")
  case True
  then show ?thesis
    using that [of "VInt n" h] h by (simp add: aer_int_def aer_as_int_v_def heap_ext_refl)
next
  case False
  obtain c p where "pool_new (long_pool h) n = Some (c, p)" "pool_ext (long_pool h) p"
    "c \<notin> live (long_pool h)" "c \<in> live p" "pool_read p c = Some n"
    by (rule pool_new_ok [OF pools_invD(6) [OF h], of n]) (rule that)
  then show ?thesis
    using that [of "VBig c" "(count_alloc h)\<lparr>long_pool := p\<rparr>"] heap_ext_grown(4) [OF h, of p] False
    by (auto simp: aer_int_def aer_as_int_v_def)
qed

end
