(* ===== verification/Numerals.thy ===== *)
theory Numerals
  imports Strto
begin

text \<open>
  Printing and parsing decimal integers are inverse: \<^verbatim>\<open>strtoll\<close> reads back what \<^verbatim>\<open>%lld\<close> printed.
\<close>

lemma char_code_char_of [simp]: "n < 256 \<Longrightarrow> char_code (char_of n) = n"
  by (simp add: char_code_def)

lemma char_code_less: "char_code c < 256"
  using nat_of_char_less_256 [of c] by (simp add: char_code_def)

lemma char_code_inj: "char_code a = char_code b \<longleftrightarrow> a = b"
  by (simp add: char_code_def)

lemma digit_char_facts:
  assumes "n < 10"
  shows "char_code (digit_char n) = 48 + n" "c_isdigit (digit_char n)" "digit_val (digit_char n) = n"
  using assms by (simp_all add: digit_char_def c_isdigit_def digit_val_def)

lemma c_isdigit_chars:
  assumes "c_isdigit c"
  shows "c \<noteq> CHR 0x00" "c \<noteq> CHR ''-''" "c \<noteq> CHR ''+''" "\<not> c_isspace c" "c \<noteq> CHR ''.''"
  using assms by (auto simp: c_isdigit_def char_code_def c_isspace_def)

lemma digit_val_digit: "c_isdigit c \<Longrightarrow> digit_val c < 10"
  by (auto simp: digit_val_def c_isdigit_def)

lemma show_nat_digits: "\<forall>c \<in> set (show_nat n). c_isdigit c"
  by (induction n rule: show_nat.induct) (subst show_nat.simps, auto simp: digit_char_facts)

lemma show_nat_ne [simp]: "show_nat n \<noteq> []"
  by (subst show_nat.simps) simp

lemma numeral_val_append:
  "numeral_val b (s @ [c]) = numeral_val b s * b + digit_val c"
  by (simp add: numeral_val_def)

lemma numeral_val_show [simp]: "numeral_val 10 (show_nat n) = n"
proof (induction n rule: show_nat.induct)
  case (1 n)
  show ?case
  proof (cases "n < 10")
    case True
    then show ?thesis by (subst show_nat.simps) (simp add: numeral_val_def digit_char_facts)
  next
    case False
    then show ?thesis
      using 1 by (subst show_nat.simps) (simp add: numeral_val_append digit_char_facts)
  qed
qed

lemma digits_all:
  assumes "\<forall>c \<in> set s. c_isdigit c"
  shows "digits 10 s = s"
  using assms by (auto simp: digits_def takeWhile_eq_all_conv digit_val_digit)

lemma nul_free_digits: "\<forall>c \<in> set s. c_isdigit c \<Longrightarrow> nul_free s"
  by (auto simp: nul_free_def c_isdigit_def char_code_def)

lemma hd_digit: "\<forall>c \<in> set s. c_isdigit c \<Longrightarrow> s \<noteq> [] \<Longrightarrow> c_isdigit (hd s)"
  by simp

lemma sign_of_digits:
  assumes "\<forall>c \<in> set s. c_isdigit c" "s \<noteq> []"
  shows "sign_of s = (False, 0)" "sign_of (CHR ''-'' # s) = (True, 1)"
proof -
  obtain c t where s: "s = c # t" using assms(2) by (cases s) auto
  then show "sign_of s = (False, 0)"
    using assms(1) c_isdigit_chars [of c] by (simp add: sign_of_def)
  show "sign_of (CHR ''-'' # s) = (True, 1)" by (simp add: sign_of_def c_isspace_def)
qed

lemma saturate_id: "in_i64 n \<Longrightarrow> saturate n = n"
  by (simp add: saturate_def in_i64_def)

text \<open>The text of an integer: its characters, length and value.\<close>

lemma show_int_nul_free: "nul_free (show_int n)"
  using nul_free_digits [OF show_nat_digits] by (auto simp: show_int_def nul_free_def)

theorem strtoll_show_int:
  assumes "in_i64 n"
  shows "strtoll 10 (show_int n) = (n, length (show_int n))"
proof (cases "n < 0")
  case True
  let ?d = "show_nat (nat (- n))"
  have d: "\<forall>c \<in> set ?d. c_isdigit c" by (rule show_nat_digits)
  have "show_int n = CHR ''-'' # ?d" using True by (simp add: show_int_def)
  moreover have "saturate (- int (numeral_val 10 ?d)) = n" using True saturate_id [OF assms] by simp
  ultimately show ?thesis
    using show_int_nul_free [of n] sign_of_digits(2) [OF d] digits_all [OF d]
    by (simp add: strtoll_def)
next
  case False
  let ?d = "show_nat (nat n)"
  have d: "\<forall>c \<in> set ?d. c_isdigit c" by (rule show_nat_digits)
  have "show_int n = ?d" using False by (simp add: show_int_def)
  moreover have "saturate (int (numeral_val 10 ?d)) = n" using False saturate_id [OF assms] by simp
  ultimately show ?thesis
    using show_int_nul_free [of n] sign_of_digits(1) [OF d] digits_all [OF d]
    by (simp add: strtoll_def)
qed

lemma atoll_show_int: "in_i64 n \<Longrightarrow> atoll (show_int n) = n"
  by (simp add: atoll_def strtoll_show_int)

lemma show_nat_length: "n < 10 ^ Suc k \<Longrightarrow> length (show_nat n) \<le> Suc k"
proof (induction k arbitrary: n)
  case 0
  then show ?case by (subst show_nat.simps) simp
next
  case (Suc k)
  have "length (show_nat (n div 10)) \<le> Suc k" if "\<not> n < 10"
    using Suc.IH [of "n div 10"] Suc.prems by (simp add: div_less_iff_less_mult mult.commute)
  then show ?case by (subst show_nat.simps) simp
qed

lemma show_int_length: "in_i64 n \<Longrightarrow> length (show_int n) \<le> 20"
proof -
  assume "in_i64 n"
  then have "nat \<bar>n\<bar> < 10 ^ Suc 18" unfolding in_i64_def by simp arith
  from show_nat_length [OF this] show ?thesis by (auto simp: show_int_def split: if_splits)
qed

end
