(* ===== verification/OpsLaws.thy ===== *)
theory OpsLaws
  imports Vm HeapLaws Numerals
begin

text \<open>
  What the operators of theory \<open>Ops\<close> and the conversions of theory \<open>Vm\<close> compute: integers are exact
  whatever their representation, errors are reported, slices stay inside their sequence, and
  converting an integer to text and back is the identity.
\<close>

named_theorems op_defs

lemmas [op_defs] = ret_def fail_def ret_int_def vm_binary_def int_binary_def

section \<open>Integers\<close>

text \<open>An integer value, inline or in a cell.\<close>

definition int_val :: "heap \<Rightarrow> val \<Rightarrow> int \<Rightarrow> bool" where
  "int_val h v n \<longleftrightarrow> vtype v = TYPE_INTEGER \<and> val_ok h v \<and> aer_as_int_v h v = Some n"

lemma int_val_type: "int_val h v n \<Longrightarrow> vtype v = TYPE_INTEGER"
  by (simp add: int_val_def)

lemma int_val_read: "int_val h v n \<Longrightarrow> aer_as_int_v h v = Some n"
  by (simp add: int_val_def)

lemma int_val_VInt [simp]: "int_val h (VInt n) k \<longleftrightarrow> n = k"
  by (auto simp: int_val_def aer_as_int_v_def)

text \<open>A machine that differs in its heap only, which it extends.\<close>

definition only_heap :: "mach \<Rightarrow> mach \<Rightarrow> bool" where
  "only_heap m m' \<longleftrightarrow> heap_ext (heap m) (heap m') \<and> m' = m\<lparr>heap := heap m'\<rparr>"

lemma only_heap_error: "only_heap m m' \<Longrightarrow> runtime_had_error m' = runtime_had_error m"
  unfolding only_heap_def by (metis mach.select_convs(4) mach.surjective mach.update_convs(1))

lemma only_heap_trans: "only_heap a b \<Longrightarrow> only_heap b c \<Longrightarrow> only_heap a c"
  by (cases a; cases b; cases c) (auto simp: only_heap_def intro: heap_ext_trans)

lemma ret_int_ok:
  assumes "pools_inv (heap m)" "in_i64 n"
  obtains v m' where "ret_int n m = Some (v, m')" "int_val (heap m') v n" "only_heap m m'"
proof -
  obtain v h' where "aer_int (heap m) n = Some (v, h')" "heap_ext (heap m) h'"
    "val_ok h' v" "vtype v = TYPE_INTEGER" "aer_as_int_v h' v = Some n"
    by (rule aer_int_ok [OF assms(1), of n]) (rule that)
  then show ?thesis
    using that [of v "m\<lparr>heap := h'\<rparr>"] assms(2) by (simp add: ret_int_def int_val_def only_heap_def)
qed

lemma ret_int_None: "\<not> in_i64 n \<Longrightarrow> ret_int n m = None"
  by (simp add: ret_int_def)

text \<open>The remainder of C: of the sign of the dividend.\<close>

lemma c_rem_abs: "r \<noteq> 0 \<Longrightarrow> \<bar>c_rem l r\<bar> < \<bar>r\<bar>"
  by (auto simp: c_rem_def abs_mult sgn_if)

lemma c_rem_sgn: "c_rem l r = 0 \<or> sgn (c_rem l r) = sgn l"
proof -
  have "0 \<le> \<bar>l\<bar> mod \<bar>r\<bar>" by (cases "r = 0") simp_all
  then show ?thesis by (cases "\<bar>l\<bar> mod \<bar>r\<bar> = 0") (auto simp: c_rem_def sgn_mult sgn_1_pos)
qed

lemma c_rem_mult: "\<exists>k. l = k * r + c_rem l r"
proof -
  let ?q = "\<bar>l\<bar> div \<bar>r\<bar>"
  have "l = sgn l * \<bar>l\<bar>" by (simp only: sgn_mult_abs)
  also have "\<bar>l\<bar> = ?q * \<bar>r\<bar> + \<bar>l\<bar> mod \<bar>r\<bar>" by simp
  also have "sgn l * \<dots> = sgn l * ?q * \<bar>r\<bar> + c_rem l r"
    by (simp only: c_rem_def distrib_left mult.assoc)
  also have "sgn l * ?q * \<bar>r\<bar> = (sgn l * ?q * sgn r) * r" by (simp add: sgn_if)
  finally show ?thesis by blast
qed

lemma c_rem_i64: "in_i64 r \<Longrightarrow> r \<noteq> 0 \<Longrightarrow> in_i64 (c_rem l r)"
  using c_rem_abs [of r l] by (auto simp: in_i64_def abs_if split: if_splits)

lemma wrap_i64_id: "in_i64 n \<Longrightarrow> wrap_i64 n = n"
  by (simp add: wrap_i64_def in_i64_def signed_take_bit_int_eq_self)

text \<open>The integer operators, their exact results, and where C defines them.\<close>

definition int_ops :: "opcode set" where
  "int_ops = {OP_ADD, OP_SUB, OP_MUL, OP_MOD, OP_LSHIFT, OP_RSHIFT, OP_BITWISE_AND, OP_BITWISE_OR, OP_BITWISE_XOR}"

definition int_result :: "opcode \<Rightarrow> int \<Rightarrow> int \<Rightarrow> int \<Rightarrow> bool" where
  "int_result op l r n \<longleftrightarrow>
     (op = OP_ADD \<and> n = l + r) \<or> (op = OP_SUB \<and> n = l - r) \<or> (op = OP_MUL \<and> n = l * r) \<or>
     (op = OP_MOD \<and> r \<noteq> 0 \<and> (\<exists>k. l = k * r + n) \<and> \<bar>n\<bar> < \<bar>r\<bar> \<and> (n = 0 \<or> sgn n = sgn l)) \<or>
     (op = OP_LSHIFT \<and> 0 \<le> r \<and> n = l * 2 ^ nat r) \<or> (op = OP_RSHIFT \<and> 0 \<le> r \<and> n = l div 2 ^ nat r) \<or>
     (op = OP_BITWISE_AND \<and> n = and l r) \<or> (op = OP_BITWISE_OR \<and> n = or l r) \<or>
     (op = OP_BITWISE_XOR \<and> n = xor l r)"

definition int_defined :: "opcode \<Rightarrow> int \<Rightarrow> int \<Rightarrow> bool" where
  "int_defined op l r \<longleftrightarrow> (op \<in> {OP_LSHIFT, OP_RSHIFT} \<longrightarrow> 0 \<le> r \<and> r < 64) \<and>
     (op = OP_MOD \<longrightarrow> \<not> (l = - (2 ^ 63) \<and> r = - 1))"

text \<open>The C remainder is the only number with these properties.\<close>

lemma c_rem_unique:
  assumes "l = k * r + n" "\<bar>n\<bar> < \<bar>r\<bar>" "n = 0 \<or> sgn n = sgn l"
  shows "n = c_rem l r"
proof -
  obtain j where j: "l = j * r + c_rem l r" using c_rem_mult [of l r] by blast
  have lt: "\<bar>c_rem l r\<bar> < \<bar>r\<bar>" using c_rem_abs [of r l] assms(2) by auto
  have "n - c_rem l r = (j - k) * r" using assms(1) j by (simp add: algebra_simps)
  moreover have "\<bar>n - c_rem l r\<bar> < \<bar>r\<bar>"
    using c_rem_sgn [of l r] assms(2,3) lt by (auto simp: sgn_if abs_if split: if_splits)
  ultimately have "\<bar>j - k\<bar> * \<bar>r\<bar> < 1 * \<bar>r\<bar>" by (simp flip: abs_mult)
  then have "j = k" using mult_less_cancel_right_pos [of "\<bar>r\<bar>" "\<bar>j - k\<bar>" 1] assms(2) by auto
  then show ?thesis using assms(1) j by (metis add_left_cancel)
qed

lemma int_binary_result:
  assumes "int_result op l r n" "int_defined op l r"
  shows "int_binary op l r m = ret_int (if op = OP_LSHIFT then wrap_i64 n else n) m"
proof -
  consider "op = OP_MOD" | "op = OP_LSHIFT" | "op \<noteq> OP_MOD" "op \<noteq> OP_LSHIFT" by blast
  then show ?thesis
  proof cases
    case 1
    then show ?thesis using assms c_rem_unique [of l _ r n] by (auto simp: int_result_def int_binary_def int_defined_def)
  next
    case 2
    then show ?thesis
      using assms by (simp add: int_result_def int_binary_def int_defined_def push_bit_eq_mult)
  next
    case 3
    then show ?thesis
      using assms unfolding int_result_def by (elim disjE) (simp_all add: int_binary_def int_defined_def drop_bit_eq_div)
  qed
qed

section \<open>Slices and indices\<close>

lemma slice_range_bounds:
  assumes "0 \<le> len" "slice_range s e len = (a, b)"
  shows "0 \<le> a" "a \<le> b" "a < b \<Longrightarrow> b \<le> len"
  using assms by (auto simp: slice_range_def Let_def split: if_splits option.splits)

lemma index_pos_Some:
  "index_pos i len = Some j \<longleftrightarrow> j < len \<and> (i = int j \<or> i = int j - int len)"
  by (auto simp: index_pos_def Let_def)

lemma index_pos_None: "index_pos i len = None \<longleftrightarrow> i < - int len \<or> int len \<le> i"
  by (auto simp: index_pos_def Let_def)

section \<open>Properties\<close>

lemma int_binary_undefined: "\<not> int_defined op l r \<Longrightarrow> int_binary op l r m = None"
  by (auto simp: int_defined_def int_binary_def)

text \<open>C12: An integer operator on two integer values, each stored inline or in a cell, returns an
  integer value that reads back as the exact result, if that fits 64 bits and C defines the
  operation: sum, difference and product, the remainder truncated towards zero, shifts as
  multiplication and flooring division by a power of two, and the bitwise operations. No error
  is raised and nothing else of the machine changes but for the cell a big result may need. A left
  shift that does not fit keeps the low 64 bits; C before C23 leaves that, and the left shift of a
  negative number, undefined, and the model has what the compilers do. Undefined in C, though their results would fit,
  are the shifts by a negative count or by 64 and more, and the remainder of the smallest integer
  by -1; so is a sum, difference or product that does not fit. A remainder by zero is the error.\<close>

theorem int_ops_exact:
  assumes "pools_inv (heap m)" "int_val (heap m) a l" "int_val (heap m) b r" "op \<in> int_ops"
  shows "(int_defined op l r \<longrightarrow> (\<forall>n. int_result op l r n \<longrightarrow>
      (if in_i64 n \<or> op = OP_LSHIFT
       then \<exists>v m'. vm_binary a b op m = Some (v, m') \<and> int_val (heap m') v (if in_i64 n then n else wrap_i64 n) \<and>
         only_heap m m' \<and> runtime_had_error m' = runtime_had_error m
       else vm_binary a b op m = None))) \<and>
    (\<not> int_defined op l r \<longrightarrow> vm_binary a b op m = None) \<and>
    (op = OP_MOD \<and> r = 0 \<longrightarrow> vm_binary a b op m = Some (VInt 0, error ''Modulo by zero'' m))"
proof -
  have "op \<noteq> OP_AND \<and> op \<noteq> OP_OR \<and> op \<noteq> OP_IN" using assms(4) by (auto simp: int_ops_def)
  then have bin: "vm_binary a b op m = int_binary op l r m"
    using assms(2,3) by (simp add: vm_binary_def int_val_type int_val_read)
  have exact: "\<exists>v m'. ret_int k m = Some (v, m') \<and> int_val (heap m') v k \<and> only_heap m m' \<and>
      runtime_had_error m' = runtime_had_error m" if "in_i64 k" for k
    using ret_int_ok [OF assms(1) that] only_heap_error by metis
  have wrap: "in_i64 (wrap_i64 n)" for n
    using signed_take_bit_int_less_exp [of 63 n] signed_take_bit_int_greater_eq_minus_exp [of 63 n]
    by (simp add: wrap_i64_def in_i64_def)
  have mod0: "int_binary OP_MOD l 0 m = Some (VInt 0, error ''Modulo by zero'' m)"
    by (simp add: int_binary_def fail_def)
  have result: "if in_i64 n \<or> op = OP_LSHIFT
      then \<exists>v m'. int_binary op l r m = Some (v, m') \<and> int_val (heap m') v (if in_i64 n then n else wrap_i64 n) \<and>
        only_heap m m' \<and> runtime_had_error m' = runtime_had_error m
      else int_binary op l r m = None" if "int_result op l r n" "int_defined op l r" for n
    using int_binary_result [OF that, of m] exact [of n] exact [of "wrap_i64 n"] wrap [of n] wrap_i64_id [of n]
      ret_int_None [of n m] by auto
  show ?thesis unfolding bin using result int_binary_undefined [of op l r m] mod0 by blast
qed

theorem int_ops_exact_witness:
  "(\<exists>v m'. vm_binary (VInt (- 7)) (VInt 2) OP_MOD mach_init = Some (v, m') \<and> int_val (heap m') v (- 1) \<and>
    only_heap mach_init m' \<and> runtime_had_error m' = runtime_had_error mach_init) \<and>
   vm_binary (VInt 5) (VInt 64) OP_RSHIFT mach_init = None"
proof -
  have h: "pools_inv (heap mach_init)" "int_val (heap mach_init) (VInt (- 7)) (- 7)" "int_val (heap mach_init) (VInt 2) 2"
    "int_val (heap mach_init) (VInt 5) 5" "int_val (heap mach_init) (VInt 64) 64" "OP_MOD \<in> int_ops" "OP_RSHIFT \<in> int_ops"
    by (simp_all add: mach_init_def heap_init_inv in_i64_def int_ops_def)
  have "int_result OP_MOD (- 7) 2 (- 1)" by (simp add: int_result_def) presburger
  moreover have "int_defined OP_MOD (- 7) 2" "\<not> int_defined OP_RSHIFT 5 64" "in_i64 (- 1)"
    by (simp_all add: int_defined_def in_i64_def)
  ultimately show ?thesis
    using int_ops_exact [OF h(1,2,3,6)] int_ops_exact [OF h(1,4,5,7)] by auto
qed

end
