(* ===== verification/Stdlib.thy ===== *)
theory Stdlib
  imports Vm
begin

text \<open>
  The native modules \<open>math\<close>, \<open>random\<close>, \<open>string\<close> and \<open>time\<close> (\<^verbatim>\<open>source/core/aer_stdlib.c\<close>). A
  function is found by name and argument count, takes its arguments off the stack and leaves
  one result. What the C library does outside the language (libm, \<^verbatim>\<open>rand\<close>, the order
  \<^verbatim>\<open>qsort\<close> leaves equal elements in, the clock, \<^verbatim>\<open>strftime\<close> with the local time zone) and the
  functions a host registers are the fields of a \<open>world\<close>.
\<close>

record world =
  libm :: "string \<Rightarrow> u64 \<Rightarrow> u64"
  libm_pow :: "u64 \<Rightarrow> u64 \<Rightarrow> u64"
  c_rand :: "nat \<Rightarrow> nat \<times> nat"
  c_srand :: "nat \<Rightarrow> nat"
  rand_max :: nat
  c_qsort :: "(val \<Rightarrow> val \<Rightarrow> int) \<Rightarrow> val list \<Rightarrow> val list"
  clock_realtime :: "nat \<Rightarrow> int \<times> int"
  c_strftime :: "string \<Rightarrow> int \<Rightarrow> string"
  host_functions :: "(string \<times> string) list"
  host_fn :: "nat \<Rightarrow> val list \<Rightarrow> mach \<Rightarrow> (val \<times> mach) option"

text \<open>A world without host functions, for the examples.\<close>

definition demo_world :: world where
  "demo_world = \<lparr>libm = (\<lambda>_ x. x), libm_pow = (\<lambda>x _. x), c_rand = (\<lambda>s. (s, s + 1)), c_srand = (\<lambda>s. s),
     rand_max = 32767, c_qsort = (\<lambda>_ xs. xs), clock_realtime = (\<lambda>_. (0, 0)), c_strftime = (\<lambda>f _. f),
     host_functions = [], host_fn = (\<lambda>_ _ _. None)\<rparr>"

definition aer_stdlib_is_native_module :: "string \<Rightarrow> bool" where
  "aer_stdlib_is_native_module name \<longleftrightarrow>
     name \<in> {''math'', ''random'', ''string'', ''time'', ''json''}"

section \<open>Results\<close>

text \<open>\<^verbatim>\<open>stdlib_push\<close>: unlike the push of the loop it does not end the run.\<close>

definition stdlib_push :: "val \<Rightarrow> mach \<Rightarrow> mach" where
  "stdlib_push v m =
     (if stack_top (vm m) \<ge> VM_STACK_MAX then error ''Stack overflow'' m
      else set_stack (v # stack (vm m)) m)"

type_synonym native = "val list \<Rightarrow> mach \<Rightarrow> (val \<times> mach) option"

text \<open>
  A call of a native function: \<open>None\<close> when the module has no such function, which is when
  the C function returns false.
\<close>

definition native_call :: "native option \<Rightarrow> nat \<Rightarrow> mach \<Rightarrow> mach option option" where
  "native_call f n m =
     (case f of
        None \<Rightarrow> None
      | Some f \<Rightarrow>
          Some (let (args, m) = pops n m
                in do { (v, m) \<leftarrow> f args m; Some (stdlib_push v m) }))"

definition ret_string :: "string \<Rightarrow> mach \<Rightarrow> (val \<times> mach) option" where
  "ret_string s m = do { (v, h) \<leftarrow> aer_make_string (heap m) s; Some (v, set_heap h m) }"

section \<open>math\<close>

definition as_double :: "heap \<Rightarrow> val \<Rightarrow> u64 option option" where
  "as_double h v =
     (case v of
        VReal d \<Rightarrow> Some (Some d)
      | VInt n \<Rightarrow> Some (Some (f_of_int n))
      | VBig c \<Rightarrow> map_option (\<lambda>n. Some (f_of_int n)) (pool_read (long_pool h) c)
      | _ \<Rightarrow> Some None)"

definition on_real :: "string \<Rightarrow> (u64 \<Rightarrow> mach \<Rightarrow> (val \<times> mach) option) \<Rightarrow> native" where
  "on_real name f args m =
     do { x \<leftarrow> as_double (heap m) (args ! 0);
          case x of
            None \<Rightarrow> fail (name @ ''() requires a number'') VNull m
          | Some d \<Rightarrow> f d m }"

definition on_reals :: "string \<Rightarrow> (u64 \<Rightarrow> u64 \<Rightarrow> mach \<Rightarrow> (val \<times> mach) option) \<Rightarrow> native" where
  "on_reals name f args m =
     do { x \<leftarrow> as_double (heap m) (args ! 0); y \<leftarrow> as_double (heap m) (args ! 1);
          case (x, y) of
            (Some d, Some e) \<Rightarrow> f d e m
          | _ \<Rightarrow> fail (name @ ''() requires two numbers'') VNull m }"

definition f_ceil :: "u64 \<Rightarrow> u64" where
  "f_ceil d = f_neg (f_floor (f_neg d))"

definition math_log :: "world \<Rightarrow> string \<Rightarrow> native" where
  "math_log w name =
     on_real name (\<lambda>d m. if f_le d 0 then fail (name @ ''() requires a positive number'') VNull m
                         else ret (real_val (libm w name d)) m)"

definition math_abs :: native where
  "math_abs args m =
     (case args ! 0 of
        VReal d \<Rightarrow> ret (real_val (if f_less d 0 then f_neg d else d)) m
      | v \<Rightarrow> if vtype v = TYPE_INTEGER
             then do { n \<leftarrow> aer_as_int_v (heap m) v; ret_int (if n < 0 then - n else n) m }
             else fail ''abs() requires a number'' VNull m)"

text \<open>\<^verbatim>\<open>memcmp\<close> of the common prefix, then the lengths.\<close>

fun str_cmp :: "string \<Rightarrow> string \<Rightarrow> int" where
  "str_cmp [] [] = 0"
| "str_cmp [] (_ # _) = - 1"
| "str_cmp (_ # _) [] = 1"
| "str_cmp (a # s) (b # t) =
     (if char_code a < char_code b then - 1 else if char_code b < char_code a then 1 else str_cmp s t)"

text \<open>Only the sign of a comparison reaches \<^verbatim>\<open>qsort\<close>.\<close>

definition sort_cmp :: "heap \<Rightarrow> val \<Rightarrow> val \<Rightarrow> int" where
  "sort_cmp h a b =
     (case (str_of h a, str_of h b) of
        (Some s, Some t) \<Rightarrow> str_cmp s t
      | _ \<Rightarrow>
          (case (as_double h a, as_double h b) of
             (Some (Some x), Some (Some y)) \<Rightarrow> if f_less x y then - 1 else if f_less y x then 1 else 0
           | _ \<Rightarrow> 0))"

definition sort_readable :: "heap \<Rightarrow> val \<Rightarrow> bool" where
  "sort_readable h v \<longleftrightarrow> str_of h v \<noteq> None \<or> as_double h v \<noteq> None"

definition is_number :: "val \<Rightarrow> bool" where
  "is_number v \<longleftrightarrow> vtype v = TYPE_INTEGER \<or> vtype v = TYPE_REAL"

definition math_sort :: "world \<Rightarrow> native" where
  "math_sort w args m =
     (case args ! 0 of
        VArray c \<Rightarrow>
          do { a \<leftarrow> pool_read (array_pool (heap m)) c;
               if shape a \<noteq> None then fail ''sort() cannot sort a struct instance'' VNull m
               else if items a \<noteq> [] \<and> \<not> list_all is_number (items a) \<and>
                       \<not> list_all (\<lambda>v. vtype v = TYPE_STRING) (items a)
               then fail ''sort() requires all elements to be numbers, or all to be strings'' VNull m
               else if \<not> list_all (sort_readable (heap m)) (items a) then None
               else do { m \<leftarrow> write_array c (a\<lparr>items := c_qsort w (sort_cmp (heap m)) (items a)\<rparr>) m;
                         ret (VArray c) m } }
      | _ \<Rightarrow> fail ''sort() requires an array'' VNull m)"

definition math_fn :: "world \<Rightarrow> string \<Rightarrow> nat \<Rightarrow> native option" where
  "math_fn w name n =
     (if n = 1 then
        (if name = ''sqrt'' \<or> name = ''sin'' \<or> name = ''cos''
         then Some (on_real name (\<lambda>d. ret (real_val (libm w name d))))
         else if name = ''floor'' then Some (on_real name (\<lambda>d m. do { k \<leftarrow> f_to_int (f_floor d); ret_int k m }))
         else if name = ''ceil'' then Some (on_real name (\<lambda>d m. do { k \<leftarrow> f_to_int (f_ceil d); ret_int k m }))
         else if name = ''abs'' then Some math_abs
         else if name = ''log'' \<or> name = ''log2'' \<or> name = ''log10'' then Some (math_log w name)
         else if name = ''sort'' then Some (math_sort w)
         else None)
      else if n = 2 then
        (if name = ''pow'' then Some (on_reals name (\<lambda>x y. ret (real_val (libm_pow w x y))))
         else if name = ''min'' then Some (\<lambda>args. on_reals name (\<lambda>x y. ret (args ! (if f_le x y then 0 else 1))) args)
         else if name = ''max'' then Some (\<lambda>args. on_reals name (\<lambda>x y. ret (args ! (if f_le y x then 0 else 1))) args)
         else None)
      else if n = 0 \<and> name = ''pi'' then Some (\<lambda>_. ret (VReal 0x400921FB54442D18))
      else None)"

definition aer_math_call :: "world \<Rightarrow> string \<Rightarrow> nat \<Rightarrow> mach \<Rightarrow> mach option option" where
  "aer_math_call w name n = native_call (math_fn w name n) n"

section \<open>random\<close>

definition next_rand :: "world \<Rightarrow> mach \<Rightarrow> nat \<times> mach" where
  "next_rand w m = (let (r, s) = c_rand w (rng m) in (r, m\<lparr>rng := s\<rparr>))"

definition random_random :: "world \<Rightarrow> native" where
  "random_random w args m =
     (let (r, m) = next_rand w m
      in ret (real_val (f_div (f_of_int (int r)) (f_add (f_of_int (int (rand_max w))) (f_of_int 1)))) m)"

text \<open>The span overflows, which is undefined, for bounds more than \<open>2 ^ 63 - 2\<close> apart.\<close>

definition random_randint :: "world \<Rightarrow> native" where
  "random_randint w args m =
     (if vtype (args ! 0) \<noteq> TYPE_INTEGER \<or> vtype (args ! 1) \<noteq> TYPE_INTEGER
      then fail ''randint() requires two integers'' VNull m
      else do { lo \<leftarrow> aer_as_int_v (heap m) (args ! 0); hi \<leftarrow> aer_as_int_v (heap m) (args ! 1);
                if hi < lo then fail ''randint() requires min <= max'' VNull m
                else if \<not> in_i64 (hi - lo + 1) then None
                else let (r, m) = next_rand w m in ret_int (lo + int r mod (hi - lo + 1)) m })"

definition random_seed :: "world \<Rightarrow> native" where
  "random_seed w args m =
     (if vtype (args ! 0) \<noteq> TYPE_INTEGER then fail ''seed() requires an integer'' VNull m
      else do { n \<leftarrow> aer_as_int_v (heap m) (args ! 0);
                ret VNull (m\<lparr>rng := c_srand w (nat (n mod 2 ^ 32))\<rparr>) })"

definition random_fn :: "world \<Rightarrow> string \<Rightarrow> nat \<Rightarrow> native option" where
  "random_fn w name n =
     (if name = ''random'' \<and> n = 0 then Some (random_random w)
      else if name = ''randint'' \<and> n = 2 then Some (random_randint w)
      else if name = ''seed'' \<and> n = 1 then Some (random_seed w)
      else None)"

definition aer_random_call :: "world \<Rightarrow> string \<Rightarrow> nat \<Rightarrow> mach \<Rightarrow> mach option option" where
  "aer_random_call w name n = native_call (random_fn w name n) n"

section \<open>string\<close>

text \<open>The strings of all arguments, or the error of the function.\<close>

definition on_strings :: "string \<Rightarrow> (string list \<Rightarrow> mach \<Rightarrow> (val \<times> mach) option) \<Rightarrow> native" where
  "on_strings msg f args m =
     (if \<not> list_all (\<lambda>v. vtype v = TYPE_STRING) args then fail msg VNull m
      else do { ss \<leftarrow> those (map (str_of (heap m)) args); f ss m })"

definition trim :: "string \<Rightarrow> string" where
  "trim s = rev (dropWhile c_isspace (rev (dropWhile c_isspace s)))"

text \<open>\<open>t\<close> occurs in \<open>s\<close> at position \<open>i\<close>.\<close>

definition sub_at :: "string \<Rightarrow> nat \<Rightarrow> string \<Rightarrow> bool" where
  "sub_at s i t \<longleftrightarrow> i + length t \<le> length s \<and> take (length t) (drop i s) = t"

definition contains :: "string \<Rightarrow> string \<Rightarrow> bool" where
  "contains s t \<longleftrightarrow> t = [] \<or> list_ex (\<lambda>i. sub_at s i t) [0..<length s + 1 - length t]"

definition segment :: "string \<Rightarrow> nat \<Rightarrow> nat \<Rightarrow> string" where
  "segment s a b = take (b - a) (drop a s)"

text \<open>The loop of \<open>string.split\<close>: the current segment starts at \<open>seg\<close>.\<close>

function split_loop :: "string \<Rightarrow> string \<Rightarrow> nat \<Rightarrow> nat \<Rightarrow> string list" where
  "split_loop s sep seg i =
     (if length s < i \<or> sep = [] then []
      else if i = length s then [segment s seg i]
      else if sub_at s i sep then segment s seg i # split_loop s sep (i + length sep) (i + length sep)
      else split_loop s sep seg (i + 1))"
  by pat_completeness auto
termination by (relation "measure (\<lambda>(s, sep, seg, i). length s + 1 - i)") (auto simp flip: length_greater_0_conv)

declare split_loop.simps [simp del]

definition split_string :: "string \<Rightarrow> string \<Rightarrow> string list" where
  "split_string s sep = split_loop s sep 0 0"

text \<open>Both passes of \<open>string.replace\<close> step over the matches the same way.\<close>

function replace_loop :: "string \<Rightarrow> string \<Rightarrow> string \<Rightarrow> nat \<Rightarrow> string" where
  "replace_loop s old new i =
     (if length s \<le> i \<or> old = [] then []
      else if sub_at s i old then new @ replace_loop s old new (i + length old)
      else s ! i # replace_loop s old new (i + 1))"
  by pat_completeness auto
termination by (relation "measure (\<lambda>(s, old, new, i). length s - i)") (auto simp flip: length_greater_0_conv)

declare replace_loop.simps [simp del]

definition replace_string :: "string \<Rightarrow> string \<Rightarrow> string \<Rightarrow> string" where
  "replace_string s old new = replace_loop s old new 0"

text \<open>
  A result is written to a buffer of \<^verbatim>\<open>total + 1\<close> bytes computed in 32 bits: when that wraps
  the write runs past the buffer.
\<close>

definition ret_sized :: "string \<Rightarrow> mach \<Rightarrow> (val \<times> mach) option" where
  "ret_sized s m = (if length s + 1 < 2 ^ 32 then ret_string s m else None)"

fun make_strings :: "string list \<Rightarrow> heap \<Rightarrow> (val list \<times> heap) option" where
  "make_strings [] h = Some ([], h)"
| "make_strings (s # ss) h =
     do { (v, h) \<leftarrow> aer_make_string h s; (vs, h) \<leftarrow> make_strings ss h; Some (v # vs, h) }"

text \<open>The array of \<open>string.split\<close> is allocated before its elements.\<close>

definition new_string_array :: "string list \<Rightarrow> mach \<Rightarrow> (val \<times> mach) option" where
  "new_string_array ss m =
     do { (v, h) \<leftarrow> new_array (heap m) \<lparr>items = [], shape = None\<rparr>;
          (vs, h) \<leftarrow> make_strings ss h;
          c \<leftarrow> (case v of VArray c \<Rightarrow> Some c | _ \<Rightarrow> None);
          m \<leftarrow> write_array c \<lparr>items = vs, shape = None\<rparr> (set_heap h m);
          ret v m }"

definition string_split :: native where
  "string_split = on_strings ''string.split() requires two strings''
     (\<lambda>ss m. if ss ! 1 = [] then fail ''string.split() separator cannot be empty'' VNull m
             else new_string_array (split_string (ss ! 0) (ss ! 1)) m)"

definition string_repeat :: native where
  "string_repeat args m =
     (if vtype (args ! 0) \<noteq> TYPE_STRING then fail ''string.repeat() requires a string'' VNull m
      else if vtype (args ! 1) \<noteq> TYPE_INTEGER then fail ''string.repeat() count must be an integer'' VNull m
      else do { n \<leftarrow> aer_as_int_v (heap m) (args ! 1);
                if n < 0 then fail ''string.repeat() count must not be negative'' VNull m
                else do { s \<leftarrow> str_of (heap m) (args ! 0);
                          if length s * nat n + 1 < 2 ^ 32
                          then ret_string (concat (replicate (nat n) s)) m else None } })"

definition string_replace :: native where
  "string_replace = on_strings ''string.replace() requires three strings''
     (\<lambda>ss m. if ss ! 1 = [] then fail ''string.replace() 'old' argument cannot be empty'' VNull m
             else ret_sized (replace_string (ss ! 0) (ss ! 1) (ss ! 2)) m)"

definition string_join :: native where
  "string_join args m =
     (case args ! 0 of
        VArray c \<Rightarrow>
          if vtype (args ! 1) \<noteq> TYPE_STRING then fail ''string.join() separator must be a string'' VNull m
          else do { a \<leftarrow> pool_read (array_pool (heap m)) c;
                    if \<not> list_all (\<lambda>v. vtype v = TYPE_STRING) (items a)
                    then fail ''string.join() requires an array of strings'' VNull m
                    else do { sep \<leftarrow> str_of (heap m) (args ! 1);
                              ss \<leftarrow> those (map (str_of (heap m)) (items a));
                              ret_sized (join sep ss) m } }
      | _ \<Rightarrow> fail ''string.join() requires an array'' VNull m)"

definition string_fn :: "string \<Rightarrow> nat \<Rightarrow> native option" where
  "string_fn name n =
     (if n = 1 then
        (if name = ''upper''
         then Some (on_strings ''string.upper() requires a string'' (\<lambda>ss. ret_string (map c_toupper (ss ! 0))))
         else if name = ''lower''
         then Some (on_strings ''string.lower() requires a string'' (\<lambda>ss. ret_string (map c_tolower (ss ! 0))))
         else if name = ''trim''
         then Some (on_strings ''string.trim() requires a string'' (\<lambda>ss. ret_string (trim (ss ! 0))))
         else None)
      else if n = 2 then
        (if name = ''contains''
         then Some (on_strings ''string.contains() requires two strings''
                      (\<lambda>ss. ret (VBool (contains (ss ! 0) (ss ! 1)))))
         else if name = ''split'' then Some string_split
         else if name = ''starts_with''
         then Some (on_strings ''string.starts_with() requires two strings''
                      (\<lambda>ss. ret (VBool (sub_at (ss ! 0) 0 (ss ! 1)))))
         else if name = ''ends_with''
         then Some (on_strings ''string.ends_with() requires two strings''
                      (\<lambda>ss. ret (VBool (length (ss ! 1) \<le> length (ss ! 0) \<and>
                                        sub_at (ss ! 0) (length (ss ! 0) - length (ss ! 1)) (ss ! 1)))))
         else if name = ''repeat'' then Some string_repeat
         else if name = ''join'' then Some string_join
         else None)
      else if n = 3 \<and> name = ''replace'' then Some string_replace
      else None)"

definition aer_string_call :: "string \<Rightarrow> nat \<Rightarrow> mach \<Rightarrow> mach option option" where
  "aer_string_call name n = native_call (string_fn name n) n"

section \<open>time\<close>

definition time_now :: "world \<Rightarrow> native" where
  "time_now w args m =
     (let (sec, nsec) = clock_realtime w (clock_reads m)
      in ret (real_val (f_add (f_of_int sec) (f_div (f_of_int nsec) (f_of_int 1000000000))))
           (m\<lparr>clock_reads := clock_reads m + 1\<rparr>))"

definition time_strftime :: "world \<Rightarrow> native" where
  "time_strftime w args m =
     (if vtype (args ! 1) \<noteq> TYPE_STRING then fail ''time.strftime() requires a format string'' VNull m
      else do { t \<leftarrow> as_double (heap m) (args ! 0);
                case t of
                  None \<Rightarrow> fail ''time.strftime() requires a numeric timestamp (e.g. from time.now())'' VNull m
                | Some d \<Rightarrow>
                    do { s \<leftarrow> str_of (heap m) (args ! 1);
                         if length s > 255
                         then fail ''time.strftime() format string too long (max 255 bytes)'' VNull m
                         else do { k \<leftarrow> f_to_int d; ret_string (c_strftime w (c_str s) k) m } } })"

definition time_fn :: "world \<Rightarrow> string \<Rightarrow> nat \<Rightarrow> native option" where
  "time_fn w name n =
     (if name = ''now'' \<and> n = 0 then Some (time_now w)
      else if name = ''strftime'' \<and> n = 2 then Some (time_strftime w)
      else None)"

definition aer_time_call :: "world \<Rightarrow> string \<Rightarrow> nat \<Rightarrow> mach \<Rightarrow> mach option option" where
  "aer_time_call w name n = native_call (time_fn w name n) n"

section \<open>Host functions (aer_host.c)\<close>

text \<open>
  The registered functions in the order of registration; their code is the host's. The seam
  to the public values is \<open>aer_val_to_public\<close> of theory \<open>ValueBox\<close>.
\<close>

definition MAX_HOST_FUNCTIONS :: nat where "MAX_HOST_FUNCTIONS = 64"

definition aer_register_function :: "string \<Rightarrow> string \<Rightarrow> (string \<times> string) list \<Rightarrow> bool \<times> (string \<times> string) list" where
  "aer_register_function module name fns =
     (if length fns \<ge> MAX_HOST_FUNCTIONS then (False, fns) else (True, fns @ [(c_str module, c_str name)]))"

definition aer_host_is_module :: "world \<Rightarrow> string \<Rightarrow> bool" where
  "aer_host_is_module w name \<longleftrightarrow> list_ex (\<lambda>(md, _). md = name) (host_functions w)"

definition find_host :: "world \<Rightarrow> string \<Rightarrow> string \<Rightarrow> nat option" where
  "find_host w module fn =
     find (\<lambda>i. host_functions w ! i = (module, fn)) [0..<length (host_functions w)]"

definition aer_host_call :: "world \<Rightarrow> string \<Rightarrow> string \<Rightarrow> nat \<Rightarrow> mach \<Rightarrow> mach option option" where
  "aer_host_call w module fn n m =
     (case find_host w module fn of
        None \<Rightarrow> None
      | Some i \<Rightarrow>
          Some (if stack_top (vm m) < n then Some (error ''Stack underflow'' m)
                else do { (v, m) \<leftarrow> host_fn w i (rev (take n (stack (vm m)))) m;
                          let m = set_stack (drop n (stack (vm m))) m;
                          if stack_top (vm m) \<ge> VM_STACK_MAX then Some (error ''Stack overflow'' m)
                          else Some (set_stack (v # stack (vm m)) m) }))"

end
