(* ===== verification/Json.thy ===== *)
theory Json
  imports Stdlib
begin

text \<open>
  The native module \<open>json\<close> (\<^verbatim>\<open>source/core/aer_json.c\<close>): the encoder, whose first argument bounds the
  depth of the recursion, and the recursive-descent decoder. The decoder works on the rest of
  the input instead of a position in it and threads the heap it builds values in; an error is
  the left summand. Its first argument is fuel; \<open>json_fuel\<close> is enough for every input.
\<close>

unbundle bit_operations_syntax

section \<open>Encoding\<close>

definition hex_digit :: "nat \<Rightarrow> char" where
  "hex_digit n = char_of (if n < 10 then 48 + n else 87 + n)"

definition BSL :: char where "BSL = CHR 0x5C"
definition DQ :: char where "DQ = CHR 0x22"

text \<open>One character of a string literal; control characters without a short form are \<^verbatim>\<open>\u00XX\<close>.\<close>

definition json_escape :: "char \<Rightarrow> string" where
  "json_escape c =
     (if c = DQ then [BSL, DQ]
      else if c = BSL then [BSL, BSL]
      else if c = CHR 0x0A then [BSL, CHR ''n'']
      else if c = CHR 0x0D then [BSL, CHR ''r'']
      else if c = CHR 0x09 then [BSL, CHR ''t'']
      else if c = CHR 0x08 then [BSL, CHR ''b'']
      else if c = CHR 0x0C then [BSL, CHR ''f'']
      else if char_code c < 0x20
      then [BSL, CHR ''u'', CHR ''0'', CHR ''0'', hex_digit (char_code c div 16), hex_digit (char_code c mod 16)]
      else [c])"

definition json_encode_string :: "string \<Rightarrow> string" where
  "json_encode_string s = DQ # concat (map json_escape s) @ [DQ]"

text \<open>The pieces of an array or object, up to the first one that fails.\<close>

fun enc_all :: "('a \<Rightarrow> string option option) \<Rightarrow> 'a list \<Rightarrow> string list option option" where
  "enc_all f [] = Some (Some [])"
| "enc_all f (x # xs) =
     do { r \<leftarrow> f x;
          case r of
            None \<Rightarrow> Some None
          | Some s \<Rightarrow> do { rs \<leftarrow> enc_all f xs; Some (map_option (\<lambda>ss. s # ss) rs) } }"

definition bracket :: "char \<Rightarrow> char \<Rightarrow> string list option \<Rightarrow> string option" where
  "bracket l r ss = map_option (\<lambda>ss. l # join '','' ss @ [r]) ss"

definition member :: "string \<Rightarrow> string option \<Rightarrow> string option" where
  "member k v = map_option (\<lambda>s. json_encode_string k @ CHR '':'' # s) v"

text \<open>The inner \<open>None\<close> is the failure on a function value.\<close>

fun json_encode_value :: "nat \<Rightarrow> mach \<Rightarrow> val \<Rightarrow> string option option" where
  "json_encode_value 0 m v = None"
| "json_encode_value (Suc n) m v =
     (case v of
        VNull \<Rightarrow> Some (Some ''null'')
      | VBool b \<Rightarrow> Some (Some (if b then ''true'' else ''false''))
      | VInt i \<Rightarrow> Some (Some (show_int i))
      | VBig c \<Rightarrow> map_option (\<lambda>i. Some (show_int i)) (pool_read (long_pool (heap m)) c)
      | VReal d \<Rightarrow> Some (Some (format_g d))
      | VString c \<Rightarrow> map_option (\<lambda>s. Some (json_encode_string s)) (pool_read (string_pool (heap m)) c)
      | VFunction _ \<Rightarrow> Some None
      | VArray c \<Rightarrow>
          do { a \<leftarrow> pool_read (array_pool (heap m)) c;
               case shape a of
                 None \<Rightarrow> map_option (bracket (CHR ''['') (CHR '']'')) (enc_all (json_encode_value n m) (items a))
               | Some s \<Rightarrow>
                   do { sh \<leftarrow> shape_at m s;
                        names \<leftarrow> those (map (\<lambda>f. do { k \<leftarrow> pool_at m f; str_of (heap m) k }) (field_names sh));
                        xs \<leftarrow> first_items (length (field_names sh)) (items a);
                        map_option (bracket (CHR ''{'') (CHR ''}''))
                          (enc_all (\<lambda>(k, x). map_option (member k) (json_encode_value n m x)) (zip names xs)) } }
      | VDict c \<Rightarrow>
          do { d \<leftarrow> pool_read (dict_pool (heap m)) c;
               map_option (bracket (CHR ''{'') (CHR ''}''))
                 (enc_all (\<lambda>e. map_option (member (entry_key e)) (json_encode_value n m (payload e)))
                    (ht_entries d)) })"

section \<open>Decoding strings and numbers\<close>

definition json_ws :: "char \<Rightarrow> bool" where
  "json_ws c \<longleftrightarrow> c \<in> {CHR '' '', CHR 0x09, CHR 0x0A, CHR 0x0D}"

definition json_skip_ws :: "string \<Rightarrow> string" where
  "json_skip_ws s = dropWhile json_ws s"

text \<open>\<^verbatim>\<open>(unsigned int)strtoul(hex, NULL, 16)\<close>, which takes blanks, a sign and a prefix too.\<close>

definition hex4 :: "string \<Rightarrow> nat" where
  "hex4 s = nat (fst (strtoll 16 s) mod 2 ^ 32)"

definition utf8 :: "nat \<Rightarrow> string" where
  "utf8 n =
     (if n < 0x80 then [char_of n]
      else if n < 0x800 then [char_of (0xC0 OR drop_bit 6 n), char_of (0x80 OR (n AND 0x3F))]
      else [char_of (0xE0 OR drop_bit 12 n), char_of (0x80 OR (drop_bit 6 n AND 0x3F)),
            char_of (0x80 OR (n AND 0x3F))])"

text \<open>The escapes of one character.\<close>

definition json_unescape :: "char \<Rightarrow> char option" where
  "json_unescape e =
     (if e = DQ \<or> e = BSL \<or> e = CHR ''/'' then Some e
      else if e = CHR ''n'' then Some (CHR 0x0A)
      else if e = CHR ''t'' then Some (CHR 0x09)
      else if e = CHR ''r'' then Some (CHR 0x0D)
      else if e = CHR ''b'' then Some (CHR 0x08)
      else if e = CHR ''f'' then Some (CHR 0x0C)
      else None)"

definition prepend :: "string \<Rightarrow> string + string \<times> string \<Rightarrow> string + string \<times> string" where
  "prepend s r = map_sum id (\<lambda>(t, rest). (s @ t, rest)) r"

text \<open>\<^verbatim>\<open>json_parse_string_raw\<close> after the opening quote: the string and the rest of the input.\<close>

function json_string_body :: "string \<Rightarrow> string + string \<times> string" where
  "json_string_body [] = Inl ''Unterminated string in JSON''"
| "json_string_body (c # r) =
     (if c = DQ then Inr ([], r)
      else if c \<noteq> BSL then prepend [c] (json_string_body r)
      else case r of
        [] \<Rightarrow> Inl ''Unterminated escape in JSON string''
      | e # t \<Rightarrow>
          if e = CHR ''u''
          then (if length t < 4 then Inl (''Invalid '' @ BSL # ''u escape in JSON string'')
                else prepend (utf8 (hex4 (take 4 t))) (json_string_body (drop 4 t)))
          else case json_unescape e of
            None \<Rightarrow> Inl ''Invalid escape sequence in JSON string''
          | Some x \<Rightarrow> prepend [x] (json_string_body t))"
  by pat_completeness auto
termination by (relation "measure length") auto

definition is_digit_at :: "string \<Rightarrow> nat \<Rightarrow> bool" where
  "is_digit_at s i \<longleftrightarrow> i < length s \<and> c_isdigit (s ! i)"

definition char_at :: "string \<Rightarrow> nat \<Rightarrow> char \<Rightarrow> bool" where
  "char_at s i c \<longleftrightarrow> i < length s \<and> s ! i = c"

text \<open>The end of the digits from \<open>i\<close> on.\<close>

definition past_digits :: "string \<Rightarrow> nat \<Rightarrow> nat" where
  "past_digits s i = i + length (takeWhile c_isdigit (drop i s))"

text \<open>The length of a number and whether it is a real; \<open>None\<close> when it is malformed.\<close>

definition json_number_span :: "string \<Rightarrow> (nat \<times> bool) option" where
  "json_number_span s =
     (let i = (if char_at s 0 (CHR ''-'') then 1 else 0)
      in if \<not> is_digit_at s i then None
         else let j = (if char_at s i (CHR ''0'') then i + 1 else past_digits s i);
                  frac = char_at s j (CHR ''.'')
              in if frac \<and> \<not> is_digit_at s (j + 1) then None
                 else let k = (if frac then past_digits s (j + 1) else j);
                          ex = char_at s k (CHR ''e'') \<or> char_at s k (CHR ''E'');
                          l = (if char_at s (k + 1) (CHR ''+'') \<or> char_at s (k + 1) (CHR ''-'') then k + 2 else k + 1)
                      in if ex \<and> \<not> is_digit_at s l then None
                         else Some (if ex then past_digits s l else k, frac \<or> ex))"

text \<open>
  A result of the decoder: the value and the rest of the input, or the first error; the heap
  as it is then.
\<close>

type_synonym json_result = "((string + val \<times> string) \<times> heap) option"

definition json_ok :: "val \<Rightarrow> string \<Rightarrow> heap \<Rightarrow> json_result" where
  "json_ok v r h = Some (Inr (v, r), h)"

definition json_err :: "string \<Rightarrow> heap \<Rightarrow> json_result" where
  "json_err msg h = Some (Inl msg, h)"

definition json_parse_string_raw :: "string \<Rightarrow> heap \<Rightarrow> json_result" where
  "json_parse_string_raw s h =
     (case json_string_body s of
        Inl msg \<Rightarrow> json_err msg h
      | Inr (t, r) \<Rightarrow> do { (v, h) \<leftarrow> aer_make_string h t; json_ok v r h })"

definition json_parse_number :: "string \<Rightarrow> heap \<Rightarrow> json_result" where
  "json_parse_number s h =
     (case json_number_span s of
        None \<Rightarrow> json_err ''Invalid number in JSON'' h
      | Some (n, is_real) \<Rightarrow>
          (let buf = take 63 (take n s)
           in if is_real then json_ok (real_val (fst (strtod buf))) (drop n s) h
              else do { (v, h) \<leftarrow> aer_int h (fst (strtoll 10 buf)); json_ok v (drop n s) h }))"

definition json_literal :: "string \<Rightarrow> val \<Rightarrow> string \<Rightarrow> heap \<Rightarrow> json_result" where
  "json_literal lit v s h =
     (if take (length lit) s = lit then json_ok v (drop (length lit) s) h
      else json_err ''Invalid literal in JSON'' h)"

section \<open>Decoding values\<close>

definition array_push :: "ptr \<Rightarrow> val \<Rightarrow> heap \<Rightarrow> heap option" where
  "array_push c v h =
     do { a \<leftarrow> pool_read (array_pool h) c;
          p \<leftarrow> pool_write (array_pool h) c (a\<lparr>items := items a @ [v]\<rparr>);
          Some (h\<lparr>array_pool := p\<rparr>) }"

definition dict_insert :: "ptr \<Rightarrow> string \<Rightarrow> val \<Rightarrow> heap \<Rightarrow> heap option" where
  "dict_insert c k v h =
     do { d \<leftarrow> pool_read (dict_pool h) c;
          d \<leftarrow> dictmap_put d k v;
          p \<leftarrow> pool_write (dict_pool h) c d;
          Some (h\<lparr>dict_pool := p\<rparr>) }"

definition new_array_cell :: "heap \<Rightarrow> (ptr \<times> heap) option" where
  "new_array_cell h =
     do { (c, p) \<leftarrow> pool_new (array_pool h) \<lparr>items = [], shape = None\<rparr>;
          Some (c, (count_alloc h)\<lparr>array_pool := p\<rparr>) }"

definition new_dict_cell :: "heap \<Rightarrow> (ptr \<times> heap) option" where
  "new_dict_cell h =
     do { (c, p) \<leftarrow> pool_new (dict_pool h) (ht_zero True);
          Some (c, (count_alloc h)\<lparr>dict_pool := p\<rparr>) }"

definition starts :: "char \<Rightarrow> string \<Rightarrow> bool" where
  "starts c s \<longleftrightarrow> s \<noteq> [] \<and> hd s = c"

text \<open>
  \<open>json_array_loop\<close> and \<open>json_object_loop\<close> are the \<^verbatim>\<open>while\<close> loops of \<^verbatim>\<open>json_parse_array\<close> and
  \<^verbatim>\<open>json_parse_object\<close> filling the cell \<open>c\<close>.
\<close>

fun json_parse_value :: "nat \<Rightarrow> string \<Rightarrow> heap \<Rightarrow> json_result"
  and json_array_loop :: "nat \<Rightarrow> ptr \<Rightarrow> string \<Rightarrow> heap \<Rightarrow> json_result"
  and json_object_loop :: "nat \<Rightarrow> ptr \<Rightarrow> string \<Rightarrow> heap \<Rightarrow> json_result"
where
  "json_parse_value 0 s h = None"
| "json_parse_value (Suc n) s0 h =
     (case json_skip_ws s0 of
        [] \<Rightarrow> json_err ''Unexpected end of JSON input'' h
      | ch # r \<Rightarrow>
          if ch = DQ then json_parse_string_raw r h
          else if ch = CHR ''{''
          then do { (c, h) \<leftarrow> new_dict_cell h;
                    if starts (CHR ''}'') (json_skip_ws r) then json_ok (VDict c) (tl (json_skip_ws r)) h
                    else json_object_loop n c (json_skip_ws r) h }
          else if ch = CHR ''[''
          then do { (c, h) \<leftarrow> new_array_cell h;
                    if starts (CHR '']'') (json_skip_ws r) then json_ok (VArray c) (tl (json_skip_ws r)) h
                    else json_array_loop n c (json_skip_ws r) h }
          else if ch = CHR ''t'' then json_literal ''true'' (VBool True) (ch # r) h
          else if ch = CHR ''f'' then json_literal ''false'' (VBool False) (ch # r) h
          else if ch = CHR ''n'' then json_literal ''null'' VNull (ch # r) h
          else if ch = CHR ''-'' \<or> c_isdigit ch then json_parse_number (ch # r) h
          else json_err ''Unexpected character in JSON'' h)"
| "json_array_loop 0 c s h = None"
| "json_array_loop (Suc n) c s h =
     do { (res, h) \<leftarrow> json_parse_value n s h;
          case res of
            Inl msg \<Rightarrow> json_err msg h
          | Inr (v, r) \<Rightarrow>
              do { h \<leftarrow> array_push c v h;
                   case json_skip_ws r of
                     [] \<Rightarrow> json_err ''Unterminated array in JSON'' h
                   | ch # r \<Rightarrow>
                       if ch = CHR '','' then json_array_loop n c (json_skip_ws r) h
                       else if ch = CHR '']'' then json_ok (VArray c) r h
                       else json_err (''Expected '' @ quoted '','' @ '' or '' @ quoted '']'' @ '' in JSON array'') h } }"
| "json_object_loop 0 c s h = None"
| "json_object_loop (Suc n) c s h =
     (let s = json_skip_ws s
      in if \<not> starts DQ s then json_err ''Expected string key in JSON object'' h
         else do {
           (kres, h) \<leftarrow> json_parse_string_raw (tl s) h;
           case kres of
             Inl msg \<Rightarrow> json_err msg h
           | Inr (kv, r) \<Rightarrow>
               do { k \<leftarrow> str_of h kv;
                    let r = json_skip_ws r;
                    if \<not> starts (CHR '':'') r
                    then json_err (''Expected '' @ quoted '':'' @ '' in JSON object'') h
                    else do {
                      (res, h) \<leftarrow> json_parse_value n (json_skip_ws (tl r)) h;
                      case res of
                        Inl msg \<Rightarrow> json_err msg h
                      | Inr (v, r) \<Rightarrow>
                          do { h \<leftarrow> dict_insert c k v h;
                               case json_skip_ws r of
                                 [] \<Rightarrow> json_err ''Unterminated object in JSON'' h
                               | ch # r \<Rightarrow>
                                   if ch = CHR '','' then json_object_loop n c r h
                                   else if ch = CHR ''}'' then json_ok (VDict c) r h
                                   else json_err (''Expected '' @ quoted '','' @ '' or '' @ quoted ''}'' @ '' in JSON object'') h } } } })"

definition json_fuel :: "string \<Rightarrow> nat" where
  "json_fuel s = 2 * length s + 2"

definition json_decode :: "string \<Rightarrow> heap \<Rightarrow> ((string + val) \<times> heap) option" where
  "json_decode s h =
     do { (res, h) \<leftarrow> json_parse_value (json_fuel s) s h;
          case res of
            Inl msg \<Rightarrow> Some (Inl msg, h)
          | Inr (v, r) \<Rightarrow>
              Some (if json_skip_ws r \<noteq> [] then Inl ''Trailing data after JSON value'' else Inr v, h) }"

section \<open>The module\<close>

definition json_encode :: native where
  "json_encode args m =
     do { r \<leftarrow> json_encode_value (fmt_depth m) m (args ! 0);
          case r of
            None \<Rightarrow> fail ''json.encode() cannot serialize a function value'' VNull m
          | Some s \<Rightarrow> ret_string s m }"

definition json_decode_pair :: native where
  "json_decode_pair args m =
     (if vtype (args ! 0) \<noteq> TYPE_STRING then fail ''json.decode() requires a string'' VNull m
      else do { s \<leftarrow> str_of (heap m) (args ! 0);
                (res, h) \<leftarrow> json_decode s (heap m);
                (c, h) \<leftarrow> new_array_cell h;
                (xs, h) \<leftarrow> (case res of
                   Inl msg \<Rightarrow> do { (e, h) \<leftarrow> aer_make_string h msg; Some ([VNull, e], h) }
                 | Inr v \<Rightarrow> Some ([v, VNull], h));
                m \<leftarrow> write_array c \<lparr>items = xs, shape = None\<rparr> (set_heap h m);
                ret (VArray c) m })"

definition json_fn :: "string \<Rightarrow> nat \<Rightarrow> native option" where
  "json_fn name n =
     (if name = ''encode'' \<and> n = 1 then Some json_encode
      else if name = ''decode'' \<and> n = 1 then Some json_decode_pair
      else None)"

definition aer_json_call :: "string \<Rightarrow> nat \<Rightarrow> mach \<Rightarrow> mach option option" where
  "aer_json_call name n = native_call (json_fn name n) n"

end
