(* ===== verification/Module.thy ===== *)
theory Module
  imports Json
begin

text \<open>
  File modules (\<^verbatim>\<open>source/core/aer_module.c\<close>): lookup, path resolution and the call of a module's
  function on the module's own VM. Such a call is a nested run of the interpreter: entering it
  puts the caller's VM and chunk aside, \<open>module_result\<close> takes them back with the result.
\<close>

section \<open>Lookup\<close>

definition find_module :: "mach \<Rightarrow> string \<Rightarrow> nat option" where
  "find_module m name = find (\<lambda>i. mod_name (modules m ! i) = name) [0..<length (modules m)]"

text \<open>A function value, or nothing.\<close>

definition only_function :: "val \<Rightarrow> val option" where
  "only_function v = (if vtype v = TYPE_FUNCTION then Some v else None)"

text \<open>The inline slots of the module's global scope; the first slot of that name decides.\<close>

fun find_in_slots :: "heap \<Rightarrow> chunk \<Rightarrow> scope_slot list \<Rightarrow> string \<Rightarrow> val option option option" where
  "find_in_slots h c [] fn = Some None"
| "find_in_slots h c (s # ss) fn =
     do { n \<leftarrow> pool_name h c (sl_name s);
          if n \<noteq> fn then find_in_slots h c ss fn
          else do { v \<leftarrow> slot_value h s; Some (Some (only_function v)) } }"

definition find_module_function :: "heap \<Rightarrow> file_module \<Rightarrow> string \<Rightarrow> val option option" where
  "find_module_function h k fn =
     (let g = scopes (mod_vm k) ! 0
      in do { r \<leftarrow> find_in_slots h (mod_chunk k) (take (scount g) (slots g)) fn;
              case r of
                Some res \<Rightarrow> Some res
              | None \<Rightarrow>
                  if overflow g
                  then (case hashmap_get (smap g) fn of
                          None \<Rightarrow> Some None
                        | Some b \<Rightarrow> map_option only_function (read_ovf h b))
                  else Some None })"

section \<open>Paths\<close>

definition join_path :: "string \<Rightarrow> string \<Rightarrow> string" where
  "join_path dir name = dir @ name @ ''.aer''"

definition is_sep :: "char \<Rightarrow> bool" where
  "is_sep c \<longleftrightarrow> c = CHR ''/'' \<or> c = CHR 0x5C"

text \<open>The directory of a file, up to its last separator.\<close>

definition dir_of :: "string \<Rightarrow> string" where
  "dir_of path = rev (dropWhile (\<lambda>c. \<not> is_sep c) (rev path))"

fun split_list :: "char \<Rightarrow> string \<Rightarrow> string list" where
  "split_list c [] = [[]]"
| "split_list c (x # xs) = (if x = c then [] # split_list c xs else
     (case split_list c xs of [] \<Rightarrow> [[x]] | s # ss \<Rightarrow> (x # s) # ss))"

definition entry_dir :: "string \<Rightarrow> string" where
  "entry_dir e = (if is_sep (last e) then e else e @ ''/'')"

text \<open>
  \<^verbatim>\<open>resolve_path\<close> with the file system and \<^verbatim>\<open>AER_PATH\<close> as arguments: the importing file's directory,
  then the entries of the path in order, else the first candidate again. The list separator is
  the one outside Windows.
\<close>

definition resolve_path :: "(string \<Rightarrow> bool) \<Rightarrow> string option \<Rightarrow> string \<Rightarrow> string \<Rightarrow> string" where
  "resolve_path exists aer_path base dotted =
     (let name = map (\<lambda>c. if c = CHR ''.'' then CHR ''/'' else c) dotted;
          same = join_path (dir_of base) name;
          entries = (case aer_path of None \<Rightarrow> [] | Some p \<Rightarrow> filter (\<lambda>e. e \<noteq> []) (split_list (CHR '':'') p))
      in if exists same then same
         else case find exists (map (\<lambda>e. join_path (entry_dir e) name) entries) of
                Some c \<Rightarrow> c | None \<Rightarrow> same)"

section \<open>Calls into a module\<close>

definition push_null_result :: "mach \<Rightarrow> mach" where
  "push_null_result m =
     (if stack_top (vm m) < VM_STACK_MAX then set_stack (VNull # stack (vm m)) m else m)"

definition swap_in :: "file_module \<Rightarrow> mach \<Rightarrow> mach" where
  "swap_in k m = m\<lparr>vm := mod_vm k, chunk := mod_chunk k\<rparr>"

text \<open>The module's VM goes back to its record, the caller's VM runs again.\<close>

definition swap_out :: "nat \<Rightarrow> vm \<Rightarrow> chunk \<Rightarrow> mach \<Rightarrow> mach" where
  "swap_out i v c m =
     m\<lparr>modules := (modules m)[i := (modules m ! i)\<lparr>mod_vm := vm m, mod_chunk := chunk m\<rparr>],
       vm := v, chunk := c\<rparr>"

definition aer_module_call :: "string \<Rightarrow> string \<Rightarrow> nat \<Rightarrow> mach \<Rightarrow> outcome option option" where
  "aer_module_call module fn n m =
     (case find_module m module of
        None \<Rightarrow> None
      | Some i \<Rightarrow>
          (let k = modules m ! i
           in case find_module_function (heap m) k fn of
                None \<Rightarrow> Some None
              | Some None \<Rightarrow> None
              | Some (Some fv) \<Rightarrow>
                  Some (if stack_top (vm m) < n then None
                        else let args = take n (stack (vm m));
                                 m' = set_stack (drop n (stack (vm m))) m
                             in if stack_top (mod_vm k) + n > VM_STACK_MAX
                                then Some (Running (push_null_result (set_stack (drop n (stack (vm m))) (error ''Stack overflow'' m))))
                                else do {
                                  (ok, c) \<leftarrow> vm_setup_call fv n (halt_addr k)
                                     (set_stack (args @ stack (mod_vm k)) (swap_in k m'));
                                  Some (if ok
                                        then Nested i (vm m') (chunk m') (set_heap (vm_gc_suppress (heap c)) c)
                                        else Running (push_null_result
                                          (swap_out i (vm m') (chunk m') (set_stack (drop n (stack (vm c))) c)))) })))"

text \<open>After the nested run.\<close>

definition module_result :: "nat \<Rightarrow> vm \<Rightarrow> chunk \<Rightarrow> mach \<Rightarrow> mach" where
  "module_result i v c m =
     (let m = set_heap (vm_gc_unsuppress (heap m)) m
      in if runtime_had_error m then push_null_result (swap_out i v c m)
         else case stack (vm m) of
                [] \<Rightarrow> push_null_result (swap_out i v c m)
              | r # st \<Rightarrow>
                  (let m = swap_out i v c (set_stack st m)
                   in if stack_top (vm m) < VM_STACK_MAX then set_stack (r # stack (vm m)) m else m))"

end
