(* ===== verification/Run.thy ===== *)
theory Run
  imports Module
begin

text \<open>
  The dispatch of \<^verbatim>\<open>vm_run\<close> (\<^verbatim>\<open>source/core/vm.c\<close>): the call of native, host and file modules, one
  instruction, and the loop, a partial function because byte code may run forever.
\<close>

definition native_module_call :: "world \<Rightarrow> string \<Rightarrow> string \<Rightarrow> nat \<Rightarrow> mach \<Rightarrow> mach option option option" where
  "native_module_call w md fn n m =
     (if md = ''math'' then Some (aer_math_call w fn n m)
      else if md = ''random'' then Some (aer_random_call w fn n m)
      else if md = ''string'' then Some (aer_string_call fn n m)
      else if md = ''time'' then Some (aer_time_call w fn n m)
      else if md = ''json'' then Some (aer_json_call fn n m)
      else if aer_host_is_module w md then Some (aer_host_call w md fn n m)
      else None)"

definition no_function :: "string \<Rightarrow> string \<Rightarrow> nat \<Rightarrow> mach \<Rightarrow> outcome option" where
  "no_function md fn n m = fail_pops (quoted md @ '' has no function '' @ quoted fn) n m"

definition lbl_call_module :: "world \<Rightarrow> mach \<Rightarrow> outcome option" where
  "lbl_call_module w m =
     do { (mi, m) \<leftarrow> read_nat m; (fi, m) \<leftarrow> read_nat m; (n, m) \<leftarrow> read_nat m;
          md \<leftarrow> pool_name (heap m) (chunk m) mi;
          fn \<leftarrow> pool_name (heap m) (chunk m) fi;
          case native_module_call w md fn n m of
            Some (Some r) \<Rightarrow> map_option Running r
          | Some None \<Rightarrow> no_function md fn n m
          | None \<Rightarrow> (case aer_module_call md fn n m of
                      Some r \<Rightarrow> r
                    | None \<Rightarrow> no_function md fn n m) }"

definition exec :: "world \<Rightarrow> opcode \<Rightarrow> mach \<Rightarrow> outcome option" where
  "exec w op m = (if op = OP_CALL_MODULE then lbl_call_module w m else handler op m)"

text \<open>\<^verbatim>\<open>DISPATCH()\<close> and the handler it jumps to.\<close>

definition step :: "world \<Rightarrow> mach \<Rightarrow> outcome option" where
  "step w m =
     (if runtime_had_error m then Some (Stopped False m)
      else do { m \<leftarrow> gc_maybe_collect m; (op, m) \<leftarrow> read_op m; exec w op m })"

partial_function (option) vm_run :: "world \<Rightarrow> mach \<Rightarrow> (bool \<times> mach) option" where
  "vm_run w m =
     (case step w m of
        None \<Rightarrow> None
      | Some Overrun \<Rightarrow> None
      | Some (Stopped b m) \<Rightarrow> Some (b, m)
      | Some (Running m) \<Rightarrow> vm_run w m
      | Some (Nested i v c m) \<Rightarrow>
          do { r \<leftarrow> vm_run w m; vm_run w (module_result i v c (snd r)) })"

end
