(* ===== verification/Calm.thy ===== *)
theory Calm
  imports Run
begin

text \<open>
  Which operations leave the VM alone. A step of a handler is \<open>calm\<close> when of the running VM and
  of the file modules it changes at most the instruction pointer, it never clears the error flag
  and it caches no address outside the global scope: reading operands, every operator, conversion, builtin and native function, and the
  collector. What is not calm is left to theory \<open>Bounds\<close>.
\<close>

text \<open>The cached addresses of a chunk are slots of the global scope.\<close>

definition cache_ok :: "chunk \<Rightarrow> bool" where
  "cache_ok c \<longleftrightarrow> (\<forall>j. Some j \<in> set (addr_cache c) \<longrightarrow> j < SCOPE_SLOT_MAX)"

definition calm :: "mach \<Rightarrow> mach \<Rightarrow> bool" where
  "calm m m' \<longleftrightarrow> modules m' = modules m \<and> vm m' = (vm m)\<lparr>ip := ip (vm m')\<rparr> \<and>
     (runtime_had_error m \<longrightarrow> runtime_had_error m') \<and>
     (scount (scopes (vm m) ! 0) \<le> SCOPE_SLOT_MAX \<longrightarrow> cache_ok (chunk m) \<longrightarrow> cache_ok (chunk m'))"

lemma cache_ok_update:
  "cache_ok c \<Longrightarrow> j < SCOPE_SLOT_MAX \<Longrightarrow> cache_ok (c\<lparr>addr_cache := (addr_cache c)[k := Some j]\<rparr>)"
  unfolding cache_ok_def by (auto dest!: set_update_subset_insert [THEN subsetD])

lemma cache_ok_simps [simp]:
  "cache_ok (c\<lparr>chunk_shapes := x\<rparr>) = cache_ok c" "cache_ok (c\<lparr>code := y\<rparr>) = cache_ok c" "cache_ok (c\<lparr>cpool := z\<rparr>) = cache_ok c"
  by (simp_all add: cache_ok_def)

lemma global_slot_less: "vm_global_slot_address v name = Some j \<Longrightarrow> j < scount (scopes v ! 0)"
  by (auto simp: vm_global_slot_address_def Let_def find_Some_iff)

named_theorems calm_facts \<open>operations that are calm\<close>

lemma calm_refl [simp]: "calm m m"
  by (simp add: calm_def)

lemma calm_trans: "calm a b \<Longrightarrow> calm b c \<Longrightarrow> calm a c"
  by (cases "vm a"; cases "vm b"; cases "vm c") (auto simp: calm_def)

lemma calm_error [simp]: "calm m (error s m)"
  by (simp add: calm_def)

lemma calm_updates [simp]:
  "calm m (m\<lparr>heap := h\<rparr>)" "calm m (set_heap h m)" "calm m (set_ip i m)"
  "calm m (m\<lparr>printed := p\<rparr>)" "calm m (m\<lparr>rng := r\<rparr>)" "calm m (m\<lparr>clock_reads := k\<rparr>)"
  "calm m (m\<lparr>shapes := s\<rparr>)" "calm m (m\<lparr>assert_failures := n\<rparr>)" "calm m (put_line l m)"
  by (simp_all add: calm_def set_heap_def set_ip_def put_line_def)

lemma calm_after [simp]: "calm m m' \<Longrightarrow> calm m (error s m')"
  "calm m m' \<Longrightarrow> calm m (m'\<lparr>heap := h\<rparr>)" "calm m m' \<Longrightarrow> calm m (put_line l m')"
  by (auto simp: put_line_def intro: calm_trans)

lemma set_parts [simp]:
  "heap (set_stack st m) = heap m" "stack (vm (set_stack st m)) = st" "set_stack st' (set_stack st m) = set_stack st' m"
  "heap (set_heap h m) = h" "vm (set_heap h m) = vm m" "set_heap h' (set_heap h m) = set_heap h' m"
  "(set_heap h m)\<lparr>heap := h'\<rparr> = set_heap h' m"
  by (simp_all add: set_stack_def set_heap_def)

section \<open>Operators and builtins\<close>

lemma ret_calm [calm_facts]: "ret v m = Some (x, m') \<Longrightarrow> calm m m'"
  by (simp add: ret_def)

lemma fail_calm [calm_facts]: "fail s v m = Some (x, m') \<Longrightarrow> calm m m'"
  by (auto simp: fail_def)

lemma ret_int_calm [calm_facts]: "ret_int n m = Some (x, m') \<Longrightarrow> calm m m'"
  by (auto simp: ret_int_def split: if_splits Option.bind_splits)

lemmas bind_cases = if_splits Option.bind_splits option.splits prod.splits val.splits

lemma int_binary_calm [calm_facts]: "int_binary op l r m = Some (x, m') \<Longrightarrow> calm m m'"
  by (cases op) (auto simp: int_binary_def split: bind_cases intro: calm_facts)

lemma real_binary_calm [calm_facts]: "real_binary op l r m = Some (x, m') \<Longrightarrow> calm m m'"
  by (cases op) (auto simp: real_binary_def split: bind_cases intro: calm_facts)

lemma same_binary_calm [calm_facts]: "same_binary op e s m = Some (x, m') \<Longrightarrow> calm m m'"
  by (auto simp: same_binary_def split: bind_cases intro: calm_facts)

lemma string_binary_calm [calm_facts]: "string_binary op a b m = Some (x, m') \<Longrightarrow> calm m m'"
  by (auto simp: string_binary_def split: bind_cases intro: calm_facts)

lemma logic_binary_calm [calm_facts]: "logic_binary op a b m = Some (x, m') \<Longrightarrow> calm m m'"
  by (auto simp: logic_binary_def split: bind_cases intro: calm_facts)

lemma in_binary_calm [calm_facts]: "in_binary a b m = Some (x, m') \<Longrightarrow> calm m m'"
  by (auto simp: in_binary_def split: bind_cases intro: calm_facts)

lemma vm_binary_calm [calm_facts]: "vm_binary a b op m = Some (x, m') \<Longrightarrow> calm m m'"
  by (auto simp: vm_binary_def split: bind_cases intro: int_binary_calm real_binary_calm same_binary_calm string_binary_calm
      logic_binary_calm in_binary_calm fail_calm)

lemma write_array_calm [calm_facts]: "write_array c a m = Some m' \<Longrightarrow> calm m m'"
  by (auto simp: write_array_def split: bind_cases)

lemma write_dict_calm [calm_facts]: "write_dict c d m = Some m' \<Longrightarrow> calm m m'"
  by (auto simp: write_dict_def split: bind_cases)

lemmas calm_chain = calm_trans [OF write_array_calm ret_calm] calm_trans [OF write_dict_calm ret_calm]

lemma builtin_length_calm [calm_facts]: "builtin_length a m = Some (x, m') \<Longrightarrow> calm m m'"
  by (auto simp: builtin_length_def split: bind_cases intro: calm_facts)

lemma builtin_delete_calm [calm_facts]: "builtin_delete a b m = Some (x, m') \<Longrightarrow> calm m m'"
  by (auto simp: builtin_delete_def split: bind_cases intro: calm_facts calm_chain)

lemma calm_heap: "calm (m\<lparr>heap := h\<rparr>) m' \<Longrightarrow> calm m m'" "calm (set_heap h m) m' \<Longrightarrow> calm m m'"
  "calm (put_line s m) m' \<Longrightarrow> calm m m'" "calm (m\<lparr>assert_failures := n\<rparr>) m' \<Longrightarrow> calm m m'"
  by (auto simp: put_line_def set_heap_def intro: calm_trans [rotated])

lemma builtin_append_calm [calm_facts]: "builtin_append a b m = Some (x, m') \<Longrightarrow> calm m m'"
  by (auto simp: builtin_append_def split: bind_cases intro: calm_facts calm_chain calm_heap(1))

lemma builtin_print_calm [calm_facts]: "builtin_print a m = Some (x, m') \<Longrightarrow> calm m m'"
  by (auto simp: builtin_print_def ret_def split: bind_cases)

lemma builtin_type_calm [calm_facts]: "builtin_type a m = Some (x, m') \<Longrightarrow> calm m m'"
  by (auto simp: builtin_type_def ret_def split: bind_cases)

lemma builtin_assert_calm [calm_facts]: "builtin_assert a b m = Some (x, m') \<Longrightarrow> calm m m'"
  by (auto simp: builtin_assert_def ret_def split: bind_cases intro: fail_calm)

lemma builtin_panic_calm [calm_facts]: "builtin_panic a m = Some (x, m') \<Longrightarrow> calm m m'"
  by (auto simp: builtin_panic_def split: bind_cases intro: calm_facts)

lemma struct_new_calm [calm_facts]: "struct_new name s args m = Some (x, m') \<Longrightarrow> calm m m'"
  by (auto simp: struct_new_def ret_def split: bind_cases intro: fail_calm)

lemma vm_call_builtin_calm [calm_facts]: "vm_call_builtin name args m = Some (Some (x, m')) \<Longrightarrow> calm m m'"
  by (auto simp: vm_call_builtin_def Let_def split: if_splits option.splits intro: calm_facts)

lemma vm_index_get_calm [calm_facts]: "vm_index_get_compute a i m = Some (x, m') \<Longrightarrow> calm m m'"
  by (auto simp: vm_index_get_compute_def ret_def split: bind_cases intro: fail_calm)

lemma vm_slice_bounds_calm [calm_facts]: "vm_slice_bounds a b n m = Some (x, m') \<Longrightarrow> calm m m'"
  by (auto simp: vm_slice_bounds_def split: bind_cases)

lemma vm_to_str_calm [calm_facts]: "vm_to_str v m = Some (x, m') \<Longrightarrow> calm m m'"
  by (auto simp: vm_to_str_def split: bind_cases)

lemma cast_value_calm [calm_facts]: "cast_value k v m = Some (x, m') \<Longrightarrow> calm m m'"
  by (auto simp: cast_value_def cast_integer_def cast_float_def split: bind_cases intro: calm_facts)

section \<open>Operands and variables\<close>

lemma read_word_calm [calm_facts]: "read_word m = Some (x, m') \<Longrightarrow> calm m m'"
  by (auto simp: read_word_def split: bind_cases)

lemma read_nat_calm [calm_facts]: "read_nat m = Some (x, m') \<Longrightarrow> calm m m'"
  by (auto simp: read_nat_def split: bind_cases intro: calm_facts)

lemma read_op_calm [calm_facts]: "read_op m = Some (x, m') \<Longrightarrow> calm m m'"
  by (auto simp: read_op_def split: bind_cases intro: calm_facts)

lemma read_nats_calm [calm_facts]: "read_nats n m = Some (xs, m') \<Longrightarrow> calm m m'"
  by (induction n arbitrary: xs m m') (fastforce split: bind_cases intro: calm_trans [OF read_nat_calm])+

lemma read_fields_calm [calm_facts]: "read_fields n m = Some (xs, m') \<Longrightarrow> calm m m'"
  by (induction n arbitrary: xs m m')
    (fastforce split: bind_cases intro: calm_trans [OF read_nat_calm calm_trans [OF read_nat_calm]])+

lemma not_defined_calm [calm_facts]: "not_defined name m = Some m' \<Longrightarrow> calm m m'"
  by (auto simp: not_defined_def split: bind_cases)

lemma no_field_calm [calm_facts]: "no_field sh f m = Some m' \<Longrightarrow> calm m m'"
  by (auto simp: no_field_def split: bind_cases)

lemma cache_address_calm [simp]: "calm m (cache_address name k a m)"
  using global_slot_less [of "vm m" name]
  by (auto simp: cache_address_def calm_def intro!: cache_ok_update split: option.split)

lemma find_cached_calm [calm_facts]: "find_cached name k m = Some (x, m') \<Longrightarrow> calm m m'"
  by (auto simp: find_cached_def split: bind_cases)

lemma resolve_name_calm [calm_facts]: "vm_resolve_name_cached name k m = Some (x, m') \<Longrightarrow> calm m m'"
  using global_slot_less [of "vm m" name]
  by (auto simp: vm_resolve_name_cached_def calm_def [of m "m\<lparr>chunk := c\<rparr>" for c] intro!: cache_ok_update
      split: bind_cases intro: not_defined_calm)

lemma resolve_calm [calm_facts]: "resolve x m = Some (y, m') \<Longrightarrow> calm m m'"
  by (auto simp: resolve_def split: bind_cases operand.splits intro: calm_facts)

section \<open>Native functions\<close>

definition calm_native :: "native \<Rightarrow> bool" where
  "calm_native f \<longleftrightarrow> (\<forall>args m v m'. f args m = Some (v, m') \<longrightarrow> calm m m')"

lemma calm_nativeD: "calm_native f \<Longrightarrow> f args m = Some (v, m') \<Longrightarrow> calm m m'"
  by (auto simp: calm_native_def)

lemma ret_string_calm [calm_facts]: "ret_string s m = Some (v, m') \<Longrightarrow> calm m m'"
  by (auto simp: ret_string_def split: bind_cases)

lemma ret_sized_calm [calm_facts]: "ret_sized s m = Some (v, m') \<Longrightarrow> calm m m'"
  by (auto simp: ret_sized_def split: bind_cases intro: calm_facts)

lemma on_real_calm:
  assumes "\<And>d m v m'. f d m = Some (v, m') \<Longrightarrow> calm m m'"
  shows "calm_native (on_real name f)"
  by (auto simp: calm_native_def on_real_def split: Option.bind_splits option.splits intro: assms fail_calm)

lemma on_reals_calm:
  assumes "\<And>d e m v m'. f args d e m = Some (v, m') \<Longrightarrow> calm m m'"
  shows "on_reals name (f args) args m = Some (v, m') \<Longrightarrow> calm m m'"
  by (auto simp: on_reals_def split: Option.bind_splits option.splits intro: assms fail_calm)

lemma math_log_calm: "calm_native (math_log w name)"
  unfolding math_log_def by (rule on_real_calm) (auto split: if_splits intro: ret_calm fail_calm)

lemma math_abs_calm: "calm_native math_abs"
  by (auto simp: calm_native_def math_abs_def split: if_splits Option.bind_splits val.splits
      intro: ret_calm fail_calm ret_int_calm)

lemma math_sort_calm: "calm_native (math_sort w)"
  by (auto simp: calm_native_def math_sort_def split: bind_cases intro: fail_calm calm_chain)

lemma math_fn_calm:
  assumes "math_fn w name n = Some f"
  shows "calm_native f"
proof -
  have "calm_native (on_real name (\<lambda>d. ret (g d)))" for g by (rule on_real_calm) (rule ret_calm)
  moreover have "calm_native (on_real name (\<lambda>d m. do { k \<leftarrow> g d; ret_int k m }))" for g
    by (rule on_real_calm) (auto split: Option.bind_splits intro: ret_int_calm)
  moreover have "calm_native (\<lambda>args. on_reals name (\<lambda>x y. ret (g args x y)) args)" for g
    by (auto simp: calm_native_def intro: on_reals_calm ret_calm)
  moreover have "calm_native (on_reals name (\<lambda>x y. ret (g x y)))" for g
    by (auto simp: calm_native_def intro: on_reals_calm ret_calm)
  moreover have "calm_native (\<lambda>_. ret v)" for v by (auto simp: calm_native_def intro: ret_calm)
  ultimately show ?thesis
    using assms math_abs_calm math_log_calm [of w name] math_sort_calm [of w]
    by (auto simp: math_fn_def split: if_splits)
qed

lemma random_fn_calm:
  assumes "random_fn w name n = Some f"
  shows "calm_native f"
proof -
  have r: "calm m (snd (next_rand w m))" for m by (simp add: next_rand_def split: prod.split)
  then have n: "next_rand w m = (k, m1) \<Longrightarrow> calm m m1" for m k m1 by (metis snd_conv)
  have "calm_native (random_random w)"
    by (auto simp: calm_native_def random_random_def ret_def split: prod.splits dest: n)
  moreover have "calm_native (random_randint w)"
    by (auto simp: calm_native_def random_randint_def split: if_splits Option.bind_splits prod.splits
        intro: fail_calm calm_trans [OF n ret_int_calm])
  moreover have "calm_native (random_seed w)"
    by (auto simp: calm_native_def random_seed_def ret_def split: if_splits Option.bind_splits intro: fail_calm)
  ultimately show ?thesis using assms by (auto simp: random_fn_def split: if_splits)
qed

lemma on_strings_calm:
  assumes "\<And>ss m v m'. f ss m = Some (v, m') \<Longrightarrow> calm m m'"
  shows "calm_native (on_strings msg f)"
  by (auto simp: calm_native_def on_strings_def split: if_splits Option.bind_splits intro: assms fail_calm)

lemma new_string_array_calm [calm_facts]: "new_string_array ss m = Some (v, m') \<Longrightarrow> calm m m'"
  by (auto simp: new_string_array_def split: Option.bind_splits prod.splits
      intro: calm_heap(2) [OF calm_chain(1)])

lemma string_fn_calm:
  assumes "string_fn name n = Some f"
  shows "calm_native f"
proof -
  have "calm_native (on_strings msg (\<lambda>ss. ret_string (g ss)))" for msg g
    by (rule on_strings_calm) (rule ret_string_calm)
  moreover have "calm_native (on_strings msg (\<lambda>ss. ret (g ss)))" for msg g
    by (rule on_strings_calm) (rule ret_calm)
  moreover have "calm_native string_split" unfolding string_split_def
    by (rule on_strings_calm) (auto split: if_splits intro: fail_calm new_string_array_calm)
  moreover have "calm_native string_replace" unfolding string_replace_def
    by (rule on_strings_calm) (auto split: if_splits intro: fail_calm ret_sized_calm)
  moreover have "calm_native string_repeat"
    by (auto simp: calm_native_def string_repeat_def split: if_splits Option.bind_splits
        intro: fail_calm ret_string_calm)
  moreover have "calm_native string_join"
    by (auto simp: calm_native_def string_join_def split: if_splits Option.bind_splits val.splits
        intro: fail_calm ret_sized_calm)
  ultimately show ?thesis using assms by (auto simp: string_fn_def split: if_splits)
qed

lemma time_fn_calm:
  assumes "time_fn w name n = Some f"
  shows "calm_native f"
proof -
  have "calm_native (time_now w)"
    by (auto simp: calm_native_def time_now_def ret_def split: prod.splits)
  moreover have "calm_native (time_strftime w)"
    by (auto simp: calm_native_def time_strftime_def split: if_splits Option.bind_splits option.splits
        intro: fail_calm ret_string_calm)
  ultimately show ?thesis using assms by (auto simp: time_fn_def split: if_splits)
qed

lemma json_fn_calm:
  assumes "json_fn name n = Some f"
  shows "calm_native f"
proof -
  have "calm_native json_encode"
    by (auto simp: calm_native_def json_encode_def split: Option.bind_splits option.splits
        intro: fail_calm ret_string_calm)
  moreover have "calm_native json_decode_pair"
    by (auto simp: calm_native_def json_decode_pair_def split: if_splits Option.bind_splits prod.splits
        intro: fail_calm calm_heap(2) [OF calm_chain(1)])
  ultimately show ?thesis using assms by (auto simp: json_fn_def split: if_splits)
qed

section \<open>The collector\<close>

lemma gc_collect_calm: "gc_collect minor m = Some m' \<Longrightarrow> \<exists>h. m' = m\<lparr>heap := h\<rparr>"
  by (auto simp: gc_collect_def split: Option.bind_splits prod.splits)

lemma run_major_calm: "run_major m = Some m' \<Longrightarrow> \<exists>h. m' = m\<lparr>heap := h\<rparr>"
  by (auto simp: run_major_def split: Option.bind_splits dest!: gc_collect_calm)

lemma gc_maybe_collect_calm [calm_facts]: "gc_maybe_collect m = Some m' \<Longrightarrow> calm m m'"
  by (auto simp: gc_maybe_collect_def gc_run_collection_cycle_def Let_def
      split: if_splits Option.bind_splits dest!: gc_collect_calm run_major_calm)

end
