(* ===== verification/Store.thy ===== *)
theory Store
  imports OpsLaws Calm
begin

text \<open>
  Stores into arrays and dicts: the write barrier never disturbs a readable object, and an element
  or entry that was stored is the one a later read returns.
\<close>

section \<open>The write barrier\<close>

lemma young_ex:
  assumes "pool_inv p" "c \<in> live p"
  shows "pool_is_young p c \<noteq> None" "pool_is_remembered p c \<noteq> None"
proof -
  obtain s where "pool_cell_state p c = Some s" using live_cell_state [OF assms] by metis
  then show "pool_is_young p c \<noteq> None" "pool_is_remembered p c \<noteq> None"
    by (simp_all add: pool_is_young_def pool_is_remembered_def)
qed

lemma value_is_young_ex:
  assumes "pools_inv h" "val_ok h v"
  shows "\<exists>b. value_is_young h v = Some b"
  using young_ex(1) [OF pools_invD(1) [OF assms(1)]] young_ex(1) [OF pools_invD(2) [OF assms(1)]]
    young_ex(1) [OF pools_invD(3) [OF assms(1)]] young_ex(1) [OF pools_invD(4) [OF assms(1)]]
    young_ex(1) [OF pools_invD(6) [OF assms(1)]] assms(2)
  by (cases v) (auto simp: value_is_young_def)

lemma mark_remembered_ok:
  assumes inv: "pool_inv p" and c: "c \<in> live p"
  obtains p' where "pool_mark_remembered p c = Some p'" "pool_ext p p'"
proof -
  obtain s where s: "pool_cell_state p c = Some s" "\<not> bit s 2" using live_cell_state [OF inv c] by metis
  let ?s = "s OR POOL_REMEMBERED"
  have "\<not> bit ?s 2" using s(2) by (simp add: POOL_REMEMBERED_def bit_simps)
  note w = set_state_inv [OF inv c this]
  have "pool_read (set_state p c ?s) = pool_read p" by (intro pool_read_slabs) (simp add: cell_simps)
  then show ?thesis using that [of "set_state p c ?s"] s(1) w
    by (simp add: pool_mark_remembered_def pool_ext_def)
qed

lemma gc_remember_ok:
  assumes h: "pools_inv h" and r: "r = REMEMBERED_ARRAY c \<and> c \<in> live (array_pool h) \<or>
    r = REMEMBERED_DICT c \<and> c \<in> live (dict_pool h)"
  shows "\<exists>h'. gc_remember r h = Some h' \<and> heap_ext h h'"
  using r
proof (elim disjE conjE)
  assume r: "r = REMEMBERED_ARRAY c" and c: "c \<in> live (array_pool h)"
  obtain b where b: "pool_is_remembered (array_pool h) c = Some b"
    using young_ex(2) [OF pools_invD(2) [OF h] c] by blast
  obtain p where p: "pool_mark_remembered (array_pool h) c = Some p" "pool_ext (array_pool h) p"
    using pools_invD(2) [OF h] c by (rule mark_remembered_ok)
  have "heap_ext h (remember r (h\<lparr>array_pool := p\<rparr>))"
    by (rule heap_extI) (use p(2) pools_ext_refl [OF h] in \<open>simp_all add: remember_def\<close>)
  then show ?thesis using b p r heap_ext_refl [OF h] by (simp add: gc_remember_def)
next
  assume r: "r = REMEMBERED_DICT c" and c: "c \<in> live (dict_pool h)"
  obtain b where b: "pool_is_remembered (dict_pool h) c = Some b"
    using young_ex(2) [OF pools_invD(3) [OF h] c] by blast
  obtain p where p: "pool_mark_remembered (dict_pool h) c = Some p" "pool_ext (dict_pool h) p"
    using pools_invD(3) [OF h] c by (rule mark_remembered_ok)
  have "heap_ext h (remember r (h\<lparr>dict_pool := p\<rparr>))"
    by (rule heap_extI) (use p(2) pools_ext_refl [OF h] in \<open>simp_all add: remember_def\<close>)
  then show ?thesis using b p r heap_ext_refl [OF h] by (simp add: gc_remember_def)
qed

lemma gc_barrier_array_ok:
  assumes h: "pools_inv h" and c: "c \<in> live (array_pool h)" and v: "val_ok h v"
  obtains h' where "gc_barrier_array c v h = Some h'" "heap_ext h h'"
proof -
  obtain y where y: "pool_is_young (array_pool h) c = Some y" using young_ex(1) [OF pools_invD(2) [OF h] c] by blast
  obtain b where b: "value_is_young h v = Some b" using value_is_young_ex [OF h v] by blast
  obtain h' where "gc_remember (REMEMBERED_ARRAY c) h = Some h'" "heap_ext h h'"
    using gc_remember_ok [OF h, of "REMEMBERED_ARRAY c" c] c by blast
  then show ?thesis
    using that y b heap_ext_refl [OF h] by (cases "y \<or> \<not> b") (auto simp: gc_barrier_array_def)
qed

lemma gc_barrier_dict_ok:
  assumes h: "pools_inv h" and c: "c \<in> live (dict_pool h)" and v: "val_ok h v"
  obtains h' where "gc_barrier_dict c v h = Some h'" "heap_ext h h'"
proof -
  obtain y where y: "pool_is_young (dict_pool h) c = Some y" using young_ex(1) [OF pools_invD(3) [OF h] c] by blast
  obtain b where b: "value_is_young h v = Some b" using value_is_young_ex [OF h v] by blast
  obtain h' where "gc_remember (REMEMBERED_DICT c) h = Some h'" "heap_ext h h'"
    using gc_remember_ok [OF h, of "REMEMBERED_DICT c" c] c by blast
  then show ?thesis
    using that y b heap_ext_refl [OF h] by (cases "y \<or> \<not> b") (auto simp: gc_barrier_dict_def)
qed

section \<open>Writing an object\<close>

text \<open>A heap with the same objects, all but one of them with the same contents.\<close>

definition stored :: "heap \<Rightarrow> obj \<Rightarrow> content \<Rightarrow> heap \<Rightarrow> bool" where
  "stored h ob x h' \<longleftrightarrow> pools_inv h' \<and> obj_live h' ob \<and> obj_content h' ob = Some x \<and>
     (\<forall>ob'. obj_live h ob' \<longrightarrow> obj_live h' ob' \<and> (ob' \<noteq> ob \<longrightarrow> obj_content h' ob' = obj_content h ob'))"

lemma stored_ext: "heap_ext h h1 \<Longrightarrow> stored h1 ob x h' \<Longrightarrow> stored h ob x h'"
  by (simp add: stored_def heap_ext_def)

lemma write_array_ok:
  assumes h: "pools_inv (heap m)" and c: "c \<in> live (array_pool (heap m))"
  obtains h' where "write_array c a m = Some (m\<lparr>heap := h'\<rparr>)" "stored (heap m) (OArr c) (CArr a) h'"
    "closure_box_pool h' = closure_box_pool (heap m)"
proof -
  obtain p where p: "pool_write (array_pool (heap m)) c a = Some p" "pool_inv p" "live p = live (array_pool (heap m))"
    "pool_read p c = Some a" "\<forall>d. d \<noteq> c \<longrightarrow> pool_read p d = pool_read (array_pool (heap m)) d"
    using slab.write_cell [OF pools_invD(2) [OF h] c] by blast
  have "stored (heap m) (OArr c) (CArr a) ((heap m)\<lparr>array_pool := p\<rparr>)"
    unfolding stored_def
  proof (intro conjI allI)
    fix ob show "obj_live (heap m) ob \<longrightarrow> obj_live ((heap m)\<lparr>array_pool := p\<rparr>) ob \<and>
        (ob \<noteq> OArr c \<longrightarrow> obj_content ((heap m)\<lparr>array_pool := p\<rparr>) ob = obj_content (heap m) ob)"
      using p by (cases ob) auto
  qed (use p c pools_invD [OF h] in \<open>auto simp: pools_inv_def\<close>)
  then show ?thesis using that p(1) by (simp add: write_array_def)
qed

lemma write_dict_ok:
  assumes h: "pools_inv (heap m)" and c: "c \<in> live (dict_pool (heap m))"
  obtains h' where "write_dict c d m = Some (m\<lparr>heap := h'\<rparr>)" "stored (heap m) (ODict c) (CDict d) h'"
    "closure_box_pool h' = closure_box_pool (heap m)"
proof -
  obtain p where p: "pool_write (dict_pool (heap m)) c d = Some p" "pool_inv p" "live p = live (dict_pool (heap m))"
    "pool_read p c = Some d" "\<forall>e. e \<noteq> c \<longrightarrow> pool_read p e = pool_read (dict_pool (heap m)) e"
    using slab.write_cell [OF pools_invD(3) [OF h] c] by blast
  have "stored (heap m) (ODict c) (CDict d) ((heap m)\<lparr>dict_pool := p\<rparr>)"
    unfolding stored_def
  proof (intro conjI allI)
    fix ob show "obj_live (heap m) ob \<longrightarrow> obj_live ((heap m)\<lparr>dict_pool := p\<rparr>) ob \<and>
        (ob \<noteq> ODict c \<longrightarrow> obj_content ((heap m)\<lparr>dict_pool := p\<rparr>) ob = obj_content (heap m) ob)"
      using p by (cases ob) auto
  qed (use p c pools_invD [OF h] in \<open>auto simp: pools_inv_def\<close>)
  then show ?thesis using that p(1) by (simp add: write_dict_def)
qed

section \<open>Overwriting in a dict\<close>

lemma dict_overwrite_post:
  assumes t: "ht_inv t" and k: "ht_map t k = Some u"
  shows "ht_inv (dict_overwrite t k v)" "count (dict_overwrite t k v) = count t"
    "ht_map (dict_overwrite t k v) k' = (if c_str k' = c_str k then Some v else ht_map t k')"
proof -
  have ne: "buckets t \<noteq> []" using k by (auto simp: ht_map_def ht_entries_def)
  note d = ht_invD [OF t ne]
  note w = ht_wfD [OF d(1)]
  obtain q e where q: "q < capacity t" "buckets t ! q = Some e" "ckey e = c_str k" "payload e = u"
    using k w(1) by (auto simp: ht_map_Some [OF w(3)])
  obtain i where i: "ht_probe t k = Some i" "slot t k i = q" using ht_probe_present [OF d(1,2) q(1-3)] by metis
  have eq: "dict_overwrite t k v = t\<lparr>buckets := (buckets t)[q := Some (e\<lparr>payload := v\<rparr>)]\<rparr>"
    using i q by (simp add: dict_overwrite_def bucket_at_home [OF w(2)])
  note p = insert_present_post [OF d(1,2) q(1,2), of v]
  show "ht_inv (dict_overwrite t k v)" using p(1,2) d(3) ne by (simp add: eq ht_inv_def load_ok_def)
  show "count (dict_overwrite t k v) = count t" by (simp add: eq)
  show "ht_map (dict_overwrite t k v) k' = (if c_str k' = c_str k then Some v else ht_map t k')"
    using p(3) q(3) by (simp add: eq)
qed

lemma dictmap_get_map: "ht_inv t \<Longrightarrow> dictmap_get t k = ht_map t k"
  by (simp add: dictmap_get_def hashtable_get_map)

lemma dict_store_ok:
  assumes t: "ht_inv t" "count t < HT_COUNT_SAFE"
  obtains t' where "dict_store t k v = Some t'" "ht_inv t'" "count t' \<le> count t + 1"
    "\<And>k'. dictmap_get t' k' = (if c_str k' = c_str k then Some v else dictmap_get t k')"
proof (cases "dictmap_get t k")
  case None
  then show ?thesis
    using dict_table.put_law [OF t, of k v] that by (auto simp: dict_store_def)
next
  case (Some u)
  then have u: "ht_map t k = Some u" by (simp add: dictmap_get_map t)
  note p = dict_overwrite_post [OF t(1) u, of v]
  show ?thesis using that [of "dict_overwrite t k v"] Some p by (simp add: dict_store_def dictmap_get_map t)
qed

section \<open>Properties\<close>

lemma pop_stack: "stack (vm m) = v # st \<Longrightarrow> pop m = (v, set_stack st m)"
  by (simp add: pop_def)

lemma stored_reads:
  "stored h (OArr c) (CArr a) h' \<Longrightarrow> pool_read (array_pool h') c = Some a"
  "stored h (ODict c) (CDict d) h' \<Longrightarrow> pool_read (dict_pool h') c = Some d"
  by (auto simp: stored_def)

lemma stored_obj:
  assumes "stored h ob x h'" "obj_live h ob'"
  shows "obj_live h' ob'" "ob' \<noteq> ob \<Longrightarrow> obj_content h' ob' = obj_content h ob'"
  using assms unfolding stored_def by blast+

lemma stored_int_val:
  assumes "stored h ob x h'" "int_val h v n" "obj_of v \<noteq> Some ob"
  shows "int_val h' v n"
proof (cases v)
  case (VBig c)
  then have "obj_live h (OBig c)" "OBig c \<noteq> ob" using assms by (auto simp: int_val_def)
  then have "obj_live h' (OBig c)" "obj_content h' (OBig c) = obj_content h (OBig c)"
    using stored_obj [OF assms(1)] by blast+
  moreover have "inj CBig" by (simp add: inj_def)
  ultimately show ?thesis using assms(2) VBig by (simp add: int_val_def aer_as_int_v_def inj_map_option_eq)
qed (use assms in \<open>auto simp: int_val_def aer_as_int_v_def\<close>)

text \<open>C5: Assigning to an index of an array. With an integer index in \<open>- len .. len - 1\<close>, negative ones
  counted from the end, exactly that element of exactly that array changes, the write barrier
  and the store succeed, no other object of the heap changes, and reading the same index back
  gives the stored value. With any other index the heap is untouched and the error names the
  index and the length.\<close>

theorem array_set_get:
  assumes h: "pools_inv (heap m)" and st: "stack (vm m) = v # idx # VArray c # st"
    and c: "c \<in> live (array_pool (heap m))" "pool_read (array_pool (heap m)) c = Some a" "shape a = None"
    and i: "int_val (heap m) idx i" and v: "val_ok (heap m) v"
  shows "case index_pos i (length (items a)) of
      None \<Rightarrow> lbl_index_set m = Some (Running (error (bad_index ''Array'' i (length (items a))) (set_stack st m)))
    | Some j \<Rightarrow>
        (\<exists>h'. lbl_index_set m = Some (Running (set_heap h' (set_stack st m))) \<and>
           stored (heap m) (OArr c) (CArr (a\<lparr>items := (items a)[j := v]\<rparr>)) h' \<and>
           vm_index_get_compute (VArray c) idx (set_heap h' (set_stack st m)) =
             Some (v, set_heap h' (set_stack st m)))"
proof (cases "index_pos i (length (items a))")
  case None
  then show ?thesis
    using st c int_val_type [OF i] int_val_read [OF i]
    by (simp add: lbl_index_set_def pop_stack index_set_array_def)
next
  case (Some j)
  then have j: "j < length (items a)" by (simp add: index_pos_Some)
  obtain h1 where h1: "gc_barrier_array c v (heap m) = Some h1" "heap_ext (heap m) h1"
    by (rule gc_barrier_array_ok [OF h c(1) v])
  have c1: "c \<in> live (array_pool h1)" using heap_ext_obj(1) [OF h1(2), of "OArr c"] c(1) by simp
  obtain h2 where h2: "write_array c (a\<lparr>items := (items a)[j := v]\<rparr>) (set_heap h1 (set_stack st m)) =
      Some ((set_heap h1 (set_stack st m))\<lparr>heap := h2\<rparr>)"
    "stored h1 (OArr c) (CArr (a\<lparr>items := (items a)[j := v]\<rparr>)) h2"
    using write_array_ok [of "set_heap h1 (set_stack st m)" c] heap_ext_inv [OF h1(2)] c1
    by (metis set_parts(4))
  have s: "stored (heap m) (OArr c) (CArr (a\<lparr>items := (items a)[j := v]\<rparr>)) h2"
    by (rule stored_ext [OF h1(2) h2(2)])
  have i2: "int_val h2 idx i" using i by (intro stored_int_val [OF s i]) (auto simp: int_val_def elim: obj_of.elims)
  have "lbl_index_set m = Some (Running (set_heap h2 (set_stack st m)))"
    using st c int_val_type [OF i] int_val_read [OF i] Some h1 h2
    by (simp add: lbl_index_set_def pop_stack index_set_array_def)
  moreover have "vm_index_get_compute (VArray c) idx (set_heap h2 (set_stack st m)) =
      Some (v, set_heap h2 (set_stack st m))"
    using stored_reads(1) [OF s] c(3) int_val_type [OF i2] int_val_read [OF i2] Some j
    by (simp add: vm_index_get_compute_def ret_def)
  ultimately show ?thesis using Some s by auto
qed

lemma stack_mach_stack [simp]: "stack (vm (stack_mach h st)) = st"
  by (simp add: stack_mach_def)

theorem array_set_get_witness:
  "\<exists>h c h'. let m = stack_mach h [VInt 7, VInt (- 1), VArray c] in
     lbl_index_set m = Some (Running (set_heap h' (set_stack [] m))) \<and>
     pool_read (array_pool h') c = Some \<lparr>items = [VNull, VInt 7], shape = None\<rparr>"
proof -
  obtain c h where n: "new_array heap_init \<lparr>items = [VNull, VNull], shape = None\<rparr> = Some (VArray c, h)"
    "heap_ext heap_init h" "val_ok h (VArray c)"
    "arr_of h (VArray c) = Some \<lparr>items = [VNull, VNull], shape = None\<rparr>"
    by (rule new_array_ok [OF heap_init_inv]) (rule that)
  have pos: "index_pos (- 1) (Suc (Suc 0)) = Some 1" by (simp add: index_pos_def)
  have "\<exists>h'. lbl_index_set (stack_mach h [VInt 7, VInt (- 1), VArray c]) =
        Some (Running (set_heap h' (set_stack [] (stack_mach h [VInt 7, VInt (- 1), VArray c])))) \<and>
      stored h (OArr c) (CArr \<lparr>items = [VNull, VInt 7], shape = None\<rparr>) h'"
    using array_set_get [of "stack_mach h [VInt 7, VInt (- 1), VArray c]" "VInt 7" "VInt (- 1)" c "[]"
        "\<lparr>items = [VNull, VNull], shape = None\<rparr>" "- 1"] n heap_ext_inv [OF n(2)] pos
    by (auto simp: heap_reads)
  then show ?thesis using stored_reads(1) unfolding Let_def by blast
qed

text \<open>C6: Assigning to a key of a dict whose table satisfies its invariant and is below the wrap-around
  bound. The entry is added or, when its key is present, its value replaced: the table after it
  looks up like the one before it updated at that key, no other object changes, and indexing the
  dict with any string of at most 4096 bytes answers the stored value exactly for the keys that
  are the same C string, null for absent ones.\<close>

theorem dict_set_get:
  assumes h: "pools_inv (heap m)" and st: "stack (vm m) = v # VString k # VDict c # st"
    and c: "c \<in> live (dict_pool (heap m))" "pool_read (dict_pool (heap m)) c = Some d"
    and d: "ht_inv d" "count d < HT_COUNT_SAFE"
    and k: "k \<in> live (string_pool (heap m))" "pool_read (string_pool (heap m)) k = Some key" "length key \<le> VM_KEY_MAX"
    and v: "val_ok (heap m) v"
  shows "\<exists>h' d'. lbl_index_set m = Some (Running (set_heap h' (set_stack st m))) \<and>
      stored (heap m) (ODict c) (CDict d') h' \<and> ht_inv d' \<and>
      (\<forall>s. dictmap_get d' s = (if c_str s = c_str key then Some v else dictmap_get d s)) \<and>
      (\<forall>l s. pool_read (string_pool h') l = Some s \<longrightarrow> length s \<le> VM_KEY_MAX \<longrightarrow>
         vm_index_get_compute (VDict c) (VString l) (set_heap h' (set_stack st m)) =
           Some (if c_str s = c_str key then v else case dictmap_get d s of None \<Rightarrow> VNull | Some u \<Rightarrow> u,
                 set_heap h' (set_stack st m)))"
proof -
  obtain h1 where h1: "gc_barrier_dict c v (heap m) = Some h1" "heap_ext (heap m) h1"
    by (rule gc_barrier_dict_ok [OF h c(1) v])
  have c1: "c \<in> live (dict_pool h1)" "pool_read (dict_pool h1) c = Some d"
    using heap_ext_obj(1) [OF h1(2), of "ODict c"] heap_ext_pool(3) [OF h1(2) c(1)] c by simp_all
  obtain d' where d': "dict_store d key v = Some d'" "ht_inv d'"
    "\<And>s. dictmap_get d' s = (if c_str s = c_str key then Some v else dictmap_get d s)"
    using dict_store_ok [OF d, of key v] by metis
  obtain h2 where h2: "write_dict c d' (set_heap h1 (set_stack st m)) =
      Some ((set_heap h1 (set_stack st m))\<lparr>heap := h2\<rparr>)" "stored h1 (ODict c) (CDict d') h2"
    using write_dict_ok [of "set_heap h1 (set_stack st m)" c] heap_ext_inv [OF h1(2)] c1
    by (metis set_parts(4))
  have s: "stored (heap m) (ODict c) (CDict d') h2" by (rule stored_ext [OF h1(2) h2(2)])
  have "lbl_index_set m = Some (Running (set_heap h2 (set_stack st m)))"
    using st c1 k h1 h2 d'(1) by (simp add: lbl_index_set_def pop_stack index_set_dict_def)
  moreover have "vm_index_get_compute (VDict c) (VString l) (set_heap h2 (set_stack st m)) =
      Some (if c_str s = c_str key then v else case dictmap_get d s of None \<Rightarrow> VNull | Some u \<Rightarrow> u,
            set_heap h2 (set_stack st m))"
    if "pool_read (string_pool h2) l = Some s" "length s \<le> VM_KEY_MAX" for l s
    using that stored_reads(2) [OF \<open>stored (heap m) (ODict c) (CDict d') h2\<close>] d'(3)
    by (simp add: vm_index_get_compute_def ret_def)
  ultimately show ?thesis using s d'(2,3) by blast
qed

theorem dict_set_get_witness:
  "\<exists>h c k h' d'. let m = stack_mach h [VInt 7, VString k, VDict c] in
     lbl_index_set m = Some (Running (set_heap h' (set_stack [] m))) \<and>
     pool_read (dict_pool h') c = Some d' \<and> dictmap_get d' ''ab'' = Some (VInt 7)"
proof -
  obtain c h where n: "new_dict heap_init (ht_zero True) = Some (VDict c, h)"
    "heap_ext heap_init h" "val_ok h (VDict c)" "dict_of h (VDict c) = Some (ht_zero True)"
    by (rule new_dict_ok [OF heap_init_inv]) (rule that)
  obtain k g where g: "aer_make_string h ''ab'' = Some (VString k, g)" "heap_ext h g"
    "val_ok g (VString k)" "str_of g (VString k) = Some ''ab''"
    by (rule aer_make_string_ok [OF heap_ext_inv [OF n(2)]]) (rule that)
  have "val_ok g (VDict c)" "dict_of g (VDict c) = Some (ht_zero True)"
    using heap_ext_val_ok [OF g(2) n(3)] heap_ext_reads(3) [OF g(2) n(3)] n(4) by simp_all
  then obtain h' d' where l: "lbl_index_set (stack_mach g [VInt 7, VString k, VDict c]) =
        Some (Running (set_heap h' (set_stack [] (stack_mach g [VInt 7, VString k, VDict c]))))"
      and s: "stored g (ODict c) (CDict d') h'"
      and d: "\<forall>s. dictmap_get d' s = (if c_str s = c_str ''ab'' then Some (VInt 7) else dictmap_get (ht_zero True) s)"
    using dict_set_get [of "stack_mach g [VInt 7, VString k, VDict c]" "VInt 7" k c "[]" "ht_zero True" "''ab''"]
      g heap_ext_inv [OF g(2)]
    by (auto simp: heap_reads HT_COUNT_SAFE_def VM_KEY_MAX_def)
  have "dictmap_get d' ''ab'' = Some (VInt 7)" using d by auto
  with l stored_reads(2) [OF s] show ?thesis unfolding Let_def by blast
qed

end
