(* ===== verification/Bounds.thy ===== *)
theory Bounds
  imports Calm
begin

text \<open>
  The arrays of the VM never overflow: the invariant of the operand stack, the call stack, the
  scopes and their slots, the pending captures and the deferred calls, kept by every instruction
  and so by every run, nested runs of file modules included. A run that ends with false has
  reported an error.
\<close>

section \<open>The invariant\<close>

definition scope_ok :: "aer_scope \<Rightarrow> bool" where
  "scope_ok s \<longleftrightarrow> length (slots s) = SCOPE_SLOT_MAX \<and> scount s \<le> SCOPE_SLOT_MAX"

definition frame_ok :: "call_frame \<Rightarrow> bool" where
  "frame_ok fr \<longleftrightarrow> length (defers fr) \<le> MAX_DEFERS_PER_CALL \<and>
     (\<forall>d \<in> set (defers fr). length (dargs d) \<le> MAX_DEFER_ARGS) \<and>
     0 < return_scope_depth fr \<and> return_scope_depth fr \<le> VM_SCOPE_MAX"

definition vm_bounds :: "vm \<Rightarrow> bool" where
  "vm_bounds v \<longleftrightarrow> stack_top v \<le> VM_STACK_MAX \<and> call_depth v \<le> VM_CALL_MAX \<and>
     length (scopes v) = VM_SCOPE_MAX \<and> 0 < scope_depth v \<and> scope_depth v \<le> VM_SCOPE_MAX \<and>
     length (pending_upvalues v) \<le> MAX_CAPTURES \<and>
     (\<forall>s \<in> set (scopes v). scope_ok s) \<and> (\<forall>fr \<in> set (call_stack v). frame_ok fr)"

definition bounds :: "mach \<Rightarrow> bool" where
  "bounds m \<longleftrightarrow> vm_bounds (vm m) \<and> cache_ok (chunk m) \<and>
     (\<forall>k \<in> set (modules m). vm_bounds (mod_vm k) \<and> cache_ok (mod_chunk k))"

fun outcome_ok :: "outcome \<Rightarrow> bool" where
  "outcome_ok (Running m) \<longleftrightarrow> bounds m"
| "outcome_ok (Stopped b m) \<longleftrightarrow> bounds m \<and> (b \<or> runtime_had_error m)"
| "outcome_ok (Nested i v c m) \<longleftrightarrow> bounds m \<and> vm_bounds v \<and> cache_ok c"
| "outcome_ok Overrun \<longleftrightarrow> False"

text \<open>A good outcome; \<open>P\<close> tells whether an access outside the arrays is excused.\<close>

definition good :: "bool \<Rightarrow> outcome option \<Rightarrow> bool" where
  "good P x \<longleftrightarrow> (\<forall>r. x = Some r \<longrightarrow> outcome_ok r \<or> P \<and> r = Overrun)"

lemma vm_bounds_ip [simp]: "vm_bounds (v\<lparr>ip := i\<rparr>) = vm_bounds v"
  by (simp add: vm_bounds_def)

lemma bounds_calm: "calm m m' \<Longrightarrow> bounds m \<Longrightarrow> bounds m'"
proof -
  assume c: "calm m m'" and b: "bounds m"
  have "scope_ok (scopes (vm m) ! 0)" using b by (simp add: bounds_def vm_bounds_def VM_SCOPE_MAX_def)
  then have "cache_ok (chunk m')" using b c by (simp add: bounds_def calm_def scope_ok_def)
  then show "bounds m'" using b c unfolding calm_def bounds_def by (metis vm_bounds_ip)
qed

lemma bounds_init: "bounds mach_init"
  by (simp add: bounds_def mach_init_def vm_init_def vm_bounds_def scope_zero_def scope_ok_def vm_limits cache_ok_def chunk_init_def)

lemma bounds_updates [simp]:
  "bounds (error s m) = bounds m" "bounds (m\<lparr>heap := h\<rparr>) = bounds m" "bounds (set_heap h m) = bounds m"
  "bounds (set_ip i m) = bounds m" "bounds (put_line l m) = bounds m"
  by (simp_all add: bounds_def set_heap_def set_ip_def put_line_def)

lemma cache_address_bounds [simp]: "bounds m \<Longrightarrow> bounds (cache_address name k a m)"
  by (rule bounds_calm [OF cache_address_calm])

lemma boundsD: "bounds m \<Longrightarrow> vm_bounds (vm m)" "bounds m \<Longrightarrow> k \<in> set (modules m) \<Longrightarrow> vm_bounds (mod_vm k)"
  "bounds m \<Longrightarrow> cache_ok (chunk m)" "bounds m \<Longrightarrow> k \<in> set (modules m) \<Longrightarrow> cache_ok (mod_chunk k)"
  by (simp_all add: bounds_def)

lemma bounds_vm [simp]: "bounds m \<Longrightarrow> bounds (m\<lparr>vm := v\<rparr>) \<longleftrightarrow> vm_bounds v"
  by (simp add: bounds_def)

section \<open>The operand stack\<close>

lemma vm_bounds_stack: "vm_bounds v \<Longrightarrow> length st \<le> VM_STACK_MAX \<Longrightarrow> vm_bounds (v\<lparr>stack := st\<rparr>)"
  by (simp add: vm_bounds_def)

lemma set_stack_bounds: "bounds m \<Longrightarrow> length st \<le> VM_STACK_MAX \<Longrightarrow> bounds (set_stack st m)"
  by (auto simp: set_stack_def bounds_def intro: vm_bounds_stack)

lemma stack_bound: "bounds m \<Longrightarrow> stack_top (vm m) \<le> VM_STACK_MAX"
  by (simp add: bounds_def vm_bounds_def)

lemma shorter_stack_bounds: "bounds m \<Longrightarrow> length st \<le> stack_top (vm m) \<Longrightarrow> bounds (set_stack st m)"
  using stack_bound [of m] by (intro set_stack_bounds) auto

lemma pop_bounds: "pop m = (v, m') \<Longrightarrow> bounds m \<Longrightarrow> bounds m'"
  using shorter_stack_bounds [of m] by (auto simp: pop_def split: list.splits)

lemma pops_bounds: "pops n m = (vs, m') \<Longrightarrow> bounds m \<Longrightarrow> bounds m'"
  by (induction n arbitrary: vs m m') (auto split: prod.splits dest: pop_bounds)

lemma pops_length: "pops n m = (vs, m') \<Longrightarrow> length vs = n"
  by (induction n arbitrary: vs m m') (auto split: prod.splits)

section \<open>Rules\<close>

lemma good_None [simp]: "good P None"
  by (simp add: good_def)

lemma good_Some [simp]: "good P (Some r) \<longleftrightarrow> outcome_ok r \<or> P \<and> r = Overrun"
  by (simp add: good_def)

lemma good_bind: "(\<And>a. x = Some a \<Longrightarrow> good P (f a)) \<Longrightarrow> good P (x \<bind> f)"
  by (cases x) simp_all

lemma bind_SomeE:
  assumes "x \<bind> f = Some r" obtains a where "x = Some a" "f a = Some r"
  using assms by (cases x) auto

lemma if_SomeE:
  assumes "(if b then x else y) = Some r" obtains "b" "x = Some r" | "\<not> b" "y = Some r"
  using assms by (cases b) auto

lemma good_if: "good P x \<Longrightarrow> good P y \<Longrightarrow> good P (if b then x else y)"
  by simp

lemma good_running: "(\<And>m. x = Some m \<Longrightarrow> bounds m) \<Longrightarrow> good P (map_option Running x)"
  by (cases x) simp_all

lemma good_then_do: "good P x \<Longrightarrow> (\<And>m. x = Some (Running m) \<Longrightarrow> good P (f m)) \<Longrightarrow> good P (then_do x f)"
  by (cases "(x, f)" rule: then_do.cases) (auto simp: good_def)

lemma good_push_with:
  assumes "bounds m" "\<And>v m'. e m = Some (v, m') \<Longrightarrow> calm m m'"
  shows "good P (push_with e m)"
proof -
  have "bounds (set_stack (v # stack (vm m')) m')" if "e m = Some (v, m')" "stack_top (vm m) < VM_STACK_MAX" for v m'
  proof (rule set_stack_bounds)
    have c: "calm m m'" by (rule assms(2) [OF that(1)])
    show "bounds m'" by (rule bounds_calm [OF c assms(1)])
    have "stack (vm m') = stack (vm m)" using c unfolding calm_def by (metis vm.select_convs(2) vm.surjective vm.update_convs(1))
    then show "length (v # stack (vm m')) \<le> VM_STACK_MAX" using that(2) by simp
  qed
  then show ?thesis using assms(1) by (auto simp: push_with_def split: Option.bind_splits)
qed

lemma good_push [intro]: "bounds m \<Longrightarrow> good P (push v m)"
  by (auto simp: push_def intro: good_push_with ret_calm)

lemma push_running:
  "push v m = Some (Running m') \<Longrightarrow> stack (vm m') = v # stack (vm m) \<and> stack_top (vm m) < VM_STACK_MAX"
  by (auto simp: push_def push_with_def ret_def split: if_splits)

lemma good_running_bounds: "good P x \<Longrightarrow> x = Some (Running m) \<Longrightarrow> bounds m"
  by (simp add: good_def)

lemma push_bounds: "push v m = Some (Running m') \<Longrightarrow> bounds m \<Longrightarrow> bounds m'"
  using good_push good_running_bounds by blast

section \<open>Variables\<close>

lemma vm_bounds_scope:
  "vm_bounds v \<Longrightarrow> (i < length (scopes v) \<Longrightarrow> scope_ok s) \<Longrightarrow> vm_bounds (set_scope i s v)"
  using set_update_subset_insert [of "scopes v" i s]
  by (cases "i < length (scopes v)") (auto simp: vm_bounds_def set_scope_def list_update_beyond)

lemma scope_at: "vm_bounds v \<Longrightarrow> i < length (scopes v) \<Longrightarrow> scope_ok (scopes v ! i)"
  by (simp add: vm_bounds_def)

lemma vm_bounds_slot: "vm_bounds v \<Longrightarrow> vm_bounds (set_slot i j x v)"
  unfolding set_slot_def by (rule vm_bounds_scope) (auto simp: scope_ok_def dest: scope_at)

lemma write_addr_bounds: "write_addr a x m = Some m' \<Longrightarrow> bounds m \<Longrightarrow> bounds m'"
  by (auto simp: write_addr_def vm_bounds_slot boundsD split: addr.splits if_splits)

lemma vm_write_local_bounds: "vm_write_local_slot j x m = Some m' \<Longrightarrow> bounds m \<Longrightarrow> bounds m'"
  by (auto simp: vm_write_local_slot_def split: Option.bind_splits dest: write_addr_bounds)

lemma define_overflow_bounds:
  assumes "define_overflow i name x m = Some m'" "bounds m" "i < length (scopes (vm m))"
  shows "bounds m'"
proof -
  have b: "vm_bounds (set_scope i ((scopes (vm m) ! i)\<lparr>overflow := True\<rparr>) (vm m))"
    "vm_bounds (set_scope i ((scopes (vm m) ! i)\<lparr>overflow := True, smap := t\<rparr>) (vm m))" for t
    using boundsD(1) [OF assms(2)] by (auto intro!: vm_bounds_scope simp: scope_ok_def dest: scope_at)
  show ?thesis
    using assms(1,2) b
    by (auto simp: define_overflow_def Let_def new_ovf_def boundsD split: Option.bind_splits option.splits
        elim!: write_addr_bounds)
qed

lemma vm_scope_define_bounds: "vm_scope_define name x m = Some m' \<Longrightarrow> bounds m \<Longrightarrow> bounds m'"
  using boundsD [of m] scope_at [of "vm m" "scope_depth (vm m) - 1"]
  by (auto simp: vm_scope_define_def Let_def scope_ok_def split: if_splits option.splits
      intro!: vm_bounds_scope elim: write_addr_bounds define_overflow_bounds)

lemma box_walk_bounds: "box_walk is name m = Some (r, m') \<Longrightarrow> bounds m \<Longrightarrow> bounds m'"
proof (induction "is" name m rule: box_walk.induct)
  case (2 i "is" name m)
  have "i < length (scopes (vm m)) \<Longrightarrow> scope_ok (scopes (vm m) ! i)" using 2(4) by (auto dest: boundsD scope_at)
  then show ?case
    using 2 boundsD [OF 2(4)]
    by (auto simp: Let_def vm_bounds_slot scope_ok_def split: option.splits if_splits Option.bind_splits
        intro!: vm_bounds_scope)
qed simp

lemma vm_box_slot_bounds: "vm_box_slot name m = Some (r, m') \<Longrightarrow> bounds m \<Longrightarrow> bounds m'"
  using box_walk_bounds [of "visible_scopes (vm m)" name m] bounds_calm [OF not_defined_calm]
  by (fastforce simp: vm_box_slot_def split: Option.bind_splits option.splits)

section \<open>Addresses\<close>

lemma walk_fits:
  "walk_scopes h c v is name = Some (Some a) \<Longrightarrow> vm_bounds v \<Longrightarrow> \<forall>i \<in> set is. i < length (scopes v) \<Longrightarrow> addr_fits v a"
proof (induction "is")
  case (Cons i "is")
  then have "scope_ok (scopes v ! i)" "i < length (scopes v)" using scope_at by auto
  then show ?case using Cons
    by (auto simp: scope_addr_def Let_def slot_addr_def addr_fits_def scope_ok_def find_slot_def find_Some_iff
        split: Option.bind_splits option.splits if_splits)
qed simp

lemma lookup_fits: "vm_scope_get h c v name = Some (Some a) \<Longrightarrow> vm_bounds v \<Longrightarrow> addr_fits v a"
  unfolding vm_scope_get_def
  by (erule walk_fits) (auto simp: visible_scopes_def Let_def vm_bounds_def)

lemma cached_fits:
  assumes "bounds m" "cached m k = Some (Some j)"
  shows "addr_fits (vm m) (ASlot 0 j)"
proof -
  have "Some j \<in> set (addr_cache (chunk m))" using assms(2) by (auto simp: cached_def split: if_splits dest: nth_mem)
  then have "j < SCOPE_SLOT_MAX" using boundsD(3) [OF assms(1)] by (simp add: cache_ok_def)
  moreover have "0 < length (scopes (vm m))" using boundsD(1) [OF assms(1)] by (simp add: vm_bounds_def VM_SCOPE_MAX_def)
  ultimately show ?thesis using scope_at [OF boundsD(1) [OF assms(1)], of 0] by (simp add: addr_fits_def scope_ok_def)
qed

lemma cache_address_vm [simp]: "vm (cache_address name k a m) = vm m"
  by (simp add: cache_address_def split: option.split)

lemma find_cached_fits:
  assumes "bounds m" "find_cached name k m = Some (Some a, m')"
  shows "addr_fits (vm m') a"
proof -
  obtain c where c: "cached m k = Some c" using assms(2) by (auto simp: find_cached_def split: Option.bind_splits)
  then show ?thesis
    using assms(2) cached_fits [OF assms(1), of k] lookup_fits [OF _ boundsD(1) [OF assms(1)], of "heap m" "chunk m" name]
    by (cases c) (auto simp: find_cached_def split: Option.bind_splits option.splits)
qed

lemma resolve_name_fits:
  assumes "bounds m" "vm_resolve_name_cached name k m = Some (Some a, m')"
  shows "addr_fits (vm m') a"
proof (cases "addr_cache (chunk m) ! k")
  case None
  then show ?thesis using assms(2) lookup_fits [OF _ boundsD(1) [OF assms(1)], of "heap m" "chunk m" name]
    by (auto simp: vm_resolve_name_cached_def split: Option.bind_splits option.splits if_splits)
next
  case (Some j)
  then show ?thesis using assms(2) cached_fits [OF assms(1), of k j]
    by (auto simp: vm_resolve_name_cached_def cached_def split: if_splits)
qed

lemma define_var_good: "bounds m \<Longrightarrow> good P (define_var name v m)"
  using boundsD(1) [of m] by (auto simp: define_var_def vm_bounds_def intro!: good_running dest: vm_scope_define_bounds)

lemma write_to_good: "bounds m \<Longrightarrow> addr_fits (vm m) a \<Longrightarrow> good P (write_to a v m)"
  by (auto simp: write_to_def intro!: good_running dest: write_addr_bounds)

lemma write_to_bounds: "write_to a v m = Some (Running m') \<Longrightarrow> bounds m \<Longrightarrow> bounds m'"
  by (auto simp: write_to_def split: if_splits dest: write_addr_bounds)

lemma push_from_good: "bounds m \<Longrightarrow> addr_fits (vm m) a \<Longrightarrow> good P (push_from a m)"
  by (auto simp: push_from_def split: Option.bind_splits intro!: good_push_with)

section \<open>Operands that are local slots\<close>

text \<open>
  Which operand words of an instruction are numbers of local slots. C uses them unchecked: they
  have to be numbers of parameters, of which the compiler allows as many as a scope has slots
  (\<open>MAX_PARAMS\<close>), and the function has to have entered its scope.
\<close>

fun slot_operands :: "opcode \<Rightarrow> nat list" where
  "slot_operands OP_LOAD_LOCAL = [0]" | "slot_operands OP_STORE_LOCAL = [0]" | "slot_operands OP_DEFINE_LOCAL = [0]"
| "slot_operands OP_COMPOUND_LOCAL_CONST = [0]" | "slot_operands OP_COMPOUND_LOCAL_LOCAL = [0, 2]"
| "slot_operands OP_COMPOUND_LOCAL_NAME = [0]" | "slot_operands OP_COMPOUND_NAME_LOCAL = [3]"
| "slot_operands OP_INDEX_GET_LOCAL_CONST = [0]" | "slot_operands OP_INDEX_GET_LOCAL_LOCAL = [0, 1]"
| "slot_operands OP_INDEX_GET_LOCAL_NAME = [0]" | "slot_operands OP_INDEX_GET_NAME_LOCAL = [2]"
| "slot_operands _ = []"

text \<open>The machine is at the first operand.\<close>

definition slots_ok :: "opcode \<Rightarrow> mach \<Rightarrow> bool" where
  "slots_ok op m \<longleftrightarrow>
     (\<forall>k \<in> set (slot_operands op). code (chunk m) ! (ip (vm m) + k) < int SCOPE_SLOT_MAX) \<and>
     (slot_operands op \<noteq> [] \<longrightarrow> op \<noteq> OP_DEFINE_LOCAL \<longrightarrow> vm_scope_floor (vm m) < VM_SCOPE_MAX)"

lemma read_natD: "read_nat m = Some (x, m') \<Longrightarrow> m' = set_ip (ip (vm m) + 1) m \<and> code (chunk m) ! ip (vm m) = int x"
  by (auto simp: read_nat_def read_word_def split: if_splits)

lemma read_opD: "read_op m = Some (x, m') \<Longrightarrow> m' = set_ip (ip (vm m) + 1) m"
  by (auto simp: read_op_def read_word_def split: if_splits Option.bind_splits)

lemma local_addr_cong: "scopes v' = scopes v \<Longrightarrow> call_stack v' = call_stack v \<Longrightarrow> local_addr v' = local_addr v"
  by (simp add: local_addr_def vm_scope_floor_def slot_addr_def fun_eq_iff Let_def)

lemma set_ip_parts [simp]:
  "ip (vm (set_ip i m)) = i" "chunk (set_ip i m) = chunk m" "local_addr (vm (set_ip i m)) = local_addr (vm m)"
  "set_ip i (set_ip k m) = set_ip i m"
  by (simp_all add: set_ip_def) (rule local_addr_cong; simp)

lemma calm_local: "calm m m' \<Longrightarrow> local_addr (vm m') = local_addr (vm m)"
  unfolding calm_def by (intro local_addr_cong) (metis vm.select_convs vm.surjective vm.update_convs(1))+

lemma slot_fits:
  assumes "slots_ok op m" "k \<in> set (slot_operands op)" "op \<noteq> OP_DEFINE_LOCAL" "bounds m" "code (chunk m) ! (ip (vm m) + k) = int j"
  shows "local_addr (vm m) j \<noteq> None"
proof -
  have "j < SCOPE_SLOT_MAX" using assms(1,2,5) by (auto simp: slots_ok_def)
  moreover have "vm_scope_floor (vm m) < VM_SCOPE_MAX" using assms(1-3) by (auto simp: slots_ok_def)
  ultimately show ?thesis using boundsD(1) [OF assms(4)] scope_at [OF boundsD(1) [OF assms(4)]]
    by (simp add: local_addr_def vm_bounds_def scope_ok_def Let_def)
qed

section \<open>Handlers\<close>

lemmas keep = calm_facts [THEN bounds_calm]

lemmas keep_more = pop_bounds pops_bounds push_bounds write_addr_bounds vm_write_local_bounds
  vm_scope_define_bounds vm_box_slot_bounds

lemmas goods = good_bind good_running good_then_do good_push_with good_push

lemma lbl_push_good: "bounds m \<Longrightarrow> good P (lbl_push m)"
  by (auto simp: lbl_push_def split: Option.bind_splits intro!: good_push_with)
    (erule read_nat_calm)

lemma lbl_load_good:
  assumes "bounds m"
  shows "good P (lbl_load m)"
proof -
  have "good P (case r of None \<Rightarrow> do { m \<leftarrow> not_defined name m2; push VNull m } | Some a \<Rightarrow> push_from a m2)"
    if "find_cached name k m1 = Some (r, m2)" "bounds m1" for name k m1 r m2
    using that find_cached_fits [of m1 name k _ m2] bounds_calm [OF find_cached_calm [OF that(1)] that(2)]
    by (auto split: option.split intro!: good_bind push_from_good dest!: bounds_calm [OF not_defined_calm])
  then show ?thesis using assms by (auto simp: lbl_load_def intro!: good_bind dest!: bounds_calm [OF read_nat_calm])
qed

lemma lbl_store_good: "bounds m \<Longrightarrow> good P (lbl_store m)"
  by (auto simp: lbl_store_def Let_def split: option.split prod.split
      intro!: good_bind good_then_do define_var_good write_to_good cached_fits
      elim!: lookup_fits [OF _ boundsD(1)] dest!: keep keep_more write_to_bounds)

lemma lbl_define_good: "bounds m \<Longrightarrow> good P (lbl_define m)"
  by (auto simp: lbl_define_def Let_def split: option.split prod.split intro!: good_bind define_var_good dest!: keep keep_more)

lemma pop_local: "pop m = (v, m') \<Longrightarrow> local_addr (vm m') = local_addr (vm m)"
  by (intro local_addr_cong) (auto simp: pop_def set_stack_def split: list.splits)

lemma lbl_load_local_good:
  assumes "bounds m"
  shows "good (\<not> slots_ok OP_LOAD_LOCAL m) (lbl_load_local m)"
  using assms slot_fits [of OP_LOAD_LOCAL m 0]
  by (auto simp: lbl_load_local_def split: Option.bind_splits intro!: good_bind good_push_with dest!: read_natD)

lemma lbl_store_local_good:
  assumes "bounds m"
  shows "good (\<not> slots_ok OP_STORE_LOCAL m) (lbl_store_local m)"
  using assms slot_fits [of OP_STORE_LOCAL m 0]
  by (auto simp: lbl_store_local_def Let_def pop_local split: prod.split intro!: good_bind good_running
      intro: pop_bounds dest!: read_natD keep_more)

lemma set_scope_bounds:
  assumes "bounds m" "i < length (scopes (vm m))" "scope_ok (scopes (vm m) ! i) \<Longrightarrow> scope_ok s"
  shows "bounds (m\<lparr>vm := set_scope i s (vm m)\<rparr>)"
  using assms by (auto simp: bounds_def intro!: vm_bounds_scope dest: scope_at)

lemma lbl_define_local_good:
  assumes "bounds m"
  shows "good (\<not> slots_ok OP_DEFINE_LOCAL m) (lbl_define_local m)"
proof -
  have "good (\<not> slots_ok OP_DEFINE_LOCAL m) (let (v, m) = pop m2; i = scope_depth (vm m) - 1; s = scopes (vm m) ! i
      in if scope_depth (vm m) = 0 \<or> length (scopes (vm m)) \<le> i \<or> length (slots s) \<le> slot then Some Overrun
         else Some (Running (m\<lparr>vm := set_scope i
                (s\<lparr>slots := (slots s)[slot := \<lparr>sl_name = name, sl_val = v, sl_box = None\<rparr>],
                   scount := max (scount s) (slot + 1)\<rparr>) (vm m)\<rparr>)))"
    if "bounds m2" "code (chunk m) ! ip (vm m) = int slot" for slot name m2
  proof (cases "pop m2")
    case (Pair v m3)
    have b: "bounds m3" using pop_bounds [OF Pair that(1)] .
    let ?i = "scope_depth (vm m3) - 1"
    have i: "0 < scope_depth (vm m3)" "?i < length (scopes (vm m3))" using boundsD(1) [OF b] by (auto simp: vm_bounds_def)
    have s: "scope_ok (scopes (vm m3) ! ?i)" using scope_at [OF boundsD(1) [OF b] i(2)] .
    show ?thesis using that(2) b i s Pair
      by (auto simp: Let_def slots_ok_def scope_ok_def intro!: set_scope_bounds simp del: bounds_vm)
  qed
  then show ?thesis using assms by (auto simp: lbl_define_local_def Let_def intro!: good_bind dest!: read_natD)
qed

text \<open>The sources of fused instructions.\<close>

lemma resolve_fits:
  assumes "resolve x m = Some (Some l, m')" "bounds m" "\<And>j. x = ByLocal j \<Longrightarrow> local_addr (vm m) j \<noteq> None"
  shows "source_fits (vm m') l"
  using assms resolve_name_fits [OF assms(2)]
  by (auto simp: resolve_def source_fits_def split: operand.splits Option.bind_splits if_splits)

lemma resolves:
  assumes "resolve x m = Some (l, m')" "bounds m"
  shows "bounds m'" "local_addr (vm m') = local_addr (vm m)"
  using bounds_calm [OF resolve_calm [OF assms(1)] assms(2)] calm_local [OF resolve_calm [OF assms(1)]] .

definition excused :: "bool \<Rightarrow> operand \<Rightarrow> mach \<Rightarrow> bool" where
  "excused P x m \<longleftrightarrow> (\<forall>j. x = ByLocal j \<longrightarrow> local_addr (vm m) j = None \<longrightarrow> P)"

lemma resolve_good:
  assumes "resolve x m = Some (Some l, m')" "bounds m" "excused P x m" "\<not> source_fits (vm m') l"
  shows P
  using resolve_fits [OF assms(1,2)] assms(3,4) by (auto simp: excused_def)

text \<open>What the fused instructions do with their two operands.\<close>

lemma operands_good:
  assumes m: "bounds m" and xy: "excused P x m" "excused P y m" and body: "\<And>l r m2. bounds m2 \<Longrightarrow> good P (f l r m2)"
  shows "good P (do { (l, m) \<leftarrow> resolve x m;
    case l of
      None \<Rightarrow> Some (Running m)
    | Some l \<Rightarrow>
        if \<not> source_fits (vm m) l then Some Overrun
        else do { (r, m) \<leftarrow> resolve y m;
             case r of
               None \<Rightarrow> Some (Running m)
             | Some r \<Rightarrow> if \<not> source_fits (vm m) r then Some Overrun else f l r m } })"
proof (intro good_bind, split prod.split, intro allI impI)
  fix q l m1 assume q: "resolve x m = Some q" "q = (l, m1)"
  then have m1: "bounds m1" "local_addr (vm m1) = local_addr (vm m)" using resolves [OF _ m] by auto
  have y: "excused P y m1" using xy(2) m1(2) by (simp add: excused_def)
  have "good P (do { (r, m) \<leftarrow> resolve y m1;
      case r of None \<Rightarrow> Some (Running m) | Some r \<Rightarrow> if \<not> source_fits (vm m) r then Some Overrun else f k r m })" for k
  proof (intro good_bind, split prod.split, intro allI impI)
    fix q r m2 assume q: "resolve y m1 = Some q" "q = (r, m2)"
    then have "bounds m2" using resolves(1) [OF _ m1(1)] by auto
    then show "good P (case r of None \<Rightarrow> Some (Running m2) | Some r \<Rightarrow> if \<not> source_fits (vm m2) r then Some Overrun else f k r m2)"
      using body resolve_good [of y m1 _ m2 P] q m1(1) y by (auto split: option.split)
  qed
  then show "good P (case l of None \<Rightarrow> Some (Running m1) | Some l \<Rightarrow>
      if \<not> source_fits (vm m1) l then Some Overrun
      else do { (r, m) \<leftarrow> resolve y m1;
           case r of None \<Rightarrow> Some (Running m) | Some r \<Rightarrow> if \<not> source_fits (vm m) r then Some Overrun else f l r m })"
    using m1(1) resolve_good [of x m _ m1 P] q m xy(1) by (auto split: option.split)
qed

lemma compound_good: "bounds m \<Longrightarrow> excused P x m \<Longrightarrow> excused P y m \<Longrightarrow> good P (compound x y op m)"
  unfolding compound_def
  by (rule operands_good)
    (auto simp: source_write_def split: source.splits intro!: good_bind good_running dest!: keep keep_more)

lemma compound_handlers_good:
  assumes "bounds m"
  shows "good P (lbl_compound_name_const m)" "good P (lbl_compound_name_name m)"
    "good (\<not> slots_ok OP_COMPOUND_LOCAL_CONST m) (lbl_compound_local_const m)"
    "good (\<not> slots_ok OP_COMPOUND_LOCAL_LOCAL m) (lbl_compound_local_local m)"
    "good (\<not> slots_ok OP_COMPOUND_LOCAL_NAME m) (lbl_compound_local_name m)"
    "good (\<not> slots_ok OP_COMPOUND_NAME_LOCAL m) (lbl_compound_name_local m)"
  using assms slot_fits [of OP_COMPOUND_LOCAL_CONST m 0] slot_fits [of OP_COMPOUND_LOCAL_LOCAL m 0]
    slot_fits [of OP_COMPOUND_LOCAL_LOCAL m 2] slot_fits [of OP_COMPOUND_LOCAL_NAME m 0] slot_fits [of OP_COMPOUND_NAME_LOCAL m 3]
  by (auto simp: lbl_compound_name_const_def lbl_compound_name_name_def lbl_compound_local_const_def
      lbl_compound_local_local_def lbl_compound_local_name_def lbl_compound_name_local_def excused_def
      eval_nat_numeral intro!: good_bind compound_good dest!: read_natD read_opD)

lemma lbl_binary_good: "bounds m \<Longrightarrow> good P (lbl_binary op m)"
  by (auto simp: lbl_binary_def split: prod.split intro!: goods dest!: keep_more intro: vm_binary_calm)

lemma lbl_negate_good: "bounds m \<Longrightarrow> good P (lbl_negate m)"
  by (auto simp: lbl_negate_def fail_push_def split: prod.split val.split Option.bind_splits
      intro!: goods dest!: keep_more intro: ret_int_calm)

lemma lbl_not_good: "bounds m \<Longrightarrow> good P (lbl_not m)"
  by (auto simp: lbl_not_def split: prod.split Option.bind_splits intro!: goods dest!: keep_more intro: ret_calm)

lemma lbl_bitwise_not_good: "bounds m \<Longrightarrow> good P (lbl_bitwise_not m)"
  by (auto simp: lbl_bitwise_not_def fail_push_def split: prod.split Option.bind_splits
      intro!: goods dest!: keep_more intro: ret_int_calm)

lemma lbl_jump_good: "bounds m \<Longrightarrow> good P (lbl_jump m)"
  by (auto simp: lbl_jump_def intro!: goods dest!: keep)

lemma jump_when_good: "bounds m \<Longrightarrow> good P (jump_when b m)"
  by (auto simp: jump_when_def Let_def split: prod.split intro!: goods dest!: keep keep_more)

lemma lbl_push_scope_good: "bounds m \<Longrightarrow> good P (lbl_push_scope m)"
  using boundsD [of m] scope_at [of "vm m" "scope_depth (vm m)"]
  by (auto simp: lbl_push_scope_def Let_def intro!: vm_bounds_scope)
    (auto simp: vm_bounds_def scope_ok_def)

text \<open>Leaving a scope, as long as one is left.\<close>

lemma leave_scope_bounds:
  assumes "bounds m" "1 < scope_depth (vm m)"
  shows "bounds (leave_scope m)" "scope_depth (vm (leave_scope m)) = scope_depth (vm m) - 1"
    "stack (vm (leave_scope m)) = stack (vm m)" "call_stack (vm (leave_scope m)) = call_stack (vm m)"
proof -
  let ?d = "scope_depth (vm m) - 1"
  have b: "vm_bounds ((vm m)\<lparr>scope_depth := ?d\<rparr>)" using boundsD(1) [OF assms(1)] assms(2) by (auto simp: vm_bounds_def)
  have "scope_ok (scopes (vm m) ! ?d)" using boundsD(1) [OF assms(1)] assms(2)
    by (intro scope_at) (auto simp: vm_bounds_def)
  then have "vm_bounds (set_scope ?d ((scopes (vm m) ! ?d)\<lparr>smap := t\<rparr>) ((vm m)\<lparr>scope_depth := ?d\<rparr>))" for t
    by (intro vm_bounds_scope [OF b]) (simp add: scope_ok_def)
  then show "bounds (leave_scope m)"
    using assms(1) b by (auto simp: leave_scope_def Let_def boundsD(2) split: prod.split)
  show "scope_depth (vm (leave_scope m)) = scope_depth (vm m) - 1"
    "stack (vm (leave_scope m)) = stack (vm m)" "call_stack (vm (leave_scope m)) = call_stack (vm m)"
    by (simp_all add: leave_scope_def Let_def set_scope_def split: prod.split)
qed

lemma leave_scopes_bounds:
  assumes "bounds m" "0 < d"
  shows "bounds (leave_scopes d m) \<and> stack (vm (leave_scopes d m)) = stack (vm m) \<and>
    call_stack (vm (leave_scopes d m)) = call_stack (vm m)"
proof -
  have "n < scope_depth (vm m) \<Longrightarrow> bounds ((leave_scope ^^ n) m) \<and>
      scope_depth (vm ((leave_scope ^^ n) m)) = scope_depth (vm m) - n \<and>
      stack (vm ((leave_scope ^^ n) m)) = stack (vm m) \<and>
      call_stack (vm ((leave_scope ^^ n) m)) = call_stack (vm m)" for n
  proof (induction n)
    case (Suc n)
    then show ?case using leave_scope_bounds [of "(leave_scope ^^ n) m"] by simp
  qed (use assms in simp)
  moreover have "scope_depth (vm m) - d < scope_depth (vm m)"
    using assms by (simp add: bounds_def vm_bounds_def)
  ultimately show ?thesis by (simp add: leave_scopes_def)
qed

lemma lbl_pop_scope_good: "bounds m \<Longrightarrow> good P (lbl_pop_scope m)"
  using leave_scope_bounds(1) [of m] boundsD(1) [of m] by (auto simp: lbl_pop_scope_def vm_bounds_def)

lemma lbl_print_repl_good: "bounds m \<Longrightarrow> good P (lbl_print_repl m)"
  by (auto simp: lbl_print_repl_def split: prod.split intro!: goods dest!: keep_more)

section \<open>Calls\<close>

lemma push_all_good: "bounds m \<Longrightarrow> good P (push_all vs m)"
  by (induction vs arbitrary: m) (auto intro!: good_then_do dest!: push_bounds)

lemma push_result_good:
  "bounds m \<Longrightarrow> (\<And>v m'. r = Some (v, m') \<Longrightarrow> calm m m') \<Longrightarrow> good P (push_result r)"
  by (auto simp: push_result_def intro!: good_bind good_push intro: bounds_calm)

lemma fail_push_good [intro]: "bounds m \<Longrightarrow> good P (fail_push s m)"
  by (auto simp: fail_push_def)

lemma snd_pops_bounds [intro]: "bounds m \<Longrightarrow> bounds (snd (pops n m))"
  using pops_bounds [of n m] by (cases "pops n m") simp

lemma fail_pops_good [intro]: "bounds m \<Longrightarrow> good P (fail_pops s n m)"
  by (auto simp: fail_pops_def intro!: good_push snd_pops_bounds)

lemma inline_length_calm: "inline_length a m = Some (v, m') \<Longrightarrow> calm m m'"
  by (auto simp: inline_length_def split: if_splits intro: builtin_length_calm fail_calm)

lemma struct_call_good: "bounds m \<Longrightarrow> good P (struct_call name s n m)"
  by (auto simp: struct_call_def split: prod.split intro!: good_bind push_result_good
      dest!: pops_bounds intro: struct_new_calm)

lemma inline_builtin_good:
  assumes "bounds m"
  shows "good P (inline_builtin name n m)"
proof -
  obtain x m1 where p1: "pop m = (x, m1)" by (cases "pop m")
  obtain y m2 where p2: "pop m1 = (y, m2)" by (cases "pop m1")
  note p = p1 p2
  note b = pop_bounds [OF p(1) assms] pop_bounds [OF p(2) pop_bounds [OF p(1) assms]]
  have "good P (case r of Some s \<Rightarrow> struct_call name s n m | None \<Rightarrow> fail_pops (quoted name @ '' is not defined'') n m)" for r
    using assms by (auto simp: struct_call_good split: option.split)
  note c = this
  show ?thesis
    unfolding inline_builtin_def p Let_def prod.case
    by (intro good_if good_bind c;
        ((rule push_result_good [OF b(1)], erule inline_length_calm builtin_print_calm builtin_type_calm builtin_panic_calm) |
        (rule push_result_good [OF b(2)], erule builtin_delete_calm builtin_append_calm builtin_assert_calm)))
qed

lemma enter_bounds:
  assumes "bounds m" "call_depth (vm m) < VM_CALL_MAX"
  shows "bounds (enter rip fp f m)"
  using assms by (auto simp: enter_def bounds_def vm_bounds_def frame_ok_def new_frame_def)

lemma plain_call_good: "bounds m \<Longrightarrow> good P (plain_call fp f m)"
  by (auto simp: plain_call_def intro: enter_bounds)

lemma set_frame_bounds:
  assumes "bounds m" "call_stack (vm m) = fr # frs" "frame_ok fr'"
  shows "bounds (set_frame fr' m)"
  using assms by (auto simp: set_frame_def bounds_def vm_bounds_def)

lemma top_frame_ok: "bounds m \<Longrightarrow> call_stack (vm m) = fr # frs \<Longrightarrow> frame_ok fr"
  by (simp add: bounds_def vm_bounds_def)

lemma tail_call_good:
  assumes "bounds m"
  shows "good P (tail_call fp f m)"
proof (cases "call_stack (vm m)")
  case (Cons fr frs)
  have f: "frame_ok fr" by (rule top_frame_ok [OF assms Cons])
  let ?m = "leave_scopes (return_scope_depth fr) m"
  have "bounds ?m" "call_stack (vm ?m) = fr # frs"
    using leave_scopes_bounds [OF assms] f Cons by (auto simp: frame_ok_def)
  then have "bounds (?m\<lparr>vm := (vm ?m)\<lparr>call_stack := fr\<lparr>fr_upvalues := upvalues f, fr_function := Some fp\<rparr> # frs,
      ip := code_offset f\<rparr>\<rparr>)"
    using f by (auto simp: bounds_def vm_bounds_def frame_ok_def)
  then show ?thesis using assms Cons by (auto simp: tail_call_def Let_def intro: plain_call_good)
qed (simp add: tail_call_def)

lemma call_function_good:
  assumes "bounds m"
  shows "good P (call_function name fv n op m)"
proof (cases fv)
  case (VFunction fp)
  have "good P (push_all ds m)" for ds by (rule push_all_good [OF assms])
  note r = good_running_bounds [OF this]
  show ?thesis
    unfolding call_function_def VFunction val.case
    by (intro good_bind good_if good_then_do push_all_good fail_pops_good tail_call_good plain_call_good assms; rule r)
qed (use assms in \<open>auto simp: call_function_def\<close>)

lemma lbl_call_good: "bounds m \<Longrightarrow> good P (lbl_call op m)"
  by (auto simp: lbl_call_def split: option.split intro!: good_bind inline_builtin_good call_function_good
      dest!: keep)

lemma finish_return_good:
  assumes "bounds m"
  shows "good P (finish_return m)"
proof (cases "call_stack (vm m)")
  case (Cons fr frs)
  let ?m = "leave_scopes (return_scope_depth fr) m"
  have "bounds ?m" "call_stack (vm ?m) = fr # frs"
    using leave_scopes_bounds [OF assms] top_frame_ok [OF assms Cons] Cons by (auto simp: frame_ok_def)
  then have "bounds (?m\<lparr>vm := (vm ?m)\<lparr>call_stack := frs, ip := return_ip fr\<rparr>\<rparr>)"
    by (auto simp: bounds_def vm_bounds_def)
  then show ?thesis using Cons by (auto simp: finish_return_def Let_def)
qed (simp add: finish_return_def)

lemma vm_setup_call_bounds:
  assumes "vm_setup_call fv n rip m = Some (ok, m')" "bounds m"
  shows "bounds m'"
proof -
  have "bounds (enter rip fp f (m\<lparr>vm := (vm m)\<lparr>stack := rev ds @ stack (vm m)\<rparr>\<rparr>))"
    if "missing_defaults f n = Some ds" "\<not> VM_CALL_MAX \<le> call_depth (vm m)"
      "\<not> (n < arity f \<and> VM_STACK_MAX < stack_top (vm m) + (arity f - n))" for f fp ds
  proof (rule enter_bounds)
    have "length ds \<le> arity f - n" using that(1) by (auto simp: missing_defaults_def split: if_splits option.splits)
    then show "bounds (m\<lparr>vm := (vm m)\<lparr>stack := rev ds @ stack (vm m)\<rparr>\<rparr>)"
      using that(3) assms(2) by (cases "n < arity f") (auto simp: bounds_def vm_bounds_def)
  qed (use that in simp)
  note e = this
  show ?thesis
  proof (cases fv)
    case (VFunction fp)
    show ?thesis
      using assms(1) unfolding vm_setup_call_def VFunction val.case
      by (elim bind_SomeE if_SomeE) (auto simp: assms(2) intro: e simp del: bounds_vm not_le not_less)
  qed (use assms in \<open>auto simp: vm_setup_call_def\<close>)
qed

lemma run_defers_good:
  assumes "bounds m" "length ds \<le> MAX_DEFERS_PER_CALL" "\<forall>d \<in> set ds. length (dargs d) \<le> MAX_DEFER_ARGS"
  shows "good P (run_defers raddr ds m)"
  using assms
proof (induction ds arbitrary: m)
  case Nil
  then show ?case by (simp add: finish_return_good)
next
  case (Cons d ds)
  note IH = Cons.IH and prems = Cons.prems
  show ?case
  proof (cases "call_stack (vm m)")
    case (Cons fr frs)
    have "frame_ok (fr\<lparr>defers := rev ds\<rparr>)" using top_frame_ok [OF prems(1) Cons] prems(2,3) by (simp add: frame_ok_def)
    note b = set_frame_bounds [OF prems(1) Cons this]
    let ?m = "set_frame (fr\<lparr>defers := rev ds\<rparr>) m"
    have built: "good P (run_defers raddr ds m')"
      if "vm_call_builtin who (dargs d) ?m = Some (Some (v, m'))" "\<not> runtime_had_error m'" for who v m'
      using that prems(2,3) by (intro IH) (auto intro: bounds_calm [OF vm_call_builtin_calm b])
    have "good P (case vm_call_builtin who (dargs d) ?m of
         None \<Rightarrow> Some (Running (error (quoted who @ '' is not defined'') ?m))
       | Some None \<Rightarrow> None
       | Some (Some (_, m)) \<Rightarrow> if runtime_had_error m then Some (Running m) else run_defers raddr ds m)" for who
      using b built by (auto split: option.split intro: bounds_calm [OF vm_call_builtin_calm])
    moreover have "good P (then_do (push_all (dargs d) ?m) (\<lambda>m. do {
        (ok, m) \<leftarrow> vm_setup_call fv (length (dargs d)) raddr m;
        Some (Running (if ok then m else snd (pops (length (dargs d)) m))) }))" for fv
      using push_all_good [OF b]
      by (auto intro!: good_bind good_then_do snd_pops_bounds dest!: good_running_bounds [OF push_all_good [OF b]]
          dest: vm_setup_call_bounds)
    ultimately show ?thesis
      using b unfolding run_defers.simps Cons list.case Let_def
      by (auto split: option.split intro!: good_bind)
  qed simp
qed

lemma lbl_return_good:
  assumes "bounds m"
  shows "good P (lbl_return m)"
proof (cases "call_stack (vm m)")
  case (Cons fr frs)
  obtain v m1 where p: "pop m = (v, m1)" by (cases "pop m")
  have "call_stack (vm m1) = fr # frs" using p Cons by (auto simp: pop_def set_stack_def split: list.splits)
  note s = set_frame_bounds [OF pop_bounds [OF p assms] this]
  have f: "frame_ok fr" by (rule top_frame_ok [OF assms Cons])
  let ?fr = "if defers_draining fr then fr else fr\<lparr>pending_return_value := v, defers_draining := True\<rparr>"
  have d: "defers ?fr = defers fr" by simp
  have "frame_ok ?fr" using f by (simp add: frame_ok_def)
  then show ?thesis
    using s [of ?fr] f unfolding lbl_return_def Cons list.case p Let_def prod.case
    by (intro run_defers_good) (auto simp: d frame_ok_def)
qed (simp add: lbl_return_def)

lemma read_nat_vm: "read_nat m = Some (k, m') \<Longrightarrow> call_stack (vm m') = call_stack (vm m)"
  by (auto simp: read_nat_def read_word_def set_ip_def split: Option.bind_splits if_splits)

lemma pops_vm: "pops n m = (vs, m') \<Longrightarrow> call_stack (vm m') = call_stack (vm m)"
  by (induction n arbitrary: vs m m') (auto simp: pop_def set_stack_def split: prod.splits list.splits)

lemma push_defer_ok:
  "frame_ok fr \<Longrightarrow> length (defers fr) < MAX_DEFERS_PER_CALL \<Longrightarrow> length args \<le> MAX_DEFER_ARGS \<Longrightarrow>
   frame_ok (fr\<lparr>defers := defers fr @ [\<lparr>name_idx = i, dargs = args\<rparr>]\<rparr>)"
  by (auto simp: frame_ok_def)

lemma lbl_defer_push_good:
  assumes "bounds m"
  shows "good P (lbl_defer_push m)"
  unfolding lbl_defer_push_def
proof (intro good_bind, clarify, intro good_bind, clarify)
  fix name n m1 m2 assume "read_nat m = Some (name, m1)" "read_nat m1 = Some (n, m2)"
  then have b: "bounds m2" using assms by (auto dest!: keep)
  obtain args m3 where p: "pops n m2 = (args, m3)" by (cases "pops n m2")
  note q = pops_bounds [OF p b] pops_length [OF p] pops_vm [OF p]
  show "good P (case call_stack (vm m2) of [] \<Rightarrow> None
      | fr # frs \<Rightarrow>
          if MAX_DEFER_ARGS < n
          then Some (Running (snd (pops n (error ''Too many arguments to a deferred call (max 8)'' m2))))
          else if MAX_DEFERS_PER_CALL \<le> length (defers fr)
          then Some (Running (snd (pops n (error ''Too many deferred calls in one function (max 8)'' m2))))
          else let (args, m) = pops n m2
               in Some (Running (set_frame (fr\<lparr>defers := defers fr @ [\<lparr>name_idx = name, dargs = args\<rparr>]\<rparr>) m)))"
  proof (cases "call_stack (vm m2)")
    case (Cons fr frs)
    have "frame_ok (fr\<lparr>defers := defers fr @ [\<lparr>name_idx = name, dargs = args\<rparr>]\<rparr>)"
      if "\<not> MAX_DEFER_ARGS < n" "\<not> MAX_DEFERS_PER_CALL \<le> length (defers fr)"
      using that q(2) by (intro push_defer_ok top_frame_ok [OF b Cons]) auto
    then show ?thesis
      using b q Cons p by (auto intro!: set_frame_bounds [OF q(1), of fr frs] snd_pops_bounds)
  qed simp
qed

lemma lbl_call_value_good: "bounds m \<Longrightarrow> good P (lbl_call_value m)"
  by (auto simp: lbl_call_value_def Let_def min_def simp del: pops.simps
      intro!: good_bind good_push snd_pops_bounds shorter_stack_bounds dest!: keep vm_setup_call_bounds)

section \<open>Closures, containers and structs\<close>

lemma lbl_capture_good: "bounds m \<Longrightarrow> good P (lbl_capture m)"
proof -
  have "bounds (m'\<lparr>vm := (vm m')\<lparr>pending_upvalues := pending_upvalues (vm m') @ [b]\<rparr>\<rparr>)"
    if "bounds m'" "\<not> MAX_CAPTURES \<le> length (pending_upvalues (vm m'))" for m' b
    using that by (auto simp: bounds_def vm_bounds_def)
  then show "bounds m \<Longrightarrow> good P (lbl_capture m)"
    by (auto simp: lbl_capture_def simp del: bounds_vm not_le split: option.split intro!: good_bind
        dest!: keep vm_box_slot_bounds)
qed

lemma clear_pending_bounds: "bounds m \<Longrightarrow> bounds (m\<lparr>vm := (vm m)\<lparr>pending_upvalues := []\<rparr>\<rparr>)"
  by (auto simp: bounds_def vm_bounds_def)

lemma lbl_make_closure_good: "bounds m \<Longrightarrow> good P (lbl_make_closure m)"
  by (auto simp: lbl_make_closure_def Let_def simp del: bounds_vm
      intro!: good_bind good_push clear_pending_bounds dest!: keep)

lemma lbl_load_upvalue_good: "bounds m \<Longrightarrow> good P (lbl_load_upvalue m)"
  by (auto simp: lbl_load_upvalue_def split: Option.bind_splits intro!: goods dest!: keep)

lemma lbl_store_upvalue_good: "bounds m \<Longrightarrow> good P (lbl_store_upvalue m)"
  by (auto simp: lbl_store_upvalue_def Let_def split: prod.split intro!: good_bind dest!: keep pop_bounds)

lemma lbl_array_new_good: "bounds m \<Longrightarrow> good P (lbl_array_new m)"
  by (auto simp: lbl_array_new_def Let_def split: prod.split intro!: good_bind good_push dest!: keep pops_bounds)

lemma lbl_unpack_good: "bounds m \<Longrightarrow> good P (lbl_unpack m)"
  by (auto simp: lbl_unpack_def split: list.split val.split intro!: good_bind good_push fail_push_good dest!: keep)

lemma dict_pairs_bounds: "dict_pairs n t m = Some (t', m') \<Longrightarrow> bounds m \<Longrightarrow> bounds m'"
  by (induction n arbitrary: t m) (auto split: prod.splits val.splits Option.bind_splits dest!: pop_bounds)

lemma lbl_dict_new_good: "bounds m \<Longrightarrow> good P (lbl_dict_new m)"
  by (auto simp: lbl_dict_new_def intro!: good_bind good_push dest!: keep dict_pairs_bounds)

lemma lbl_index_get_good: "bounds m \<Longrightarrow> good P (lbl_index_get m)"
  by (auto simp: lbl_index_get_def split: prod.split intro!: goods dest!: pop_bounds intro: vm_index_get_calm)

lemma index_source_calm:
  "do { ob \<leftarrow> source_value m a; i \<leftarrow> source_value m' b; vm_index_get_compute ob i m1 } = Some (v, m2) \<Longrightarrow> calm m1 m2"
  by (auto elim!: bind_SomeE intro: vm_index_get_calm)

lemma index_fused_good: "bounds m \<Longrightarrow> excused P x m \<Longrightarrow> excused P y m \<Longrightarrow> good P (index_fused x y m)"
  unfolding index_fused_def
  by (rule operands_good) (auto intro!: good_push_with intro: index_source_calm)

lemma index_handlers_good:
  assumes "bounds m"
  shows "good (\<not> slots_ok OP_INDEX_GET_LOCAL_CONST m) (lbl_index_get_local_const m)"
    "good (\<not> slots_ok OP_INDEX_GET_LOCAL_LOCAL m) (lbl_index_get_local_local m)"
    "good (\<not> slots_ok OP_INDEX_GET_LOCAL_NAME m) (lbl_index_get_local_name m)"
    "good P (lbl_index_get_name_const m)" "good (\<not> slots_ok OP_INDEX_GET_NAME_LOCAL m) (lbl_index_get_name_local m)"
    "good P (lbl_index_get_name_name m)"
  using assms slot_fits [of OP_INDEX_GET_LOCAL_CONST m 0] slot_fits [of OP_INDEX_GET_LOCAL_LOCAL m 0]
    slot_fits [of OP_INDEX_GET_LOCAL_LOCAL m 1] slot_fits [of OP_INDEX_GET_LOCAL_NAME m 0] slot_fits [of OP_INDEX_GET_NAME_LOCAL m 2]
  by (auto simp: lbl_index_get_local_const_def lbl_index_get_local_local_def lbl_index_get_local_name_def
      lbl_index_get_name_const_def lbl_index_get_name_local_def lbl_index_get_name_name_def excused_def
      eval_nat_numeral intro!: good_bind index_fused_good dest!: read_natD read_opD)

lemma index_set_array_calm: "index_set_array c i v m = Some m' \<Longrightarrow> calm m m'"
  by (auto simp: index_set_array_def split: if_splits Option.bind_splits option.splits
      intro: calm_heap(2) [OF write_array_calm])

lemma index_set_dict_calm: "index_set_dict c i v m = Some m' \<Longrightarrow> calm m m'"
  by (auto simp: index_set_dict_def split: if_splits Option.bind_splits val.splits
      intro: calm_heap(2) [OF write_dict_calm])

lemma lbl_index_set_good: "bounds m \<Longrightarrow> good P (lbl_index_set m)"
  by (auto simp: lbl_index_set_def split: prod.split val.split intro!: good_running
      dest!: pop_bounds intro: bounds_calm [OF index_set_array_calm] bounds_calm [OF index_set_dict_calm])

lemma lbl_slice_get_good: "bounds m \<Longrightarrow> good P (lbl_slice_get m)"
  by (auto simp: lbl_slice_get_def split: prod.split val.split option.split Option.bind_splits
      intro!: goods fail_push_good dest!: pop_bounds keep)

lemma lbl_define_struct_good: "bounds m \<Longrightarrow> good P (lbl_define_struct m)"
  by (auto simp: lbl_define_struct_def bounds_def intro!: good_bind dest!: keep)

lemma lbl_field_get_good: "bounds m \<Longrightarrow> good P (lbl_field_get m)"
  by (auto simp: lbl_field_get_def Let_def split: prod.split option.split
      intro!: good_bind good_push fail_push_good dest!: pop_bounds keep)

lemma lbl_field_set_good: "bounds m \<Longrightarrow> good P (lbl_field_set m)"
  by (auto simp: lbl_field_set_def Let_def split: prod.split option.split
      intro!: good_bind good_running dest!: pop_bounds keep)

lemma lbl_check_shape_good: "bounds m \<Longrightarrow> good P (lbl_check_shape m)"
  by (auto simp: lbl_check_shape_def Let_def split: prod.split
      intro!: good_bind good_if good_push fail_push_good dest!: pop_bounds keep simp del: if_split)

section \<open>Loops and conversions\<close>

lemma leave_loop_good: "bounds m \<Longrightarrow> good P (leave_loop n t m)"
  by (auto simp: leave_loop_def intro: shorter_stack_bounds)

lemma bump_bounds: "bump i m = Some m' \<Longrightarrow> bounds m \<Longrightarrow> bounds m'"
proof -
  assume "bump i m = Some m'" "bounds m"
  then obtain v m1 where "ret_int i m = Some (v, m1)" "m' = set_stack (v # tl (stack (vm m1))) m1"
    by (auto simp: bump_def split: Option.bind_splits)
  moreover from this \<open>bounds m\<close> have "bounds m1" by (auto dest!: keep)
  moreover from this have "length (v # tl (stack (vm m1))) \<le> VM_STACK_MAX"
    using stack_bound [of m1] by (cases "stack (vm m1)") (auto simp: vm_limits)
  ultimately show "bounds m'" by (auto intro: set_stack_bounds)
qed

lemma push_string_good: "bounds m \<Longrightarrow> good P (push_string s m)"
  by (auto simp: push_string_def split: Option.bind_splits intro!: goods)

lemma push_string_bounds: "push_string s m = Some (Running m') \<Longrightarrow> bounds m \<Longrightarrow> bounds m'"
  using push_string_good good_running_bounds by blast

lemma lbl_iter_next_good: "bounds m \<Longrightarrow> good P (lbl_iter_next m)"
  by (auto simp: lbl_iter_next_def split: list.split val.split option.split
      intro!: good_bind leave_loop_good good_push push_string_good dest!: keep bump_bounds)

lemma lbl_iter_next_pair_good: "bounds m \<Longrightarrow> good P (lbl_iter_next_pair m)"
  by (auto simp: lbl_iter_next_pair_def split: list.split val.split option.split
      intro!: good_bind good_then_do leave_loop_good good_push push_string_good
      dest!: keep bump_bounds push_string_bounds)

lemma range_step_good:
  assumes "bounds m" "stack (vm m) = sv # ev # cv # st"
  shows "good P (then_do (push cv m) (\<lambda>m. do {
    (nv, m) \<leftarrow> ret_int n m; Some (Running (set_stack (cv # sv # ev # nv # st) m)) }))"
proof (rule good_then_do)
  show "good P (push cv m)" using assms(1) by (rule good_push)
  fix m1 assume p: "push cv m = Some (Running m1)"
  have b: "bounds m1" by (rule push_bounds [OF p assms(1)])
  have "length (cv # sv # ev # nv # st) \<le> VM_STACK_MAX" for nv using push_running [OF p] assms(2) by simp
  then show "good P (ret_int n m1 \<bind> (\<lambda>(nv, m). Some (Running (set_stack (cv # sv # ev # nv # st) m))))"
    using b by (auto intro!: good_bind set_stack_bounds dest!: keep)
qed

lemma lbl_iter_range_good: "bounds m \<Longrightarrow> good P (lbl_iter_range m)"
  by (auto simp: lbl_iter_range_def split: list.split option.split
      intro!: good_bind leave_loop_good range_step_good dest!: keep)

lemma lbl_to_str_good: "bounds m \<Longrightarrow> good P (lbl_to_str m)"
  by (auto simp: lbl_to_str_def split: prod.split intro!: goods dest!: pop_bounds intro: vm_to_str_calm)

lemma lbl_cast_good: "bounds m \<Longrightarrow> good P (lbl_cast m)"
  by (auto simp: lbl_cast_def Let_def split: prod.split intro!: good_bind good_push dest!: pop_bounds keep)

lemma lbl_pop_good: "bounds m \<Longrightarrow> good P (lbl_pop m)"
  by (cases "pop m") (auto simp: lbl_pop_def dest!: pop_bounds)

lemma lbl_halt_good: "bounds m \<Longrightarrow> good P (lbl_halt m)"
  by (simp add: lbl_halt_def)

section \<open>One instruction\<close>

lemma handler_good: "bounds m \<Longrightarrow> good (\<not> slots_ok op m) (handler op m)"
  by (cases op)
    (simp_all add: handler_def lbl_push_good lbl_load_good lbl_store_good lbl_define_good lbl_load_local_good
      lbl_store_local_good lbl_define_local_good compound_handlers_good lbl_binary_good lbl_negate_good
      lbl_not_good lbl_bitwise_not_good lbl_jump_good lbl_jump_if_false_def lbl_jump_if_true_def jump_when_good
      lbl_push_scope_good lbl_pop_scope_good lbl_call_good lbl_call_value_good lbl_return_good lbl_defer_push_good
      lbl_array_new_good lbl_dict_new_good lbl_index_get_good index_handlers_good lbl_index_set_good
      lbl_slice_get_good lbl_unpack_good lbl_iter_next_good lbl_iter_next_pair_good lbl_iter_range_good
      lbl_define_struct_good lbl_field_get_good lbl_field_set_good lbl_check_shape_good lbl_capture_good
      lbl_make_closure_good lbl_load_upvalue_good lbl_store_upvalue_good lbl_print_repl_good lbl_pop_good
      lbl_to_str_good lbl_cast_good lbl_halt_good)

text \<open>
  What the registered functions of a host have to keep: they may print, report errors and build
  values, but work on their argument array, not on the VM's stack.
\<close>

definition host_ok :: "world \<Rightarrow> bool" where
  "host_ok w \<longleftrightarrow> (\<forall>i args m v m'. host_fn w i args m = Some (v, m') \<longrightarrow> bounds m \<longrightarrow> bounds m')"

lemma stdlib_push_bounds: "bounds m \<Longrightarrow> bounds (stdlib_push v m)"
  by (auto simp: stdlib_push_def intro: set_stack_bounds)

lemma native_call_bounds:
  assumes "native_call f n m = Some (Some m')" "\<And>g. f = Some g \<Longrightarrow> calm_native g" "bounds m"
  shows "bounds m'"
  using assms
  by (auto simp: native_call_def split: option.splits prod.splits Option.bind_splits
      intro!: stdlib_push_bounds intro: bounds_calm [OF calm_nativeD] dest!: pops_bounds)

lemma aer_host_call_bounds:
  assumes "aer_host_call w md fn n m = Some (Some m')" "host_ok w" "bounds m"
  shows "bounds m'"
proof (cases "find_host w md fn")
  case (Some i)
  show ?thesis
  proof (cases "stack_top (vm m) < n")
    case False
    obtain v m1 where r: "host_fn w i (rev (take n (stack (vm m)))) m = Some (v, m1)"
      and m': "m' = (if VM_STACK_MAX \<le> length (drop n (stack (vm m1)))
        then error ''Stack overflow'' (set_stack (drop n (stack (vm m1))) m1)
        else set_stack (v # drop n (stack (vm m1))) m1)"
      using assms(1) Some False by (auto simp: aer_host_call_def Let_def split: Option.bind_splits if_splits)
    have "bounds m1" using r assms(2,3) by (auto simp: host_ok_def)
    then show ?thesis using m' by (auto intro: shorter_stack_bounds set_stack_bounds)
  qed (use assms Some in \<open>auto simp: aer_host_call_def\<close>)
qed (use assms in \<open>simp add: aer_host_call_def\<close>)

lemma native_module_call_bounds:
  assumes "native_module_call w md fn n m = Some (Some (Some m'))" "host_ok w" "bounds m"
  shows "bounds m'"
  using assms
  by (auto simp: native_module_call_def aer_math_call_def aer_random_call_def aer_string_call_def
      aer_time_call_def aer_json_call_def split: if_splits
      dest: aer_host_call_bounds native_call_bounds [OF _ math_fn_calm] native_call_bounds [OF _ random_fn_calm]
        native_call_bounds [OF _ string_fn_calm] native_call_bounds [OF _ time_fn_calm]
        native_call_bounds [OF _ json_fn_calm])

lemma push_null_result_bounds: "bounds m \<Longrightarrow> bounds (push_null_result m)"
  by (auto simp: push_null_result_def intro: set_stack_bounds)

lemma swap_in_bounds: "bounds m \<Longrightarrow> k \<in> set (modules m) \<Longrightarrow> bounds (swap_in k m)"
  by (simp add: swap_in_def bounds_def)

lemma swap_out_bounds: "bounds m \<Longrightarrow> vm_bounds v \<Longrightarrow> cache_ok c \<Longrightarrow> bounds (swap_out i v c m)"
  by (auto simp: swap_out_def bounds_def dest!: set_update_subset_insert [THEN subsetD])

lemma module_result_bounds:
  assumes "bounds m" "vm_bounds v" "cache_ok c"
  shows "bounds (module_result i v c m)"
proof -
  have p: "bounds (push_null_result (swap_out i v c (set_heap h m)))" for h
    using assms by (intro push_null_result_bounds swap_out_bounds) simp_all
  have "bounds (swap_out i v c (set_stack st (set_heap h m)))" if "stack (vm m) = r # st" for h r st
    using assms that by (intro swap_out_bounds shorter_stack_bounds) (simp_all add: set_heap_def)
  then show ?thesis
    using p by (auto simp: module_result_def Let_def split: list.split intro!: set_stack_bounds)
qed

lemma aer_module_call_good:
  assumes "aer_module_call md fn n m = Some r" "bounds m"
  shows "good P r"
proof -
  obtain i where i: "find_module m md = Some i" using assms(1) by (auto simp: aer_module_call_def split: option.splits)
  then have k: "modules m ! i \<in> set (modules m)"
    by (auto simp: find_module_def find_Some_iff)
  let ?m = "set_stack (drop n (stack (vm m))) m" and ?k = "modules m ! i"
  let ?c = "set_stack (take n (stack (vm m)) @ stack (mod_vm ?k)) (swap_in ?k ?m)"
  have m: "bounds ?m" using assms(2) by (intro shorter_stack_bounds) simp_all
  then have "bounds (swap_in ?k ?m)" using k by (intro swap_in_bounds) (simp_all add: set_stack_def)
  then have "bounds ?c" if "\<not> VM_STACK_MAX < stack_top (mod_vm ?k) + n"
    using that by (intro set_stack_bounds) auto
  then have c: "bounds c" if "\<not> VM_STACK_MAX < stack_top (mod_vm ?k) + n" "vm_setup_call fv n (halt_addr ?k) ?c = Some (ok, c)" for fv ok c
    using that vm_setup_call_bounds by blast
  have s: "bounds (push_null_result (swap_out i (vm ?m) ch (set_stack (drop n (stack (vm c))) c)))" if "bounds c" "cache_ok ch" for c ch
    using that boundsD(1) [OF m] by (intro push_null_result_bounds swap_out_bounds shorter_stack_bounds) simp_all
  have e: "bounds (push_null_result (set_stack (drop n (stack (vm m))) (error s m)))" for s
    using assms(2) by (intro push_null_result_bounds shorter_stack_bounds) simp_all
  have ch: "cache_ok (chunk ?m)" by (rule boundsD(3) [OF m])
  show ?thesis
    using assms(1) i ch
    by (auto simp: aer_module_call_def Let_def boundsD(1) [OF m] m split: option.splits
        intro!: good_bind s e dest!: c)
qed

lemma lbl_call_module_good:
  assumes "bounds m" "host_ok w"
  shows "good P (lbl_call_module w m)"
  using assms
  by (auto simp: lbl_call_module_def no_function_def split: option.split
      intro!: good_bind good_running dest!: keep intro: native_module_call_bounds aer_module_call_good)

text \<open>The operands of the instruction at the instruction pointer.\<close>

definition next_slots_ok :: "mach \<Rightarrow> bool" where
  "next_slots_ok m \<longleftrightarrow>
     (\<forall>op. opcode_of (code (chunk m) ! ip (vm m)) = Some op \<longrightarrow> slots_ok op (set_ip (ip (vm m) + 1) m))"

lemma gc_maybe_collect_heap: "gc_maybe_collect m = Some m' \<Longrightarrow> vm m' = vm m \<and> chunk m' = chunk m"
  by (auto simp: gc_maybe_collect_def gc_run_collection_cycle_def Let_def
      split: if_splits Option.bind_splits dest!: gc_collect_calm run_major_calm)

lemma step_good:
  assumes "bounds m" "host_ok w"
  shows "good (\<not> next_slots_ok m) (step w m)"
proof -
  have exec: "good (\<not> slots_ok op m2) (exec w op m2)" if "bounds m2" for op m2
    using that assms(2) by (simp add: exec_def handler_good lbl_call_module_good)
  have "good (\<not> next_slots_ok m) (exec w op m2)" if m1: "gc_maybe_collect m = Some m1" and op: "read_op m1 = Some (op, m2)" for op m1 m2
  proof -
    have b: "bounds m2" using m1 op assms(1) by (auto dest!: keep)
    have "vm m1 = vm m" "chunk m1 = chunk m" using gc_maybe_collect_heap [OF m1] by simp_all
    then have "slots_ok op m2" if "next_slots_ok m"
      using that op by (auto simp: next_slots_ok_def slots_ok_def read_op_def read_word_def set_ip_def vm_scope_floor_def
          split: if_splits Option.bind_splits)
    then show ?thesis using exec [OF b, of op] by (auto simp: good_def)
  qed
  then show ?thesis using assms(1) by (auto simp: step_def intro!: good_bind)
qed

text \<open>C1: One instruction, of any opcode, stays within every array of the running VM and of the VMs of
  all file modules and keeps their bounds: at most 256 operands, 64 call frames, 64 scopes of at most
  24 inline slots, 16 pending captures, and 8 deferred calls of at most 8 arguments per frame.
  An access outside the scopes or their slots (\<open>Overrun\<close>) happens only where the code names a local
  slot beyond the 24, or one of a function that has not entered its scope: C uses these operands
  unchecked and relies on the compiler. Addresses cached in the code are slots of the global
  scope. An instruction that ends a run with failure leaves the error flag set. Functions
  registered by a host are assumed to keep the bounds themselves. Nothing is said where \<open>step\<close> has
  no result: a read outside the code, the constants or the captures, below the stack, or of freed
  memory.\<close>

theorem step_bounds:
  assumes "bounds m" "host_ok w" "step w m = Some r"
  shows "if r = Overrun then \<not> next_slots_ok m else outcome_ok r"
  using step_good [OF assms(1,2)] assms(3) by (auto simp: good_def)

lemma demo_world_ok: "host_ok demo_world"
  by (simp add: host_ok_def demo_world_def)

definition code_mach :: "int list \<Rightarrow> mach" where
  "code_mach ws = mach_init\<lparr>chunk := chunk_init\<lparr>code := ws\<rparr>\<rparr>"

lemma code_mach_bounds: "bounds (code_mach ws)"
  using bounds_init by (simp add: code_mach_def bounds_def mach_init_def)

lemma code_mach_collect: "gc_maybe_collect (code_mach ws) = Some (code_mach ws)"
  by (simp add: gc_maybe_collect_def code_mach_def mach_init_def heap_init_def)

lemma halt_opcode: "opcode_of 75 = Some OP_HALT" "opcode_of 40 = Some OP_PUSH_SCOPE"
  by (simp_all add: opcode_of_def opcodes_def)

lemma code_mach_step:
  assumes "opcode_of n = Some op"
  shows "step w (code_mach (n # ws)) = exec w op (set_ip 1 (code_mach (n # ws)))"
proof -
  have "\<not> runtime_had_error (code_mach (n # ws))" "code (chunk (code_mach (n # ws))) = n # ws"
    "ip (vm (code_mach (n # ws))) = 0"
    by (simp_all add: code_mach_def mach_init_def vm_init_def)
  then show ?thesis by (simp add: step_def code_mach_collect read_op_def read_word_def assms)
qed

theorem step_bounds_witness:
  "\<exists>m. step demo_world (code_mach [40]) = Some (Running m) \<and> bounds m \<and> scope_depth (vm m) = 2"
proof -
  have "\<exists>m. exec demo_world OP_PUSH_SCOPE (set_ip 1 (code_mach [40])) = Some (Running m) \<and> scope_depth (vm m) = 2"
    by (simp add: code_mach_def mach_init_def vm_init_def set_ip_def set_scope_def vm_limits
        exec_def handler_def lbl_push_scope_def)
  then obtain m where m: "step demo_world (code_mach [40]) = Some (Running m)" "scope_depth (vm m) = 2"
    by (auto simp: code_mach_step halt_opcode)
  then show ?thesis
    using step_bounds [OF code_mach_bounds demo_world_ok m(1)] by auto
qed

text \<open>The loop, by induction over its unfoldings.\<close>

lemma vm_run_keeps:
  assumes "vm_run w m = Some r"
  shows "host_ok w \<longrightarrow> bounds m \<longrightarrow> bounds (snd r) \<and> (fst r \<or> runtime_had_error (snd r))"
proof (rule vm_run.raw_induct [OF _ assms])
  fix rec w m r
  assume IH: "\<And>w m r. rec w m = Some r \<Longrightarrow>
      host_ok w \<longrightarrow> bounds m \<longrightarrow> bounds (snd r) \<and> (fst r \<or> runtime_had_error (snd r))"
    and body: "(case step w m of None \<Rightarrow> None | Some Overrun \<Rightarrow> None | Some (Running m) \<Rightarrow> rec w m | Some (Stopped b m) \<Rightarrow> Some (b, m)
      | Some (Nested i v c m) \<Rightarrow> do { r \<leftarrow> rec w m; rec w (module_result i v c (snd r)) }) = Some r"
  show "host_ok w \<longrightarrow> bounds m \<longrightarrow> bounds (snd r) \<and> (fst r \<or> runtime_had_error (snd r))"
  proof (intro impI)
    assume h: "host_ok w" "bounds m"
    obtain x where x: "step w m = Some x" using body by (cases "step w m") auto
    have ok: "outcome_ok x" using step_good [OF h(2,1)] x body by (auto simp: good_def)
    show "bounds (snd r) \<and> (fst r \<or> runtime_had_error (snd r))"
    proof (cases x)
      case (Running m1)
      then show ?thesis using IH [of w m1 r] body x ok h by simp
    next
      case (Stopped b m1)
      then show ?thesis using body x ok by auto
    next
      case (Nested i v c m1)
      then obtain q where q: "rec w m1 = Some q" "rec w (module_result i v c (snd q)) = Some r"
        using body x by (auto split: Option.bind_splits)
      have "bounds (snd q)" using IH [OF q(1)] ok h Nested by simp
      then have "bounds (module_result i v c (snd q))" using ok Nested by (intro module_result_bounds) simp_all
      then show ?thesis using IH [OF q(2)] h by simp
    qed (use ok in simp)
  qed
qed

text \<open>C10: Every run that ends, nested runs of file modules included, ends in a machine within the bounds, and
  reports failure only with the error flag set; a run started with the flag set does nothing.\<close>

theorem vm_run_bounds:
  assumes "bounds m" "host_ok w"
  shows "(vm_run w m = Some (b, m') \<longrightarrow> bounds m' \<and> (b \<or> runtime_had_error m')) \<and>
    (runtime_had_error m \<longrightarrow> vm_run w m = Some (False, m))"
proof
  show "vm_run w m = Some (b, m') \<longrightarrow> bounds m' \<and> (b \<or> runtime_had_error m')"
    using vm_run_keeps [of w m "(b, m')"] assms by simp
  show "runtime_had_error m \<longrightarrow> vm_run w m = Some (False, m)"
    by (subst vm_run.simps) (simp add: step_def)
qed

theorem vm_run_bounds_witness:
  "\<exists>m'. vm_run demo_world (code_mach [75]) = Some (True, m') \<and> bounds m'"
proof -
  have "step demo_world (code_mach [75]) = Some (Stopped True (set_ip 1 (code_mach [75])))"
    by (simp add: code_mach_step halt_opcode exec_def handler_def lbl_halt_def)
  then have "vm_run demo_world (code_mach [75]) = Some (True, set_ip 1 (code_mach [75]))"
    by (subst vm_run.simps) simp
  then show ?thesis using vm_run_bounds [OF code_mach_bounds demo_world_ok] by blast
qed

end
