(* ===== verification/Calls.thy ===== *)
theory Calls
  imports Store Bounds
begin

text \<open>
  What a call promises to its caller: a call and the return from it bracket the body, deferred calls
  run last first, and a variable that a closure captured is one variable for the closure and for
  the function that declared it.
\<close>

section \<open>Leaving scopes\<close>

lemma leave_scope_sel [simp]:
  "stack (vm (leave_scope m)) = stack (vm m)" "call_stack (vm (leave_scope m)) = call_stack (vm m)"
  "ip (vm (leave_scope m)) = ip (vm m)" "scope_depth (vm (leave_scope m)) = scope_depth (vm m) - 1"
  "printed (leave_scope m) = printed m" "runtime_had_error (leave_scope m) = runtime_had_error m"
  by (simp_all add: leave_scope_def Let_def set_scope_def split: prod.split)

lemma leave_scope_scopes: "i < scope_depth (vm m) - 1 \<Longrightarrow> scopes (vm (leave_scope m)) ! i = scopes (vm m) ! i"
  by (simp add: leave_scope_def Let_def set_scope_def split: prod.split)

lemma leave_scopes_sel [simp]:
  "stack (vm (leave_scopes base m)) = stack (vm m)" "call_stack (vm (leave_scopes base m)) = call_stack (vm m)"
  "ip (vm (leave_scopes base m)) = ip (vm m)" "printed (leave_scopes base m) = printed m"
  "runtime_had_error (leave_scopes base m) = runtime_had_error m"
  "scope_depth (vm (leave_scopes base m)) = min base (scope_depth (vm m))"
  "i < base \<Longrightarrow> scopes (vm (leave_scopes base m)) ! i = scopes (vm m) ! i"
proof -
  have "stack (vm ((leave_scope ^^ n) m)) = stack (vm m) \<and> call_stack (vm ((leave_scope ^^ n) m)) = call_stack (vm m) \<and>
      ip (vm ((leave_scope ^^ n) m)) = ip (vm m) \<and> printed ((leave_scope ^^ n) m) = printed m \<and>
      runtime_had_error ((leave_scope ^^ n) m) = runtime_had_error m \<and>
      scope_depth (vm ((leave_scope ^^ n) m)) = scope_depth (vm m) - n \<and>
      (\<forall>i < scope_depth (vm m) - n. scopes (vm ((leave_scope ^^ n) m)) ! i = scopes (vm m) ! i)" for n
    by (induction n) (auto simp: leave_scope_scopes)
  note sel = this [of "scope_depth (vm m) - base"]
  show "stack (vm (leave_scopes base m)) = stack (vm m)" "call_stack (vm (leave_scopes base m)) = call_stack (vm m)"
    "ip (vm (leave_scopes base m)) = ip (vm m)" "printed (leave_scopes base m) = printed m"
    "runtime_had_error (leave_scopes base m) = runtime_had_error m"
    "scope_depth (vm (leave_scopes base m)) = min base (scope_depth (vm m))"
    using sel by (simp_all add: leave_scopes_def min_def)
  show "i < base \<Longrightarrow> scopes (vm (leave_scopes base m)) ! i = scopes (vm m) ! i"
    using sel by (cases "base \<le> scope_depth (vm m)") (simp_all add: leave_scopes_def)
qed

section \<open>Calls and returns\<close>










section \<open>Deferred calls\<close>



lemma lookup_frame:
  assumes "scopes v' = scopes v" "scope_depth v' = scope_depth v" "vm_scope_floor v' = vm_scope_floor v"
  shows "vm_scope_get h c v' k = vm_scope_get h c v k"
proof -
  have "scope_addr h c v' i k = scope_addr h c v i k" for i
    by (simp add: scope_addr_def slot_addr_def assms(1))
  then have "walk_scopes h c v' is k = walk_scopes h c v is k" for "is"
    by (induction "is") simp_all
  then show ?thesis using assms by (simp add: vm_scope_get_def visible_scopes_def)
qed










lemma set_frame_sel [simp]:
  "heap (set_frame fr m) = heap m" "shapes (set_frame fr m) = shapes m" "chunk (set_frame fr m) = chunk m"
  "printed (set_frame fr m) = printed m" "runtime_had_error (set_frame fr m) = runtime_had_error m"
  "stack (vm (set_frame fr m)) = stack (vm m)" "scopes (vm (set_frame fr m)) = scopes (vm m)"
  "scope_depth (vm (set_frame fr m)) = scope_depth (vm m)" "ip (vm (set_frame fr m)) = ip (vm m)"
  "call_stack (vm (set_frame fr m)) = fr # tl (call_stack (vm m))"
  by (simp_all add: set_frame_def)

lemma set_stack_sel [simp]:
  "heap (set_stack st m) = heap m" "shapes (set_stack st m) = shapes m" "chunk (set_stack st m) = chunk m"
  "printed (set_stack st m) = printed m" "runtime_had_error (set_stack st m) = runtime_had_error m"
  "stack (vm (set_stack st m)) = st" "scopes (vm (set_stack st m)) = scopes (vm m)"
  "scope_depth (vm (set_stack st m)) = scope_depth (vm m)" "ip (vm (set_stack st m)) = ip (vm m)"
  "call_stack (vm (set_stack st m)) = call_stack (vm m)"
  by (simp_all add: set_stack_def)

lemma set_ip_sel [simp]:
  "heap (set_ip i m) = heap m" "chunk (set_ip i m) = chunk m" "stack (vm (set_ip i m)) = stack (vm m)"
  "scopes (vm (set_ip i m)) = scopes (vm m)" "scope_depth (vm (set_ip i m)) = scope_depth (vm m)"
  "ip (vm (set_ip i m)) = i" "call_stack (vm (set_ip i m)) = call_stack (vm m)"
  by (simp_all add: set_ip_def)








text \<open>A frame to return from, for the examples.\<close>

definition demo_frame :: call_frame where
  "demo_frame = \<lparr>return_ip = 3, return_scope_depth = 1, fr_upvalues = None, fr_function = None,
     defers = [], defers_draining = False, pending_return_value = VNull\<rparr>"





section \<open>Captured variables\<close>

definition box_ok :: "heap \<Rightarrow> box_ref \<Rightarrow> bool" where
  "box_ok h b \<longleftrightarrow> (case b of BoxCell c \<Rightarrow> c \<in> live (closure_box_pool h) | BoxOvf i \<Rightarrow> read_ovf h i \<noteq> None)"

lemma box_ok_ext: "heap_ext h h' \<Longrightarrow> box_ok h b \<Longrightarrow> box_ok h' b"
  by (auto simp: heap_ext_def box_ok_def read_ovf_def split: box_ref.splits)

lemma new_box_ok:
  assumes "pools_inv h"
  obtains c h' where "new_box h v = Some (c, h')" "heap_ext h h'" "string_pool h' = string_pool h"
    "c \<in> live (closure_box_pool h')" "pool_read (closure_box_pool h') c = Some v"
proof -
  obtain c p where p: "pool_new (closure_box_pool h) v = Some (c, p)" "pool_ext (closure_box_pool h) p" "c \<in> live p" "pool_read p c = Some v"
    using pools_invD(5) [OF assms] by (rule pool_new_ok)
  have "heap_ext h ((count_alloc h)\<lparr>closure_box_pool := p\<rparr>)"
    by (rule heap_extI) (use p(2) pools_ext_refl [OF assms] in simp_all)
  then show ?thesis using that p by (simp add: new_box_def)
qed

lemma write_box_ok:
  assumes h: "pools_inv h" and b: "box_ok h b"
  obtains h' where "write_box h b x = Some h'" "read_box h' b = Some x" "pools_inv h'" "box_ok h' b"
    "\<And>b'. b' \<noteq> b \<Longrightarrow> read_box h' b' = read_box h b'" "string_pool h' = string_pool h"
proof (cases b)
  case (BoxCell c)
  then have c: "c \<in> live (closure_box_pool h)" using b by (simp add: box_ok_def)
  obtain p where p: "pool_write (closure_box_pool h) c x = Some p" "pool_inv p" "live p = live (closure_box_pool h)"
    "pool_read p c = Some x" "\<forall>d. d \<noteq> c \<longrightarrow> pool_read p d = pool_read (closure_box_pool h) d"
    using slab.write_cell [OF pools_invD(5) [OF h] c] by blast
  show ?thesis
  proof (rule that)
    show "read_box (h\<lparr>closure_box_pool := p\<rparr>) b' = read_box h b'" if "b' \<noteq> b" for b'
      using that p BoxCell by (cases b') (auto simp: read_box_def read_ovf_def)
  qed (use BoxCell b p h in \<open>auto simp: write_box_def read_box_def box_ok_def pools_inv_def\<close>)
next
  case (BoxOvf i)
  then have i: "i < length (ovf_boxes h)" "read_ovf h i \<noteq> None" using b by (auto simp: box_ok_def read_ovf_def split: if_splits)
  show ?thesis
  proof (rule that)
    show "read_box (h\<lparr>ovf_boxes := (ovf_boxes h)[i := Some x]\<rparr>) b' = read_box h b'" if "b' \<noteq> b" for b'
      using that BoxOvf by (cases b') (auto simp: read_box_def read_ovf_def)
  qed (use BoxOvf i h in \<open>auto simp: write_box_def write_ovf_def read_box_def read_ovf_def box_ok_def pools_inv_def\<close>)
qed

lemma gc_barrier_box_ok:
  assumes h: "pools_inv h" and b: "box_ok h b" and v: "val_ok h v"
  obtains h' where "gc_barrier_box b v h = Some h'" "heap_ext h h'"
proof -
  have r: "heap_ext h (remember r h)" for r
    by (rule heap_extI) (use pools_ext_refl [OF h] in \<open>simp_all add: remember_def\<close>)
  have "\<exists>h'. gc_remember (REMEMBERED_BOX b) h = Some h' \<and> heap_ext h h'"
  proof (cases b)
    case (BoxCell c)
    then have c: "c \<in> live (closure_box_pool h)" using b by (simp add: box_ok_def)
    obtain y where y: "pool_is_remembered (closure_box_pool h) c = Some y"
      using young_ex(2) [OF pools_invD(5) [OF h] c] by blast
    obtain p where p: "pool_mark_remembered (closure_box_pool h) c = Some p" "pool_ext (closure_box_pool h) p"
      using pools_invD(5) [OF h] c by (rule mark_remembered_ok)
    have "heap_ext h (remember (REMEMBERED_BOX b) (h\<lparr>closure_box_pool := p\<rparr>))"
      by (rule heap_extI) (use p(2) pools_ext_refl [OF h] in \<open>simp_all add: remember_def\<close>)
    then show ?thesis using y p(1) r heap_ext_refl [OF h] BoxCell by (simp add: gc_remember_def)
  next
    case (BoxOvf i)
    then show ?thesis using r heap_ext_refl [OF h] by (simp add: gc_remember_def)
  qed
  moreover obtain y where "value_is_young h v = Some y" using value_is_young_ex [OF h v] by blast
  ultimately show ?thesis using that heap_ext_refl [OF h] by (cases y) (auto simp: gc_barrier_box_def)
qed

text \<open>Capturing changes which slots are boxed, but no name.\<close>

definition same_names :: "vm \<Rightarrow> vm \<Rightarrow> bool" where
  "same_names v v' \<longleftrightarrow> call_stack v' = call_stack v \<and> scope_depth v' = scope_depth v \<and> length (scopes v') = length (scopes v) \<and>
     (\<forall>i. scount (scopes v' ! i) = scount (scopes v ! i) \<and> overflow (scopes v' ! i) = overflow (scopes v ! i) \<and>
        smap (scopes v' ! i) = smap (scopes v ! i) \<and>
        (\<forall>j. sl_name (slots (scopes v' ! i) ! j) = sl_name (slots (scopes v ! i) ! j)))"

lemma same_names_refl: "same_names v v"
  by (simp add: same_names_def)

lemma same_names_find: "same_names v v' \<Longrightarrow> find_slot (scopes v' ! i) = find_slot (scopes v ! i)"
  by (simp add: same_names_def find_slot_def fun_eq_iff)

lemma same_names_absent:
  "same_names v v' \<Longrightarrow> string_pool h' = string_pool h \<Longrightarrow> scope_addr h c v i k = Some None \<Longrightarrow> scope_addr h' c v' i k = Some None"
  using same_names_find [of v v' i]
  by (auto simp: scope_addr_def Let_def same_names_def pool_name_def str_of_def split: option.splits if_splits Option.bind_splits val.splits)

lemma same_names_slot:
  "sl_name x = sl_name (slots (scopes v ! i) ! j) \<Longrightarrow> same_names v (set_slot i j x v)"
  by (cases "i < length (scopes v)"; cases "j < length (slots (scopes v ! i))")
    (auto simp: same_names_def set_slot_def set_scope_def nth_list_update not_less list_update_beyond)

lemma same_names_pin: "same_names v (set_scope i ((scopes v ! i)\<lparr>overflow_has_captures := True\<rparr>) v)"
  by (cases "i < length (scopes v)") (auto simp: same_names_def set_scope_def nth_list_update not_less list_update_beyond)

lemma box_walk_ok:
  assumes "box_walk is name m = Some (Some b, m1)" "pools_inv (heap m)"
    "\<forall>i \<in> set is. i < length (scopes (vm m)) \<and> scount (scopes (vm m) ! i) \<le> length (slots (scopes (vm m) ! i))"
  obtains a where "walk_scopes (heap m) (chunk m) (vm m) is name = Some (Some a)"
    "walk_scopes (heap m1) (chunk m1) (vm m1) is name = Some (Some (ABox b))" "read_addr m1 (ABox b) = read_addr m a"
    "heap_ext (heap m) (heap m1)" "same_names (vm m) (vm m1)" "a = ABox b \<or> box_ok (heap m1) b"
    "string_pool (heap m1) = string_pool (heap m)" "chunk m1 = chunk m"
  using assms
proof (induction "is" arbitrary: thesis)
  case (Cons i "is")
  note walk = Cons.prems(2) and inv = heap_ext_refl [OF Cons.prems(3)] and that = Cons.prems(1)
  show ?case
  proof (cases "find_slot (scopes (vm m) ! i) name")
    case (Some j)
    then have j: "j < scount (scopes (vm m) ! i)" "sl_name (slots (scopes (vm m) ! i) ! j) = name" by (auto simp: find_slot_def find_Some_iff)
    show ?thesis
    proof (cases "sl_box (slots (scopes (vm m) ! i) ! j)")
      case None
      obtain c h' where h': "new_box (heap m) (sl_val (slots (scopes (vm m) ! i) ! j)) = Some (c, h')" "heap_ext (heap m) h'"
        "string_pool h' = string_pool (heap m)" "c \<in> live (closure_box_pool h')"
        "pool_read (closure_box_pool h') c = Some (sl_val (slots (scopes (vm m) ! i) ! j))"
        using Cons.prems(3) by (rule new_box_ok)
      let ?v = "set_slot i j ((slots (scopes (vm m) ! i) ! j)\<lparr>sl_box := Some (BoxCell c)\<rparr>) (vm m)"
      have m1: "b = BoxCell c" "m1 = m\<lparr>heap := h', vm := ?v\<rparr>" using walk Some None h'(1) by (auto simp: Let_def)
      have names: "same_names (vm m) ?v" by (rule same_names_slot) simp
      have "find_slot (scopes ?v ! i) name = Some j" using same_names_find [OF names] Some by simp
      moreover have "sl_box (slots (scopes ?v ! i) ! j) = Some b"
        using j(1) Cons.prems(4) m1(1) by (simp add: set_slot_def set_scope_def)
      ultimately show ?thesis using Some None h' j(1) Cons.prems(4) names m1
        by (intro that [of "ASlot i j"]) (auto simp: scope_addr_def slot_addr_def read_addr_def read_box_def box_ok_def)
    next
      case (Some b')
      then show ?thesis using walk \<open>find_slot _ _ = Some j\<close> inv
        by (intro that [of "ABox b'"]) (auto simp: scope_addr_def slot_addr_def Let_def same_names_refl)
    qed
  next
    case None
    show ?thesis
    proof (cases "scope_addr (heap m) (chunk m) (vm m) i name = Some None")
      case True
      then have "box_walk is name m = Some (Some b, m1)"
        using walk None by (auto simp: scope_addr_def Let_def split: if_splits Option.bind_splits)
      then obtain a where a: "walk_scopes (heap m) (chunk m) (vm m) is name = Some (Some a)"
        "walk_scopes (heap m1) (chunk m1) (vm m1) is name = Some (Some (ABox b))" "read_addr m1 (ABox b) = read_addr m a"
        "heap_ext (heap m) (heap m1)" "same_names (vm m) (vm m1)" "a = ABox b \<or> box_ok (heap m1) b"
        "string_pool (heap m1) = string_pool (heap m)" "chunk m1 = chunk m"
        using Cons.IH Cons.prems(3,4) by auto
      then show ?thesis using True same_names_absent [OF a(5,7) True] by (intro that [of a]) simp_all
    next
      case False
      then obtain key b' where "overflow (scopes (vm m) ! i)" "pool_name (heap m) (chunk m) name = Some key"
        "hashmap_get (smap (scopes (vm m) ! i)) key = Some b'" "b = BoxOvf b'"
        "m1 = m\<lparr>vm := set_scope i ((scopes (vm m) ! i)\<lparr>overflow_has_captures := True\<rparr>) (vm m)\<rparr>"
        using walk None by (auto simp: scope_addr_def Let_def split: if_splits Option.bind_splits option.splits)
      moreover from this have "find_slot (scopes (vm m1) ! i) name = None"
        using same_names_find [OF same_names_pin] None by simp
      ultimately show ?thesis using None inv Cons.prems(4)
        by (intro that [of "ABox b"]) (auto simp: scope_addr_def same_names_pin [unfolded set_scope_def] set_scope_def read_addr_def)
    qed
  qed
qed simp

lemma lookup_box:
  assumes "vm_bounds (vm m)" "pools_inv (heap m)" "vm_box_slot name m = Some (Some b, m1)"
  obtains a where "vm_scope_get (heap m) (chunk m) (vm m) name = Some (Some a)"
    "vm_scope_get (heap m1) (chunk m1) (vm m1) name = Some (Some (ABox b))" "read_addr m1 (ABox b) = read_addr m a"
    "heap_ext (heap m) (heap m1)" "a = ABox b \<or> box_ok (heap m1) b"
proof -
  have "box_walk (visible_scopes (vm m)) name m = Some (Some b, m1)"
    using assms(3) by (auto simp: vm_box_slot_def split: Option.bind_splits option.splits)
  moreover have "\<forall>i \<in> set (visible_scopes (vm m)). i < length (scopes (vm m)) \<and> scount (scopes (vm m) ! i) \<le> length (slots (scopes (vm m) ! i))"
    using assms(1) scope_at [OF assms(1)] by (auto simp: visible_scopes_def Let_def vm_bounds_def scope_ok_def)
  ultimately obtain a where a: "walk_scopes (heap m) (chunk m) (vm m) (visible_scopes (vm m)) name = Some (Some a)"
    "walk_scopes (heap m1) (chunk m1) (vm m1) (visible_scopes (vm m)) name = Some (Some (ABox b))"
    "read_addr m1 (ABox b) = read_addr m a" "heap_ext (heap m) (heap m1)" "same_names (vm m) (vm m1)" "a = ABox b \<or> box_ok (heap m1) b"
    using assms(2) by (rule_tac box_walk_ok)
  have "visible_scopes (vm m1) = visible_scopes (vm m)"
    using a(5) by (simp add: visible_scopes_def vm_scope_floor_def same_names_def)
  then show ?thesis using that a by (simp add: vm_scope_get_def)
qed

text \<open>
  Where the machine is: at the operands of a load or store of the variable \<open>name\<close> with cache slot
  \<open>k\<close>, or at the operand of a load or store of the upvalue \<open>j\<close>, which is the box \<open>b\<close>.
\<close>

definition variable_site :: "nat \<Rightarrow> nat \<Rightarrow> mach \<Rightarrow> bool" where
  "variable_site name k d \<longleftrightarrow> (\<exists>d1 d2. read_nat d = Some (name, d1) \<and> read_nat d1 = Some (k, d2))"

definition upvalue_site :: "nat \<Rightarrow> box_ref \<Rightarrow> mach \<Rightarrow> bool" where
  "upvalue_site j b c \<longleftrightarrow> (\<exists>c1. read_nat c = Some (j, c1)) \<and> frame_upvalue c j = Some b"

definition variable_addr :: "mach \<Rightarrow> nat \<Rightarrow> addr option option" where
  "variable_addr m name = vm_scope_get (heap m) (chunk m) (vm m) name"

lemma variable_addr_cong [simp]:
  "variable_addr (set_ip i m) name = variable_addr m name" "variable_addr (set_stack st m) name = variable_addr m name"
  unfolding variable_addr_def by (subst lookup_frame [of _ "vm m"]; simp add: set_ip_def vm_scope_floor_def)+

lemma cached_cong [simp]:
  "cached (set_ip i m) k = cached m k" "cached (set_stack st m) k = cached m k"
  by (simp_all add: cached_def set_ip_def)

lemma variable_site_reads:
  assumes "variable_site name k d"
  shows "read_nat d = Some (name, set_ip (ip (vm d) + 1) d)"
    "read_nat (set_ip (ip (vm d) + 1) d) = Some (k, set_ip (ip (vm d) + 2) d)"
  using assms by (auto simp: variable_site_def read_nat_def read_word_def set_ip_def split: if_splits)

lemma upvalue_site_reads:
  assumes "upvalue_site j b c"
  shows "read_nat c = Some (j, set_ip (ip (vm c) + 1) c)" "frame_upvalue (set_ip i c) j = Some b"
    "frame_upvalue (set_stack st (set_ip i c)) j = Some b"
  using assms by (auto simp: upvalue_site_def read_nat_def read_word_def set_ip_def frame_upvalue_def split: if_splits)

text \<open>A box address never enters a cache.\<close>

lemma cache_address_box [simp]: "cache_address name k (ABox b) m = m"
  by (simp add: cache_address_def split: option.split)

lemma find_cached_empty:
  assumes "cached m k = Some None" "variable_addr m name = Some (Some (ABox b))"
  shows "find_cached name k m = Some (Some (ABox b), m)"
  using assms by (simp add: find_cached_def variable_addr_def)

lemma load_box:
  assumes "variable_site name k d" "cached d k = Some None" "variable_addr d name = Some (Some (ABox b))"
    "read_box (heap d) b = Some x" "stack_top (vm d) < VM_STACK_MAX"
  shows "\<exists>d'. lbl_load d = Some (Running d') \<and> stack (vm d') = x # stack (vm d) \<and> cached d' k = Some None"
proof -
  have "lbl_load d = push_from (ABox b) (set_ip (ip (vm d) + 2) d)"
    unfolding lbl_load_def
    using variable_site_reads [OF assms(1)] find_cached_empty [of "set_ip (ip (vm d) + 2) d" k name b] assms(2,3) by simp
  also have "\<dots> = Some (Running (set_stack (x # stack (vm d)) (set_ip (ip (vm d) + 2) d)))"
    using assms(4,5) by (simp add: push_from_def push_with_def addr_fits_def read_addr_def set_ip_def)
  finally show ?thesis using assms(2) by simp
qed

lemma load_cached:
  assumes "variable_site name k d" "cached d k = Some (Some i)" "addr_fits (vm d) (ASlot 0 i)" "stack_top (vm d) < VM_STACK_MAX"
  shows "\<exists>d'. lbl_load d = Some (Running d') \<and> stack (vm d') = sl_val (slots (scopes (vm d) ! 0) ! i) # stack (vm d)"
  unfolding lbl_load_def using variable_site_reads [OF assms(1)] assms(2-4)
  by (simp add: find_cached_def push_from_def push_with_def addr_fits_def read_addr_def)

lemma store_box:
  assumes "variable_site name k d" "cached d k = Some None" "variable_addr d name = Some (Some (ABox b))"
    "pools_inv (heap d)" "box_ok (heap d) b" "stack (vm d) = y # st"
  shows "\<exists>d'. lbl_store d = Some (Running d') \<and> stack (vm d') = st \<and> cached d' k = Some None \<and> read_box (heap d') b = Some y \<and>
    (\<forall>b'. b' \<noteq> b \<longrightarrow> read_box (heap d') b' = read_box (heap d) b')"
proof -
  let ?d = "set_stack st (set_ip (ip (vm d) + 2) d)"
  obtain h where h: "write_box (heap d) b y = Some h" "read_box h b = Some y" "\<And>b'. b' \<noteq> b \<Longrightarrow> read_box h b' = read_box (heap d) b'"
    using assms(4,5) by (rule write_box_ok) (rule that)
  have look: "vm_scope_get (heap ?d) (chunk ?d) (vm ?d) name = Some (Some (ABox b))"
    using assms(3) unfolding variable_addr_def [symmetric] by simp
  have "lbl_store d = Some (Running (?d\<lparr>heap := h\<rparr>))"
    unfolding lbl_store_def
    using variable_site_reads [OF assms(1)] assms(2,6) h(1) look
    by (simp add: pop_def write_to_def addr_fits_def write_addr_def)
  moreover have "cached (?d\<lparr>heap := h\<rparr>) k = cached ?d k" by (simp add: cached_def)
  ultimately show ?thesis using assms(2) h(2,3) by simp
qed

lemma store_upvalue:
  assumes "upvalue_site j b c" "pools_inv (heap c)" "box_ok (heap c) b" "stack (vm c) = x # st" "val_ok (heap c) x"
  shows "\<exists>c'. lbl_store_upvalue c = Some (Running c') \<and> stack (vm c') = st \<and> read_box (heap c') b = Some x \<and>
    (\<forall>b'. b' \<noteq> b \<longrightarrow> box_ok (heap c) b' \<longrightarrow> read_box (heap c') b' = read_box (heap c) b')"
proof -
  obtain h where h: "gc_barrier_box b x (heap c) = Some h" "heap_ext (heap c) h" using assms(2,3,5) by (rule gc_barrier_box_ok)
  obtain h' where h': "write_box h b x = Some h'" "read_box h' b = Some x" "\<And>b'. b' \<noteq> b \<Longrightarrow> read_box h' b' = read_box h b'"
    using heap_ext_inv [OF h(2)] box_ok_ext [OF h(2) assms(3)] by (rule write_box_ok) (rule that)
  have "read_box h b' = read_box (heap c) b'" if "box_ok (heap c) b'" for b'
    using h(2) that by (auto simp: heap_ext_def box_ok_def read_box_def read_ovf_def split: box_ref.splits)
  moreover have "lbl_store_upvalue c = Some (Running (set_heap h' (set_stack st (set_ip (ip (vm c) + 1) c))))"
    unfolding lbl_store_upvalue_def using upvalue_site_reads [OF assms(1)] assms(4) h(1) h'(1) by (simp add: pop_def set_ip_def)
  ultimately show ?thesis using h'(2,3) by (simp add: set_heap_def)
qed

lemma load_upvalue:
  assumes "upvalue_site j b c" "read_box (heap c) b = Some x" "stack_top (vm c) < VM_STACK_MAX"
  shows "\<exists>c'. lbl_load_upvalue c = Some (Running c') \<and> stack (vm c') = x # stack (vm c)"
  unfolding lbl_load_upvalue_def using upvalue_site_reads [OF assms(1)] assms(2,3) by (simp add: push_with_def set_ip_def)

text \<open>C7: capturing a variable keeps its value, and makes it a box that the name now denotes. From then
  on the declaring function and the closure share it. Whatever OP_STORE_UPVALUE assigns in a call
  of the closure is what OP_LOAD of the name pushes in any later machine where the name still
  denotes the variable, and whatever OP_STORE of the name assigns is what OP_LOAD_UPVALUE pushes
  in any later call of the closure; the other boxes keep their values. In between any
  instructions may run, allocations included, that neither assign the box nor free it
  (\<open>read_box\<close> is the same); a collection frees it even though it is in use, which is C22. The
  name is loaded and stored by an instruction whose cache slot is empty, and stays so: a site
  that cached the place of a global variable before it was captured goes on with the value in
  that place, which the closure does not see.
\<close>

theorem captured_shared:
  assumes "vm_bounds (vm m)" "pools_inv (heap m)" "vm_box_slot name m = Some (Some b, m1)"
    "\<forall>b'. variable_addr m name = Some (Some (ABox b')) \<longrightarrow> box_ok (heap m) b'"
  shows "(\<exists>a. variable_addr m name = Some (Some a) \<and> read_box (heap m1) b = read_addr m a) \<and>
    variable_addr m1 name = Some (Some (ABox b)) \<and> pools_inv (heap m1) \<and> box_ok (heap m1) b \<and>
    (\<forall>c j x st. upvalue_site j b c \<and> pools_inv (heap c) \<and> box_ok (heap c) b \<and> stack (vm c) = x # st \<and> val_ok (heap c) x \<longrightarrow>
       (\<exists>c'. lbl_store_upvalue c = Some (Running c') \<and> stack (vm c') = st \<and>
          (\<forall>b'. b' \<noteq> b \<longrightarrow> box_ok (heap c) b' \<longrightarrow> read_box (heap c') b' = read_box (heap c) b') \<and>
          (\<forall>d k. variable_site name k d \<and> cached d k = Some None \<and> variable_addr d name = variable_addr m1 name \<and>
             read_box (heap d) b = read_box (heap c') b \<and> stack_top (vm d) < VM_STACK_MAX \<longrightarrow>
             (\<exists>d'. lbl_load d = Some (Running d') \<and> stack (vm d') = x # stack (vm d) \<and> cached d' k = Some None)))) \<and>
    (\<forall>d k y st. variable_site name k d \<and> cached d k = Some None \<and> variable_addr d name = variable_addr m1 name \<and>
       pools_inv (heap d) \<and> box_ok (heap d) b \<and> stack (vm d) = y # st \<longrightarrow>
       (\<exists>d'. lbl_store d = Some (Running d') \<and> stack (vm d') = st \<and> cached d' k = Some None \<and>
          (\<forall>b'. b' \<noteq> b \<longrightarrow> read_box (heap d') b' = read_box (heap d) b') \<and>
          (\<forall>c j. upvalue_site j b c \<and> read_box (heap c) b = read_box (heap d') b \<and> stack_top (vm c) < VM_STACK_MAX \<longrightarrow>
             (\<exists>c'. lbl_load_upvalue c = Some (Running c') \<and> stack (vm c') = y # stack (vm c))))) \<and>
    (\<forall>d k i. variable_site name k d \<and> cached d k = Some (Some i) \<and> addr_fits (vm d) (ASlot 0 i) \<and> stack_top (vm d) < VM_STACK_MAX \<longrightarrow>
       (\<exists>d'. lbl_load d = Some (Running d') \<and> stack (vm d') = sl_val (slots (scopes (vm d) ! 0) ! i) # stack (vm d)))"
proof -
  obtain a where a: "variable_addr m name = Some (Some a)" "variable_addr m1 name = Some (Some (ABox b))"
    "read_addr m1 (ABox b) = read_addr m a" "heap_ext (heap m) (heap m1)" "a = ABox b \<or> box_ok (heap m1) b"
    using assms(1-3) unfolding variable_addr_def by (rule lookup_box)
  have b: "box_ok (heap m1) b" "pools_inv (heap m1)" using a(1,4,5) assms(4) by (auto intro: box_ok_ext heap_ext_inv)
  have store: "\<exists>c'. lbl_store_upvalue c = Some (Running c') \<and> stack (vm c') = st \<and>
      (\<forall>b'. b' \<noteq> b \<longrightarrow> box_ok (heap c) b' \<longrightarrow> read_box (heap c') b' = read_box (heap c) b') \<and>
      (\<forall>d k. variable_site name k d \<and> cached d k = Some None \<and> variable_addr d name = variable_addr m1 name \<and>
         read_box (heap d) b = read_box (heap c') b \<and> stack_top (vm d) < VM_STACK_MAX \<longrightarrow>
         (\<exists>d'. lbl_load d = Some (Running d') \<and> stack (vm d') = x # stack (vm d) \<and> cached d' k = Some None))"
    if "upvalue_site j b c \<and> pools_inv (heap c) \<and> box_ok (heap c) b \<and> stack (vm c) = x # st \<and> val_ok (heap c) x" for c j x st
    using store_upvalue [of j b c x st] load_box [of name _ _ b x] that a(2) by fastforce
  have load: "\<exists>d'. lbl_store d = Some (Running d') \<and> stack (vm d') = st \<and> cached d' k = Some None \<and>
      (\<forall>b'. b' \<noteq> b \<longrightarrow> read_box (heap d') b' = read_box (heap d) b') \<and>
      (\<forall>c j. upvalue_site j b c \<and> read_box (heap c) b = read_box (heap d') b \<and> stack_top (vm c) < VM_STACK_MAX \<longrightarrow>
         (\<exists>c'. lbl_load_upvalue c = Some (Running c') \<and> stack (vm c') = y # stack (vm c)))"
    if "variable_site name k d \<and> cached d k = Some None \<and> variable_addr d name = variable_addr m1 name \<and>
       pools_inv (heap d) \<and> box_ok (heap d) b \<and> stack (vm d) = y # st" for d k y st
    using store_box [of name k d b y st] load_upvalue [of _ b _ y] that a(2) by fastforce
  have stale: "\<exists>d'. lbl_load d = Some (Running d') \<and> stack (vm d') = sl_val (slots (scopes (vm d) ! 0) ! i) # stack (vm d)"
    if "variable_site name k d \<and> cached d k = Some (Some i) \<and> addr_fits (vm d) (ASlot 0 i) \<and> stack_top (vm d) < VM_STACK_MAX" for d k i
    using load_cached [of name k d i] that by blast
  have "\<exists>a. variable_addr m name = Some (Some a) \<and> read_box (heap m1) b = read_addr m a"
    using a(1,3) by (auto simp: read_addr_def)
  then show ?thesis using a(2) b by (intro conjI allI impI) (assumption | rule store load stale | simp)+
qed

text \<open>
  A variable with the value 3, at an instruction that loads it, and a closure that has it in a box
  and the value 9 on the stack.
\<close>

definition demo_var :: mach where
  "demo_var = mach_init\<lparr>chunk := chunk_init\<lparr>code := [0, 0], addr_cache := [None]\<rparr>,
     vm := set_scope 0 (scope_zero\<lparr>slots := (slots scope_zero)[0 := \<lparr>sl_name = 0, sl_val = VInt 3, sl_box = None\<rparr>],
     scount := 1\<rparr>) vm_init\<rparr>"

definition demo_closure :: "box_ref \<Rightarrow> heap \<Rightarrow> mach" where
  "demo_closure b h = mach_init\<lparr>heap := h, chunk := chunk_init\<lparr>code := [0]\<rparr>,
     vm := vm_init\<lparr>stack := [VInt 9], call_stack := [demo_frame\<lparr>fr_upvalues := Some [b]\<rparr>]\<rparr>\<rparr>"

theorem captured_shared_witness:
  "\<exists>b m1 c' d'. vm_box_slot 0 demo_var = Some (Some b, m1) \<and> read_box (heap m1) b = Some (VInt 3) \<and>
     lbl_store_upvalue (demo_closure b (heap m1)) = Some (Running c') \<and>
     lbl_load (m1\<lparr>heap := heap c'\<rparr>) = Some (Running d') \<and> stack (vm d') = [VInt 9]"
proof -
  have b: "vm_bounds (vm demo_var)" "pools_inv (heap demo_var)"
    using boundsD(1) [OF bounds_init] heap_init_inv
    by (auto simp: demo_var_def scope_ok_def scope_zero_def SCOPE_SLOT_MAX_def mach_init_def intro!: vm_bounds_scope)
  have find: "find_slot (scopes (vm demo_var) ! 0) 0 = Some 0" "visible_scopes (vm demo_var) = [0]"
    by (simp_all add: demo_var_def find_slot_def set_scope_def visible_scopes_def vm_scope_floor_def vm_init_def scope_zero_def vm_limits)
  have slot: "slots (scopes (vm demo_var) ! 0) ! 0 = \<lparr>sl_name = 0, sl_val = VInt 3, sl_box = None\<rparr>"
    "0 < length (scopes (vm demo_var))" "0 < length (slots (scopes (vm demo_var) ! 0))"
    by (simp_all add: demo_var_def set_scope_def vm_init_def scope_zero_def vm_limits)
  obtain p h where h: "new_box (heap demo_var) (VInt 3) = Some (p, h)" using b(2) by (rule new_box_ok)
  let ?v = "set_slot 0 0 \<lparr>sl_name = 0, sl_val = VInt 3, sl_box = Some (BoxCell p)\<rparr> (vm demo_var)"
  let ?b = "BoxCell p" and ?m1 = "demo_var\<lparr>heap := h, vm := ?v\<rparr>"
  have box: "vm_box_slot 0 demo_var = Some (Some ?b, ?m1)"
    using find slot h by (simp add: vm_box_slot_def)
  have look: "variable_addr demo_var 0 = Some (Some (ASlot 0 0))" "read_addr demo_var (ASlot 0 0) = Some (VInt 3)"
    using find slot by (simp_all add: variable_addr_def vm_scope_get_def scope_addr_def slot_addr_def read_addr_def)
  have "\<forall>b'. variable_addr demo_var 0 = Some (Some (ABox b')) \<longrightarrow> box_ok (heap demo_var) b'" using look by simp
  note shared = captured_shared [OF b box this]
  then have m1: "read_box h ?b = Some (VInt 3)" "variable_addr ?m1 0 = Some (Some (ABox ?b))" "pools_inv h" "box_ok h ?b"
    using look by auto
  let ?c = "demo_closure ?b h"
  have "upvalue_site 0 ?b ?c \<and> pools_inv (heap ?c) \<and> box_ok (heap ?c) ?b \<and> stack (vm ?c) = VInt 9 # [] \<and> val_ok (heap ?c) (VInt 9)"
    using m1(3,4) by (simp add: demo_closure_def upvalue_site_def frame_upvalue_def read_nat_def read_word_def vm_init_def)
  then obtain c' where c': "lbl_store_upvalue ?c = Some (Running c')" and load: "\<forall>d k. variable_site 0 k d \<and> cached d k = Some None \<and>
      variable_addr d 0 = variable_addr ?m1 0 \<and> read_box (heap d) ?b = read_box (heap c') ?b \<and> stack_top (vm d) < VM_STACK_MAX \<longrightarrow>
      (\<exists>d'. lbl_load d = Some (Running d') \<and> stack (vm d') = VInt 9 # stack (vm d) \<and> cached d' k = Some None)"
    using shared by blast
  let ?d = "?m1\<lparr>heap := heap c'\<rparr>"
  have names: "same_names (vm demo_var) ?v" by (rule same_names_slot) (simp add: slot)
  have "variable_addr ?d 0 = variable_addr ?m1 0"
    using same_names_find [OF names] find names
    by (simp add: variable_addr_def vm_scope_get_def visible_scopes_def vm_scope_floor_def same_names_def scope_addr_def)
  moreover have "variable_site 0 0 ?d" "cached ?d 0 = Some None" "stack (vm ?d) = []"
    by (simp_all add: variable_site_def read_nat_def read_word_def set_ip_def cached_def demo_var_def set_slot_def set_scope_def vm_init_def)
  ultimately have "\<exists>d'. lbl_load ?d = Some (Running d') \<and> stack (vm d') = [VInt 9]"
    using load [rule_format, of 0 ?d] by (auto simp: vm_limits)
  then show ?thesis using box m1(1) c' by fastforce
qed

end
