(* ===== verification/Loops.thy ===== *)
theory Loops
  imports OpsLaws Bounds
begin

text \<open>
  The iteration instructions: what one pass of a \<^verbatim>\<open>for\<close> loop over a range, an array or a dict does to
  the stack, and which values the passes of a whole loop visit.
\<close>

section \<open>Ranges\<close>

text \<open>The counter before pass \<open>n\<close>, \<open>None\<close> once the loop has ended.\<close>

definition range_at :: "int \<Rightarrow> int \<Rightarrow> int \<Rightarrow> nat \<Rightarrow> int option" where
  "range_at cur fin stp n = ((\<lambda>r. r \<bind> (\<lambda>c. range_next c fin stp)) ^^ n) (Some cur)"

lemma range_at_0 [simp]: "range_at cur fin stp 0 = Some cur"
  by (simp add: range_at_def)

lemma range_at_Suc: "range_at cur fin stp (Suc n) = range_at cur fin stp n \<bind> (\<lambda>c. range_next c fin stp)"
  by (simp add: range_at_def)

lemma range_next_eq:
  "range_next c fin stp = (if c = fin then None else Some (if c < fin then c + stp else c - stp))"
  by (auto simp: range_next_def Let_def)

lemma range_at_None: "range_at cur fin stp n = None \<Longrightarrow> n \<le> k \<Longrightarrow> range_at cur fin stp k = None"
  by (induction k) (auto simp: range_at_Suc le_Suc_eq)

lemma range_at_mod: "range_at cur fin stp n = Some c \<Longrightarrow> stp dvd c - cur"
proof (induction n arbitrary: c)
  case (Suc n)
  then obtain d where "range_at cur fin stp n = Some d" "range_next d fin stp = Some c"
    by (auto simp: range_at_Suc split: Option.bind_splits)
  moreover from this Suc.IH have "stp dvd d - cur" by simp
  ultimately show ?case
    by (auto simp: range_next_eq algebra_simps dvd_diff_commute split: if_splits dest: dvd_add [OF _ dvd_refl]
        dvd_diff [OF _ dvd_refl])
qed simp

lemma range_at_multiple:
  assumes "0 < stp" "\<bar>fin - cur\<bar> = int k * stp" "n \<le> k"
  shows "range_at cur fin stp n = Some (cur + sgn (fin - cur) * int n * stp)"
  using assms(3)
proof (induction n)
  case (Suc n)
  have lt: "int n * stp < int k * stp" using Suc.prems assms(1) by simp
  have "0 \<le> int n * stp" using assms(1) by simp
  then have "\<bar>fin - cur\<bar> \<noteq> 0" using lt assms(2) by linarith
  then consider "cur < fin" | "fin < cur" by linarith
  then show ?case
    using Suc lt assms(2) by cases (auto simp: range_at_Suc range_next_eq algebra_simps)
qed simp

lemma range_at_between:
  assumes "0 < stp" "\<bar>fin - cur\<bar> = int k * stp" "range_at cur fin stp n = Some c"
  shows "min cur fin \<le> c \<and> c \<le> max cur fin"
proof -
  have "cur + sgn (fin - cur) * int k * stp = fin"
    using assms(2) by (metis add.commute diff_add_cancel mult.assoc sgn_mult_abs)
  then have "range_at cur fin stp (Suc k) = None"
    using range_at_multiple [OF assms(1,2) order_refl] by (simp add: range_at_Suc range_next_eq)
  then have n: "n \<le> k" using range_at_None [of cur fin stp "Suc k" n] assms(3) not_less_eq_eq by fastforce
  have c: "c = cur + sgn (fin - cur) * (int n * stp)"
    using range_at_multiple [OF assms(1,2) n] assms(3) by (simp only: option.inject mult.assoc)
  have "0 \<le> int n * stp" "int n * stp \<le> int k * stp" using n assms(1) by simp_all
  then show ?thesis using assms(2) by (cases fin cur rule: linorder_cases) (auto simp: c sgn_if)
qed

text \<open>C15: A range loop with a positive step ends if and only if the step divides the distance of the
  bounds; it then visits \<open>cur\<close>, one step nearer, and so on, the end excluded, and the counter never
  leaves the bounds, so it cannot overflow. For any other step it never ends: it steps past the
  end and turns round, because the direction is inferred afresh on every pass. There the
  counter is taken as an unbounded integer; if an end of the loop is less than a step away from
  an end of the 64 bits the addition of the handler overflows, which is undefined in C.\<close>

theorem range_ends_iff:
  assumes "0 < stp"
  shows "((\<exists>n. range_at cur fin stp n = None) \<longleftrightarrow> stp dvd fin - cur) \<and>
    (\<forall>k. \<bar>fin - cur\<bar> = int k * stp \<longrightarrow>
       range_at cur fin stp (Suc k) = None \<and>
       (\<forall>n \<le> k. range_at cur fin stp n = Some (cur + sgn (fin - cur) * int n * stp)) \<and>
       (\<forall>n c. range_at cur fin stp n = Some c \<longrightarrow> min cur fin \<le> c \<and> c \<le> max cur fin))"
proof (intro conjI allI impI)
  have m: "range_at cur fin stp (Suc k) = None \<and>
      (\<forall>n \<le> k. range_at cur fin stp n = Some (cur + sgn (fin - cur) * int n * stp))"
    if k: "\<bar>fin - cur\<bar> = int k * stp" for k
  proof -
    have "cur + sgn (fin - cur) * int k * stp = fin"
      using k by (metis add.commute diff_add_cancel mult.assoc sgn_mult_abs)
    then show ?thesis
      using range_at_multiple [OF assms k] by (simp add: range_at_Suc range_next_eq)
  qed
  show "(\<exists>n. range_at cur fin stp n = None) \<longleftrightarrow> stp dvd fin - cur"
  proof
    assume "\<exists>n. range_at cur fin stp n = None"
    then obtain n where n: "range_at cur fin stp n = None" and least: "\<And>k. k < n \<Longrightarrow> range_at cur fin stp k \<noteq> None"
      using exists_least_iff [of "\<lambda>n. range_at cur fin stp n = None"] by blast
    then obtain j where j: "n = Suc j" by (cases n) auto
    then obtain c where "range_at cur fin stp j = Some c" using least [of j] by auto
    moreover from this n j have "c = fin" by (auto simp: range_at_Suc range_next_eq split: if_splits)
    ultimately show "stp dvd fin - cur" using range_at_mod by blast
  next
    assume "stp dvd fin - cur"
    then have "stp dvd \<bar>fin - cur\<bar>" by simp
    then obtain q where q: "\<bar>fin - cur\<bar> = q * stp" by (metis dvd_div_mult_self)
    then have "0 \<le> q" using assms by (metis abs_ge_zero zero_le_mult_iff not_less)
    then have "\<bar>fin - cur\<bar> = int (nat q) * stp" using q by simp
    then show "\<exists>n. range_at cur fin stp n = None" using m by blast
  qed
  show "range_at cur fin stp (Suc k) = None" if "\<bar>fin - cur\<bar> = int k * stp" for k using m [OF that] by blast
  show "range_at cur fin stp n = Some (cur + sgn (fin - cur) * int n * stp)"
    if "\<bar>fin - cur\<bar> = int k * stp" "n \<le> k" for k n using m [OF that(1)] that(2) by blast
  show "min cur fin \<le> c" "c \<le> max cur fin" if "\<bar>fin - cur\<bar> = int k * stp" "range_at cur fin stp n = Some c" for k n c
    using range_at_between [OF assms that] by blast+
qed

theorem range_ends_iff_witness:
  "range_at 0 6 3 1 = Some 3 \<and> range_at 0 6 3 3 = None \<and> (\<forall>n. range_at 0 10 3 n \<noteq> None)"
proof -
  have "\<not> (3::int) dvd 10" by presburger
  then show ?thesis
    using range_ends_iff [of 3 0 6] range_ends_iff [of 3 0 10] by (auto dest: spec [of _ 2])
qed

section \<open>One pass\<close>

text \<open>C34: The instruction at the head of a range loop, on integer counter, end and step values: once the
  counter is at the end the three loop slots are dropped and control goes to the exit address;
  otherwise the counter is pushed as the loop variable and the counter slot, below end and step,
  moves one step towards the end, if the result fits 64 bits. A step that is not positive ends
  the loop with the error.\<close>

theorem range_step:
  assumes h: "pools_inv (heap m1)" and rd: "read_nat m = Some (target, m1)"
    and st: "stack (vm m1) = sv # ev # cv # st"
    and v: "int_val (heap m1) cv cur" "int_val (heap m1) ev fin" "int_val (heap m1) sv stp"
    and room: "length st + 4 \<le> VM_STACK_MAX" and fits: "\<And>n. range_next cur fin stp = Some n \<Longrightarrow> in_i64 n"
  shows "if stp \<le> 0 then lbl_iter_range m = Some (Running (set_ip target (set_stack st (error range_step_msg m1))))
    else case range_next cur fin stp of
      None \<Rightarrow> lbl_iter_range m = Some (Running (set_ip target (set_stack st m1)))
    | Some n \<Rightarrow> \<exists>nv m2. lbl_iter_range m = Some (Running (set_stack (cv # sv # ev # nv # st) m2)) \<and>
        int_val (heap m2) nv n \<and> only_heap (set_stack (cv # stack (vm m1)) m1) m2"
proof -
  note t = v [THEN int_val_type] and r = v [THEN int_val_read]
  have "lbl_iter_range m = (if stp \<le> 0 then leave_loop 3 target (error range_step_msg m1)
      else case range_next cur fin stp of None \<Rightarrow> leave_loop 3 target m1
        | Some n \<Rightarrow> then_do (push cv m1) (\<lambda>m. do {
            (nv, m) \<leftarrow> ret_int n m; Some (Running (set_stack (cv # sv # ev # nv # st) m)) }))"
    using rd st t r by (simp add: lbl_iter_range_def)
  moreover have "push cv m1 = Some (Running (set_stack (cv # stack (vm m1)) m1))"
    using room st by (simp add: push_def push_with_def ret_def)
  moreover have "\<exists>nv m2. ret_int n (set_stack (cv # stack (vm m1)) m1) = Some (nv, m2) \<and>
      int_val (heap m2) nv n \<and> only_heap (set_stack (cv # stack (vm m1)) m1) m2" if "range_next cur fin stp = Some n" for n
    using ret_int_ok [of "set_stack (cv # stack (vm m1)) m1" n] h fits [OF that] by (metis set_parts(1))
  ultimately show ?thesis
    using st by (auto simp: leave_loop_def split: option.split) blast
qed

text \<open>A machine with the given code and operands, and the reading of its first operand word.\<close>

definition demo_mach :: "int list \<Rightarrow> val list \<Rightarrow> heap \<Rightarrow> mach" where
  "demo_mach ws st h = mach_init\<lparr>heap := h, chunk := chunk_init\<lparr>code := ws\<rparr>, vm := vm_init\<lparr>stack := st\<rparr>\<rparr>"

lemma demo_mach_simps [simp]:
  "heap (demo_mach ws st h) = h" "stack (vm (demo_mach ws st h)) = st" "code (chunk (demo_mach ws st h)) = ws"
  "ip (vm (demo_mach ws st h)) = 0"
  by (simp_all add: demo_mach_def vm_init_def)

lemma set_ip_simps [simp]:
  "heap (set_ip i m) = heap m" "stack (vm (set_ip i m)) = stack (vm m)" "code (chunk (set_ip i m)) = code (chunk m)"
  "ip (vm (set_ip i m)) = i" "set_ip i (set_ip j m) = set_ip i m"
  by (simp_all add: set_ip_def)

lemma demo_read: "0 \<le> n \<Longrightarrow> read_nat (demo_mach (n # ws) st h) = Some (nat n, set_ip 1 (demo_mach (n # ws) st h))"
  by (simp add: read_nat_def read_word_def)

theorem range_step_witness:
  "\<exists>nv m2. lbl_iter_range (demo_mach [9] [VInt 3, VInt 6, VInt 0] heap_init) =
     Some (Running (set_stack [VInt 0, VInt 3, VInt 6, nv] m2)) \<and> int_val (heap m2) nv 3"
  using range_step [of "set_ip 1 (demo_mach [9] [VInt 3, VInt 6, VInt 0] heap_init)"
      "demo_mach [9] [VInt 3, VInt 6, VInt 0] heap_init" 9 "VInt 3" "VInt 6" "VInt 0" "[]" 0 6 3]
  by (auto simp: demo_read heap_init_inv range_next_eq in_i64_def VM_STACK_MAX_def)

section \<open>Arrays and dicts\<close>

text \<open>C35: A \<open>for x in array\<close> loop. As long as the index slot is below the length of the array as it is now,
  the element at the index is pushed and the index slot counts up by one; once it has reached the
  length both loop slots are dropped and control goes to the exit address. So an element
  appended during the loop is visited too.\<close>

theorem iter_next_array:
  assumes h: "pools_inv (heap m1)" and rd: "read_nat m = Some (target, m1)"
    and st: "stack (vm m1) = iv # VArray c # st" and room: "length st + 3 \<le> VM_STACK_MAX"
    and i: "int_val (heap m1) iv (int k)" and a: "pool_read (array_pool (heap m1)) c = Some a"
    and len: "in_i64 (int (length (items a)))"
  shows "if k < length (items a)
    then \<exists>iv' m2. lbl_iter_next m = Some (Running (set_stack (items a ! k # iv' # VArray c # st) m2)) \<and>
      int_val (heap m2) iv' (int k + 1) \<and> only_heap m1 m2
    else lbl_iter_next m = Some (Running (set_ip target (set_stack st m1)))"
proof (cases "k < length (items a)")
  case True
  obtain iv' m2 where r: "ret_int (int k + 1) m1 = Some (iv', m2)" "int_val (heap m2) iv' (int k + 1)" "only_heap m1 m2"
  proof (rule ret_int_ok [OF h])
    show "in_i64 (int k + 1)" using True len by (simp add: in_i64_def)
  qed
  have "stack (vm m2) = stack (vm m1)" using r(3) unfolding only_heap_def by (metis mach.select_convs(10) mach.surjective mach.update_convs(1))
  then have "lbl_iter_next m = push (items a ! k) (set_stack (iv' # VArray c # st) m2)"
    using rd st a int_val_read [OF i] True r(1) by (simp add: lbl_iter_next_def past_def bump_def)
  also have "\<dots> = Some (Running (set_stack (items a ! k # iv' # VArray c # st) m2))"
    using room by (simp add: push_def push_with_def ret_def)
  finally show ?thesis using r(2,3) True by auto
next
  case False
  then show ?thesis
    using rd st a int_val_read [OF i] by (simp add: lbl_iter_next_def past_def leave_loop_def)
qed

theorem iter_next_array_witness:
  "\<exists>h c iv' m2. lbl_iter_next (demo_mach [9] [VInt 0, VArray c] h) =
     Some (Running (set_stack [VBool True, iv', VArray c] m2)) \<and> int_val (heap m2) iv' 1"
proof -
  obtain c h where n: "new_array heap_init \<lparr>items = [VBool True], shape = None\<rparr> = Some (VArray c, h)"
    "heap_ext heap_init h" "val_ok h (VArray c)" "arr_of h (VArray c) = Some \<lparr>items = [VBool True], shape = None\<rparr>"
    by (rule new_array_ok [OF heap_init_inv]) (rule that)
  then show ?thesis
    using iter_next_array [of "set_ip 1 (demo_mach [9] [VInt 0, VArray c] h)" "demo_mach [9] [VInt 0, VArray c] h" 9
        "VInt 0" c "[]" 0 "\<lparr>items = [VBool True], shape = None\<rparr>"] heap_ext_inv [OF n(2)]
    by (auto simp: demo_read in_i64_def VM_STACK_MAX_def heap_reads)
qed

text \<open>The entries a loop over a dict visits from bucket \<open>i\<close> on, by the cursor of \<open>next_bucket\<close>.\<close>

function dict_visits :: "'v hashtable \<Rightarrow> nat \<Rightarrow> 'v ht_entry list" where
  "dict_visits t i = (case next_bucket t i of None \<Rightarrow> [] | Some j \<Rightarrow> the (buckets t ! j) # dict_visits t (j + 1))"
  by pat_completeness auto
termination
  by (relation "measure (\<lambda>(t, i). capacity t - i)") (auto simp: next_bucket_def find_Some_iff)

declare dict_visits.simps [simp del]

lemma next_bucket_Suc:
  "i < capacity t \<Longrightarrow> next_bucket t i = (if buckets t ! i \<noteq> None then Some i else next_bucket t (Suc i))"
  by (simp add: next_bucket_def upt_conv_Cons)

lemma dict_visits_drop:
  assumes "length (buckets t) = capacity t"
  shows "dict_visits t i = map the (filter (\<lambda>b. b \<noteq> None) (drop i (buckets t)))"
proof (induction "capacity t - i" arbitrary: i)
  case 0
  then show ?case using assms by (subst dict_visits.simps) (simp add: next_bucket_def)
next
  case (Suc n)
  then have i: "i < capacity t" by simp
  have IH: "dict_visits t (Suc i) = map the (filter (\<lambda>b. b \<noteq> None) (drop (Suc i) (buckets t)))"
    using Suc by (intro Suc(1)) simp
  have d: "drop i (buckets t) = buckets t ! i # drop (Suc i) (buckets t)" using i assms by (simp add: Cons_nth_drop_Suc)
  show ?case
  proof (cases "buckets t ! i")
    case None
    then have "dict_visits t i = dict_visits t (Suc i)"
      using i by (subst (1 2) dict_visits.simps) (simp add: next_bucket_Suc)
    then show ?thesis using IH d None by simp
  next
    case (Some e)
    then show ?thesis using IH d i by (subst dict_visits.simps) (simp add: next_bucket_Suc)
  qed
qed

text \<open>C36: The bucket cursor of a \<open>for k, v in dict\<close> loop, started at bucket 0 and set one past the last visited
  bucket after each pass, visits every entry of an unchanged table exactly once, in bucket order,
  and then ends; the keys it yields look up to the values it yields.\<close>

theorem dict_visits_entries:
  assumes "ht_inv t"
  shows "dict_visits t 0 = ht_entries t \<and> distinct (map ckey (dict_visits t 0)) \<and>
    (\<forall>e \<in> set (dict_visits t 0). dictmap_get t (ckey e) = Some (payload e))"
proof -
  have len: "length (buckets t) = capacity t" and d: "distinct_keys (buckets t)"
    using assms by (auto simp: ht_inv_def ht_wf_def distinct_keys_def split: if_splits)
  have e: "dict_visits t 0 = ht_entries t" by (simp add: dict_visits_drop [OF len] ht_entries_def)
  moreover have "distinct (map ckey (ht_entries t))" using distinct_keys_map [OF d] by (simp add: ht_entries_def)
  moreover have "dictmap_get t (ckey e) = Some (payload e)" if "e \<in> set (ht_entries t)" for e
  proof -
    have "ht_map t (ckey e) = Some (payload e)"
      unfolding ht_map_Some [OF d] using that by (auto simp: ht_entries_def in_set_conv_nth)
    then show ?thesis by (simp add: dictmap_get_def hashtable_get_map [OF assms])
  qed
  ultimately show ?thesis by simp
qed

theorem dict_visits_entries_witness:
  "\<exists>t. dictmap_put (ht_zero True) ''ab'' (7::int) = Some t \<and> dict_visits t 0 = ht_entries t"
proof -
  obtain t where "dictmap_put (ht_zero True) ''ab'' (7::int) = Some t" "ht_inv t"
    using dict_table.put_law [of "ht_zero True" "''ab''" "7::int"] by (auto simp: HT_COUNT_SAFE_def)
  then show ?thesis using dict_visits_entries [of t] by blast
qed

end
