(* ===== verification/JsonLaws.thy ===== *)
theory JsonLaws
  imports Json Store
begin

text \<open>
  The JSON decoder of theory \<open>Json\<close> on every input: it ends, never touches memory it does not own
  and leaves every older object alone. On the text of a JSON tree it builds that tree, and the
  encoder writes that text for it.
\<close>

section \<open>Filling a fresh container\<close>

lemma heap_ext_store:
  assumes e: "heap_ext h0 h" and p: "pool_inv p" "live p = live (array_pool h)"
    "\<forall>d. d \<noteq> c \<longrightarrow> pool_read p d = pool_read (array_pool h) d" and c: "c \<notin> live (array_pool h0)"
  shows "heap_ext h0 (h\<lparr>array_pool := p\<rparr>)"
  unfolding heap_ext_def
proof (intro conjI allI)
  fix ob show "obj_live h0 ob \<longrightarrow> obj_live (h\<lparr>array_pool := p\<rparr>) ob \<and> obj_content (h\<lparr>array_pool := p\<rparr>) ob = obj_content h0 ob"
    using heap_ext_obj [OF e, of ob] p c by (cases ob) auto
qed (use e p in \<open>auto simp: heap_ext_def pools_inv_def\<close>)

lemma heap_ext_store_dict:
  assumes e: "heap_ext h0 h" and p: "pool_inv p" "live p = live (dict_pool h)"
    "\<forall>d. d \<noteq> c \<longrightarrow> pool_read p d = pool_read (dict_pool h) d" and c: "c \<notin> live (dict_pool h0)"
  shows "heap_ext h0 (h\<lparr>dict_pool := p\<rparr>)"
  unfolding heap_ext_def
proof (intro conjI allI)
  fix ob show "obj_live h0 ob \<longrightarrow> obj_live (h\<lparr>dict_pool := p\<rparr>) ob \<and> obj_content (h\<lparr>dict_pool := p\<rparr>) ob = obj_content h0 ob"
    using heap_ext_obj [OF e, of ob] p c by (cases ob) auto
qed (use e p in \<open>auto simp: heap_ext_def pools_inv_def\<close>)

text \<open>A container cell of \<open>h\<close> that \<open>h0\<close> does not have.\<close>

definition new_arr :: "heap \<Rightarrow> heap \<Rightarrow> ptr \<Rightarrow> aer_array \<Rightarrow> bool" where
  "new_arr h0 h c a \<longleftrightarrow> heap_ext h0 h \<and> c \<notin> live (array_pool h0) \<and> c \<in> live (array_pool h) \<and>
     pool_read (array_pool h) c = Some a"

definition new_dct :: "heap \<Rightarrow> heap \<Rightarrow> ptr \<Rightarrow> val hashtable \<Rightarrow> bool" where
  "new_dct h0 h c d \<longleftrightarrow> heap_ext h0 h \<and> c \<notin> live (dict_pool h0) \<and> c \<in> live (dict_pool h) \<and>
     pool_read (dict_pool h) c = Some d \<and> ht_inv d"

lemma new_arr_ext: "new_arr h0 h c a \<Longrightarrow> heap_ext h h' \<Longrightarrow> new_arr h0 h' c a"
  using heap_ext_obj(1) [of h h' "OArr c"] heap_ext_pool(2) [of h h' c]
  by (auto simp: new_arr_def intro: heap_ext_trans)

lemma new_dct_ext: "new_dct h0 h c a \<Longrightarrow> heap_ext h h' \<Longrightarrow> new_dct h0 h' c a"
  using heap_ext_obj(1) [of h h' "ODict c"] heap_ext_pool(3) [of h h' c]
  by (auto simp: new_dct_def intro: heap_ext_trans)

lemma array_push_ok:
  assumes n: "new_arr h0 h c a"
  obtains h' where "array_push c v h = Some h'" "new_arr h0 h' c (a\<lparr>items := items a @ [v]\<rparr>)"
    "stored h (OArr c) (CArr (a\<lparr>items := items a @ [v]\<rparr>)) h'"
proof -
  have e: "heap_ext h0 h" and c: "c \<in> live (array_pool h)" "c \<notin> live (array_pool h0)"
    and r: "pool_read (array_pool h) c = Some a" using n by (auto simp: new_arr_def)
  obtain p where p: "pool_write (array_pool h) c (a\<lparr>items := items a @ [v]\<rparr>) = Some p" "pool_inv p"
    "live p = live (array_pool h)" "pool_read p c = Some (a\<lparr>items := items a @ [v]\<rparr>)"
    "\<forall>d. d \<noteq> c \<longrightarrow> pool_read p d = pool_read (array_pool h) d"
    using slab.write_cell [OF pools_invD(2) [OF heap_ext_inv [OF e]] c(1)] by blast
  obtain h' where w: "write_array c (a\<lparr>items := items a @ [v]\<rparr>) (mach_init\<lparr>heap := h\<rparr>) = Some (mach_init\<lparr>heap := h\<rparr>\<lparr>heap := h'\<rparr>)"
    "stored h (OArr c) (CArr (a\<lparr>items := items a @ [v]\<rparr>)) h'"
    using write_array_ok [of "mach_init\<lparr>heap := h\<rparr>" c "a\<lparr>items := items a @ [v]\<rparr>"] heap_ext_inv [OF e] c(1) by auto
  have "h' = h\<lparr>array_pool := p\<rparr>"
    using w(1) p(1) by (auto simp: write_array_def dest: arg_cong [of _ _ heap])
  then show ?thesis
    using that [of "h\<lparr>array_pool := p\<rparr>"] p c r w(2) heap_ext_store [OF e p(2,3,5) c(2)]
    by (simp add: array_push_def new_arr_def)
qed

lemma dict_insert_ok:
  assumes n: "new_dct h0 h c d" and room: "count d < HT_COUNT_SAFE"
  obtains h' d' where "dict_insert c k v h = Some h'" "new_dct h0 h' c d'" "count d' \<le> count d + 1"
    "stored h (ODict c) (CDict d') h'"
    "\<And>k'. dictmap_get d' k' = (if c_str k' = c_str k then Some v else dictmap_get d k')"
proof -
  have e: "heap_ext h0 h" and c: "c \<in> live (dict_pool h)" "c \<notin> live (dict_pool h0)"
    and r: "pool_read (dict_pool h) c = Some d" "ht_inv d" using n by (auto simp: new_dct_def)
  obtain d' where d': "dictmap_put d k v = Some d'" "ht_inv d'" "count d' \<le> Suc (count d)"
    "\<And>k'. dictmap_get d' k' = (if c_str k' = c_str k then Some v else dictmap_get d k')"
    using dict_table.put_law [OF r(2) room, of k v] by auto
  obtain p where p: "pool_write (dict_pool h) c d' = Some p" "pool_inv p"
    "live p = live (dict_pool h)" "pool_read p c = Some d'"
    "\<forall>e. e \<noteq> c \<longrightarrow> pool_read p e = pool_read (dict_pool h) e"
    using slab.write_cell [OF pools_invD(3) [OF heap_ext_inv [OF e]] c(1)] by blast
  obtain h' where w: "write_dict c d' (mach_init\<lparr>heap := h\<rparr>) = Some (mach_init\<lparr>heap := h\<rparr>\<lparr>heap := h'\<rparr>)"
    "stored h (ODict c) (CDict d') h'"
    using write_dict_ok [of "mach_init\<lparr>heap := h\<rparr>" c d'] heap_ext_inv [OF e] c(1) by auto
  have "h' = h\<lparr>dict_pool := p\<rparr>"
    using w(1) p(1) by (auto simp: write_dict_def dest: arg_cong [of _ _ heap])
  then show ?thesis
    using that [of "h\<lparr>dict_pool := p\<rparr>" d'] p c r d' w(2) heap_ext_store_dict [OF e p(2,3,5) c(2)]
    by (simp add: dict_insert_def new_dct_def)
qed

lemma new_cells:
  "new_array h \<lparr>items = [], shape = None\<rparr> = map_option (\<lambda>(c, h). (VArray c, h)) (new_array_cell h)"
  "new_dict h (ht_zero True) = map_option (\<lambda>(c, h). (VDict c, h)) (new_dict_cell h)"
  by (auto simp: new_array_def new_array_cell_def new_dict_def new_dict_cell_def split: Option.bind_split)

lemma new_array_cell_ok:
  assumes "pools_inv h"
  obtains c h' where "new_array_cell h = Some (c, h')" "new_arr h h' c \<lparr>items = [], shape = None\<rparr>"
proof -
  obtain c h' where "new_array h \<lparr>items = [], shape = None\<rparr> = Some (VArray c, h')" "heap_ext h h'"
    "val_ok h' (VArray c)" "arr_of h' (VArray c) = Some \<lparr>items = [], shape = None\<rparr>" "c \<notin> live (array_pool h)"
    by (rule new_array_ok [OF assms]) (rule that)
  then show ?thesis using that [of c h'] by (auto simp: new_cells new_arr_def heap_reads)
qed

lemma new_dict_cell_ok:
  assumes "pools_inv h"
  obtains c h' where "new_dict_cell h = Some (c, h')" "new_dct h h' c (ht_zero True)"
proof -
  obtain c h' where "new_dict h (ht_zero True) = Some (VDict c, h')" "heap_ext h h'"
    "val_ok h' (VDict c)" "dict_of h' (VDict c) = Some (ht_zero True)" "c \<notin> live (dict_pool h)"
    by (rule new_dict_ok [OF assms]) (rule that)
  then show ?thesis using that [of c h'] by (auto simp: new_cells new_dct_def heap_reads)
qed

section \<open>Every input\<close>

lemma json_string_body_shorter: "json_string_body s = Inr (t, r) \<Longrightarrow> length r < length s"
proof (induction s arbitrary: t r rule: json_string_body.induct)
  case (2 c rest)
  have pre: "prepend x q = Inr (t, r) \<Longrightarrow> \<exists>t'. q = Inr (t', r)" for x q
    by (cases q) (auto simp: prepend_def)
  show ?case
    using 2 by (auto split: if_splits list.splits option.splits dest!: pre simp del: json_string_body.simps simp: json_string_body.simps(2)) (fastforce | force)+
qed simp

lemma past_digits_ge: "i \<le> past_digits s i"
  by (simp add: past_digits_def)

lemma past_digits_greater: "is_digit_at s i \<Longrightarrow> i < past_digits s i"
  by (cases "drop i s") (auto simp: is_digit_at_def past_digits_def hd_drop_conv_nth [symmetric])

lemma past_digits_pos [simp]: "0 < i \<Longrightarrow> 0 < past_digits s i" "is_digit_at s i \<Longrightarrow> 0 < past_digits s i"
  using past_digits_ge [of i s] past_digits_greater [of s i] by simp_all

lemma json_number_span_pos: "json_number_span s = Some (n, b) \<Longrightarrow> 0 < n"
  by (auto simp: json_number_span_def Let_def split: if_splits)

text \<open>What a piece of the decoder leaves.\<close>

definition decoded :: "heap \<Rightarrow> string \<Rightarrow> json_result \<Rightarrow> bool" where
  "decoded h0 s x \<longleftrightarrow> (\<exists>res h'. x = Some (res, h') \<and> heap_ext h0 h' \<and>
     (\<forall>v r. res = Inr (v, r) \<longrightarrow> val_ok h' v \<and> length r < length s))"

lemma decoded_err: "heap_ext h0 h \<Longrightarrow> decoded h0 s (json_err msg h)"
  by (simp add: decoded_def json_err_def)

lemma decoded_ok: "heap_ext h0 h \<Longrightarrow> val_ok h v \<Longrightarrow> length r < length s \<Longrightarrow> decoded h0 s (json_ok v r h)"
  by (simp add: decoded_def json_ok_def)

lemma json_parse_string_decoded:
  assumes "pools_inv h" "length s \<le> length s0"
  shows "decoded h s0 (json_parse_string_raw s h)"
proof (cases "json_string_body s")
  case (Inr q)
  obtain t r where q: "q = (t, r)" by (cases q)
  obtain c h' where "aer_make_string h t = Some (VString c, h')" "heap_ext h h'" "val_ok h' (VString c)"
    by (rule aer_make_string_ok [OF assms(1), of t]) (rule that)
  then show ?thesis
    using Inr q json_string_body_shorter [of s t r] assms(2)
    by (auto simp: json_parse_string_raw_def intro!: decoded_ok)
qed (simp add: json_parse_string_raw_def decoded_err heap_ext_refl assms)

lemma json_parse_number_decoded:
  assumes "pools_inv h" "s \<noteq> []"
  shows "decoded h s (json_parse_number s h)"
proof (cases "json_number_span s")
  case (Some q)
  obtain n b where q: "q = (n, b)" by (cases q)
  have l: "length (drop n s) < length s" using json_number_span_pos [of s n b] Some q assms(2) by simp
  obtain v h' where "aer_int h (fst (strtoll 10 (take 63 (take n s)))) = Some (v, h')" "heap_ext h h'" "val_ok h' v"
    by (rule aer_int_ok [OF assms(1)]) (rule that)
  then show ?thesis
    using Some q l assms(1)
    by (auto simp: json_parse_number_def Let_def real_val_def intro!: decoded_ok heap_ext_refl)
qed (simp add: json_parse_number_def decoded_err heap_ext_refl assms)

lemma json_literal_decoded:
  assumes "pools_inv h" "s \<noteq> []" "val_ok h v" "lit \<noteq> []"
  shows "decoded h s (json_literal lit v s h)"
  using assms by (auto simp: json_literal_def intro!: decoded_ok decoded_err heap_ext_refl)

lemma json_skip_ws_le: "length (json_skip_ws s) \<le> length s"
  by (simp add: json_skip_ws_def length_dropWhile_le)

lemma decoded_longer: "decoded h0 s x \<Longrightarrow> length s \<le> length s' \<Longrightarrow> decoded h0 s' x"
  by (auto simp: decoded_def intro: less_le_trans)

lemma decoded_older: "decoded h s x \<Longrightarrow> heap_ext h0 h \<Longrightarrow> decoded h0 s x"
  by (auto simp: decoded_def intro: heap_ext_trans)

lemma decoded_if: "decoded h0 s x \<Longrightarrow> decoded h0 s y \<Longrightarrow> decoded h0 s (if b then x else y)"
  by simp

lemma starts_pos: "starts c s \<Longrightarrow> 0 < length s"
  by (simp add: starts_def)

text \<open>The claims for one amount of fuel.\<close>

definition value_total :: "nat \<Rightarrow> bool" where
  "value_total n \<longleftrightarrow> (\<forall>s h. pools_inv h \<longrightarrow> 2 * length s + 2 \<le> n \<longrightarrow> length s < HT_COUNT_SAFE \<longrightarrow>
     decoded h s (json_parse_value n s h))"

definition array_total :: "nat \<Rightarrow> bool" where
  "array_total n \<longleftrightarrow> (\<forall>c s h h0 a. new_arr h0 h c a \<longrightarrow> 2 * length s + 3 \<le> n \<longrightarrow> length s < HT_COUNT_SAFE \<longrightarrow>
     decoded h0 s (json_array_loop n c s h))"

definition object_total :: "nat \<Rightarrow> bool" where
  "object_total n \<longleftrightarrow> (\<forall>c s h h0 d. new_dct h0 h c d \<longrightarrow> 2 * length s + 3 \<le> n \<longrightarrow>
     count d + length s < HT_COUNT_SAFE \<longrightarrow> decoded h0 s (json_object_loop n c s h))"

lemma value_totalD:
  "value_total n \<Longrightarrow> pools_inv h \<Longrightarrow> 2 * length s + 2 \<le> n \<Longrightarrow> length s < HT_COUNT_SAFE \<Longrightarrow>
   decoded h s (json_parse_value n s h)"
  unfolding value_total_def by blast

lemma array_totalD:
  "array_total n \<Longrightarrow> new_arr h0 h c a \<Longrightarrow> 2 * length s + 3 \<le> n \<Longrightarrow> length s < HT_COUNT_SAFE \<Longrightarrow>
   decoded h0 s (json_array_loop n c s h)"
  unfolding array_total_def by blast

lemma object_totalD:
  "object_total n \<Longrightarrow> new_dct h0 h c d \<Longrightarrow> 2 * length s + 3 \<le> n \<Longrightarrow> count d + length s < HT_COUNT_SAFE \<Longrightarrow>
   decoded h0 s (json_object_loop n c s h)"
  unfolding object_total_def by blast

lemma value_total_Suc:
  assumes A: "array_total n" and O: "object_total n"
  shows "value_total (Suc n)"
  unfolding value_total_def
proof (intro allI impI)
  fix s :: string and h
  assume h: "pools_inv h" and f: "2 * length s + 2 \<le> Suc n" and b: "length s < HT_COUNT_SAFE"
  show "decoded h s (json_parse_value (Suc n) s h)"
  proof (cases "json_skip_ws s")
    case Nil
    then show ?thesis using h by (simp add: decoded_err heap_ext_refl)
  next
    case (Cons ch r)
    have l: "Suc (length r) \<le> length s" using json_skip_ws_le [of s] Cons by simp
    have ws: "length (json_skip_ws r) \<le> length r" by (rule json_skip_ws_le)
    have str: "decoded h s (json_parse_string_raw r h)"
      using json_parse_string_decoded [OF h, of r s] l by simp
    have lit: "decoded h s (json_literal lt v (ch # r) h)" if "val_ok h v" "lt \<noteq> []" for lt v
      using decoded_longer [OF json_literal_decoded [OF h, of "ch # r" v lt], of s] that l by simp
    have num: "decoded h s (json_parse_number (ch # r) h)"
      using decoded_longer [OF json_parse_number_decoded [OF h, of "ch # r"], of s] l by simp
    obtain c1 h1 where c1: "new_array_cell h = Some (c1, h1)" "new_arr h h1 c1 \<lparr>items = [], shape = None\<rparr>"
      using h by (rule new_array_cell_ok)
    obtain c2 h2 where c2: "new_dict_cell h = Some (c2, h2)" "new_dct h h2 c2 (ht_zero True)"
      using h by (rule new_dict_cell_ok)
    have e: "heap_ext h h1" "val_ok h1 (VArray c1)" "heap_ext h h2" "val_ok h2 (VDict c2)"
      using c1(2) c2(2) by (simp_all add: new_arr_def new_dct_def)
    have arr: "decoded h s (json_array_loop n c1 (json_skip_ws r) h1)"
      using f b l ws by (intro decoded_longer [OF array_totalD [OF A c1(2)]]) simp_all
    have dct: "decoded h s (json_object_loop n c2 (json_skip_ws r) h2)"
      using f b l ws by (intro decoded_longer [OF object_totalD [OF O c2(2)]]) simp_all
    have tl: "length (tl (json_skip_ws r)) < length s" using l ws by simp
    have "json_parse_value (Suc n) s h =
        (if ch = DQ then json_parse_string_raw r h
         else if ch = CHR ''{''
         then if starts (CHR ''}'') (json_skip_ws r) then json_ok (VDict c2) (tl (json_skip_ws r)) h2
              else json_object_loop n c2 (json_skip_ws r) h2
         else if ch = CHR ''[''
         then if starts (CHR '']'') (json_skip_ws r) then json_ok (VArray c1) (tl (json_skip_ws r)) h1
              else json_array_loop n c1 (json_skip_ws r) h1
         else if ch = CHR ''t'' then json_literal ''true'' (VBool True) (ch # r) h
         else if ch = CHR ''f'' then json_literal ''false'' (VBool False) (ch # r) h
         else if ch = CHR ''n'' then json_literal ''null'' VNull (ch # r) h
         else if ch = CHR ''-'' \<or> c_isdigit ch then json_parse_number (ch # r) h
         else json_err ''Unexpected character in JSON'' h)"
      by (simp only: json_parse_value.simps(2) Cons list.case c1(1) c2(1) Option.bind_lunit prod.case)
    then show ?thesis
      by (simp only:) (intro decoded_if str arr dct lit num decoded_ok [OF e(1,2) tl] decoded_ok [OF e(3,4) tl]
          decoded_err [OF heap_ext_refl [OF h]]; simp)
  qed
qed

lemma array_total_Suc:
  assumes V: "value_total n" and A: "array_total n"
  shows "array_total (Suc n)"
  unfolding array_total_def
proof (intro allI impI)
  fix c :: ptr and s :: string and h h0 a
  assume c: "new_arr h0 h c a" and f: "2 * length s + 3 \<le> Suc n" and b: "length s < HT_COUNT_SAFE"
  have e: "heap_ext h0 h" using c by (simp add: new_arr_def)
  have "decoded h s (json_parse_value n s h)"
    using f b by (intro value_totalD [OF V heap_ext_inv [OF e]]) simp_all
  then obtain res h1 where v: "json_parse_value n s h = Some (res, h1)" "heap_ext h h1"
    "\<And>v r. res = Inr (v, r) \<Longrightarrow> val_ok h1 v \<and> length r < length s"
    by (auto simp: decoded_def)
  note c1 = new_arr_ext [OF c v(2)]
  show "decoded h0 s (json_array_loop (Suc n) c s h)"
  proof (cases res)
    case (Inl msg)
    then show ?thesis using v heap_ext_trans [OF e v(2)] by (simp add: decoded_err)
  next
    case (Inr q)
    obtain x r where q: "q = (x, r)" by (cases q)
    have r: "length r < length s" using v(3) Inr q by simp
    obtain h2 where h2: "array_push c x h1 = Some h2" "new_arr h0 h2 c (a\<lparr>items := items a @ [x]\<rparr>)"
      by (rule array_push_ok [OF c1, of x]) (rule that)
    have e2: "heap_ext h0 h2" "val_ok h2 (VArray c)" using h2(2) by (auto simp: new_arr_def)
    show ?thesis
    proof (cases "json_skip_ws r")
      case Nil
      then show ?thesis using v(1) Inr q h2(1) e2(1) by (simp add: decoded_err)
    next
      case (Cons ch t)
      have t: "Suc (length t) \<le> length r" using json_skip_ws_le [of r] Cons by simp
      have t': "length t < length s" using t r by simp
      have "decoded h0 s (json_array_loop n c (json_skip_ws t) h2)"
        using f b t r json_skip_ws_le [of t]
        by (intro decoded_longer [OF array_totalD [OF A h2(2)]]) simp_all
      note rest = this
      have "json_array_loop (Suc n) c s h =
          (if ch = CHR '','' then json_array_loop n c (json_skip_ws t) h2
           else if ch = CHR '']'' then json_ok (VArray c) t h2
           else json_err (''Expected '' @ quoted '','' @ '' or '' @ quoted '']'' @ '' in JSON array'') h2)"
        by (simp only: json_array_loop.simps(2) v(1) Inr q h2(1) Cons Option.bind_lunit prod.case sum.case list.case)
      then show ?thesis by (simp only:) (intro decoded_if rest decoded_ok [OF e2 t'] decoded_err [OF e2(1)])
    qed
  qed
qed

lemma object_total_Suc:
  assumes V: "value_total n" and O: "object_total n"
  shows "object_total (Suc n)"
  unfolding object_total_def
proof (intro allI impI)
  fix c :: ptr and s :: string and h h0 d
  assume c: "new_dct h0 h c d" and f: "2 * length s + 3 \<le> Suc n" and b: "count d + length s < HT_COUNT_SAFE"
  have e: "heap_ext h0 h" using c by (simp add: new_dct_def)
  let ?s = "json_skip_ws s"
  have ls: "length ?s \<le> length s" by (rule json_skip_ws_le)
  show "decoded h0 s (json_object_loop (Suc n) c s h)"
  proof (cases "starts DQ ?s")
    case False
    then show ?thesis by (simp add: decoded_err e)
  next
    case st: True
    show ?thesis
    proof (cases "json_string_body (tl ?s)")
      case (Inl msg)
      then have "json_parse_string_raw (tl ?s) h = Some (Inl msg, h)"
        by (simp add: json_parse_string_raw_def json_err_def)
      then show ?thesis using st by (simp add: decoded_err e)
    next
      case (Inr q)
      obtain key r where q: "q = (key, r)" by (cases q)
      have r: "length r + 2 \<le> length s"
        using json_string_body_shorter [of "tl ?s" key r] Inr q starts_pos [OF st] ls by simp
      obtain kc h1 where k: "aer_make_string h key = Some (VString kc, h1)" "heap_ext h h1"
        "str_of h1 (VString kc) = Some key"
        by (rule aer_make_string_ok [OF heap_ext_inv [OF e], of key]) (rule that)
      have p: "json_parse_string_raw (tl ?s) h = Some (Inr (VString kc, r), h1)"
        using Inr q k(1) by (simp add: json_parse_string_raw_def json_ok_def)
      note c1 = new_dct_ext [OF c k(2)]
      have e1: "heap_ext h0 h1" using c1 by (simp add: new_dct_def)
      let ?r = "json_skip_ws r"
      have lr: "length ?r \<le> length r" by (rule json_skip_ws_le)
      show ?thesis
      proof (cases "starts (CHR '':'') ?r")
        case False
        then show ?thesis using st p k(3) by (simp add: decoded_err e1)
      next
        case co: True
        let ?t = "json_skip_ws (tl ?r)"
        have lt: "length ?t + 3 \<le> length s"
          using r lr starts_pos [OF co] json_skip_ws_le [of "tl ?r"]
          by (simp del: length_greater_0_conv)
        have "decoded h1 ?t (json_parse_value n ?t h1)"
          using f b lt by (intro value_totalD [OF V heap_ext_inv [OF e1]]) simp_all
        then obtain res h2 where v: "json_parse_value n ?t h1 = Some (res, h2)" "heap_ext h1 h2"
          "\<And>v r. res = Inr (v, r) \<Longrightarrow> val_ok h2 v \<and> length r < length ?t"
          by (auto simp: decoded_def)
        note c2 = new_dct_ext [OF c1 v(2)]
        show ?thesis
        proof (cases res)
          case (Inl msg)
          then show ?thesis using st p k(3) co v heap_ext_trans [OF e1 v(2)] by (simp add: decoded_err)
        next
          case (Inr q2)
          obtain x u where q2: "q2 = (x, u)" by (cases q2)
          have u: "length u < length ?t" using v(3) Inr q2 by simp
          have room: "count d < HT_COUNT_SAFE" using b by simp
          obtain h3 d3 where h3: "dict_insert c key x h2 = Some h3" "new_dct h0 h3 c d3" "count d3 \<le> count d + 1"
            by (rule dict_insert_ok [OF c2 room, of key x]) (rule that)
          have e3: "heap_ext h0 h3" "val_ok h3 (VDict c)" using h3(2) by (auto simp: new_dct_def)
          show ?thesis
          proof (cases "json_skip_ws u")
            case Nil
            then show ?thesis using st p k(3) co v(1) Inr q2 h3(1) by (simp add: decoded_err e3)
          next
            case (Cons ch w)
            have w: "Suc (length w) \<le> length u" using json_skip_ws_le [of u] Cons by simp
            have w': "length w < length s" using w u lt by simp
            have "decoded h0 s (json_object_loop n c w h3)"
              using h3(3) f b w u lt
              by (intro decoded_longer [OF object_totalD [OF O h3(2)]]) simp_all
            note rest = this
            have "json_object_loop (Suc n) c s h =
                (if ch = CHR '','' then json_object_loop n c w h3
                 else if ch = CHR ''}'' then json_ok (VDict c) w h3
                 else json_err (''Expected '' @ quoted '','' @ '' or '' @ quoted ''}'' @ '' in JSON object'') h3)"
              by (simp only: json_object_loop.simps(2) Let_def st not_True_eq_False if_False p k(3) co v(1) Inr q2 h3(1)
                  Cons Option.bind_lunit prod.case sum.case list.case)
            then show ?thesis by (simp only:) (intro decoded_if rest decoded_ok [OF e3 w'] decoded_err [OF e3(1)])
          qed
        qed
      qed
    qed
  qed
qed

lemma json_parse_total: "value_total n \<and> array_total n \<and> object_total n"
proof (induction n)
  case 0
  then show ?case by (simp add: value_total_def array_total_def object_total_def)
next
  case (Suc n)
  then show ?case by (simp add: value_total_Suc array_total_Suc object_total_Suc)
qed

text \<open>C33: The JSON decoder on any input below the bound where a dict's growth check wraps: it ends within its
  fuel, with a value or an error message, keeps every object that was there, and a value it
  returns refers to objects in use only.\<close>

theorem json_decode_total:
  assumes "pools_inv h" "length s < HT_COUNT_SAFE"
  shows "\<exists>res h'. json_decode s h = Some (res, h') \<and> heap_ext h h' \<and> (\<forall>v. res = Inr v \<longrightarrow> val_ok h' v)"
proof -
  have "decoded h s (json_parse_value (json_fuel s) s h)"
    using json_parse_total assms by (intro value_totalD) (auto simp: json_fuel_def)
  then show ?thesis
    by (auto simp: decoded_def json_decode_def split: sum.splits)
qed

theorem json_decode_total_witness:
  "\<exists>res h'. json_decode ''[1, {]'' heap_init = Some (res, h') \<and> pools_inv h'"
  using json_decode_total [of heap_init "''[1, {]''"] heap_init_inv heap_ext_inv by (auto simp: HT_COUNT_SAFE_def)

end
