(* ===== verification/JsonText.thy ===== *)
theory JsonText
  imports JsonLaws
begin

text \<open>
  JSON texts and trees: the decoder of theory \<open>Json\<close> builds from the text of a tree the value of
  that tree, and the encoder writes that text for it.
\<close>

section \<open>Strings\<close>

lemma hex_digit_facts:
  assumes "n < 16"
  shows "digit_val (hex_digit n) = n" "hex_digit n \<noteq> CHR 0x00"
proof -
  have c: "char_code (hex_digit n) = (if n < 10 then 48 + n else 87 + n)" using assms by (simp add: hex_digit_def)
  then show "hex_digit n \<noteq> CHR 0x00" by (auto simp: char_code_def split: if_splits)
  show "digit_val (hex_digit n) = n"
    using c assms by (auto simp: digit_val_def c_isdigit_def c_isalpha_def c_islower_def c_isupper_def c_tolower_def)
qed

lemma hex4_control:
  assumes "n < 32"
  shows "hex4 [CHR ''0'', CHR ''0'', hex_digit (n div 16), hex_digit (n mod 16)] = n"
proof -
  let ?a = "hex_digit (n div 16)" and ?b = "hex_digit (n mod 16)"
  have a: "digit_val ?a = n div 16" "?a \<noteq> CHR 0x00" and b: "digit_val ?b = n mod 16" "?b \<noteq> CHR 0x00"
    using assms hex_digit_facts [of "n div 16"] hex_digit_facts [of "n mod 16"] by auto
  have z: "digit_val (CHR ''0'') = 0" by (simp add: digit_val_def c_isdigit_def char_code_def)
  have "c_str [CHR ''0'', CHR ''0'', ?a, ?b] = [CHR ''0'', CHR ''0'', ?a, ?b]" using a b by (simp add: c_str_def)
  moreover have "sign_of [CHR ''0'', CHR ''0'', ?a, ?b] = (False, 0)" by (simp add: sign_of_def c_isspace_def)
  moreover have "\<not> hex_prefix [CHR ''0'', CHR ''0'', ?a, ?b]"
    by (simp add: hex_prefix_def c_tolower_def c_isupper_def char_code_def)
  moreover have "digits 16 [CHR ''0'', CHR ''0'', ?a, ?b] = [CHR ''0'', CHR ''0'', ?a, ?b]"
    using a b z assms by (simp add: digits_def)
  moreover have "numeral_val 16 [CHR ''0'', CHR ''0'', ?a, ?b] = n"
    using a b z by (simp add: numeral_val_def)
  ultimately show ?thesis using assms by (simp add: hex4_def strtoll_def saturate_def)
qed

lemma prepend_Inr [simp]: "prepend s (Inr (t, r)) = Inr (s @ t, r)"
  by (simp add: prepend_def)

lemma char_of_char_code [simp]: "char_of (char_code c) = c"
  by (simp add: char_code_def)

lemma json_string_body_escape: "json_string_body (json_escape c @ t) = prepend [c] (json_string_body t)"
proof -
  consider "c \<in> {DQ, BSL, CHR 0x0A, CHR 0x0D, CHR 0x09, CHR 0x08, CHR 0x0C}"
    | (control) "c \<notin> {DQ, BSL, CHR 0x0A, CHR 0x0D, CHR 0x09, CHR 0x08, CHR 0x0C}" "char_code c < 0x20"
    | (plain) "c \<notin> {DQ, BSL, CHR 0x0A, CHR 0x0D, CHR 0x09, CHR 0x08, CHR 0x0C}" "\<not> char_code c < 0x20"
    by blast
  then show ?thesis
  proof cases
    case 1
    then show ?thesis by (auto simp: json_escape_def json_unescape_def DQ_def BSL_def)
  next
    case control
    let ?h = "[CHR ''0'', CHR ''0'', hex_digit (char_code c div 16), hex_digit (char_code c mod 16)]"
    have "json_escape c = BSL # CHR ''u'' # ?h" using control by (auto simp: json_escape_def)
    moreover have "hex4 ?h = char_code c" using hex4_control [OF control(2)[simplified]] by simp
    then have "utf8 (hex4 ?h) = [c]" using control(2) by (simp add: utf8_def)
    ultimately show ?thesis by (simp add: DQ_def BSL_def)
  next
    case plain
    then show ?thesis by (auto simp: json_escape_def)
  qed
qed

lemma json_string_body_text: "json_string_body (concat (map json_escape s) @ DQ # r) = Inr (s, r)"
  by (induction s) (simp_all add: json_string_body_escape)

section \<open>Numbers\<close>

text \<open>What may follow a value inside a text.\<close>

definition delim :: "string \<Rightarrow> bool" where
  "delim r \<longleftrightarrow> r = [] \<or> hd r \<in> {CHR '','', CHR '']'', CHR ''}''}"

lemma show_nat_zero: "hd (show_nat n) = CHR ''0'' \<longleftrightarrow> n = 0"
proof (induction n rule: show_nat.induct)
  case (1 n)
  show ?case
  proof (cases "n < 10")
    case True
    have "char_code (CHR ''0'') = 48" by (simp add: char_code_def)
    then have "digit_char n = CHR ''0'' \<longleftrightarrow> n = 0"
      using digit_char_facts(1) [OF True] char_code_inj [of "digit_char n" "CHR ''0''"] by simp
    then show ?thesis using True by (subst show_nat.simps) simp
  next
    case False
    then have "hd (show_nat n) = hd (show_nat (n div 10))" by (subst show_nat.simps) simp
    then show ?thesis using 1 False by auto
  qed
qed

lemma show_nat_0: "show_nat 0 = ''0''"
proof -
  have "char_code (digit_char 0) = char_code (CHR ''0'')" by (simp add: digit_char_facts) (simp add: char_code_def)
  then show ?thesis by (subst show_nat.simps) (simp add: char_code_inj)
qed

lemma delim_digit: "delim r \<Longrightarrow> takeWhile c_isdigit r = []" "delim r \<Longrightarrow> r \<noteq> [] \<Longrightarrow>
    hd r \<noteq> CHR ''.'' \<and> hd r \<noteq> CHR ''e'' \<and> hd r \<noteq> CHR ''E''"
  by (cases r; auto simp: delim_def c_isdigit_def char_code_def)+

lemma past_digits_show:
  assumes "delim r"
  shows "past_digits (p @ show_nat n @ r) (length p) = length p + length (show_nat n)"
  using delim_digit(1) [OF assms] show_nat_digits [of n]
  by (simp add: past_digits_def takeWhile_append)

lemma char_at_after: "delim r \<Longrightarrow> c \<in> {CHR ''.'', CHR ''e'', CHR ''E''} \<Longrightarrow> \<not> char_at (p @ r) (length p) c"
  using delim_digit(2) [of r] by (cases r) (auto simp: char_at_def)

lemma json_number_show:
  assumes r: "delim r"
  shows "json_number_span (show_int n @ r) = Some (length (show_int n), False)"
proof -
  define p where "p = (if n < 0 then ''-'' else [])"
  define k where "k = nat \<bar>n\<bar>"
  let ?s = "p @ show_nat k @ r"
  have s: "show_int n = p @ show_nat k" by (auto simp: show_int_def p_def k_def)
  obtain c t where ct: "show_nat k = c # t" by (cases "show_nat k") auto
  have c: "c_isdigit c" "c = CHR ''0'' \<longleftrightarrow> k = 0" using show_nat_digits [of k] show_nat_zero [of k] ct by auto
  have i: "(if char_at ?s 0 (CHR ''-'') then 1 else 0) = length p"
    using c_isdigit_chars(2) [OF c(1)] ct by (auto simp: p_def char_at_def)
  have d: "is_digit_at ?s (length p)" using c(1) ct by (simp add: is_digit_at_def)
  have j: "(if char_at ?s (length p) (CHR ''0'') then length p + 1 else past_digits ?s (length p)) = length p + length (show_nat k)"
    using past_digits_show [OF r, of p k] c(2) ct by (auto simp: char_at_def show_nat_0)
  have "\<not> char_at ?s (length p + length (show_nat k)) x" if "x \<in> {CHR ''.'', CHR ''e'', CHR ''E''}" for x
    using char_at_after [OF r that, of "p @ show_nat k"] by simp
  then have "json_number_span ?s = Some (length p + length (show_nat k), False)"
    unfolding json_number_span_def by (simp only: Let_def i d j) simp
  then show ?thesis by (simp add: s)
qed

lemma json_parse_show_int:
  assumes "pools_inv h" "in_i64 n" "delim r"
  obtains v h' where "json_parse_number (show_int n @ r) h = Some (Inr (v, r), h')" "heap_ext h h'" "int_val h' v n"
proof -
  obtain v h' where v: "aer_int h n = Some (v, h')" "heap_ext h h'" "val_ok h' v" "vtype v = TYPE_INTEGER"
    "aer_as_int_v h' v = Some n"
    by (rule aer_int_ok [OF assms(1), of n]) (rule that)
  have "take 63 (show_int n) = show_int n" using show_int_length [OF assms(2)] by simp
  then have "json_parse_number (show_int n @ r) h = Some (Inr (v, r), h')"
    using json_number_show [OF assms(3), of n] strtoll_show_int [OF assms(2)] v(1)
    by (simp add: json_parse_number_def json_ok_def)
  then show ?thesis using that v by (simp add: int_val_def)
qed

section \<open>Trees\<close>

datatype json =
  JNull | JBool bool | JInt int | JStr string | JArr "json list" | JObj "(string \<times> json) list"

primrec jtext :: "json \<Rightarrow> string" where
  "jtext JNull = ''null''"
| "jtext (JBool b) = (if b then ''true'' else ''false'')"
| "jtext (JInt n) = show_int n"
| "jtext (JStr s) = json_encode_string s"
| "jtext (JArr js) = CHR ''['' # join '','' (map jtext js) @ '']''"
| "jtext (JObj ms) = CHR ''{'' #
     join '','' (map (\<lambda>(k, t). json_encode_string k @ CHR '':'' # t) (map (map_prod id jtext) ms)) @ ''}''"

text \<open>Integers of 64 bits; the keys of an object distinct and free of NUL.\<close>

primrec json_wf :: "json \<Rightarrow> bool" where
  "json_wf JNull \<longleftrightarrow> True"
| "json_wf (JBool b) \<longleftrightarrow> True"
| "json_wf (JInt n) \<longleftrightarrow> in_i64 n"
| "json_wf (JStr s) \<longleftrightarrow> True"
| "json_wf (JArr js) \<longleftrightarrow> list_all id (map json_wf js)"
| "json_wf (JObj ms) \<longleftrightarrow> list_all snd (map (map_prod id json_wf) ms) \<and> distinct (map fst ms) \<and> list_all nul_free (map fst ms)"

text \<open>
  The value of a tree in a heap. Its arrays and dicts are none of the objects \<open>B\<close>, so writing to one
  of those does not change the tree.
\<close>

inductive jrepr :: "obj set \<Rightarrow> heap \<Rightarrow> val \<Rightarrow> json \<Rightarrow> bool" for B h where
  null: "jrepr B h VNull JNull"
| bool: "jrepr B h (VBool b) (JBool b)"
| int: "int_val h v n \<Longrightarrow> jrepr B h v (JInt n)"
| str: "c \<in> live (string_pool h) \<Longrightarrow> pool_read (string_pool h) c = Some s \<Longrightarrow> jrepr B h (VString c) (JStr s)"
| arr: "c \<in> live (array_pool h) \<Longrightarrow> OArr c \<notin> B \<Longrightarrow>
     pool_read (array_pool h) c = Some \<lparr>items = vs, shape = None\<rparr> \<Longrightarrow> list_all2 (jrepr B h) vs js \<Longrightarrow>
     jrepr B h (VArray c) (JArr js)"
| obj: "c \<in> live (dict_pool h) \<Longrightarrow> ODict c \<notin> B \<Longrightarrow> pool_read (dict_pool h) c = Some d \<Longrightarrow> ht_inv d \<Longrightarrow>
     (\<And>k. dictmap_get d k = None \<longleftrightarrow> map_of ms (c_str k) = None) \<Longrightarrow>
     (\<And>k v. dictmap_get d k = Some v \<Longrightarrow> \<exists>j. map_of ms (c_str k) = Some j \<and> jrepr B h v j) \<Longrightarrow>
     jrepr B h (VDict c) (JObj ms)"

lemma jrepr_keep:
  assumes "jrepr B h v j"
    and int: "\<And>v n. int_val h v n \<Longrightarrow> int_val h' v n"
    and str: "\<And>c. c \<in> live (string_pool h) \<Longrightarrow> c \<in> live (string_pool h') \<and> pool_read (string_pool h') c = pool_read (string_pool h) c"
    and arr: "\<And>c. c \<in> live (array_pool h) \<Longrightarrow> OArr c \<notin> B \<Longrightarrow>
      c \<in> live (array_pool h') \<and> pool_read (array_pool h') c = pool_read (array_pool h) c"
    and dct: "\<And>c. c \<in> live (dict_pool h) \<Longrightarrow> ODict c \<notin> B \<Longrightarrow>
      c \<in> live (dict_pool h') \<and> pool_read (dict_pool h') c = pool_read (dict_pool h) c"
    and B: "B' \<subseteq> B"
  shows "jrepr B' h' v j"
  using assms(1)
proof induction
  case (arr c vs js)
  have "list_all2 (jrepr B' h') vs js" using arr(4) by (rule list_all2_mono) simp
  then show ?case using assms(4) [OF arr(1,2)] arr(2,3) B by (intro jrepr.arr) auto
next
  case (obj c d ms)
  note c = dct [OF obj(1,2)]
  show ?case
  proof (rule jrepr.obj)
    show "pool_read (dict_pool h') c = Some d" "c \<in> live (dict_pool h')" using c obj(3) by simp_all
    show "\<exists>j. map_of ms (c_str k) = Some j \<and> jrepr B' h' v j" if "dictmap_get d k = Some v" for k v
      using obj(6) [OF that] by blast
  qed (use obj B in auto)
next
  case (str c s)
  then show ?case using assms(3) [OF str(1)] by (intro jrepr.str) auto
qed (auto intro: jrepr.intros int)

lemma int_val_ext: "heap_ext h h' \<Longrightarrow> int_val h v n \<Longrightarrow> int_val h' v n"
  by (auto simp: int_val_def heap_ext_val_ok heap_ext_reads)

lemma jrepr_ext:
  assumes "jrepr B h v j" "heap_ext h h'" "B' \<subseteq> B"
  shows "jrepr B' h' v j"
  using assms(1)
proof (rule jrepr_keep)
  show "c \<in> live (string_pool h') \<and> pool_read (string_pool h') c = pool_read (string_pool h) c"
    if "c \<in> live (string_pool h)" for c
    using heap_ext_obj(1) [OF assms(2), of "OStr c"] heap_ext_pool(1) [OF assms(2)] that by simp
  show "c \<in> live (array_pool h') \<and> pool_read (array_pool h') c = pool_read (array_pool h) c"
    if "c \<in> live (array_pool h)" for c
    using heap_ext_obj(1) [OF assms(2), of "OArr c"] heap_ext_pool(2) [OF assms(2)] that by simp
  show "c \<in> live (dict_pool h') \<and> pool_read (dict_pool h') c = pool_read (dict_pool h) c"
    if "c \<in> live (dict_pool h)" for c
    using heap_ext_obj(1) [OF assms(2), of "ODict c"] heap_ext_pool(3) [OF assms(2)] that by simp
qed (use assms int_val_ext in blast)+

lemma stored_pools:
  assumes "stored h ob x h'"
  shows "c \<in> live (string_pool h) \<Longrightarrow> ob \<noteq> OStr c \<Longrightarrow> c \<in> live (string_pool h') \<and> pool_read (string_pool h') c = pool_read (string_pool h) c"
    "c \<in> live (array_pool h) \<Longrightarrow> ob \<noteq> OArr c \<Longrightarrow> c \<in> live (array_pool h') \<and> pool_read (array_pool h') c = pool_read (array_pool h) c"
    "c \<in> live (dict_pool h) \<Longrightarrow> ob \<noteq> ODict c \<Longrightarrow> c \<in> live (dict_pool h') \<and> pool_read (dict_pool h') c = pool_read (dict_pool h) c"
  using stored_obj [OF assms, of "OStr c"] stored_obj [OF assms, of "OArr c"] stored_obj [OF assms, of "ODict c"]
  by (auto simp: inj_map_option_eq inj_def)

lemma jrepr_stored:
  assumes "jrepr B h v j" "stored h ob x h'" "ob \<in> B" "(\<exists>c. ob = OArr c) \<or> (\<exists>c. ob = ODict c)"
  shows "jrepr B h' v j"
  using assms(1)
proof (rule jrepr_keep)
  show "int_val h' v n" if "int_val h v n" for v n
    using assms(4) that by (intro stored_int_val [OF assms(2) that]) (auto simp: int_val_def elim!: obj_of.elims)
  show "c \<in> live (string_pool h') \<and> pool_read (string_pool h') c = pool_read (string_pool h) c"
    if "c \<in> live (string_pool h)" for c using stored_pools(1) [OF assms(2) that] assms(4) by blast
  show "c \<in> live (array_pool h') \<and> pool_read (array_pool h') c = pool_read (array_pool h) c"
    if "c \<in> live (array_pool h)" "OArr c \<notin> B" for c using stored_pools(2) [OF assms(2) that(1)] that assms(3) by blast
  show "c \<in> live (dict_pool h') \<and> pool_read (dict_pool h') c = pool_read (dict_pool h) c"
    if "c \<in> live (dict_pool h)" "ODict c \<notin> B" for c using stored_pools(3) [OF assms(2) that(1)] that assms(3) by blast
qed simp

section \<open>Decoding\<close>

text \<open>A text starts with a character that is neither blank nor a delimiter and is not empty.\<close>

lemma show_int_head: "\<exists>c t. show_int n = c # t \<and> (c = CHR ''-'' \<or> c_isdigit c)"
  using show_nat_digits [of "nat n"] by (cases "show_nat (nat n)") (auto simp: show_int_def)

lemma digit_not: "c_isdigit c \<Longrightarrow> c \<notin> {DQ, CHR ''{'', CHR ''['', CHR ''t'', CHR ''f'', CHR ''n'', CHR '']'', CHR ''}'', CHR '','', CHR '' '', CHR 0x09, CHR 0x0A, CHR 0x0D}"
  by (auto simp: c_isdigit_def char_code_def DQ_def)

lemma jtext_head: "\<exists>c t. jtext j = c # t \<and> \<not> json_ws c \<and> c \<noteq> CHR '']'' \<and> c \<noteq> CHR ''}''"
proof (cases j)
  case (JInt n)
  obtain c t where c: "show_int n = c # t" "c = CHR ''-'' \<or> c_isdigit c" using show_int_head [of n] by blast
  from c(2) have "\<not> json_ws c \<and> c \<noteq> CHR '']'' \<and> c \<noteq> CHR ''}''"
  proof
    assume "c_isdigit c"
    from digit_not [OF this] show ?thesis by (simp add: json_ws_def)
  qed (simp add: json_ws_def)
  then show ?thesis using c(1) JInt by simp
next
  case (JStr s)
  then show ?thesis by (simp add: json_encode_string_def json_ws_def DQ_def)
next
  case (JArr js)
  then show ?thesis by (simp add: json_ws_def)
next
  case (JObj ms)
  then show ?thesis by (simp add: json_ws_def)
next
  case (JBool b)
  then show ?thesis by (cases b) (simp_all add: json_ws_def)
qed (simp add: json_ws_def)

lemma jtext_skip [simp]: "json_skip_ws (jtext j @ r) = jtext j @ r"
  using jtext_head [of j] by (auto simp: json_skip_ws_def)

lemma delim_skip: "delim r \<Longrightarrow> json_skip_ws r = r"
  by (cases r) (auto simp: delim_def json_skip_ws_def json_ws_def)

text \<open>What the decoder does with the text of a tree.\<close>

definition decodes :: "json \<Rightarrow> bool" where
  "decodes j \<longleftrightarrow> (\<forall>n h r. pools_inv h \<longrightarrow> json_wf j \<longrightarrow> delim r \<longrightarrow> 2 * length (jtext j @ r) + 2 \<le> n \<longrightarrow>
     length (jtext j @ r) < HT_COUNT_SAFE \<longrightarrow>
     (\<exists>v h'. json_parse_value n (jtext j @ r) h = Some (Inr (v, r), h') \<and> heap_ext h h' \<and> jrepr {ob. obj_live h ob} h' v j))"

lemma decodesD:
  assumes "decodes j" "pools_inv h" "json_wf j" "delim r" "2 * length (jtext j @ r) + 2 \<le> n" "length (jtext j @ r) < HT_COUNT_SAFE"
  obtains v h' where "json_parse_value n (jtext j @ r) h = Some (Inr (v, r), h')" "heap_ext h h'" "jrepr {ob. obj_live h ob} h' v j"
  using assms unfolding decodes_def by blast

lemma decodes_scalar:
  assumes "\<And>js. j \<noteq> JArr js" "\<And>ms. j \<noteq> JObj ms"
  shows "decodes j"
  unfolding decodes_def
proof (intro allI impI)
  fix n h r
  assume h: "pools_inv h" and wf: "json_wf j" and r: "delim r" and f: "2 * length (jtext j @ r) + 2 \<le> n"
  obtain k where n: "n = Suc k" using f by (cases n) auto
  show "\<exists>v h'. json_parse_value n (jtext j @ r) h = Some (Inr (v, r), h') \<and> heap_ext h h' \<and> jrepr {ob. obj_live h ob} h' v j"
  proof (cases j)
    case JNull
    then have "json_parse_value n (jtext j @ r) h = Some (Inr (VNull, r), h)"
      by (simp add: n json_skip_ws_def json_ws_def json_literal_def json_ok_def DQ_def)
    then show ?thesis using JNull heap_ext_refl [OF h] jrepr.null by blast
  next
    case (JBool b)
    then have "json_parse_value n (jtext j @ r) h = Some (Inr (VBool b, r), h)"
      by (simp add: n json_skip_ws_def json_ws_def json_literal_def json_ok_def DQ_def)
    then show ?thesis using JBool heap_ext_refl [OF h] jrepr.bool by blast
  next
    case (JInt i)
    obtain v h' where v: "json_parse_number (show_int i @ r) h = Some (Inr (v, r), h')" "heap_ext h h'" "int_val h' v i"
      using json_parse_show_int [OF h _ r, of i] wf JInt by auto
    obtain c t where c: "show_int i = c # t" "c = CHR ''-'' \<or> c_isdigit c" using show_int_head [of i] by blast
    have "json_skip_ws (show_int i @ r) = c # t @ r" using jtext_skip [of "JInt i" r] c(1) by simp
    moreover from c(2) have "c \<notin> {DQ, CHR ''{'', CHR ''['', CHR ''t'', CHR ''f'', CHR ''n''}"
    proof
      assume "c_isdigit c"
      from digit_not [OF this] show ?thesis by simp
    qed (simp add: DQ_def)
    ultimately have "json_parse_value n (jtext j @ r) h = json_parse_number (show_int i @ r) h"
      using c JInt by (simp add: n)
    then show ?thesis using v JInt jrepr.int by metis
  next
    case (JStr s)
    obtain c h' where a: "aer_make_string h s = Some (VString c, h')" "heap_ext h h'" "val_ok h' (VString c)"
      "str_of h' (VString c) = Some s"
      by (rule aer_make_string_ok [OF h, of s]) (rule that)
    have "json_parse_value n (jtext j @ r) h = Some (Inr (VString c, r), h')"
      using JStr a(1) json_string_body_text [of s r]
      by (simp add: n json_skip_ws_def json_ws_def json_encode_string_def json_parse_string_raw_def json_ok_def DQ_def)
    then show ?thesis using JStr a by (auto intro!: jrepr.str simp: heap_reads)
  qed (use assms in auto)
qed

lemma join_Cons: "join sep (s # ss) = s @ (if ss = [] then [] else sep @ join sep ss)"
  by (cases ss) simp_all

lemma delim_Cons [simp]: "delim (CHR '','' # r)" "delim (CHR '']'' # r)" "delim (CHR ''}'' # r)"
  by (simp_all add: delim_def)

text \<open>The objects that a container under construction may not be part of: older ones and itself.\<close>

definition older :: "heap \<Rightarrow> obj \<Rightarrow> obj set" where
  "older h0 ob = insert ob {ob'. obj_live h0 ob'}"

lemma older_live: "heap_ext h0 h \<Longrightarrow> obj_live h ob \<Longrightarrow> older h0 ob \<subseteq> {ob'. obj_live h ob'}"
  by (auto simp: older_def heap_ext_obj)

text \<open>A new element, and the ones that are there, after the store.\<close>

lemma jrepr_grown:
  assumes "heap_ext h0 h" "obj_live h ob" "heap_ext h h1" "stored h1 ob x h2" "(\<exists>c. ob = OArr c) \<or> (\<exists>c. ob = ODict c)"
  shows "jrepr (older h0 ob) h v j \<Longrightarrow> jrepr (older h0 ob) h2 v j"
    "jrepr {ob'. obj_live h ob'} h1 v j \<Longrightarrow> jrepr (older h0 ob) h2 v j"
proof -
  have s: "jrepr (older h0 ob) h1 v j \<Longrightarrow> jrepr (older h0 ob) h2 v j" for v j
    using jrepr_stored [OF _ assms(4) _ assms(5)] by (simp add: older_def)
  show "jrepr (older h0 ob) h v j \<Longrightarrow> jrepr (older h0 ob) h2 v j"
    using s jrepr_ext [OF _ assms(3) order_refl] by blast
  show "jrepr {ob'. obj_live h ob'} h1 v j \<Longrightarrow> jrepr (older h0 ob) h2 v j"
    using s jrepr_ext [OF _ heap_ext_refl [OF heap_ext_inv [OF assms(3)]] older_live [OF assms(1,2)]] by blast
qed

lemma array_loop_decodes:
  assumes "js \<noteq> []" "\<forall>j \<in> set js. decodes j \<and> json_wf j" "new_arr h0 h c \<lparr>items = vs, shape = None\<rparr>"
    "list_all2 (jrepr (older h0 (OArr c)) h) vs js0"
    "2 * length (join '','' (map jtext js) @ '']'' @ r) + 3 \<le> n" "length (join '','' (map jtext js) @ '']'' @ r) < HT_COUNT_SAFE"
  shows "\<exists>h' ws. json_array_loop n c (join '','' (map jtext js) @ '']'' @ r) h = Some (Inr (VArray c, r), h') \<and>
    new_arr h0 h' c \<lparr>items = ws, shape = None\<rparr> \<and> list_all2 (jrepr (older h0 (OArr c)) h') ws (js0 @ js)"
  using assms
proof (induction js arbitrary: n h vs js0)
  case (Cons j js)
  obtain k where n: "n = Suc k" using Cons.prems(5) by (cases n) auto
  define rest where "rest = (if js = [] then '']'' @ r else '','' @ join '','' (map jtext js) @ '']'' @ r)"
  have tx: "join '','' (map jtext (j # js)) @ '']'' @ r = jtext j @ rest" by (auto simp: join_Cons rest_def)
  have d: "delim rest" by (simp add: rest_def)
  have e0: "heap_ext h0 h" and live: "obj_live h (OArr c)" using Cons.prems(3) by (auto simp: new_arr_def)
  obtain v h1 where v: "json_parse_value k (jtext j @ rest) h = Some (Inr (v, rest), h1)" "heap_ext h h1"
    "jrepr {ob. obj_live h ob} h1 v j"
  proof (rule decodesD [of j h rest k])
    show "2 * length (jtext j @ rest) + 2 \<le> k" using Cons.prems(5) unfolding tx n by simp
    show "length (jtext j @ rest) < HT_COUNT_SAFE" using Cons.prems(6) unfolding tx .
  qed (use Cons.prems(2) heap_ext_inv [OF e0] d in auto)
  obtain h2 where h2: "array_push c v h1 = Some h2" "new_arr h0 h2 c \<lparr>items = vs @ [v], shape = None\<rparr>"
    "stored h1 (OArr c) (CArr \<lparr>items = vs @ [v], shape = None\<rparr>) h2"
    using array_push_ok [OF new_arr_ext [OF Cons.prems(3) v(2)], of v] by auto
  note g = jrepr_grown [OF e0 live v(2) h2(3)]
  have all: "list_all2 (jrepr (older h0 (OArr c)) h2) (vs @ [v]) (js0 @ [j])"
    using list_all2_mono [OF Cons.prems(4), of "jrepr (older h0 (OArr c)) h2"] g v(3) by (auto intro!: list_all2_appendI)
  show ?case
  proof (cases "js = []")
    case True
    have "json_array_loop n c (jtext j @ rest) h = Some (Inr (VArray c, r), h2)"
      using v(1) h2(1) True by (simp add: n rest_def json_skip_ws_def json_ws_def json_ok_def)
    then show ?thesis using h2(2) all True tx by auto
  next
    case False
    have "json_skip_ws (join '','' (map jtext js) @ '']'' @ r) = join '','' (map jtext js) @ '']'' @ r"
      using False by (cases js) (simp_all add: join_Cons)
    then have "json_array_loop n c (jtext j @ rest) h = json_array_loop k c (join '','' (map jtext js) @ '']'' @ r) h2"
      using v(1) h2(1) False by (simp add: n rest_def) (simp add: json_skip_ws_def json_ws_def)
    moreover have "\<exists>h' ws. json_array_loop k c (join '','' (map jtext js) @ '']'' @ r) h2 = Some (Inr (VArray c, r), h') \<and>
        new_arr h0 h' c \<lparr>items = ws, shape = None\<rparr> \<and>
        list_all2 (jrepr (older h0 (OArr c)) h') ws ((js0 @ [j]) @ js)"
    proof (rule Cons.IH [OF False _ h2(2) all])
      show "2 * length (join '','' (map jtext js) @ '']'' @ r) + 3 \<le> k"
        using Cons.prems(5) False unfolding tx n by (simp add: rest_def)
      show "length (join '','' (map jtext js) @ '']'' @ r) < HT_COUNT_SAFE"
        using Cons.prems(6) False unfolding tx by (simp add: rest_def)
    qed (use Cons.prems(2) in simp)
    ultimately show ?thesis unfolding tx by simp
  qed
qed simp

text \<open>One member of an object, and its text.\<close>

definition mtext :: "string \<times> json \<Rightarrow> string" where
  "mtext m = json_encode_string (fst m) @ CHR '':'' # jtext (snd m)"

lemma jtext_JObj: "jtext (JObj ms) = CHR ''{'' # join '','' (map mtext ms) @ ''}''"
  by (simp add: mtext_def [abs_def] case_prod_beta comp_def)

text \<open>A table that holds the members of an object.\<close>

definition dict_repr :: "obj set \<Rightarrow> heap \<Rightarrow> val hashtable \<Rightarrow> (string \<times> json) list \<Rightarrow> bool" where
  "dict_repr B h d ms \<longleftrightarrow>
     (\<forall>k. dictmap_get d k = None \<longleftrightarrow> map_of ms (c_str k) = None) \<and>
     (\<forall>k v. dictmap_get d k = Some v \<longrightarrow> (\<exists>j. map_of ms (c_str k) = Some j \<and> jrepr B h v j))"

lemma dict_repr_obj:
  "c \<in> live (dict_pool h) \<Longrightarrow> ODict c \<notin> B \<Longrightarrow> pool_read (dict_pool h) c = Some d \<Longrightarrow> ht_inv d \<Longrightarrow>
   dict_repr B h d ms \<Longrightarrow> jrepr B h (VDict c) (JObj ms)"
  unfolding dict_repr_def by (rule jrepr.obj) blast+

lemma dict_repr_insert:
  assumes "dict_repr B h d ms" "\<And>v j. jrepr B h v j \<Longrightarrow> jrepr B h' v j" "jrepr B h' v j" "nul_free k" "k \<notin> fst ` set ms"
    "\<And>k'. dictmap_get d' k' = (if c_str k' = c_str k then Some v else dictmap_get d k')"
  shows "dict_repr B h' d' (ms @ [(k, j)])"
proof -
  have "map_of ms k = None" using assms(5) by (simp add: map_of_eq_None_iff)
  then have m: "map_of (ms @ [(k, j)]) x = (if x = k then Some j else map_of ms x)" for x
    by (auto simp: map_add_def split: option.splits)
  show ?thesis
    using assms(1-4) unfolding dict_repr_def m assms(6) by auto blast
qed

lemma object_loop_decodes:
  assumes "ms \<noteq> []" "\<forall>m \<in> set ms. decodes (snd m) \<and> json_wf (snd m) \<and> nul_free (fst m)" "distinct (map fst (ms0 @ ms))"
    "new_dct h0 h c d" "dict_repr (older h0 (ODict c)) h d ms0"
    "2 * length (join '','' (map mtext ms) @ ''}'' @ r) + 3 \<le> n"
    "count d + length (join '','' (map mtext ms) @ ''}'' @ r) < HT_COUNT_SAFE"
  shows "\<exists>h' d'. json_object_loop n c (join '','' (map mtext ms) @ ''}'' @ r) h = Some (Inr (VDict c, r), h') \<and>
    new_dct h0 h' c d' \<and> dict_repr (older h0 (ODict c)) h' d' (ms0 @ ms)"
  using assms
proof (induction ms arbitrary: n h d ms0)
  case (Cons m ms)
  obtain key j where m: "m = (key, j)" by (cases m)
  obtain i where n: "n = Suc i" using Cons.prems(6) by (cases n) auto
  define rest where "rest = (if ms = [] then ''}'' @ r else '','' @ join '','' (map mtext ms) @ ''}'' @ r)"
  have tx: "join '','' (map mtext (m # ms)) @ ''}'' @ r =
      DQ # concat (map json_escape key) @ DQ # CHR '':'' # jtext j @ rest"
    by (auto simp: join_Cons rest_def m mtext_def json_encode_string_def)
  have dl: "delim rest" by (simp add: rest_def)
  have e0: "heap_ext h0 h" and live: "obj_live h (ODict c)" using Cons.prems(4) by (auto simp: new_dct_def)
  obtain kc h1 where k: "aer_make_string h key = Some (VString kc, h1)" "heap_ext h h1" "str_of h1 (VString kc) = Some key"
    by (rule aer_make_string_ok [OF heap_ext_inv [OF e0], of key]) (rule that)
  have e1: "heap_ext h0 h1" by (rule heap_ext_trans [OF e0 k(2)])
  have live1: "obj_live h1 (ODict c)" by (rule heap_ext_obj(1) [OF k(2) live])
  obtain v h2 where v: "json_parse_value i (jtext j @ rest) h1 = Some (Inr (v, rest), h2)" "heap_ext h1 h2"
    "jrepr {ob. obj_live h1 ob} h2 v j"
  proof (rule decodesD [of j h1 rest i])
    show "2 * length (jtext j @ rest) + 2 \<le> i" using Cons.prems(6) unfolding tx n by simp
    show "length (jtext j @ rest) < HT_COUNT_SAFE" using Cons.prems(7) unfolding tx by simp
  qed (use Cons.prems(2) m heap_ext_inv [OF e1] dl in auto)
  have room: "count d < HT_COUNT_SAFE" using Cons.prems(7) by simp
  obtain h3 d3 where h3: "dict_insert c key v h2 = Some h3" "new_dct h0 h3 c d3" "count d3 \<le> count d + 1"
    "stored h2 (ODict c) (CDict d3) h3"
    "\<And>k'. dictmap_get d3 k' = (if c_str k' = c_str key then Some v else dictmap_get d k')"
    by (rule dict_insert_ok [OF new_dct_ext [OF new_dct_ext [OF Cons.prems(4) k(2)] v(2)] room, of key v]) (rule that)
  have "(\<exists>c'. ODict c = OArr c') \<or> (\<exists>c'. ODict c = ODict c')" by blast
  note g = jrepr_grown [OF e1 live1 v(2) h3(4) this]
  have old: "jrepr (older h0 (ODict c)) h v j \<Longrightarrow> jrepr (older h0 (ODict c)) h3 v j" for v j
    using g(1) jrepr_ext [OF _ k(2) order_refl] by blast
  have all: "dict_repr (older h0 (ODict c)) h3 d3 (ms0 @ [m])"
    unfolding m
  proof (rule dict_repr_insert [OF Cons.prems(5) old g(2) [OF v(3)] _ _ h3(5)])
    show "nul_free key" "key \<notin> fst ` set ms0" using Cons.prems(2,3) m by auto
  qed simp
  have loop: "json_object_loop n c (join '','' (map mtext (m # ms)) @ ''}'' @ r) h =
      (case json_skip_ws rest of [] \<Rightarrow> json_err ''Unterminated object in JSON'' h3
       | ch # r \<Rightarrow>
           if ch = CHR '','' then json_object_loop i c r h3
           else if ch = CHR ''}'' then json_ok (VDict c) r h3
           else json_err (''Expected '' @ quoted '','' @ '' or '' @ quoted ''}'' @ '' in JSON object'') h3)"
  proof -
    have "json_skip_ws (DQ # x) = DQ # x" "json_skip_ws (CHR '':'' # x) = CHR '':'' # x" for x
      by (simp_all add: json_skip_ws_def json_ws_def DQ_def)
    moreover have "json_parse_string_raw (concat (map json_escape key) @ DQ # CHR '':'' # jtext j @ rest) h =
        Some (Inr (VString kc, CHR '':'' # jtext j @ rest), h1)"
      using k(1) by (simp add: json_parse_string_raw_def json_string_body_text json_ok_def)
    ultimately show ?thesis
      using k(3) v(1) h3(1) unfolding tx n by (simp add: starts_def)
  qed
  show ?case
  proof (cases "ms = []")
    case True
    have "json_object_loop n c (join '','' (map mtext (m # ms)) @ ''}'' @ r) h = Some (Inr (VDict c, r), h3)"
      unfolding loop using True by (simp add: rest_def json_skip_ws_def json_ws_def json_ok_def)
    then show ?thesis using h3(2) all True by auto
  next
    case False
    have "json_object_loop n c (join '','' (map mtext (m # ms)) @ ''}'' @ r) h =
        json_object_loop i c (join '','' (map mtext ms) @ ''}'' @ r) h3"
      unfolding loop using False by (simp add: rest_def json_skip_ws_def json_ws_def)
    moreover have "\<exists>h' d'. json_object_loop i c (join '','' (map mtext ms) @ ''}'' @ r) h3 = Some (Inr (VDict c, r), h') \<and>
        new_dct h0 h' c d' \<and> dict_repr (older h0 (ODict c)) h' d' ((ms0 @ [m]) @ ms)"
    proof (rule Cons.IH [OF False _ _ h3(2) all])
      show "2 * length (join '','' (map mtext ms) @ ''}'' @ r) + 3 \<le> i"
        using Cons.prems(6) False unfolding tx n by (simp add: rest_def)
      show "count d3 + length (join '','' (map mtext ms) @ ''}'' @ r) < HT_COUNT_SAFE"
        using Cons.prems(7) h3(3) False unfolding tx by (simp add: rest_def)
      show "distinct (map fst ((ms0 @ [m]) @ ms))" using Cons.prems(3) by simp
    qed (use Cons.prems(2) in simp)
    ultimately show ?thesis by simp
  qed
qed simp

lemma decodes_array:
  assumes "\<forall>j \<in> set js. decodes j"
  shows "decodes (JArr js)"
  unfolding decodes_def
proof (intro allI impI)
  fix n h r
  assume h: "pools_inv h" and wf: "json_wf (JArr js)" and f: "2 * length (jtext (JArr js) @ r) + 2 \<le> n"
    and b: "length (jtext (JArr js) @ r) < HT_COUNT_SAFE"
  obtain i where n: "n = Suc i" using f by (cases n) auto
  obtain c h1 where c: "new_array_cell h = Some (c, h1)" "new_arr h h1 c \<lparr>items = [], shape = None\<rparr>"
    using h by (rule new_array_cell_ok)
  have sk: "json_skip_ws (CHR ''['' # x) = CHR ''['' # x" "json_skip_ws (CHR '']'' # x) = CHR '']'' # x" for x
    by (simp_all add: json_skip_ws_def json_ws_def)
  have fin: "jrepr {ob. obj_live h ob} h' (VArray c) (JArr js)"
    if "new_arr h h' c \<lparr>items = ws, shape = None\<rparr>" "list_all2 (jrepr (older h (OArr c)) h') ws js" for h' ws
  proof (rule jrepr.arr)
    have "jrepr {ob. obj_live h ob} h' v j" if "jrepr (older h (OArr c)) h' v j" for v j
      using that heap_ext_refl [OF heap_ext_inv] \<open>new_arr h h' c _\<close>
      by (intro jrepr_ext [OF that]) (auto simp: older_def new_arr_def)
    then show "list_all2 (jrepr {ob. obj_live h ob} h') ws js" using that(2) list_all2_mono by blast
  qed (use that(1) in \<open>auto simp: new_arr_def\<close>)
  show "\<exists>v h'. json_parse_value n (jtext (JArr js) @ r) h = Some (Inr (v, r), h') \<and> heap_ext h h' \<and>
      jrepr {ob. obj_live h ob} h' v (JArr js)"
  proof (cases "js = []")
    case True
    have "json_parse_value n (jtext (JArr js) @ r) h = Some (Inr (VArray c, r), h1)"
      using c(1) True by (simp add: n sk starts_def json_ok_def DQ_def)
    then show ?thesis using fin [OF c(2)] c(2) True by (auto simp: new_arr_def)
  next
    case False
    let ?t = "join '','' (map jtext js) @ '']'' @ r"
    obtain j js' where js: "js = j # js'" using False by (cases js) auto
    obtain x u where x: "jtext j = x # u" "x \<noteq> CHR '']''" "\<not> json_ws x" using jtext_head [of j] by blast
    have t: "json_skip_ws ?t = ?t" "\<not> starts (CHR '']'') ?t" using x js by (simp_all add: join_Cons starts_def json_skip_ws_def)
    have "json_parse_value n (jtext (JArr js) @ r) h = json_array_loop i c ?t h1"
      using c(1) t by (simp add: n sk DQ_def)
    moreover have "\<exists>h' ws. json_array_loop i c ?t h1 = Some (Inr (VArray c, r), h') \<and>
        new_arr h h' c \<lparr>items = ws, shape = None\<rparr> \<and> list_all2 (jrepr (older h (OArr c)) h') ws ([] @ js)"
      using False assms wf c(2) f b
      by (intro array_loop_decodes) (auto simp: n list.pred_set)
    ultimately show ?thesis using fin by (auto simp: new_arr_def)
  qed
qed

lemma decodes_object:
  assumes "\<forall>m \<in> set ms. decodes (snd m)"
  shows "decodes (JObj ms)"
  unfolding decodes_def
proof (intro allI impI)
  fix n h r
  assume h: "pools_inv h" and wf: "json_wf (JObj ms)" and f: "2 * length (jtext (JObj ms) @ r) + 2 \<le> n"
    and b: "length (jtext (JObj ms) @ r) < HT_COUNT_SAFE"
  obtain i where n: "n = Suc i" using f by (cases n) auto
  obtain c h1 where c: "new_dict_cell h = Some (c, h1)" "new_dct h h1 c (ht_zero True)"
    using h by (rule new_dict_cell_ok)
  have sk: "json_skip_ws (CHR ''{'' # x) = CHR ''{'' # x" "json_skip_ws (CHR ''}'' # x) = CHR ''}'' # x" for x
    by (simp_all add: json_skip_ws_def json_ws_def)
  have fin: "jrepr {ob. obj_live h ob} h' (VDict c) (JObj ms)"
    if "new_dct h h' c d" "dict_repr (older h (ODict c)) h' d ms" for h' d
  proof (rule dict_repr_obj)
    have "jrepr {ob. obj_live h ob} h' v j" if "jrepr (older h (ODict c)) h' v j" for v j
      using that heap_ext_refl [OF heap_ext_inv] \<open>new_dct h h' c d\<close>
      by (intro jrepr_ext [OF that]) (auto simp: older_def new_dct_def)
    then show "dict_repr {ob. obj_live h ob} h' d ms" using that(2) unfolding dict_repr_def by blast
  qed (use that(1) in \<open>auto simp: new_dct_def\<close>)
  have zero: "dict_repr B h' (ht_zero True) []" for B h'
    by (simp add: dict_repr_def dictmap_get_def hashtable_get_map)
  show "\<exists>v h'. json_parse_value n (jtext (JObj ms) @ r) h = Some (Inr (v, r), h') \<and> heap_ext h h' \<and>
      jrepr {ob. obj_live h ob} h' v (JObj ms)"
  proof (cases "ms = []")
    case True
    have "json_parse_value n (jtext (JObj ms) @ r) h = Some (Inr (VDict c, r), h1)"
      using c(1) True by (simp add: n sk starts_def json_ok_def DQ_def)
    then show ?thesis using fin [OF c(2)] c(2) True zero by (auto simp: new_dct_def)
  next
    case False
    let ?t = "join '','' (map mtext ms) @ ''}'' @ r"
    obtain m ms' where ms: "ms = m # ms'" using False by (cases ms) auto
    have t: "json_skip_ws ?t = ?t" "\<not> starts (CHR ''}'') ?t"
      using ms by (simp_all add: join_Cons starts_def mtext_def json_encode_string_def json_skip_ws_def json_ws_def DQ_def)
    have "json_parse_value n (jtext (JObj ms) @ r) h = json_object_loop i c ?t h1"
      using c(1) t by (simp add: n sk DQ_def jtext_JObj del: jtext.simps)
    moreover have "\<exists>h' d'. json_object_loop i c ?t h1 = Some (Inr (VDict c, r), h') \<and>
        new_dct h h' c d' \<and> dict_repr (older h (ODict c)) h' d' ([] @ ms)"
    proof (rule object_loop_decodes [OF False _ _ c(2) zero])
      show "\<forall>m \<in> set ms. decodes (snd m) \<and> json_wf (snd m) \<and> nul_free (fst m)"
        using wf assms by (auto simp: list.pred_set)
    qed (use wf f b in \<open>auto simp: n jtext_JObj simp del: jtext.simps\<close>)
    ultimately show ?thesis using fin by (auto simp: new_dct_def)
  qed
qed

lemma decodes_all: "decodes j"
proof (induction j)
  case (JArr js)
  then show ?case by (simp add: decodes_array)
next
  case (JObj ms)
  then have "\<forall>m \<in> set ms. decodes (snd m)" by (metis prod.collapse snds.intros)
  then show ?case by (rule decodes_object)
qed (simp_all add: decodes_scalar)

section \<open>Encoding\<close>

text \<open>The tree a value is, its objects with their members in bucket order.\<close>

inductive jtree :: "heap \<Rightarrow> val \<Rightarrow> json \<Rightarrow> bool" for h where
  null: "jtree h VNull JNull"
| bool: "jtree h (VBool b) (JBool b)"
| int: "jtree h (VInt n) (JInt n)"
| big: "pool_read (long_pool h) c = Some n \<Longrightarrow> jtree h (VBig c) (JInt n)"
| str: "pool_read (string_pool h) c = Some s \<Longrightarrow> jtree h (VString c) (JStr s)"
| arr: "c \<in> live (array_pool h) \<Longrightarrow> pool_read (array_pool h) c = Some \<lparr>items = vs, shape = None\<rparr> \<Longrightarrow>
     list_all2 (jtree h) vs js \<Longrightarrow> jtree h (VArray c) (JArr js)"
| obj: "c \<in> live (dict_pool h) \<Longrightarrow> pool_read (dict_pool h) c = Some d \<Longrightarrow>
     list_all2 (\<lambda>e m. fst m = entry_key e \<and> jtree h (payload e) (snd m)) (ht_entries d) ms \<Longrightarrow>
     jtree h (VDict c) (JObj ms)"

inductive_cases jtree_arrE: "jtree h (VArray c) j"
inductive_cases jtree_objE: "jtree h (VDict c) j"

text \<open>The nesting depth of a tree.\<close>

primrec jdepth :: "json \<Rightarrow> nat" where
  "jdepth JNull = 0"
| "jdepth (JBool b) = 0"
| "jdepth (JInt n) = 0"
| "jdepth (JStr s) = 0"
| "jdepth (JArr js) = Suc (Max (insert 0 (set (map jdepth js))))"
| "jdepth (JObj ms) = Suc (Max (insert 0 (set (map snd (map (map_prod id jdepth) ms)))))"

lemma enc_all_map: "list_all2 (\<lambda>x s. f x = Some (Some s)) xs ss \<Longrightarrow> enc_all f xs = Some (Some ss)"
  by (induction rule: list_all2_induct) simp_all

lemma jdepth_arr: "j \<in> set js \<Longrightarrow> jdepth j < jdepth (JArr js)"
  by (auto simp: less_Suc_eq_le intro: Max_ge)

lemma jdepth_obj: "m \<in> set ms \<Longrightarrow> jdepth (snd m) < jdepth (JObj ms)"
  by (cases m) (force simp: less_Suc_eq_le intro!: Max_ge)

lemma jtree_encode:
  assumes "jtree (heap m) v j" "jdepth j < n"
  shows "json_encode_value n m v = Some (Some (jtext j))"
  using assms
proof (induction arbitrary: n)
  case (arr c vs js)
  obtain i where n: "n = Suc i" using arr.prems by (cases n) auto
  have "list_all2 (\<lambda>v s. json_encode_value i m v = Some (Some s)) vs (map jtext js)"
    unfolding list.rel_map
  proof (rule list.rel_mono_strong [OF arr(3)])
    fix v j assume "v \<in> set vs" "j \<in> set js"
      and j: "jtree (heap m) v j \<and> (\<forall>n. jdepth j < n \<longrightarrow> json_encode_value n m v = Some (Some (jtext j)))"
    then show "json_encode_value i m v = Some (Some (jtext j))"
      using jdepth_arr [of j js] arr.prems n by auto
  qed
  from enc_all_map [OF this] show ?case using arr(2) by (simp add: n bracket_def)
next
  case (obj c d ms)
  obtain i where n: "n = Suc i" using obj.prems by (cases n) auto
  have "list_all2 (\<lambda>e s. map_option (member (entry_key e)) (json_encode_value i m (payload e)) = Some (Some s))
      (ht_entries d) (map mtext ms)"
    unfolding list.rel_map
  proof (rule list.rel_mono_strong [OF obj(3)])
    fix e x assume "e \<in> set (ht_entries d)" "x \<in> set ms"
      and x: "fst x = entry_key e \<and> jtree (heap m) (payload e) (snd x) \<and>
        (\<forall>n. jdepth (snd x) < n \<longrightarrow> json_encode_value n m (payload e) = Some (Some (jtext (snd x))))"
    then have "json_encode_value i m (payload e) = Some (Some (jtext (snd x)))"
      using jdepth_obj [of x ms] obj.prems n by auto
    then show "map_option (member (entry_key e)) (json_encode_value i m (payload e)) = Some (Some (mtext x))"
      using x by (simp add: member_def mtext_def)
  qed
  from enc_all_map [OF this] show ?case using obj(2) by (simp add: n bracket_def jtext_JObj del: jtext.simps)
qed (auto simp: gr0_conv_Suc)

text \<open>
  The fuel of the encoder. On a path into a tree the depths fall, so no container comes twice and
  there are at least as many containers as levels.
\<close>

lemma list_all2_fun:
  "list_all2 (\<lambda>x y. P x y \<and> (\<forall>z. P x z \<longrightarrow> z = y)) xs ys \<Longrightarrow> list_all2 P xs zs \<Longrightarrow> zs = ys"
  by (induction xs ys arbitrary: zs rule: list_all2_induct) (auto simp: list_all2_Cons1)

lemma jtree_fun: "jtree h v j \<Longrightarrow> jtree h v j' \<Longrightarrow> j' = j"
proof (induction arbitrary: j' rule: jtree.induct)
  case (arr c vs js)
  obtain js' where "j' = JArr js'" "list_all2 (jtree h) vs js'" using arr(2,4) by (auto elim: jtree_arrE)
  then show ?case using list_all2_fun [of "jtree h" vs js js'] arr(3) by simp
next
  case (obj c d ms)
  obtain ms' where ms: "j' = JObj ms'"
    "list_all2 (\<lambda>e m. fst m = entry_key e \<and> jtree h (payload e) (snd m)) (ht_entries d) ms'"
    using obj(2,4) by (auto elim: jtree_objE)
  have "list_all2 (\<lambda>e m. (fst m = entry_key e \<and> jtree h (payload e) (snd m)) \<and>
      (\<forall>z. fst z = entry_key e \<and> jtree h (payload e) (snd z) \<longrightarrow> z = m)) (ht_entries d) ms"
    using obj(3) by (rule list_all2_mono) (auto simp: prod_eq_iff)
  from list_all2_fun [OF this ms(2)] show ?case using ms(1) by simp
qed (auto elim: jtree.cases)

definition containers :: "heap \<Rightarrow> obj set" where
  "containers h = OArr ` live (array_pool h) \<union> ODict ` live (dict_pool h)"

lemma finite_containers: "finite (containers h)"
  by (simp add: containers_def finite_live)

lemma jtree_path_step:
  assumes S: "S \<subseteq> containers h" "card S = k" "\<forall>ob \<in> S. \<exists>v' j'. obj_of v' = Some ob \<and> jtree h v' j' \<and> jdepth j' \<le> k"
    and v: "jtree h v j" "obj_of v = Some ob" "ob \<in> containers h" "jdepth j = Suc k"
  shows "\<exists>S. S \<subseteq> containers h \<and> card S = jdepth j \<and>
    (\<forall>ob \<in> S. \<exists>v' j'. obj_of v' = Some ob \<and> jtree h v' j' \<and> jdepth j' \<le> jdepth j)"
proof (intro exI conjI)
  have inj: "obj_of a = Some x \<Longrightarrow> obj_of b = Some x \<Longrightarrow> a = b" for a b x
    by (cases a; cases b) auto
  have "ob \<notin> S"
  proof
    assume "ob \<in> S"
    then obtain v' j' where "obj_of v' = Some ob" "jtree h v' j'" "jdepth j' \<le> k" using S(3) by blast
    moreover from this v have "v' = v" using inj by blast
    ultimately show False using jtree_fun [OF v(1)] v(4) by auto
  qed
  then show "card (insert ob S) = jdepth j"
    using S(2) v(4) finite_subset [OF S(1) finite_containers] by simp
  show "insert ob S \<subseteq> containers h" using S(1) v(3) by simp
  show "\<forall>x \<in> insert ob S. \<exists>v' j'. obj_of v' = Some x \<and> jtree h v' j' \<and> jdepth j' \<le> jdepth j"
    using S(3) v by (metis insertE le_Suc_eq order_refl)
qed

lemma Max_insert0: "finite A \<Longrightarrow> Max (insert (0::nat) A) \<notin> A \<Longrightarrow> Max (insert 0 A) = 0"
  using Max_in [of "insert 0 A"] by blast

lemma list_all2_ex: "list_all2 P xs ys \<Longrightarrow> y \<in> set ys \<Longrightarrow> \<exists>x. P x y"
  by (induction rule: list_all2_induct) auto

lemma jtree_path_leaf:
  "k = 0 \<Longrightarrow> \<exists>S. S \<subseteq> containers h \<and> card S = k \<and>
    (\<forall>ob \<in> S. \<exists>v' j'. obj_of v' = Some ob \<and> jtree h v' j' \<and> jdepth j' \<le> k)"
  by (rule exI [of _ "{}"]) simp

lemma jtree_path:
  assumes "jtree h v j"
  shows "\<exists>S. S \<subseteq> containers h \<and> card S = jdepth j \<and>
    (\<forall>ob \<in> S. \<exists>v' j'. obj_of v' = Some ob \<and> jtree h v' j' \<and> jdepth j' \<le> jdepth j)"
  using assms
proof (induction rule: jtree.induct)
  case (arr c vs js)
  let ?k = "Max (insert 0 (set (map jdepth js)))"
  have tree: "jtree h (VArray c) (JArr js)"
    using arr by (intro jtree.arr) (auto elim: list_all2_mono)
  have "\<exists>S. S \<subseteq> containers h \<and> card S = ?k \<and>
      (\<forall>ob \<in> S. \<exists>v' j'. obj_of v' = Some ob \<and> jtree h v' j' \<and> jdepth j' \<le> ?k)"
  proof (cases "?k \<in> set (map jdepth js)")
    case True
    then obtain j where "j \<in> set js" "?k = jdepth j" by auto
    then show ?thesis using list_all2_ex [OF arr(3), of j] by simp
  qed (intro jtree_path_leaf Max_insert0; simp)
  then obtain S where S: "S \<subseteq> containers h" "card S = ?k"
    "\<forall>ob \<in> S. \<exists>v' j'. obj_of v' = Some ob \<and> jtree h v' j' \<and> jdepth j' \<le> ?k" by blast
  show ?case using arr(1) by (intro jtree_path_step [OF S tree]) (auto simp: containers_def)
next
  case (obj c d ms)
  let ?k = "Max (insert 0 (set (map snd (map (map_prod id jdepth) ms))))"
  have tree: "jtree h (VDict c) (JObj ms)"
    using obj by (intro jtree.obj) (auto elim: list_all2_mono)
  have "\<exists>S. S \<subseteq> containers h \<and> card S = ?k \<and>
      (\<forall>ob \<in> S. \<exists>v' j'. obj_of v' = Some ob \<and> jtree h v' j' \<and> jdepth j' \<le> ?k)"
  proof (cases "?k \<in> set (map snd (map (map_prod id jdepth) ms))")
    case True
    then obtain x where "x \<in> set ms" "?k = jdepth (snd x)" by auto
    then show ?thesis using list_all2_ex [OF obj(3), of x] by (auto simp del: set_map)
  qed (intro jtree_path_leaf Max_insert0; simp)
  then obtain S where S: "S \<subseteq> containers h" "card S = ?k"
    "\<forall>ob \<in> S. \<exists>v' j'. obj_of v' = Some ob \<and> jtree h v' j' \<and> jdepth j' \<le> ?k" by blast
  show ?case using obj(1) by (intro jtree_path_step [OF S tree]) (auto simp: containers_def)
qed (rule exI [of _ "{}"], simp)+

lemma jtree_depth:
  assumes "jtree (heap m) v j"
  shows "jdepth j < fmt_depth m"
proof -
  obtain S where S: "S \<subseteq> containers (heap m)" "card S = jdepth j" using jtree_path [OF assms] by blast
  have l: "card (live p) \<le> length (carved p)" for p :: "'x pool"
    by (rule order_trans [OF card_mono card_length]) (auto simp: live_def)
  have "card S \<le> card (containers (heap m))" by (rule card_mono [OF finite_containers S(1)])
  also have "\<dots> \<le> card (live (array_pool (heap m))) + card (live (dict_pool (heap m)))"
    unfolding containers_def by (rule order_trans [OF card_Un_le add_mono]) (auto intro: card_image_le finite_live)
  also have "\<dots> \<le> length (carved (array_pool (heap m))) + length (carved (dict_pool (heap m)))"
    by (intro add_mono l)
  finally show ?thesis using S(2) by (simp add: fmt_depth_def)
qed

section \<open>Properties\<close>

lemma json_decode_jtext:
  assumes "pools_inv h" "json_wf j" "length (jtext j) < HT_COUNT_SAFE"
  obtains v h' where "json_decode (jtext j) h = Some (Inr v, h')" "heap_ext h h'" "jrepr {ob. obj_live h ob} h' v j"
proof -
  obtain v h' where "json_parse_value (json_fuel (jtext j)) (jtext j @ []) h = Some (Inr (v, []), h')" "heap_ext h h'"
    "jrepr {ob. obj_live h ob} h' v j"
    by (rule decodesD [OF decodes_all assms(1,2), of "[]" "json_fuel (jtext j)"]) (use assms(3) in \<open>simp_all add: delim_def json_fuel_def\<close>)
  then have "json_decode (jtext j) h = Some (Inr v, h')" by (simp only: json_decode_def append_Nil2) (simp add: json_skip_ws_def)
  then show ?thesis by (rule that) fact+
qed

text \<open>C32: Decoding the text the encoder writes for a tree of null, booleans, integers, strings, arrays
  and objects succeeds, leaves every object that was there as it was, and returns a value that
  represents the tree: numbers and strings equal, arrays element by element, and a dict that
  finds exactly the tree's keys. The arrays and dicts of the value are new. Numbers with a
  fraction or an exponent are not part of it.\<close>

theorem json_decode_text:
  assumes "pools_inv h" "json_wf j" "length (jtext j) < HT_COUNT_SAFE"
  shows "\<exists>v h'. json_decode (jtext j) h = Some (Inr v, h') \<and> heap_ext h h' \<and> jrepr {ob. obj_live h ob} h' v j"
  by (rule json_decode_jtext [OF assms]) (intro exI conjI)

theorem json_decode_text_witness:
  "\<exists>v h'. json_decode (jtext (JObj [(''a'', JArr [JInt (- 1), JNull]), (''b'', JStr ''x'')])) heap_init = Some (Inr v, h') \<and>
     jrepr {ob. obj_live heap_init ob} h' v (JObj [(''a'', JArr [JInt (- 1), JNull]), (''b'', JStr ''x'')])"
proof -
  have "length (show_int (- 1)) \<le> 20" by (rule show_int_length) (simp add: in_i64_def)
  then show ?thesis
    using json_decode_text [of heap_init "JObj [(''a'', JArr [JInt (- 1), JNull]), (''b'', JStr ''x'')]"]
    by (auto simp: heap_init_inv in_i64_def nul_free_def HT_COUNT_SAFE_def json_encode_string_def json_escape_def)
qed

text \<open>C9: Encoding a value that is a tree of null, booleans, integers, strings, arrays and dicts writes its
  JSON text, and decoding that text gives back a value that represents the same tree, if the keys
  of a dict are free of NUL and the text is shorter than \<open>HT_COUNT_SAFE\<close>. The encoder's recursion
  bound is never what stops it: a tree is at most as deep as there are arrays and dicts. Reals
  are not part of it and do not come back in general: they are written with six digits, and a
  whole one without a point, which is decoded as an integer. Nor are struct instances, which are
  written as objects and come back as dicts.\<close>

theorem json_roundtrip:
  assumes "pools_inv (heap m)" "jtree (heap m) v j" "json_wf j" "length (jtext j) < HT_COUNT_SAFE"
  shows "\<exists>v' h'. json_encode_value (fmt_depth m) m v = Some (Some (jtext j)) \<and>
    json_decode (jtext j) (heap m) = Some (Inr v', h') \<and> heap_ext (heap m) h' \<and> jrepr {ob. obj_live (heap m) ob} h' v' j"
  by (rule json_decode_jtext [OF assms(1,3,4)])
    (intro exI conjI jtree_encode [OF assms(2) jtree_depth [OF assms(2)]])

inductive_cases jrepr_arrE: "jrepr B h v (JArr js)"
inductive_cases jrepr_strE: "jrepr B h v (JStr s)"
inductive_cases jrepr_boolE: "jrepr B h v (JBool b)"

theorem json_roundtrip_witness:
  "\<exists>h v v' h'. json_encode_value (fmt_depth (mach_init\<lparr>heap := h\<rparr>)) (mach_init\<lparr>heap := h\<rparr>) v = Some (Some (jtext (JArr [JBool True, JStr ''a'']))) \<and>
     json_decode (jtext (JArr [JBool True, JStr ''a''])) h = Some (Inr v', h') \<and> jrepr {ob. obj_live h ob} h' v' (JArr [JBool True, JStr ''a''])"
proof -
  let ?j = "JArr [JBool True, JStr ''a'']"
  have len: "length (jtext ?j) < HT_COUNT_SAFE" by (simp add: HT_COUNT_SAFE_def json_encode_string_def json_escape_def)
  obtain v h where h: "heap_ext heap_init h" and r: "jrepr {ob. obj_live heap_init ob} h v ?j"
    by (rule json_decode_jtext [OF heap_init_inv _ len]) simp_all
  have "jtree h v ?j"
    using r by (elim jrepr_arrE) (auto simp: list_all2_Cons2 intro!: jtree.intros elim!: jrepr_strE jrepr_boolE)
  then show ?thesis
    using json_roundtrip [of "mach_init\<lparr>heap := h\<rparr>" v ?j] heap_ext_inv [OF h] len by auto
qed

end
