(* ===== verification/Lexer.thy ===== *)
theory Lexer
  imports Ops Strto
begin

text \<open>
  The lexer (\<^verbatim>\<open>source/compiler/lexer.c\<close>). The source buffer a \<^verbatim>\<open>File\<close> points to is the text
  \<open>f_start\<close>, and the cursor \<^verbatim>\<open>buffer\<close> into it is the rest of the text, \<open>f_buffer\<close>; the character
  at its end is the NUL. The indentation stack has its top first.

  The functions work on the state the lexer shares with the parser: the current token, the
  error flag of the compilation and the machine, whose heap holds the strings and big integers
  of the tokens.
\<close>

section \<open>Tokens\<close>

datatype (plugins only: code) token_type =
  TOKEN_OR | TOKEN_PIPE | TOKEN_AND | TOKEN_BITWISE_OR | TOKEN_BITWISE_XOR | TOKEN_BITWISE_AND
| TOKEN_EQUAL | TOKEN_NOT_EQUAL | TOKEN_LESS | TOKEN_GREATER | TOKEN_LESS_EQUAL | TOKEN_GREATER_EQUAL
| TOKEN_IN | TOKEN_LEFT_SHIFT | TOKEN_RIGHT_SHIFT | TOKEN_ADD | TOKEN_SUBTRACT | TOKEN_MULTIPLY
| TOKEN_DIVIDE | TOKEN_MODULO | TOKEN_FLOOR_DIVIDE | TOKEN_AS
| TOKEN_ASSIGN | TOKEN_ADD_ASSIGN | TOKEN_SUBTRACT_ASSIGN | TOKEN_MULTIPLY_ASSIGN | TOKEN_DIVIDE_ASSIGN
| TOKEN_MODULO_ASSIGN | TOKEN_FLOOR_DIVIDE_ASSIGN | TOKEN_LEFT_SHIFT_ASSIGN | TOKEN_RIGHT_SHIFT_ASSIGN
| TOKEN_AND_ASSIGN | TOKEN_OR_ASSIGN | TOKEN_XOR_ASSIGN
| TOKEN_NOT | TOKEN_BITWISE_NOT
| TOKEN_OPEN_PARENTHESE | TOKEN_CLOSE_PARENTHESE | TOKEN_OPEN_BRACKET | TOKEN_CLOSE_BRACKET
| TOKEN_OPEN_BRACE | TOKEN_CLOSE_BRACE | TOKEN_COLON | TOKEN_DOT | TOKEN_DOT_DOT
| TOKEN_IDENTIFIER | TOKEN_INTEGER | TOKEN_REAL | TOKEN_TRUE | TOKEN_FALSE | TOKEN_STRING
| TOKEN_IF | TOKEN_ELSE | TOKEN_FOR | TOKEN_STRUCT | TOKEN_FUNCTION | TOKEN_RETURN | TOKEN_BREAK
| TOKEN_CONTINUE | TOKEN_NULL | TOKEN_IMPORT | TOKEN_DEFER | TOKEN_COMMA
| TOKEN_INDENT | TOKEN_DEDENT | TOKEN_NEW_LINE | TOKEN_END_OF_FILE
| TOKEN_ERROR

section \<open>State\<close>

record lexer =
  f_name :: string
  f_start :: string
  f_buffer :: string
  indent_stack :: "nat list"
  pending_dedents :: int
  at_line_start :: bool
  bracket_depth :: nat

record lex_state =
  lexer :: lexer
  tok :: token_type
  tok_value :: val
  parse_had_error :: bool
  pmach :: mach

definition INDENT_MAX :: nat where "INDENT_MAX = 64"

definition NUL :: char where "NUL = CHR 0x00"

text \<open>\<open>p[i]\<close> for a cursor \<open>p\<close>.\<close>

definition peek :: "nat \<Rightarrow> string \<Rightarrow> char" where
  "peek i p = (if i < length p then p ! i else NUL)"

abbreviation buffer :: "'a lex_state_scheme \<Rightarrow> string" where
  "buffer s \<equiv> f_buffer (lexer s)"

definition set_buffer :: "string \<Rightarrow> 'a lex_state_scheme \<Rightarrow> 'a lex_state_scheme" where
  "set_buffer b s = s\<lparr>lexer := (lexer s)\<lparr>f_buffer := b\<rparr>\<rparr>"

text \<open>\<^verbatim>\<open>error_at()\<close> and, while compiling, \<^verbatim>\<open>error()\<close>: both flags and the message.\<close>

definition error_at :: "string \<Rightarrow> 'a lex_state_scheme \<Rightarrow> 'a lex_state_scheme" where
  "error_at msg s = s\<lparr>parse_had_error := True, pmach := error msg (pmach s)\<rparr>"

definition indent_reset :: "lexer \<Rightarrow> lexer" where
  "indent_reset l = l\<lparr>indent_stack := [0], pending_dedents := 0, at_line_start := True, bracket_depth := 0\<rparr>"

definition current_source_line :: "'a lex_state_scheme \<Rightarrow> nat" where
  "current_source_line s =
     (let t = f_start (lexer s) in 1 + count_list (take (length t - length (buffer s)) t) CHR 0x0A)"

section \<open>Files\<close>

text \<open>A C string with the carriage returns taken out.\<close>

definition strip_cr :: "string \<Rightarrow> string" where
  "strip_cr text = filter (\<lambda>c. c \<noteq> CHR 0x0D) (c_str text)"

definition source_lexer :: "string \<Rightarrow> string \<Rightarrow> lexer" where
  "source_lexer name text =
     indent_reset \<lparr>f_name = name, f_start = strip_cr text, f_buffer = strip_cr text, indent_stack = [],
       pending_dedents = 0, at_line_start = False, bracket_depth = 0\<rparr>"

text \<open>\<^verbatim>\<open>read_file\<close> over a file system: the contents of a path that can be opened and read.\<close>

definition read_file :: "(string \<Rightarrow> string option) \<Rightarrow> string \<Rightarrow> 'a lex_state_scheme \<Rightarrow> 'a lex_state_scheme" where
  "read_file fs path s =
     (case fs path of
        None \<Rightarrow> error_at (''Cannot open file: '' @ path) s
      | Some text \<Rightarrow> s\<lparr>lexer := source_lexer path text\<rparr>)"

definition shell :: "string \<Rightarrow> 'a lex_state_scheme \<Rightarrow> 'a lex_state_scheme" where
  "shell line s = s\<lparr>lexer := source_lexer ''shell'' line\<rparr>"

section \<open>Emitting tokens\<close>

definition emit :: "token_type \<Rightarrow> nat \<Rightarrow> 'a lex_state_scheme \<Rightarrow> 'a lex_state_scheme" where
  "emit t n s = set_buffer (drop n (buffer s)) (s\<lparr>tok := t\<rparr>)"

definition set_value :: "val \<Rightarrow> heap \<Rightarrow> 'a lex_state_scheme \<Rightarrow> 'a lex_state_scheme" where
  "set_value v h s = s\<lparr>tok_value := v, pmach := (pmach s)\<lparr>heap := h\<rparr>\<rparr>"

definition emit_integer :: "int \<Rightarrow> nat \<Rightarrow> 'a lex_state_scheme \<Rightarrow> 'a lex_state_scheme option" where
  "emit_integer i n s =
     do { (v, h) \<leftarrow> aer_int (heap (pmach s)) i; Some (emit TOKEN_INTEGER n (set_value v h s)) }"

definition emit_real :: "u64 \<Rightarrow> nat \<Rightarrow> 'a lex_state_scheme \<Rightarrow> 'a lex_state_scheme" where
  "emit_real r n s = emit TOKEN_REAL n (s\<lparr>tok_value := VReal r\<rparr>)"

definition emit_string_token :: "token_type \<Rightarrow> nat \<Rightarrow> 'a lex_state_scheme \<Rightarrow> 'a lex_state_scheme option" where
  "emit_string_token t n s =
     do { (v, h) \<leftarrow> aer_make_string (heap (pmach s)) (take n (buffer s)); Some (emit t n (set_value v h s)) }"

definition emit_boolean :: "token_type \<Rightarrow> 'a lex_state_scheme \<Rightarrow> 'a lex_state_scheme" where
  "emit_boolean t s =
     emit t (if t = TOKEN_TRUE then length ''true'' else length ''false'') (s\<lparr>tok_value := VBool (t = TOKEN_TRUE)\<rparr>)"

section \<open>White space and comments\<close>

definition skip_whitespace :: "string \<Rightarrow> string" where
  "skip_whitespace b = dropWhile (\<lambda>c. c = CHR '' '' \<or> c = CHR 0x09) b"

definition skip_comment :: "string \<Rightarrow> string" where
  "skip_comment b = dropWhile (\<lambda>c. c \<noteq> CHR 0x0A) b"

lemma length_skip_whitespace: "length (skip_whitespace b) \<le> length b"
  by (simp add: skip_whitespace_def length_dropWhile_le)

lemma length_skip_comment: "length (skip_comment b) \<le> length b"
  by (simp add: skip_comment_def length_dropWhile_le)

text \<open>Inside brackets a line end is white space too.\<close>

function skip_whitespace_and_comments :: "bool \<Rightarrow> string \<Rightarrow> string" where
  "skip_whitespace_and_comments brackets b =
     (case skip_whitespace b of
        [] \<Rightarrow> []
      | c # r \<Rightarrow>
          if c = CHR 0x0A \<and> brackets then skip_whitespace_and_comments brackets r
          else if c \<noteq> CHR ''#'' then c # r
          else skip_whitespace_and_comments brackets (skip_comment r))"
  by pat_completeness auto
termination
proof (relation "measure (\<lambda>(_, b). length b)")
  fix brackets :: bool and b c r
  assume "skip_whitespace b = c # r"
  then have "length r < length b" using length_skip_whitespace [of b] by simp
  then show "((brackets, r), brackets, b) \<in> measure (\<lambda>(_, b). length b)"
    "((brackets, skip_comment r), brackets, b) \<in> measure (\<lambda>(_, b). length b)"
    using length_skip_comment [of r] by simp_all
qed simp

declare skip_whitespace_and_comments.simps [simp del]

section \<open>Literals and names\<close>

definition c_isxdigit :: "char \<Rightarrow> bool" where
  "c_isxdigit c \<longleftrightarrow> digit_val c < 16"

text \<open>Whether \<^verbatim>\<open>strtoll\<close> reports \<^verbatim>\<open>ERANGE\<close>.\<close>

definition strtoll_range :: "nat \<Rightarrow> string \<Rightarrow> bool" where
  "strtoll_range base str =
     (let s = c_str str; (neg, k) = sign_of s; r = drop k s;
          p = (if base = 16 \<and> hex_prefix r \<and> digits 16 (drop 2 r) \<noteq> [] then 2 else 0);
          n = int (numeral_val base (digits base (drop p r)))
      in \<not> in_i64 (if neg then - n else n))"

definition name_start :: "char \<Rightarrow> bool" where
  "name_start c \<longleftrightarrow> c_isalpha c \<or> c = CHR ''_''"

definition check_end :: "string \<Rightarrow> char \<Rightarrow> 'a lex_state_scheme \<Rightarrow> 'a lex_state_scheme" where
  "check_end msg c s = (if name_start c then error_at msg s else s)"

definition lex_int :: "nat \<Rightarrow> 'a lex_state_scheme \<Rightarrow> 'a lex_state_scheme option" where
  "lex_int base s =
     (let (i, n) = strtoll base (buffer s);
          s1 = (if strtoll_range base (buffer s) then error_at ''Integer literal overflow'' s else s)
      in emit_integer i n (check_end ''Invalid character after integer literal'' (peek n (buffer s)) s1))"

definition lex_number :: "'a lex_state_scheme \<Rightarrow> 'a lex_state_scheme option" where
  "lex_number s =
     (let b = buffer s in
      if peek 0 b = CHR ''0'' \<and> (peek 1 b = CHR ''x'' \<or> peek 1 b = CHR ''X'')
      then (if \<not> c_isxdigit (peek 2 b)
            then Some (emit TOKEN_ERROR 2 (error_at (''Expected hex digits after '' @ quoted ''0x'') s))
            else lex_int 16 s)
      else let n = snd (strtoll 10 b) in
           if peek n b \<noteq> CHR ''.'' \<or> peek (n + 1) b = CHR ''.'' then lex_int 10 s
           else let s1 = (if strtoll_range 10 b then error_at ''Integer literal overflow'' s else s);
                    (r, len) = strtod b;
                    s2 = (if len \<le> n + 1 then error_at (''Expected digit after '' @ quoted ''.'') s1 else s1)
                in Some (emit_real r len (check_end ''Invalid character after float literal'' (peek len b) s2)))"

definition keyword_table :: "(string \<times> token_type) list" where
  "keyword_table =
     [(''if'', TOKEN_IF), (''else'', TOKEN_ELSE), (''for'', TOKEN_FOR), (''in'', TOKEN_IN), (''as'', TOKEN_AS),
      (''struct'', TOKEN_STRUCT), (''function'', TOKEN_FUNCTION), (''return'', TOKEN_RETURN),
      (''break'', TOKEN_BREAK), (''continue'', TOKEN_CONTINUE), (''null'', TOKEN_NULL),
      (''import'', TOKEN_IMPORT), (''defer'', TOKEN_DEFER)]"

definition lex_keyword :: "nat \<Rightarrow> 'a lex_state_scheme \<Rightarrow> 'a lex_state_scheme option" where
  "lex_keyword n s =
     (let w = take n (buffer s) in
      if w = ''true'' then Some (emit_boolean TOKEN_TRUE s)
      else if w = ''false'' then Some (emit_boolean TOKEN_FALSE s)
      else map_option (\<lambda>t. emit t n s) (map_of keyword_table w))"

definition name_char :: "char \<Rightarrow> bool" where
  "name_char c \<longleftrightarrow> c_isalpha c \<or> c_isdigit c \<or> c = CHR ''_''"

definition lex_identifier :: "'a lex_state_scheme \<Rightarrow> 'a lex_state_scheme option" where
  "lex_identifier s =
     (let n = length (takeWhile name_char (buffer s)) in
      case lex_keyword n s of Some s' \<Rightarrow> Some s' | None \<Rightarrow> emit_string_token TOKEN_IDENTIFIER n s)"

text \<open>The text up to the character that ends a quoted string: the quote, a line end or the end.\<close>

fun string_span :: "string \<Rightarrow> string" where
  "string_span [] = []"
| "string_span (c # r) =
     (if c = CHR 0x22 \<or> c = CHR 0x0A then []
      else case r of
             [] \<Rightarrow> [c]
           | d # r' \<Rightarrow> if c = CHR 0x5C then c # d # string_span r' else c # string_span r)"

text \<open>The rest of a string literal of which \<open>n\<close> characters are the text and \<open>k\<close> close it.\<close>

definition finish_string :: "nat \<Rightarrow> nat \<Rightarrow> 'a lex_state_scheme \<Rightarrow> 'a lex_state_scheme option" where
  "finish_string n k s =
     do { (v, h) \<leftarrow> aer_make_string (heap (pmach s)) (take n (buffer s));
          Some (emit TOKEN_STRING (n + k) (set_value v h s)) }"

definition lex_string :: "'a lex_state_scheme \<Rightarrow> 'a lex_state_scheme option" where
  "lex_string s =
     (let s1 = set_buffer (drop 1 (buffer s)) s; n = length (string_span (buffer s1)) in
      if peek n (buffer s1) \<noteq> CHR 0x22
      then Some (error_at ''Unterminated string'' (set_buffer (drop n (buffer s1)) s1))
      else finish_string n 1 s1)"

fun multiline_span :: "string \<Rightarrow> string" where
  "multiline_span [] = []"
| "multiline_span (c # r) =
     (if c = CHR 0x22 \<and> peek 0 r = CHR 0x22 \<and> peek 1 r = CHR 0x22 then [] else c # multiline_span r)"

definition lex_multiline_string :: "'a lex_state_scheme \<Rightarrow> 'a lex_state_scheme option" where
  "lex_multiline_string s =
     (let s1 = set_buffer (drop 3 (buffer s)) s; n = length (multiline_span (buffer s1)) in
      if peek n (buffer s1) \<noteq> CHR 0x22
      then Some (error_at ''Unterminated multi-line string'' (set_buffer (drop n (buffer s1)) s1))
      else finish_string n 3 s1)"

section \<open>Operators and punctuation\<close>

text \<open>The fixed tokens other than brackets, with their lengths: the longest that matches.\<close>

definition operator_token :: "string \<Rightarrow> (token_type \<times> nat) option" where
  "operator_token b =
     (let c = peek 0 b; d = peek 1 b; e = peek 2 b; eq = CHR ''='' in
      if c = CHR '','' then Some (TOKEN_COMMA, 1)
      else if c = CHR '':'' then Some (TOKEN_COLON, 1)
      else if c = CHR ''.'' then Some (if d = CHR ''.'' then (TOKEN_DOT_DOT, 2) else (TOKEN_DOT, 1))
      else if c = CHR ''~'' then Some (TOKEN_BITWISE_NOT, 1)
      else if c = CHR ''*'' then Some (if d = eq then (TOKEN_MULTIPLY_ASSIGN, 2) else (TOKEN_MULTIPLY, 1))
      else if c = CHR ''/'' then
        Some (if d = CHR ''/'' then (if e = eq then (TOKEN_FLOOR_DIVIDE_ASSIGN, 3) else (TOKEN_FLOOR_DIVIDE, 2))
              else if d = eq then (TOKEN_DIVIDE_ASSIGN, 2) else (TOKEN_DIVIDE, 1))
      else if c = CHR ''%'' then Some (if d = eq then (TOKEN_MODULO_ASSIGN, 2) else (TOKEN_MODULO, 1))
      else if c = CHR ''+'' then Some (if d = eq then (TOKEN_ADD_ASSIGN, 2) else (TOKEN_ADD, 1))
      else if c = CHR ''-'' then Some (if d = eq then (TOKEN_SUBTRACT_ASSIGN, 2) else (TOKEN_SUBTRACT, 1))
      else if c = CHR ''!'' then Some (if d = eq then (TOKEN_NOT_EQUAL, 2) else (TOKEN_NOT, 1))
      else if c = CHR ''='' then Some (if d = eq then (TOKEN_EQUAL, 2) else (TOKEN_ASSIGN, 1))
      else if c = CHR ''<'' then
        Some (if d = CHR ''<'' then (if e = eq then (TOKEN_LEFT_SHIFT_ASSIGN, 3) else (TOKEN_LEFT_SHIFT, 2))
              else if d = eq then (TOKEN_LESS_EQUAL, 2) else (TOKEN_LESS, 1))
      else if c = CHR ''>'' then
        Some (if d = CHR ''>'' then (if e = eq then (TOKEN_RIGHT_SHIFT_ASSIGN, 3) else (TOKEN_RIGHT_SHIFT, 2))
              else if d = eq then (TOKEN_GREATER_EQUAL, 2) else (TOKEN_GREATER, 1))
      else if c = CHR ''&'' then
        Some (if d = CHR ''&'' then (TOKEN_AND, 2) else if d = eq then (TOKEN_AND_ASSIGN, 2) else (TOKEN_BITWISE_AND, 1))
      else if c = CHR ''|'' then
        Some (if d = CHR ''|'' then (TOKEN_OR, 2) else if d = CHR ''>'' then (TOKEN_PIPE, 2)
              else if d = eq then (TOKEN_OR_ASSIGN, 2) else (TOKEN_BITWISE_OR, 1))
      else if c = CHR ''^'' then Some (if d = eq then (TOKEN_XOR_ASSIGN, 2) else (TOKEN_BITWISE_XOR, 1))
      else None)"

definition bracket_token :: "char \<Rightarrow> (token_type \<times> bool) option" where
  "bracket_token c =
     (if c = CHR ''('' then Some (TOKEN_OPEN_PARENTHESE, True)
      else if c = CHR '')'' then Some (TOKEN_CLOSE_PARENTHESE, False)
      else if c = CHR ''['' then Some (TOKEN_OPEN_BRACKET, True)
      else if c = CHR '']'' then Some (TOKEN_CLOSE_BRACKET, False)
      else if c = CHR ''{'' then Some (TOKEN_OPEN_BRACE, True)
      else if c = CHR ''}'' then Some (TOKEN_CLOSE_BRACE, False) else None)"

definition lex_bracket :: "token_type \<Rightarrow> bool \<Rightarrow> 'a lex_state_scheme \<Rightarrow> 'a lex_state_scheme" where
  "lex_bracket t opens s =
     emit t 1 (s\<lparr>lexer := (lexer s)\<lparr>bracket_depth :=
       (if opens then bracket_depth (lexer s) + 1 else bracket_depth (lexer s) - 1)\<rparr>\<rparr>)"

section \<open>Indentation\<close>

definition spaces_of :: "string \<Rightarrow> nat" where
  "spaces_of b = length (takeWhile (\<lambda>c. c = CHR '' '') b)"

definition skip_spaces :: "string \<Rightarrow> string" where
  "skip_spaces b = dropWhile (\<lambda>c. c = CHR '' '') b"

text \<open>Blank lines and lines with only a comment, each up to and with its line end.\<close>

definition blank_line_end :: "string \<Rightarrow> string" where
  "blank_line_end b = (let p = skip_spaces b in if peek 0 p = CHR ''#'' then skip_comment p else p)"

lemma length_blank_line_end: "length (blank_line_end b) \<le> length b"
  using length_skip_comment [of "skip_spaces b"] length_dropWhile_le [of "\<lambda>c. c = CHR '' ''" b]
  by (simp add: blank_line_end_def Let_def skip_spaces_def)

function skip_blank_lines :: "string \<Rightarrow> string" where
  "skip_blank_lines b =
     (case blank_line_end b of
        [] \<Rightarrow> b
      | c # r \<Rightarrow> if c \<noteq> CHR 0x0A then b else skip_blank_lines r)"
  by pat_completeness auto
termination
proof (relation "measure length")
  fix b c r
  assume "blank_line_end b = c # r"
  then show "(r, b) \<in> measure length" using length_blank_line_end [of b] by simp
qed simp

declare skip_blank_lines.simps [simp del]

definition set_lexer :: "(lexer \<Rightarrow> lexer) \<Rightarrow> 'a lex_state_scheme \<Rightarrow> 'a lex_state_scheme" where
  "set_lexer f s = s\<lparr>lexer := f (lexer s)\<rparr>"

text \<open>The levels closed by a line indented by \<open>n\<close>: the stack that is left; the bottom stays.\<close>

fun pop_levels :: "nat \<Rightarrow> nat list \<Rightarrow> nat list" where
  "pop_levels n (i # j # is) = (if i > n then pop_levels n (j # is) else i # j # is)"
| "pop_levels n is = is"

text \<open>
  The start of a line. The first component says whether that is a token (or an error) by itself;
  if not, the cursor is past the indentation.
\<close>

definition lex_line_start :: "'a lex_state_scheme \<Rightarrow> bool \<times> 'a lex_state_scheme" where
  "lex_line_start s0 =
     (let s = set_lexer (\<lambda>l. l\<lparr>at_line_start := False, f_buffer := skip_blank_lines (f_buffer l)\<rparr>) s0;
          stk = indent_stack (lexer s); spaces = spaces_of (buffer s); p = skip_spaces (buffer s);
          c = peek 0 p; top = hd stk
      in if c = CHR 0x09 then (True, error_at ''Tabs not allowed for indentation'' s)
         else if c \<noteq> NUL \<and> spaces > top then
           (if length stk \<ge> INDENT_MAX then (True, error_at ''Indentation too deep'' s)
            else (True, (set_lexer (\<lambda>l. l\<lparr>indent_stack := spaces # stk, f_buffer := p\<rparr>) s)\<lparr>tok := TOKEN_INDENT\<rparr>))
         else if spaces < top \<or> (c = NUL \<and> length stk > 1) then
           (let stk' = pop_levels spaces stk; pops = length stk - length stk';
                s1 = set_lexer (\<lambda>l. l\<lparr>indent_stack := stk', f_buffer := p\<rparr>) s
            in if c \<noteq> NUL \<and> length stk' > 1 \<and> hd stk' \<noteq> spaces
               then (True, error_at ''Indentation does not match any outer level'' s1)
               else (True, (set_lexer (\<lambda>l. l\<lparr>indent_stack := (if c = NUL then [last stk'] else stk'),
                              pending_dedents := int pops - 1\<rparr>) s1)\<lparr>tok := TOKEN_DEDENT\<rparr>))
         else (False, set_buffer p s))"

section \<open>The lexer\<close>

definition lex_token :: "'a lex_state_scheme \<Rightarrow> 'a lex_state_scheme option" where
  "lex_token s0 =
     (let s = set_buffer (skip_whitespace_and_comments (bracket_depth (lexer s0) > 0) (buffer s0)) s0;
          b = buffer s; c = peek 0 b; stk = indent_stack (lexer s)
      in if c_isdigit c then lex_number s
         else if name_start c then lex_identifier s
         else if c = CHR 0x22 then
           (if peek 1 b = CHR 0x22 \<and> peek 2 b = CHR 0x22 then lex_multiline_string s else lex_string s)
         else if c = CHR 0x0A then
           Some (emit TOKEN_NEW_LINE 1 (set_lexer (\<lambda>l. l\<lparr>at_line_start := True\<rparr>) s))
         else if c = NUL then
           Some (if length stk > 1
                 then (set_lexer (\<lambda>l. l\<lparr>indent_stack := [last stk], pending_dedents := int (length stk) - 2\<rparr>) s)
                        \<lparr>tok := TOKEN_DEDENT\<rparr>
                 else emit TOKEN_END_OF_FILE 0 s)
         else case bracket_token c of
                Some (t, opens) \<Rightarrow> Some (lex_bracket t opens s)
              | None \<Rightarrow>
                  (case operator_token b of
                     Some (t, n) \<Rightarrow> Some (emit t n s)
                   | None \<Rightarrow> Some (emit TOKEN_ERROR 1 (error_at (''Unknown character: '' @ quoted [c]) s))))"

definition lex :: "'a lex_state_scheme \<Rightarrow> 'a lex_state_scheme option" where
  "lex s =
     (if pending_dedents (lexer s) > 0
      then Some ((set_lexer (\<lambda>l. l\<lparr>pending_dedents := pending_dedents l - 1\<rparr>) s)\<lparr>tok := TOKEN_DEDENT\<rparr>)
      else if at_line_start (lexer s)
      then (let (done, s1) = lex_line_start s in if done then Some s1 else lex_token s1)
      else lex_token s)"

definition equal :: "token_type \<Rightarrow> 'a lex_state_scheme \<Rightarrow> bool" where
  "equal t s \<longleftrightarrow> tok s = t"

definition require :: "token_type \<Rightarrow> string \<Rightarrow> 'a lex_state_scheme \<Rightarrow> 'a lex_state_scheme option" where
  "require t msg s = lex (if equal t s then s else error_at msg s)"

definition consume :: "token_type \<Rightarrow> 'a lex_state_scheme \<Rightarrow> (bool \<times> 'a lex_state_scheme) option" where
  "consume t s = (if equal t s then map_option (Pair True) (lex s) else Some (False, s))"

end
