(* ===== verification/Emit.thy ===== *)
theory Emit
  imports Lexer
begin

text \<open>
  The emitting half of the single-pass compiler (\<^verbatim>\<open>source/compiler/parser.c\<close>): its tables and
  state, the capture analysis, loads and stores, operand classes, constants and string literals.

  The static tables of the C file are fields of one record, each array with its fill count a
  list. The chunk being compiled is the chunk of the machine in the state. A patched operand
  position is always one the parser emitted; after error recovery it can lie beyond the code
  that was kept, where C writes a word that later code overwrites and the model writes nothing.
\<close>

section \<open>State\<close>

definition LOOP_MAX :: nat where "LOOP_MAX = 16"
definition BREAK_MAX :: nat where "BREAK_MAX = 64"
definition EXPR_DEPTH_MAX :: nat where "EXPR_DEPTH_MAX = 200"
definition MAX_TRACKED_LOCALS :: nat where "MAX_TRACKED_LOCALS = 32"
definition MAX_PARAMS :: nat where "MAX_PARAMS = SCOPE_SLOT_MAX"
definition MAX_DESTRUCT :: nat where "MAX_DESTRUCT = 16"

record loop_context =
  lc_top :: nat
  lc_patches :: "nat list"
  lc_scope_depth :: nat
  lc_iter_slots :: nat

record capture_ctx =
  local_names :: "nat list"
  captured_names :: "nat list"

record comp = lex_state +
  mode_shell :: bool
  loop_stack :: "loop_context list"
  loop_floor :: nat
  compile_scope_depth :: nat
  function_depth :: nat
  recovered_at_boundary :: bool
  pipe_forbid_calls :: bool
  last_bare_call_end :: "nat option"
  capture :: capture_ctx
  capturing :: bool
  outer_locals :: "nat list"
  current_params :: "nat list"
  expr_depth :: nat

text \<open>The state before the first token; the chunk and the lexer are put in later.\<close>

definition comp_init :: "bool \<Rightarrow> lexer \<Rightarrow> mach \<Rightarrow> comp" where
  "comp_init sh l m =
     \<lparr>lexer = l, tok = TOKEN_OR, tok_value = VReal 0, parse_had_error = False, pmach = m,
      mode_shell = sh, loop_stack = [], loop_floor = 0, compile_scope_depth = 0, function_depth = 0,
      recovered_at_boundary = False, pipe_forbid_calls = False, last_bare_call_end = None,
      capture = \<lparr>local_names = [], captured_names = []\<rparr>, capturing = False, outer_locals = [],
      current_params = [], expr_depth = 0\<rparr>"

abbreviation pchunk :: "comp \<Rightarrow> chunk" where
  "pchunk s \<equiv> chunk (pmach s)"

abbreviation pheap :: "comp \<Rightarrow> heap" where
  "pheap s \<equiv> heap (pmach s)"

abbreviation code_len :: "comp \<Rightarrow> nat" where
  "code_len s \<equiv> length (code (pchunk s))"

definition set_chunk :: "chunk \<Rightarrow> comp \<Rightarrow> comp" where
  "set_chunk c s = s\<lparr>pmach := (pmach s)\<lparr>chunk := c\<rparr>\<rparr>"

definition set_pheap :: "heap \<Rightarrow> comp \<Rightarrow> comp" where
  "set_pheap h s = s\<lparr>pmach := (pmach s)\<lparr>heap := h\<rparr>\<rparr>"

section \<open>Emission\<close>

text \<open>An instruction: its opcode and operand words.\<close>

definition instr :: "opcode \<Rightarrow> nat list \<Rightarrow> comp \<Rightarrow> comp" where
  "instr op args s = set_chunk (fold chunk_emit (word_of_op op # map int args) (pchunk s)) s"

definition patch_here :: "nat \<Rightarrow> comp \<Rightarrow> comp" where
  "patch_here i s = set_chunk ((pchunk s)\<lparr>code := (code (pchunk s))[i := int (code_len s)]\<rparr>) s"

text \<open>An instruction with an operand to be patched: the position of that operand.\<close>

definition jump_instr :: "opcode \<Rightarrow> comp \<Rightarrow> nat \<times> comp" where
  "jump_instr op s = (code_len s + 1, instr op [0] s)"

text \<open>\<^verbatim>\<open>c->count = n\<close>.\<close>

definition truncate_code :: "nat \<Rightarrow> comp \<Rightarrow> comp" where
  "truncate_code n s = set_chunk ((pchunk s)\<lparr>code := take n (code (pchunk s))\<rparr>) s"

definition add_pool :: "val \<Rightarrow> comp \<Rightarrow> (nat \<times> comp) option" where
  "add_pool v s = do { (i, c) \<leftarrow> chunk_add_pool v (pheap s) (pchunk s); Some (i, set_chunk c s) }"

definition push_const :: "val \<Rightarrow> comp \<Rightarrow> comp option" where
  "push_const v s = do { (i, s) \<leftarrow> add_pool v s; Some (instr OP_PUSH [i] s) }"

text \<open>The pool index of the current token's string.\<close>

definition add_token :: "comp \<Rightarrow> (nat \<times> comp) option" where
  "add_token s = add_pool (tok_value s) s"

definition add_cache :: "comp \<Rightarrow> nat \<times> comp" where
  "add_cache s = (let (i, c) = chunk_add_addr_cache (pchunk s) in (i, set_chunk c s))"

text \<open>An instruction whose last operand is a fresh cache slot.\<close>

definition cached_instr :: "opcode \<Rightarrow> nat list \<Rightarrow> comp \<Rightarrow> comp" where
  "cached_instr op args s = (let (i, s) = add_cache s in instr op (args @ [i]) s)"

section \<open>Captures\<close>

definition outer_locals_add :: "nat \<Rightarrow> comp \<Rightarrow> comp" where
  "outer_locals_add n s =
     (if n \<notin> set (outer_locals s) \<and> length (outer_locals s) < MAX_TRACKED_LOCALS
      then s\<lparr>outer_locals := outer_locals s @ [n]\<rparr> else s)"

definition capture_is_local :: "nat \<Rightarrow> comp \<Rightarrow> bool" where
  "capture_is_local n s \<longleftrightarrow> n \<in> set (local_names (capture s))"

definition capture_is_captured :: "nat \<Rightarrow> comp \<Rightarrow> bool" where
  "capture_is_captured n s \<longleftrightarrow> n \<in> set (captured_names (capture s))"

text \<open>The first index with that name, or the number of names.\<close>

definition capture_slot :: "nat \<Rightarrow> comp \<Rightarrow> nat" where
  "capture_slot n s = length (takeWhile (\<lambda>k. k \<noteq> n) (captured_names (capture s)))"

definition add_local_name :: "nat \<Rightarrow> comp \<Rightarrow> comp" where
  "add_local_name n s =
     (if length (local_names (capture s)) < MAX_TRACKED_LOCALS
      then s\<lparr>capture := (capture s)\<lparr>local_names := local_names (capture s) @ [n]\<rparr>\<rparr> else s)"

definition capture_classify :: "nat \<Rightarrow> bool \<Rightarrow> comp \<Rightarrow> bool \<times> comp" where
  "capture_classify n as_write s =
     (if capture_is_local n s then (False, s)
      else if capture_is_captured n s then (True, s)
      else if as_write \<and> n \<notin> set (outer_locals s) then (False, add_local_name n s)
      else if length (captured_names (capture s)) < MAX_CAPTURES
      then (True, s\<lparr>capture := (capture s)\<lparr>captured_names := captured_names (capture s) @ [n]\<rparr>\<rparr>)
      else (True, error_at (''Too many captured variables in one closure (max '' @ show_nat MAX_CAPTURES @ '')'') s))"

text \<open>The slot of a parameter: the first one of that name.\<close>

definition current_param_slot :: "nat \<Rightarrow> comp \<Rightarrow> nat option" where
  "current_param_slot n s = find (\<lambda>i. current_params s ! i = n) [0..<length (current_params s)]"

section \<open>Loads, stores, definitions\<close>

definition emit_load :: "nat \<Rightarrow> comp \<Rightarrow> comp" where
  "emit_load n s0 =
     (let (up, s) = (if capturing s0 then capture_classify n False s0 else (False, s0)) in
      if up then instr OP_LOAD_UPVALUE [capture_slot n s] s
      else case current_param_slot n s of
             Some i \<Rightarrow> instr OP_LOAD_LOCAL [i] s
           | None \<Rightarrow> cached_instr OP_LOAD [n] s)"

definition emit_store :: "nat \<Rightarrow> comp \<Rightarrow> comp" where
  "emit_store n s0 =
     (let s1 = (if function_depth s0 = 1 then outer_locals_add n s0 else s0);
          known = capture_is_local n s1 \<or> capture_is_captured n s1;
          (up, s) = (if capturing s1 then capture_classify n True s1 else (False, s1))
      in if up then instr OP_STORE_UPVALUE [capture_slot n s] s
         else if capturing s1 \<and> \<not> known then instr OP_DEFINE [n] s
         else case current_param_slot n s of
                Some i \<Rightarrow> instr OP_STORE_LOCAL [i] s
              | None \<Rightarrow> cached_instr OP_STORE [n] s)"

text \<open>The bookkeeping of a name that is always local.\<close>

definition note_local :: "nat \<Rightarrow> comp \<Rightarrow> comp" where
  "note_local n s0 =
     (let s = (if function_depth s0 = 1 then outer_locals_add n s0 else s0) in
      if capturing s \<and> \<not> capture_is_local n s \<and> \<not> capture_is_captured n s then add_local_name n s else s)"

definition emit_define :: "nat \<Rightarrow> comp \<Rightarrow> comp" where
  "emit_define n s = instr OP_DEFINE [n] (note_local n s)"

definition emit_define_param :: "nat \<Rightarrow> comp \<Rightarrow> comp" where
  "emit_define_param n s0 =
     (let s = note_local n s0; slot = length (current_params s);
          s = (if slot < MAX_PARAMS then s\<lparr>current_params := current_params s @ [n]\<rparr> else s)
      in instr OP_DEFINE_LOCAL [slot, n] s)"

section \<open>Operands of fused instructions\<close>

datatype operand = OPERAND_NONE | OPERAND_LOCAL nat | OPERAND_NAME nat nat | OPERAND_CONST nat

text \<open>The code from \<open>a\<close> up to \<open>b\<close>, when it is one load or one constant.\<close>

definition classify_operand :: "nat \<Rightarrow> nat \<Rightarrow> comp \<Rightarrow> operand" where
  "classify_operand a b s =
     (let c = code (pchunk s); n = b - a; w = (\<lambda>i. nat (c ! (a + i))) in
      if n = 2 \<and> c ! a = word_of_op OP_LOAD_LOCAL then OPERAND_LOCAL (w 1)
      else if n = 3 \<and> c ! a = word_of_op OP_LOAD then OPERAND_NAME (w 1) (w 2)
      else if n = 2 \<and> c ! a = word_of_op OP_PUSH then OPERAND_CONST (w 1)
      else OPERAND_NONE)"

text \<open>The fused form of a compound assignment, and of an index expression.\<close>

definition fused_compound :: "operand \<Rightarrow> operand \<Rightarrow> opcode \<Rightarrow> (opcode \<times> nat list) option" where
  "fused_compound lhs rhs op =
     (let w = nat (word_of_op op) in
      case (lhs, rhs) of
        (OPERAND_LOCAL i, OPERAND_CONST k) \<Rightarrow> Some (OP_COMPOUND_LOCAL_CONST, [i, w, k])
      | (OPERAND_LOCAL i, OPERAND_LOCAL j) \<Rightarrow> Some (OP_COMPOUND_LOCAL_LOCAL, [i, w, j])
      | (OPERAND_LOCAL i, OPERAND_NAME n a) \<Rightarrow> Some (OP_COMPOUND_LOCAL_NAME, [i, w, n, a])
      | (OPERAND_NAME m b, OPERAND_CONST k) \<Rightarrow> Some (OP_COMPOUND_NAME_CONST, [m, b, w, k])
      | (OPERAND_NAME m b, OPERAND_LOCAL j) \<Rightarrow> Some (OP_COMPOUND_NAME_LOCAL, [m, b, w, j])
      | (OPERAND_NAME m b, OPERAND_NAME n a) \<Rightarrow> Some (OP_COMPOUND_NAME_NAME, [m, b, w, n, a])
      | _ \<Rightarrow> None)"

definition fused_index :: "operand \<Rightarrow> operand \<Rightarrow> (opcode \<times> nat list) option" where
  "fused_index arr idx =
     (case (arr, idx) of
        (OPERAND_LOCAL i, OPERAND_CONST k) \<Rightarrow> Some (OP_INDEX_GET_LOCAL_CONST, [i, k])
      | (OPERAND_LOCAL i, OPERAND_LOCAL j) \<Rightarrow> Some (OP_INDEX_GET_LOCAL_LOCAL, [i, j])
      | (OPERAND_LOCAL i, OPERAND_NAME n a) \<Rightarrow> Some (OP_INDEX_GET_LOCAL_NAME, [i, n, a])
      | (OPERAND_NAME m b, OPERAND_CONST k) \<Rightarrow> Some (OP_INDEX_GET_NAME_CONST, [m, b, k])
      | (OPERAND_NAME m b, OPERAND_LOCAL j) \<Rightarrow> Some (OP_INDEX_GET_NAME_LOCAL, [m, b, j])
      | (OPERAND_NAME m b, OPERAND_NAME n a) \<Rightarrow> Some (OP_INDEX_GET_NAME_NAME, [m, b, n, a])
      | _ \<Rightarrow> None)"

section \<open>Nesting depth\<close>

definition expr_depth_enter :: "comp \<Rightarrow> bool \<times> comp" where
  "expr_depth_enter s =
     (if expr_depth s \<ge> EXPR_DEPTH_MAX
      then (False, error_at (''Expression nested too deeply (max '' @ show_nat EXPR_DEPTH_MAX @ '' levels)'') s)
      else (True, s\<lparr>expr_depth := expr_depth s + 1\<rparr>))"

definition expr_depth_leave :: "comp \<Rightarrow> comp" where
  "expr_depth_leave s = s\<lparr>expr_depth := expr_depth s - 1\<rparr>"

section \<open>String literals\<close>

definition BACKSLASH :: char where "BACKSLASH = CHR 0x5C"

definition escape_char :: "char \<Rightarrow> string" where
  "escape_char c =
     (if c = CHR ''n'' then [CHR 0x0A] else if c = CHR ''t'' then [CHR 0x09]
      else if c = BACKSLASH \<or> c = CHR 0x22 \<or> c = CHR ''{'' then [c] else [BACKSLASH, c])"

fun unescape :: "string \<Rightarrow> string" where
  "unescape [] = []"
| "unescape [c] = [c]"
| "unescape (c # d # r) = (if c = BACKSLASH then escape_char d @ unescape r else c # unescape (d # r))"

definition pool_escaped_string :: "string \<Rightarrow> comp \<Rightarrow> (nat \<times> comp) option" where
  "pool_escaped_string t s0 =
     (let long = length t \<ge> 4096;
          s = (if long then error_at (''String literal too long (max '' @ show_nat 4095 @ '' bytes)'') s0 else s0)
      in do { (v, h) \<leftarrow> aer_make_string (pheap s) (if long then [] else unescape t); add_pool v (set_pheap h s) })"

text \<open>The text up to the next brace that opens an interpolation.\<close>

fun literal_span :: "string \<Rightarrow> string" where
  "literal_span [] = []"
| "literal_span [c] = (if c = CHR ''{'' then [] else [c])"
| "literal_span (c # d # r) =
     (if c = BACKSLASH then c # d # literal_span r else if c = CHR ''{'' then [] else c # literal_span (d # r))"

text \<open>Adding a piece to what is on the stack already.\<close>

definition add_part :: "nat \<Rightarrow> comp \<Rightarrow> nat \<times> comp" where
  "add_part parts s = (parts + 1, if parts > 0 then instr OP_ADD [] s else s)"

text \<open>The pieces of an interpolated string; the number of them.\<close>

function interpolate :: "nat \<Rightarrow> string \<Rightarrow> comp \<Rightarrow> (nat \<times> comp) option" where
  "interpolate parts t s =
     do { (parts, s) \<leftarrow> (if literal_span t = [] then Some (parts, s)
            else do { (i, s) \<leftarrow> pool_escaped_string (literal_span t) s; Some (add_part parts (instr OP_PUSH [i] s)) });
          case drop (length (literal_span t)) t of
            [] \<Rightarrow> Some (parts, s)
          | _ # r \<Rightarrow>
              (let name = takeWhile (\<lambda>c. c \<noteq> CHR ''}'') r; rest = drop (length name + 1) r in
               if length name = length r then Some (parts, error_at (''Unclosed '' @ quoted ''{'' @ '' in string'') s)
               else if name = [] then interpolate parts rest (error_at (''Empty '' @ quoted ''{}'' @ '' in string'') s)
               else do { (v, h) \<leftarrow> aer_make_string (pheap s) name;
                         (i, s) \<leftarrow> add_pool v (set_pheap h s);
                         let (parts, s) = add_part parts (instr OP_TO_STR [] (emit_load i s)) in
                         interpolate parts rest s }) }"
  by pat_completeness auto
termination
proof -
  have "length (drop k r) < length t" if "drop n t = c # r" for n k t and c :: char and r
  proof -
    have "length (drop n t) = Suc (length r)" using that by simp
    then show ?thesis by simp
  qed
  then show ?thesis by (relation "measure (\<lambda>(_, t, _). length t)") auto
qed

declare interpolate.simps [simp del]

end
