(* ===== verification/Parser.thy ===== *)
theory Parser
  imports Emit
begin

text \<open>
  The recursive-descent half of the compiler (\<^verbatim>\<open>source/compiler/parser.c\<close>): expressions and
  statements, straight to byte code.

  The mutually recursive C functions are definitions over a parameter \<open>k\<close>, the recursive call:
  \<open>k (Binary p)\<close> is \<^verbatim>\<open>parse_binary(c, p)\<close>, and the loops that call back into the grammar are
  entries of their own. \<open>Parse\<close> at the end ties the knot with fuel. The result of a call is the
  number the C function returns, \<open>0\<close> for \<^verbatim>\<open>void\<close>.
\<close>

section \<open>Recursive calls\<close>

datatype grammar =
  Binary nat
| BinaryOps nat
| Unary
| Primary
| Commas nat \<comment> \<open>expressions up to the last comma; how many, those before included\<close>
| Entries nat \<comment> \<open>of a dict\<close>
| Postfix \<comment> \<open>indexing, calls and fields after a value; 1 after an error\<close>
| Steps "nat option" \<comment> \<open>of an assignment target; the pending field, or index\<close>
| Statement
| Block
| Top bool \<comment> \<open>statements of a file; whether one failed\<close>
| Load string string \<comment> \<open>the module to bind, and its path; whether there is one\<close>

type_synonym rec = "grammar \<Rightarrow> comp \<Rightarrow> (nat \<times> comp) option"

definition call :: "rec \<Rightarrow> grammar \<Rightarrow> comp \<Rightarrow> comp option" where
  "call k g s = map_option snd (k g s)"

definition finish :: "comp \<Rightarrow> (nat \<times> comp) option" where
  "finish s = Some (0, s)"

definition fails :: "string \<Rightarrow> comp \<Rightarrow> (nat \<times> comp) option" where
  "fails msg s = Some (0, error_at msg s)"

definition at_module_name :: "comp \<Rightarrow> bool option" where
  "at_module_name s =
     (if tok s \<noteq> TOKEN_IDENTIFIER then Some False
      else map_option (chunk_is_imported (pchunk s)) (str_of (pheap s) (tok_value s)))"

definition no_calls_msg :: string where
  "no_calls_msg = ''Function calls are not allowed inside a pipe's arguments''"

text \<open>The dash of the messages, in UTF-8.\<close>

definition em_dash :: string where
  "em_dash = [CHR 0xE2, CHR 0x80, CHR 0x94]"

definition module_value_msg :: string where
  "module_value_msg = ''A module can't be used as a value on its own '' @ em_dash @ '' call a function on it, e.g. '' @
     quoted ''module.function(...)''"

section \<open>Argument lists and calls\<close>

definition parse_arg_list :: "rec \<Rightarrow> comp \<Rightarrow> (nat \<times> comp) option" where
  "parse_arg_list k s =
     do { (n, s) \<leftarrow> (if equal TOKEN_CLOSE_PARENTHESE s then Some (0, s) else k (Commas 0) s);
          s \<leftarrow> require TOKEN_CLOSE_PARENTHESE (''expected '' @ quoted '')'' @ '' after arguments'') s;
          Some (n, s) }"

definition parse_call_args :: "rec \<Rightarrow> nat \<Rightarrow> comp \<Rightarrow> comp option" where
  "parse_call_args k name s =
     do { (n, s) \<leftarrow> parse_arg_list k s;
          Some (if pipe_forbid_calls s then error_at no_calls_msg s
                else let s = cached_instr OP_CALL [name, n] s in s\<lparr>last_bare_call_end := Some (code_len s)\<rparr>) }"

definition parse_module_call :: "rec \<Rightarrow> comp \<Rightarrow> comp option" where
  "parse_module_call k s =
     do { (md, s) \<leftarrow> add_token s;
          s \<leftarrow> lex s;
          (dot, s) \<leftarrow> consume TOKEN_DOT s;
          if \<not> dot then Some (error_at module_value_msg s)
          else if \<not> equal TOKEN_IDENTIFIER s then Some (error_at (''Expected a function name after '' @ quoted ''.'') s)
          else do { (fn, s) \<leftarrow> add_token s;
                    s \<leftarrow> lex s;
                    s \<leftarrow> require TOKEN_OPEN_PARENTHESE (''expected '' @ quoted ''('' @ '' after module function name'') s;
                    (n, s) \<leftarrow> parse_arg_list k s;
                    Some (if pipe_forbid_calls s then error_at no_calls_msg s
                          else instr OP_CALL_MODULE [md, fn, n] s) } }"

text \<open>Arguments of a pipe target: no call is allowed in them.\<close>

definition parse_pipe_args :: "rec \<Rightarrow> comp \<Rightarrow> (nat \<times> comp) option" where
  "parse_pipe_args k s =
     do { (n, s') \<leftarrow> parse_arg_list k (s\<lparr>pipe_forbid_calls := True\<rparr>);
          Some (n, s'\<lparr>pipe_forbid_calls := pipe_forbid_calls s\<rparr>) }"

definition parse_pipe :: "rec \<Rightarrow> comp \<Rightarrow> (bool \<times> comp) option" where
  "parse_pipe k s =
     (if \<not> equal TOKEN_IDENTIFIER s then Some (False, error_at (''Expected a function name after '' @ quoted ''|>'') s)
      else do {
        md \<leftarrow> at_module_name s;
        (name, s) \<leftarrow> add_token s;
        s \<leftarrow> lex s;
        if md then do {
          (dot, s) \<leftarrow> consume TOKEN_DOT s;
          if \<not> dot then Some (False, error_at module_value_msg s)
          else if \<not> equal TOKEN_IDENTIFIER s then Some (False, error_at (''Expected a function name after '' @ quoted ''.'') s)
          else do { (fn, s) \<leftarrow> add_token s;
                    s \<leftarrow> lex s;
                    s \<leftarrow> require TOKEN_OPEN_PARENTHESE (''expected '' @ quoted ''('' @ '' after module function name'') s;
                    (n, s) \<leftarrow> parse_pipe_args k s;
                    Some (if pipe_forbid_calls s then (False, error_at no_calls_msg s)
                          else (True, instr OP_CALL_MODULE [name, fn, n + 1] s)) } }
        else do { s \<leftarrow> require TOKEN_OPEN_PARENTHESE (''expected '' @ quoted ''('' @ '' after piped function name'') s;
                  (n, s) \<leftarrow> parse_pipe_args k s;
                  Some (if pipe_forbid_calls s then (False, error_at no_calls_msg s)
                        else (True, cached_instr OP_CALL [name, n + 1] s)) } })"

section \<open>Operators\<close>

text \<open>Both tables, by token.\<close>

definition binary_ops :: "(token_type \<times> nat \<times> opcode) list" where
  "binary_ops =
     [(TOKEN_OR, 1, OP_OR), (TOKEN_PIPE, 1, OP_PIPE), (TOKEN_AND, 2, OP_AND),
      (TOKEN_BITWISE_OR, 3, OP_BITWISE_OR), (TOKEN_BITWISE_XOR, 4, OP_BITWISE_XOR), (TOKEN_BITWISE_AND, 5, OP_BITWISE_AND),
      (TOKEN_EQUAL, 6, OP_EQ), (TOKEN_NOT_EQUAL, 6, OP_NEQ),
      (TOKEN_LESS, 7, OP_LT), (TOKEN_GREATER, 7, OP_GT), (TOKEN_LESS_EQUAL, 7, OP_LTE), (TOKEN_GREATER_EQUAL, 7, OP_GTE),
      (TOKEN_IN, 7, OP_IN), (TOKEN_LEFT_SHIFT, 8, OP_LSHIFT), (TOKEN_RIGHT_SHIFT, 8, OP_RSHIFT),
      (TOKEN_ADD, 9, OP_ADD), (TOKEN_SUBTRACT, 9, OP_SUB), (TOKEN_MULTIPLY, 10, OP_MUL), (TOKEN_DIVIDE, 10, OP_DIV),
      (TOKEN_MODULO, 10, OP_MOD), (TOKEN_FLOOR_DIVIDE, 10, OP_FLOOR_DIV), (TOKEN_AS, 11, OP_CAST)]"

text \<open>
  \<open>&&\<close> and \<open>||\<close>: the value \<open>b\<close> decides; the jump is taken on it, the constant of the other outcome
  is pushed before the one of this.
\<close>

definition short_circuit :: "rec \<Rightarrow> opcode \<Rightarrow> bool \<Rightarrow> nat \<Rightarrow> comp \<Rightarrow> comp option" where
  "short_circuit k jump b prec s =
     do { let (lhs, s) = jump_instr jump s;
          s \<leftarrow> call k (Binary prec) s;
          let (rhs, s) = jump_instr jump s;
          s \<leftarrow> push_const (VBool (\<not> b)) s;
          let (fin, s) = jump_instr OP_JUMP s;
          s \<leftarrow> push_const (VBool b) (patch_here lhs (patch_here rhs s));
          Some (patch_here fin s) }"

definition parse_cast :: "comp \<Rightarrow> (bool \<times> comp) option" where
  "parse_cast s =
     (if \<not> equal TOKEN_IDENTIFIER s then Some (False, error_at (''Expected a type name after '' @ quoted ''as'') s)
      else do { (ti, s) \<leftarrow> add_token s;
                ty \<leftarrow> str_of (pheap s) (tok_value s);
                s \<leftarrow> lex s;
                Some (True, if ty = ''string'' then instr OP_TO_STR [] s
                            else if ty = ''integer'' then instr OP_CAST [0] s
                            else if ty = ''float'' then instr OP_CAST [1] s
                            else if ty = ''boolean'' then instr OP_CAST [2] s
                            else instr OP_CHECK_SHAPE [ti] s) })"

text \<open>One operator and its right side, then the next; an error leaves the loop.\<close>

definition parse_binary_ops :: "rec \<Rightarrow> nat \<Rightarrow> comp \<Rightarrow> (nat \<times> comp) option" where
  "parse_binary_ops k min_prec s =
     (case map_of binary_ops (tok s) of
        None \<Rightarrow> finish s
      | Some (prec, op) \<Rightarrow>
          if prec \<le> min_prec then finish s
          else do {
            s \<leftarrow> lex s;
            (go, s) \<leftarrow> (if op = OP_AND then map_option (Pair True) (short_circuit k OP_JUMP_IF_FALSE False prec s)
                        else if op = OP_OR then map_option (Pair True) (short_circuit k OP_JUMP_IF_TRUE True prec s)
                        else if op = OP_PIPE then parse_pipe k s
                        else if op = OP_CAST then parse_cast s
                        else map_option (\<lambda>s. (True, instr op [] s)) (call k (Binary prec) s));
            if go then k (BinaryOps min_prec) s else finish s })"

definition parse_binary :: "rec \<Rightarrow> nat \<Rightarrow> comp \<Rightarrow> (nat \<times> comp) option" where
  "parse_binary k min_prec s = do { s \<leftarrow> call k Unary s; k (BinaryOps min_prec) s }"

text \<open>A prefix operator's token and opcode.\<close>

definition unary_op :: "token_type \<Rightarrow> opcode option" where
  "unary_op t =
     (if t = TOKEN_NOT then Some OP_NOT else if t = TOKEN_BITWISE_NOT then Some OP_BITWISE_NOT
      else if t = TOKEN_SUBTRACT then Some OP_NEGATE else None)"

definition parse_unary_inner :: "rec \<Rightarrow> comp \<Rightarrow> comp option" where
  "parse_unary_inner k s =
     (case unary_op (tok s) of
        Some op \<Rightarrow> do { s \<leftarrow> lex s; s \<leftarrow> call k Unary s; Some (instr op [] s) }
      | None \<Rightarrow> call k Primary s)"

text \<open>\<^verbatim>\<open>parse_unary\<close> and \<^verbatim>\<open>parse_primary\<close>: the inner function one level deeper.\<close>

definition deeper :: "(comp \<Rightarrow> comp option) \<Rightarrow> comp \<Rightarrow> (nat \<times> comp) option" where
  "deeper f s =
     (let (ok, s) = expr_depth_enter s
      in if ok then do { s \<leftarrow> f s; finish (expr_depth_leave s) } else finish s)"

definition parse_unary :: "rec \<Rightarrow> comp \<Rightarrow> (nat \<times> comp) option" where
  "parse_unary k = deeper (parse_unary_inner k)"

text \<open>A list of expressions with commas between them.\<close>

definition parse_commas :: "rec \<Rightarrow> nat \<Rightarrow> comp \<Rightarrow> (nat \<times> comp) option" where
  "parse_commas k n s =
     do { s \<leftarrow> call k (Binary 0) s;
          (more, s) \<leftarrow> consume TOKEN_COMMA s;
          if more then k (Commas (n + 1)) s else Some (n + 1, s) }"

definition parse_entries :: "rec \<Rightarrow> nat \<Rightarrow> comp \<Rightarrow> (nat \<times> comp) option" where
  "parse_entries k n s =
     do { s \<leftarrow> call k (Binary 0) s;
          s \<leftarrow> require TOKEN_COLON (''expected '' @ quoted '':'' @ '' between key and value'') s;
          s \<leftarrow> call k (Binary 0) s;
          (more, s) \<leftarrow> consume TOKEN_COMMA s;
          if more then k (Entries (n + 1)) s else Some (n + 1, s) }"

section \<open>Indexing and postfix chains\<close>

definition parse_index_or_slice :: "rec \<Rightarrow> comp \<Rightarrow> comp option" where
  "parse_index_or_slice k s =
     do { let has_start = (\<not> equal TOKEN_COLON s);
          s \<leftarrow> (if has_start then call k (Binary 0) s else Some s);
          (colon, s) \<leftarrow> consume TOKEN_COLON s;
          if \<not> colon
          then do { s \<leftarrow> require TOKEN_CLOSE_BRACKET (''expected '' @ quoted '']'' @ '' after index'') s;
                    Some (instr OP_INDEX_GET [] s) }
          else do { s \<leftarrow> (if has_start then Some s else push_const VNull s);
                    s \<leftarrow> (if equal TOKEN_CLOSE_BRACKET s then push_const VNull s else call k (Binary 0) s);
                    s \<leftarrow> require TOKEN_CLOSE_BRACKET (''expected '' @ quoted '']'' @ '' after slice'') s;
                    Some (instr OP_SLICE_GET [] s) } }"

definition no_field_msg :: string where
  "no_field_msg = ''Expected field name after '' @ quoted ''.''"

definition parse_postfix :: "rec \<Rightarrow> comp \<Rightarrow> (nat \<times> comp) option" where
  "parse_postfix k s =
     (if equal TOKEN_OPEN_BRACKET s
      then do { s \<leftarrow> lex s; s \<leftarrow> parse_index_or_slice k s; k Postfix s }
      else if equal TOKEN_OPEN_PARENTHESE s
      then do { s \<leftarrow> lex s;
                (n, s) \<leftarrow> parse_arg_list k s;
                if pipe_forbid_calls s then Some (1, error_at no_calls_msg s)
                else k Postfix (instr OP_CALL_VALUE [n] s) }
      else if equal TOKEN_DOT s
      then do { s \<leftarrow> lex s;
                if \<not> equal TOKEN_IDENTIFIER s then Some (1, error_at no_field_msg s)
                else do { (f, s) \<leftarrow> add_token s; s \<leftarrow> lex s; k Postfix (instr OP_FIELD_GET [f] s) } }
      else finish s)"

section \<open>Values\<close>

text \<open>A name followed by a bracket, whose code is fused when both parts are simple.\<close>

definition parse_name_index :: "rec \<Rightarrow> nat \<Rightarrow> comp \<Rightarrow> comp option" where
  "parse_name_index k name s =
     do { let arr_start = code_len s;
          let s = emit_load name s;
          let idx_start = code_len s;
          s \<leftarrow> parse_index_or_slice k s;
          Some (if last (code (pchunk s)) \<noteq> word_of_op OP_INDEX_GET then s
                else case fused_index (classify_operand arr_start idx_start s)
                            (classify_operand idx_start (code_len s - 1) s) of
                       None \<Rightarrow> s
                     | Some (op, args) \<Rightarrow> instr op args (truncate_code arr_start s)) }"

definition parse_string :: "string \<Rightarrow> comp \<Rightarrow> comp option" where
  "parse_string t s =
     (if literal_span t = t
      then do { (i, s) \<leftarrow> pool_escaped_string t s; lex (instr OP_PUSH [i] s) }
      else do { (parts, s) \<leftarrow> interpolate 0 t s;
                s \<leftarrow> (if parts = 0
                      then do { (v, h) \<leftarrow> aer_make_string (pheap s) []; push_const v (set_pheap h s) }
                      else Some s);
                lex s })"

definition parse_name :: "rec \<Rightarrow> comp \<Rightarrow> comp option" where
  "parse_name k s =
     do { (name, s) \<leftarrow> add_token s;
          s \<leftarrow> lex s;
          (paren, s) \<leftarrow> consume TOKEN_OPEN_PARENTHESE s;
          s \<leftarrow> (if paren then parse_call_args k name s
                else do { (br, s) \<leftarrow> consume TOKEN_OPEN_BRACKET s;
                          if br then parse_name_index k name s else Some (emit_load name s) });
          call k Postfix s }"

text \<open>The value of a number, boolean or null token, in a cell of its own when it is a big integer.\<close>

definition token_literal :: "comp \<Rightarrow> (val \<times> comp) option option" where
  "token_literal s =
     (case tok s of
        TOKEN_INTEGER \<Rightarrow> Some (do { i \<leftarrow> aer_as_int_v (pheap s) (tok_value s);
                                    (v, h) \<leftarrow> aer_int (pheap s) i; Some (v, set_pheap h s) })
      | TOKEN_REAL \<Rightarrow> Some (Some (tok_value s, s))
      | TOKEN_TRUE \<Rightarrow> Some (Some (tok_value s, s))
      | TOKEN_FALSE \<Rightarrow> Some (Some (tok_value s, s))
      | TOKEN_NULL \<Rightarrow> Some (Some (VNull, s))
      | _ \<Rightarrow> None)"

section \<open>Inline conditionals\<close>

definition parse_if_expr :: "rec \<Rightarrow> comp \<Rightarrow> comp option" where
  "parse_if_expr k s =
     do { s \<leftarrow> call k (Binary 0) s;
          s \<leftarrow> require TOKEN_COLON (''expected '' @ quoted '':'' @ '' after if condition'') s;
          let (jif, s) = jump_instr OP_JUMP_IF_FALSE s;
          s \<leftarrow> call k (Binary 0) s;
          let (jmp, s) = jump_instr OP_JUMP s;
          (els, s) \<leftarrow> consume TOKEN_ELSE (patch_here jif s);
          s \<leftarrow> (if els
                then do { s \<leftarrow> require TOKEN_COLON (''expected '' @ quoted '':'' @ '' after else'') s;
                          call k (Binary 0) s }
                else push_const VNull s);
          Some (patch_here jmp s) }"

section \<open>Functions\<close>

text \<open>
  A literal, possibly a negated number, as the default of a field or parameter; nothing when the
  token is none.
\<close>

definition parse_literal_default :: "comp \<Rightarrow> (val option \<times> comp) option" where
  "parse_literal_default s =
     do { (negative, s) \<leftarrow> consume TOKEN_SUBTRACT s;
          case tok s of
            TOKEN_INTEGER \<Rightarrow>
              do { i \<leftarrow> aer_as_int_v (pheap s) (tok_value s);
                   (v, h) \<leftarrow> aer_int (pheap s) (if negative then - i else i);
                   s \<leftarrow> lex (set_pheap h s); Some (Some v, s) }
          | TOKEN_REAL \<Rightarrow>
              do { v \<leftarrow> (case tok_value s of VReal d \<Rightarrow> Some (VReal (if negative then f_neg d else d)) | _ \<Rightarrow> None);
                   s \<leftarrow> lex s; Some (Some v, s) }
          | t \<Rightarrow>
              if negative then Some (None, s)
              else if t = TOKEN_TRUE \<or> t = TOKEN_FALSE
              then do { s' \<leftarrow> lex s; Some (Some (tok_value s), s') }
              else if t = TOKEN_NULL then do { s \<leftarrow> lex s; Some (Some VNull, s) }
              else if t = TOKEN_STRING
              then do { x \<leftarrow> str_of (pheap s) (tok_value s);
                        (v, h) \<leftarrow> aer_make_string (pheap s) x;
                        s \<leftarrow> lex (set_pheap h s); Some (Some v, s) }
              else Some (None, s) }"

record function_sig =
  func_start :: nat
  sig_arity :: nat
  sig_min_arity :: nat
  default_pool_idx :: "nat list" \<comment> \<open>of the parameters from \<open>sig_min_arity\<close> on\<close>
  sig_has_receiver :: bool
  sig_receiver_type :: nat

definition sig_zero :: function_sig where
  "sig_zero = \<lparr>func_start = 0, sig_arity = 0, sig_min_arity = 0, default_pool_idx = [],
     sig_has_receiver = False, sig_receiver_type = 0\<rparr>"

text \<open>One parameter: its name, the type of a receiver, its default. Nothing after an error.\<close>

definition parse_receiver :: "nat \<Rightarrow> nat option \<Rightarrow> comp \<Rightarrow> (nat option option \<times> comp) option" where
  "parse_receiver i recv s =
     do { (as, s) \<leftarrow> consume TOKEN_AS s;
          if \<not> as then Some (Some recv, s)
          else if i \<noteq> 0
          then Some (None, error_at (''A struct-type parameter ('' @ quoted ''as Type'' @ '') is only allowed on the first parameter'') s)
          else if \<not> equal TOKEN_IDENTIFIER s
          then Some (None, error_at (''Expected a struct type name after '' @ quoted ''as'') s)
          else do { (t, s) \<leftarrow> add_token s; s \<leftarrow> lex s; Some (Some (Some t), s) } }"

definition parse_default :: "nat list \<Rightarrow> comp \<Rightarrow> (nat list option \<times> comp) option" where
  "parse_default dflts s =
     do { (eq, s) \<leftarrow> consume TOKEN_ASSIGN s;
          if eq
          then do { (v, s) \<leftarrow> parse_literal_default s;
                    case v of
                      None \<Rightarrow> Some (None, error_at ''Parameter defaults must be a literal value'' s)
                    | Some v \<Rightarrow> do { (i, s) \<leftarrow> add_pool v s; Some (Some (dflts @ [i]), s) } }
          else if dflts \<noteq> []
          then Some (None, error_at ''A parameter without a default cannot follow one that has a default'' s)
          else Some (Some dflts, s) }"

partial_function (option) parse_params ::
  "nat list \<Rightarrow> nat list \<Rightarrow> nat option \<Rightarrow> comp \<Rightarrow> ((nat list \<times> nat list \<times> nat option) option \<times> comp) option" where
  "parse_params ps dflts recv s =
     (if \<not> equal TOKEN_IDENTIFIER s then Some (None, error_at ''Expected parameter name'' s)
      else if length ps \<ge> MAX_PARAMS then Some (None, error_at ''Too many parameters'' s)
      else do {
        (p, s) \<leftarrow> add_token s;
        s \<leftarrow> lex s;
        (r, s) \<leftarrow> parse_receiver (length ps) recv s;
        case r of
          None \<Rightarrow> Some (None, s)
        | Some recv \<Rightarrow> do {
            (d, s) \<leftarrow> parse_default dflts s;
            case d of
              None \<Rightarrow> Some (None, s)
            | Some dflts \<Rightarrow> do {
                (more, s) \<leftarrow> consume TOKEN_COMMA s;
                if more then parse_params (ps @ [p]) dflts recv s
                else Some (Some (ps @ [p], dflts, recv), s) } } })"

section \<open>Blocks\<close>

text \<open>What \<^verbatim>\<open>if\<close>, \<^verbatim>\<open>for\<close> and functions have as their body.\<close>

definition parse_compound :: "rec \<Rightarrow> comp \<Rightarrow> comp option" where
  "parse_compound k s =
     do { s \<leftarrow> require TOKEN_NEW_LINE ''expected newline before indented block'' s;
          s \<leftarrow> require TOKEN_INDENT ''expected indented block'' s;
          s \<leftarrow> call k Block s;
          (_, s) \<leftarrow> consume TOKEN_DEDENT s;
          Some (s\<lparr>recovered_at_boundary := True\<rparr>) }"

text \<open>A block in a scope of its own.\<close>

definition parse_scoped :: "rec \<Rightarrow> comp \<Rightarrow> comp option" where
  "parse_scoped k s =
     do { s \<leftarrow> parse_compound k (instr OP_PUSH_SCOPE [] (s\<lparr>compile_scope_depth := compile_scope_depth s + 1\<rparr>));
          let s = instr OP_POP_SCOPE [] s;
          Some (s\<lparr>compile_scope_depth := compile_scope_depth s - 1\<rparr>) }"

text \<open>
  The body with its parameters: the enclosing function's loops and parameters are put aside. The
  arguments are popped last first, so the last parameter has slot 0.
\<close>

definition parse_body :: "rec \<Rightarrow> nat list \<Rightarrow> comp \<Rightarrow> comp option" where
  "parse_body k ps s0 =
     do { let s = (if function_depth s0 = 0 then s0\<lparr>outer_locals := []\<rparr> else s0);
          let s = s\<lparr>loop_floor := length (loop_stack s), function_depth := function_depth s + 1,
                    current_params := [], compile_scope_depth := compile_scope_depth s + 1\<rparr>;
          s \<leftarrow> parse_compound k (fold emit_define_param (rev ps) (instr OP_PUSH_SCOPE [] s));
          s \<leftarrow> push_const VNull (s\<lparr>compile_scope_depth := compile_scope_depth s - 1\<rparr>);
          let s = instr OP_RETURN [] s;
          Some (s\<lparr>current_params := current_params s0, function_depth := function_depth s - 1,
                  loop_stack := take (length (loop_stack s0)) (loop_stack s), loop_floor := loop_floor s0\<rparr>) }"

definition parse_function_body :: "rec \<Rightarrow> comp \<Rightarrow> (function_sig \<times> comp) option" where
  "parse_function_body k s =
     do { s \<leftarrow> require TOKEN_OPEN_PARENTHESE (''expected '' @ quoted ''('' @ '' after function name'') s;
          (r, s) \<leftarrow> (if equal TOKEN_CLOSE_PARENTHESE s then Some (Some ([], [], None), s) else parse_params [] [] None s);
          case r of
            None \<Rightarrow> Some (sig_zero, s)
          | Some (ps, dflts, recv) \<Rightarrow> do {
              s \<leftarrow> require TOKEN_CLOSE_PARENTHESE (''expected '' @ quoted '')'' @ '' after parameters'') s;
              s \<leftarrow> require TOKEN_COLON (''expected '' @ quoted '':'' @ '' after function signature'') s;
              let (p, s) = jump_instr OP_JUMP s;
              let start = code_len s;
              s \<leftarrow> parse_body k ps s;
              Some (\<lparr>func_start = start, sig_arity = length ps, sig_min_arity = length ps - length dflts,
                      default_pool_idx = dflts, sig_has_receiver = (recv \<noteq> None),
                      sig_receiver_type = (case recv of Some t \<Rightarrow> t | None \<Rightarrow> 0)\<rparr>, patch_here p s) } }"

definition emit_plain_function_value :: "function_sig \<Rightarrow> comp \<Rightarrow> comp option" where
  "emit_plain_function_value sig s =
     do { ds \<leftarrow> those (map (\<lambda>i. if i < length (cpool (pchunk s)) then Some (cpool (pchunk s) ! i) else None)
                       (default_pool_idx sig));
          (c, h) \<leftarrow> new_function (pheap s)
            \<lparr>defaults = (if ds = [] then None else Some ds), upvalues = None, code_offset = func_start sig,
             arity = sig_arity sig, min_arity = sig_min_arity sig, receiver_type = sig_receiver_type sig,
             upvalue_count = 0, has_receiver = sig_has_receiver sig\<rparr>;
          push_const (VFunction c) (set_pheap h s) }"

definition parse_function :: "rec \<Rightarrow> comp \<Rightarrow> (nat \<times> comp) option" where
  "parse_function k s0 =
     (let nested = function_depth s0 > 0;
          s = (if nested
               then error_at (''Nested named function definitions are not supported '' @ em_dash @ '' define an anonymous function instead (f = function(...): ...), or define this at the top level.'') s0
               else s0)
      in if \<not> equal TOKEN_IDENTIFIER s then fails ''Expected function name'' s
         else do {
           (name, s) \<leftarrow> add_token s;
           s \<leftarrow> lex s;
           (sig, s') \<leftarrow> parse_function_body k (s\<lparr>capturing := False\<rparr>);
           let s' = s'\<lparr>capturing := capturing s, capture := capture s\<rparr>;
           if nested then finish (s'\<lparr>parse_had_error := True\<rparr>)
           else do { s \<leftarrow> emit_plain_function_value sig s'; finish (cached_instr OP_STORE [name] s) } })"

definition parse_function_expr :: "rec \<Rightarrow> comp \<Rightarrow> comp option" where
  "parse_function_expr k s =
     (let supported = (function_depth s = 1)
      in do {
        (sig, s') \<leftarrow> parse_function_body k
           (s\<lparr>capturing := supported,
              capture := (if supported then \<lparr>local_names = [], captured_names = []\<rparr> else capture s)\<rparr>);
        let names = captured_names (capture s');
        s' \<leftarrow> (if supported \<and> names \<noteq> []
               then Some (instr OP_MAKE_CLOSURE
                       ([func_start sig, sig_arity sig, sig_min_arity sig, if sig_has_receiver sig then 1 else 0,
                         sig_receiver_type sig, length names] @ default_pool_idx sig)
                       (fold (\<lambda>n. instr OP_CAPTURE [n]) names s'))
               else emit_plain_function_value sig s');
        Some (s'\<lparr>capturing := capturing s, capture := capture s\<rparr>) })"

section \<open>Primary expressions\<close>

definition parse_primary_inner :: "rec \<Rightarrow> comp \<Rightarrow> comp option" where
  "parse_primary_inner k s =
     (if equal TOKEN_OPEN_PARENTHESE s
      then do { s \<leftarrow> lex s; s \<leftarrow> call k (Binary 0) s;
                require TOKEN_CLOSE_PARENTHESE (''expected '' @ quoted '')'' @ '' after expression'') s }
      else if equal TOKEN_IF s then do { s \<leftarrow> lex s; parse_if_expr k s }
      else if equal TOKEN_FUNCTION s then do { s \<leftarrow> lex s; parse_function_expr k s }
      else if equal TOKEN_OPEN_BRACKET s
      then do { s \<leftarrow> lex s;
                (n, s) \<leftarrow> (if equal TOKEN_CLOSE_BRACKET s then Some (0, s) else k (Commas 0) s);
                s \<leftarrow> require TOKEN_CLOSE_BRACKET (''expected '' @ quoted '']'' @ '' after array elements'') s;
                Some (instr OP_ARRAY_NEW [n] s) }
      else if equal TOKEN_OPEN_BRACE s
      then do { s \<leftarrow> lex s;
                (n, s) \<leftarrow> (if equal TOKEN_CLOSE_BRACE s then Some (0, s) else k (Entries 0) s);
                s \<leftarrow> require TOKEN_CLOSE_BRACE (''expected '' @ quoted ''}'' @ '' after dict entries'') s;
                Some (instr OP_DICT_NEW [n] s) }
      else case token_literal s of
        Some r \<Rightarrow> do { (v, s) \<leftarrow> r; s \<leftarrow> push_const v s; lex s }
      | None \<Rightarrow>
          if equal TOKEN_STRING s then do { t \<leftarrow> str_of (pheap s) (tok_value s); parse_string t s }
          else if equal TOKEN_IDENTIFIER s
          then do { md \<leftarrow> at_module_name s; if md then parse_module_call k s else parse_name k s }
          else if tok s \<in> {TOKEN_BREAK, TOKEN_CONTINUE, TOKEN_RETURN, TOKEN_DEFER}
          then Some (error_at (quoted ''break'' @ '', '' @ quoted ''continue'' @ '', '' @ quoted ''return'' @ '', and '' @
                 quoted ''defer'' @ '' are statements and cannot be used as expressions'') s)
          else Some (error_at ''Expected a value'' s))"

definition parse_primary :: "rec \<Rightarrow> comp \<Rightarrow> (nat \<times> comp) option" where
  "parse_primary k = deeper (parse_primary_inner k)"

section \<open>Assignments\<close>

text \<open>An expression statement's value is dropped, or printed by the prompt.\<close>

definition emit_discard :: "comp \<Rightarrow> comp" where
  "emit_discard s = instr (if mode_shell s then OP_PRINT_REPL else OP_POP) [] s"

definition emit_get :: "nat option \<Rightarrow> comp \<Rightarrow> comp" where
  "emit_get pending s =
     (case pending of Some f \<Rightarrow> instr OP_FIELD_GET [f] s | None \<Rightarrow> instr OP_INDEX_GET [] s)"

definition emit_set :: "nat option \<Rightarrow> comp \<Rightarrow> comp" where
  "emit_set pending s =
     (case pending of Some f \<Rightarrow> instr OP_FIELD_SET [f] s | None \<Rightarrow> instr OP_INDEX_SET [] s)"

text \<open>The next step of a target: what is pending after it, nothing after an error.\<close>

definition target_step :: "rec \<Rightarrow> comp \<Rightarrow> (nat option option \<times> comp) option" where
  "target_step k s =
     do { (br, s) \<leftarrow> consume TOKEN_OPEN_BRACKET s;
          if br then do { s \<leftarrow> call k (Binary 0) s;
                          s \<leftarrow> require TOKEN_CLOSE_BRACKET (''expected '' @ quoted '']'' @ '' after index'') s;
                          Some (Some None, s) }
          else do { (_, s) \<leftarrow> consume TOKEN_DOT s;
                    if \<not> equal TOKEN_IDENTIFIER s then Some (None, error_at no_field_msg s)
                    else do { (f, s) \<leftarrow> add_token s; s \<leftarrow> lex s; Some (Some (Some f), s) } } }"

definition compound_target_msg :: string where
  "compound_target_msg =
     ''Compound assignment to an indexed or field value is not supported; use '' @ quoted ''a.x = a.x + 1''"

text \<open>
  After a step: another one, the assignment, or an expression statement that begins with the value
  retrieved.
\<close>

definition parse_steps :: "rec \<Rightarrow> nat option \<Rightarrow> comp \<Rightarrow> (nat \<times> comp) option" where
  "parse_steps k pending s =
     (if equal TOKEN_OPEN_BRACKET s \<or> equal TOKEN_DOT s
      then do { (p, s) \<leftarrow> target_step k (emit_get pending s);
                case p of None \<Rightarrow> finish s | Some p \<Rightarrow> k (Steps p) s }
      else if equal TOKEN_ASSIGN s
      then do { s \<leftarrow> lex s; s \<leftarrow> call k (Binary 0) s; finish (emit_set pending s) }
      else if \<not> equal TOKEN_OPEN_PARENTHESE s \<and> \<not> equal TOKEN_PIPE s then fails compound_target_msg s
      else do { (err, s) \<leftarrow> k Postfix (emit_get pending s);
                if err \<noteq> 0 then finish s
                else do { s \<leftarrow> call k (BinaryOps 0) s; finish (emit_discard s) } })"

text \<open>The targets of a destructuring after the first; nothing after an error.\<close>

partial_function (option) destruct_names :: "nat list \<Rightarrow> comp \<Rightarrow> (nat list option \<times> comp) option" where
  "destruct_names ns s =
     (if \<not> equal TOKEN_IDENTIFIER s then Some (None, error_at ''Expected identifier in destructuring'' s)
      else if length ns \<ge> MAX_DESTRUCT then Some (None, error_at ''Too many destructuring targets'' s)
      else do { (n, s) \<leftarrow> add_token s;
                s \<leftarrow> lex s;
                (more, s) \<leftarrow> consume TOKEN_COMMA s;
                if more then destruct_names (ns @ [n]) s else Some (Some (ns @ [n]), s) })"

definition parse_destructuring :: "rec \<Rightarrow> nat \<Rightarrow> comp \<Rightarrow> (nat \<times> comp) option" where
  "parse_destructuring k name s =
     do { (ns, s) \<leftarrow> destruct_names [name] s;
          case ns of
            None \<Rightarrow> finish s
          | Some ns \<Rightarrow> do {
              s \<leftarrow> require TOKEN_ASSIGN (''expected '' @ quoted ''='' @ '' after destructuring targets'') s;
              (rhs, s) \<leftarrow> k (Commas 0) s;
              let s = (if rhs > 1 then instr OP_ARRAY_NEW [rhs] s else s);
              finish (instr OP_POP []
                (fold (\<lambda>(i, n) s. emit_store n (instr OP_UNPACK [i] s)) (enumerate 0 ns) s)) } }"

definition assign_ops :: "(token_type \<times> opcode) list" where
  "assign_ops =
     [(TOKEN_ADD_ASSIGN, OP_ADD), (TOKEN_SUBTRACT_ASSIGN, OP_SUB), (TOKEN_MULTIPLY_ASSIGN, OP_MUL),
      (TOKEN_DIVIDE_ASSIGN, OP_DIV), (TOKEN_MODULO_ASSIGN, OP_MOD), (TOKEN_LEFT_SHIFT_ASSIGN, OP_LSHIFT),
      (TOKEN_RIGHT_SHIFT_ASSIGN, OP_RSHIFT), (TOKEN_AND_ASSIGN, OP_BITWISE_AND), (TOKEN_OR_ASSIGN, OP_BITWISE_OR),
      (TOKEN_XOR_ASSIGN, OP_BITWISE_XOR), (TOKEN_FLOOR_DIVIDE_ASSIGN, OP_FLOOR_DIV)]"

definition parse_compound_assign :: "rec \<Rightarrow> nat \<Rightarrow> opcode \<Rightarrow> comp \<Rightarrow> (nat \<times> comp) option" where
  "parse_compound_assign k name op s =
     do { let lhs_start = code_len s;
          let s = emit_load name s;
          let rhs_start = code_len s;
          s \<leftarrow> call k (Binary 0) s;
          case fused_compound (classify_operand lhs_start rhs_start s) (classify_operand rhs_start (code_len s) s) op of
            Some (op, args) \<Rightarrow> finish (instr op args (truncate_code lhs_start s))
          | None \<Rightarrow> finish (emit_store name (instr op [] s)) }"

definition parse_assignment :: "rec \<Rightarrow> comp \<Rightarrow> (nat \<times> comp) option" where
  "parse_assignment k s =
     do { (name, s) \<leftarrow> add_token s;
          s \<leftarrow> lex s;
          if equal TOKEN_OPEN_PARENTHESE s
          then do { s \<leftarrow> lex s; s \<leftarrow> parse_call_args k name s; finish (emit_discard s) }
          else if equal TOKEN_OPEN_BRACKET s \<or> equal TOKEN_DOT s
          then do { (p, s) \<leftarrow> target_step k (emit_load name s);
                    case p of None \<Rightarrow> finish s | Some p \<Rightarrow> k (Steps p) s }
          else if equal TOKEN_COMMA s then do { s \<leftarrow> lex s; parse_destructuring k name s }
          else if equal TOKEN_ASSIGN s
          then do { s \<leftarrow> lex s; s \<leftarrow> call k (Binary 0) s; finish (emit_store name s) }
          else case map_of assign_ops (tok s) of
            Some op \<Rightarrow> do { s \<leftarrow> lex s; parse_compound_assign k name op s }
          | None \<Rightarrow>
              if equal TOKEN_PIPE s
              then do { s \<leftarrow> call k (BinaryOps 0) (emit_load name s); finish (emit_discard s) }
              else fails ''Expected assignment operator after identifier'' s }"

section \<open>Conditionals and loops\<close>

definition parse_if :: "rec \<Rightarrow> comp \<Rightarrow> (nat \<times> comp) option" where
  "parse_if k s =
     do { s \<leftarrow> call k (Binary 0) s;
          s \<leftarrow> require TOKEN_COLON (''expected '' @ quoted '':'' @ '' after if condition'') s;
          let (jif, s) = jump_instr OP_JUMP_IF_FALSE s;
          s \<leftarrow> parse_scoped k s;
          (els, s) \<leftarrow> consume TOKEN_ELSE s;
          if \<not> els then finish (patch_here jif s)
          else do { s \<leftarrow> require TOKEN_COLON (''expected '' @ quoted '':'' @ '' after else'') (s\<lparr>recovered_at_boundary := False\<rparr>);
                    let (jmp, s) = jump_instr OP_JUMP s;
                    s \<leftarrow> parse_scoped k (patch_here jif s);
                    finish (patch_here jmp s) } }"

definition leave_loop_stack :: "comp \<Rightarrow> comp" where
  "leave_loop_stack s = s\<lparr>loop_stack := butlast (loop_stack s)\<rparr>"

text \<open>An update of the \<open>i\<close>th context.\<close>

definition with_context :: "nat \<Rightarrow> (loop_context \<Rightarrow> loop_context) \<Rightarrow> comp \<Rightarrow> comp" where
  "with_context i f s = s\<lparr>loop_stack := (loop_stack s)[i := f (loop_stack s ! i)]\<rparr>"

definition finish_loop :: "nat \<Rightarrow> nat \<Rightarrow> nat \<Rightarrow> comp \<Rightarrow> comp" where
  "finish_loop i loop_top patch_exit s =
     (let s = patch_here patch_exit (instr OP_JUMP [loop_top] s)
      in leave_loop_stack (fold patch_here (lc_patches (loop_stack s ! i)) s))"

text \<open>A loop over a collection or range, from its first expression on.\<close>

definition parse_for_in :: "rec \<Rightarrow> nat \<Rightarrow> nat \<Rightarrow> nat option \<Rightarrow> comp \<Rightarrow> (nat \<times> comp) option" where
  "parse_for_in k i name1 name2 s =
     do { s \<leftarrow> call k (Binary 0) s;
          (range, s) \<leftarrow> consume TOKEN_DOT_DOT s;
          if range \<and> name2 \<noteq> None
          then finish (leave_loop_stack (error_at ''Range does not support two loop variables'' s))
          else do {
            s \<leftarrow> (if range
                  then do { s \<leftarrow> call k (Binary 0) s;
                            (by, s) \<leftarrow> consume TOKEN_DOT_DOT s;
                            if by then call k (Binary 0) s else push_const (VInt 1) s }
                  else push_const (VInt 0) s);
            s \<leftarrow> require TOKEN_COLON (''expected '' @ quoted '':'' @ '' after for clause'') s;
            if parse_had_error s then finish (leave_loop_stack s)
            else do {
              let start = code_len s;
              let s = with_context i (\<lambda>c. c\<lparr>lc_iter_slots := (if range then 3 else 2), lc_top := start\<rparr>) s;
              let (patch, s) = jump_instr (if range then OP_ITER_RANGE
                                           else if name2 \<noteq> None then OP_ITER_NEXT_PAIR else OP_ITER_NEXT) s;
              s \<leftarrow> parse_scoped k (emit_define name1 (case name2 of Some n \<Rightarrow> emit_define n s | None \<Rightarrow> s));
              finish (finish_loop i start patch s) } } }"

text \<open>A \<^verbatim>\<open>while\<close> loop, from after its condition on.\<close>

definition parse_while_body :: "rec \<Rightarrow> nat \<Rightarrow> nat \<Rightarrow> comp \<Rightarrow> (nat \<times> comp) option" where
  "parse_while_body k i start s =
     do { s \<leftarrow> require TOKEN_COLON (''expected '' @ quoted '':'' @ '' after while condition'') s;
          if parse_had_error s then finish (leave_loop_stack s)
          else do { let (jif, s) = jump_instr OP_JUMP_IF_FALSE s;
                    s \<leftarrow> parse_compound k s;
                    finish (finish_loop i start jif s) } }"

definition parse_for :: "rec \<Rightarrow> comp \<Rightarrow> (nat \<times> comp) option" where
  "parse_for k s =
     (let i = length (loop_stack s) in
      if i \<ge> LOOP_MAX then fails ''Too many nested loops'' s
      else let s = s\<lparr>loop_stack := loop_stack s @ [\<lparr>lc_top = 0, lc_patches = [], lc_scope_depth = compile_scope_depth s, lc_iter_slots = 0\<rparr>]\<rparr> in
      if equal TOKEN_IN s
      then finish (leave_loop_stack (error_at (''Expected loop variable name before '' @ quoted ''in'' @ ''; use '' @
             quoted ''for x in collection:'') s))
      else if equal TOKEN_IDENTIFIER s
      then do {
        (name1, s) \<leftarrow> add_token s;
        s \<leftarrow> lex s;
        (pair, s) \<leftarrow> consume TOKEN_COMMA s;
        if pair \<and> \<not> equal TOKEN_IDENTIFIER s
        then finish (leave_loop_stack (error_at (''Expected identifier after '' @ quoted '','') s))
        else do {
          (name2, s) \<leftarrow> (if pair then do { (n, s) \<leftarrow> add_token s; s \<leftarrow> lex s; Some (Some n, s) } else Some (None, s));
          (iter, s) \<leftarrow> consume TOKEN_IN s;
          if iter then parse_for_in k i name1 name2 s
          else do { let start = code_len s;
                    let s = with_context i (\<lambda>c. c\<lparr>lc_top := start\<rparr>) s;
                    (err, s) \<leftarrow> k Postfix (emit_load name1 s);
                    if err \<noteq> 0 then finish s
                    else do { s \<leftarrow> call k (BinaryOps 0) s; parse_while_body k i start s } } } }
      else do { let start = code_len s;
                s \<leftarrow> call k (Binary 0) (with_context i (\<lambda>c. c\<lparr>lc_top := start\<rparr>) s);
                parse_while_body k i start s })"

text \<open>Leaving the scopes opened since the loop began.\<close>

definition pop_loop_scopes :: "loop_context \<Rightarrow> comp \<Rightarrow> comp" where
  "pop_loop_scopes ctx s = (instr OP_POP_SCOPE [] ^^ (compile_scope_depth s - lc_scope_depth ctx)) s"

definition parse_break :: "comp \<Rightarrow> (nat \<times> comp) option" where
  "parse_break s =
     (if length (loop_stack s) = loop_floor s then fails (quoted ''break'' @ '' outside loop'') s
      else let i = length (loop_stack s) - 1; ctx = loop_stack s ! i;
               s = (instr OP_POP [] ^^ lc_iter_slots ctx) (pop_loop_scopes ctx s)
           in if length (lc_patches ctx) \<ge> BREAK_MAX
              then fails ''Too many breaks in one loop'' (set_chunk (chunk_emit (word_of_op OP_JUMP) (pchunk s)) s)
              else let (p, s) = jump_instr OP_JUMP s
                   in finish (with_context i (\<lambda>c. c\<lparr>lc_patches := lc_patches c @ [p]\<rparr>) s))"

definition parse_continue :: "comp \<Rightarrow> (nat \<times> comp) option" where
  "parse_continue s =
     (if length (loop_stack s) = loop_floor s then fails (quoted ''continue'' @ '' outside loop'') s
      else let ctx = loop_stack s ! (length (loop_stack s) - 1)
           in finish (instr OP_JUMP [lc_top ctx] (pop_loop_scopes ctx s)))"

section \<open>Structs\<close>

text \<open>The fields with their defaults; nothing after an error.\<close>

partial_function (option) struct_fields ::
  "nat list \<Rightarrow> val list \<Rightarrow> comp \<Rightarrow> ((nat list \<times> val list) option \<times> comp) option" where
  "struct_fields ns vs s =
     (if equal TOKEN_END_OF_FILE s \<or> equal TOKEN_DEDENT s then Some (Some (ns, vs), s)
      else do {
        (nl, s) \<leftarrow> consume TOKEN_NEW_LINE s;
        if nl then struct_fields ns vs s
        else if \<not> equal TOKEN_IDENTIFIER s then Some (None, error_at ''Expected field name'' s)
        else if length ns \<ge> MAX_STRUCT_FIELDS then Some (None, error_at ''Too many struct fields'' s)
        else do {
          (n, s) \<leftarrow> add_token s;
          s \<leftarrow> lex s;
          (eq, s) \<leftarrow> consume TOKEN_ASSIGN s;
          (d, s) \<leftarrow> (if eq then parse_literal_default s else Some (Some VNull, s));
          case d of
            None \<Rightarrow> Some (None, error_at ''Struct field defaults must be a literal value'' s)
          | Some v \<Rightarrow> do {
              s \<leftarrow> (if \<not> equal TOKEN_DEDENT s \<and> \<not> equal TOKEN_END_OF_FILE s
                    then require TOKEN_NEW_LINE ''expected newline after struct field'' s else Some s);
              struct_fields (ns @ [n]) (vs @ [v]) s } } })"

definition emit_field :: "nat \<times> val \<Rightarrow> comp \<Rightarrow> comp option" where
  "emit_field f s =
     do { let s = set_chunk (chunk_emit (int (fst f)) (pchunk s)) s;
          (i, s) \<leftarrow> add_pool (snd f) s;
          Some (set_chunk (chunk_emit (int i) (pchunk s)) s) }"

definition parse_struct :: "comp \<Rightarrow> (nat \<times> comp) option" where
  "parse_struct s =
     (if \<not> equal TOKEN_IDENTIFIER s then fails ''Expected struct name'' s
      else do {
        (name, s) \<leftarrow> add_token s;
        s \<leftarrow> lex s;
        s \<leftarrow> require TOKEN_COLON (''expected '' @ quoted '':'' @ '' after struct name'') s;
        s \<leftarrow> require TOKEN_NEW_LINE ''expected newline before indented struct body'' s;
        s \<leftarrow> require TOKEN_INDENT ''expected indented struct body'' s;
        (r, s) \<leftarrow> struct_fields [] [] s;
        case r of
          None \<Rightarrow> finish s
        | Some (ns, vs) \<Rightarrow> do {
            (_, s) \<leftarrow> consume TOKEN_DEDENT s;
            if ns = [] then fails ''Struct must have at least one field'' s
            else do { s \<leftarrow> foldM emit_field (zip ns vs) (instr OP_DEFINE_STRUCT [name, length ns] s); finish s } } })"

section \<open>Imports, deferred calls, return\<close>

text \<open>The path of dotted names, and the last of them; nothing after an error.\<close>

partial_function (option) import_path :: "string \<Rightarrow> comp \<Rightarrow> ((string \<times> string) option \<times> comp) option" where
  "import_path path s =
     do { seg \<leftarrow> str_of (pheap s) (tok_value s);
          let path = (if path = [] then [] else path @ ''/'');
          if length path + length seg \<ge> 256 then Some (None, error_at ''Import path too long'' s)
          else do {
            s \<leftarrow> lex s;
            (dot, s) \<leftarrow> consume TOKEN_DOT s;
            if \<not> dot then Some (Some (path @ seg, seg), s)
            else if \<not> equal TOKEN_IDENTIFIER s
            then Some (None, error_at (''Expected a module name segment after '' @ quoted ''.'') s)
            else import_path (path @ seg) s } }"

definition parse_import :: "rec \<Rightarrow> comp \<Rightarrow> (nat \<times> comp) option" where
  "parse_import k s =
     (if compile_scope_depth s \<noteq> 0
      then fails (quoted ''import'' @ '' is only allowed at the top level of a file, not inside a function, loop, or if block'') s
      else if \<not> equal TOKEN_IDENTIFIER s then fails (''Expected a module name after '' @ quoted ''import'') s
      else do {
        (r, s) \<leftarrow> import_path [] s;
        case r of
          None \<Rightarrow> finish s
        | Some (path, name) \<Rightarrow> do {
            (ok, s) \<leftarrow> k (Load name path) s;
            finish (set_chunk (snd (chunk_add_import (\<lambda>_. ok = 1) name (pchunk s))) s) } })"

definition parse_defer :: "rec \<Rightarrow> comp \<Rightarrow> (nat \<times> comp) option" where
  "parse_defer k s =
     (if function_depth s = 0 then fails (quoted ''defer'' @ '' outside function'') s
      else if \<not> equal TOKEN_IDENTIFIER s then fails (''Expected a function name after '' @ quoted ''defer'') s
      else do {
        (name, s) \<leftarrow> add_token s;
        s \<leftarrow> lex s;
        s \<leftarrow> require TOKEN_OPEN_PARENTHESE (''expected '' @ quoted ''('' @ '' after deferred function name'') s;
        (n, s) \<leftarrow> parse_arg_list k s;
        if n > MAX_DEFER_ARGS
        then fails (''Too many arguments to a deferred call (max '' @ show_nat MAX_DEFER_ARGS @ '')'') s
        else finish (instr OP_DEFER_PUSH [name, n] s) })"

text \<open>The last bare call becomes a tail call when nothing was emitted after it.\<close>

definition mark_tail_call :: "comp \<Rightarrow> comp" where
  "mark_tail_call s =
     (if last_bare_call_end s = Some (code_len s)
      then set_chunk ((pchunk s)\<lparr>code := (code (pchunk s))[code_len s - 4 := word_of_op OP_TAIL_CALL]\<rparr>) s
      else s)"

definition parse_return :: "rec \<Rightarrow> comp \<Rightarrow> (nat \<times> comp) option" where
  "parse_return k s =
     (if function_depth s = 0 then fails (quoted ''return'' @ '' outside function'') s
      else do {
        s \<leftarrow> (if tok s \<in> {TOKEN_NEW_LINE, TOKEN_END_OF_FILE, TOKEN_DEDENT} then push_const VNull s
              else do { (n, s) \<leftarrow> k (Commas 0) s;
                        Some (if n > 1 then instr OP_ARRAY_NEW [n] s else mark_tail_call s) });
        finish (instr OP_RETURN [] s) })"

section \<open>Statements\<close>

definition parse_statement :: "rec \<Rightarrow> comp \<Rightarrow> (nat \<times> comp) option" where
  "parse_statement k s =
     (case tok s of
        TOKEN_IF \<Rightarrow> do { s \<leftarrow> lex s; parse_if k s }
      | TOKEN_FOR \<Rightarrow> do { s \<leftarrow> lex s; parse_for k s }
      | TOKEN_STRUCT \<Rightarrow> do { s \<leftarrow> lex s; parse_struct s }
      | TOKEN_FUNCTION \<Rightarrow> do { s \<leftarrow> lex s; parse_function k s }
      | TOKEN_RETURN \<Rightarrow> do { s \<leftarrow> lex s; parse_return k s }
      | TOKEN_BREAK \<Rightarrow> do { s \<leftarrow> lex s; parse_break s }
      | TOKEN_CONTINUE \<Rightarrow> do { s \<leftarrow> lex s; parse_continue s }
      | TOKEN_DEFER \<Rightarrow> do { s \<leftarrow> lex s; parse_defer k s }
      | TOKEN_IMPORT \<Rightarrow> do { s \<leftarrow> lex s; parse_import k s }
      | TOKEN_IDENTIFIER \<Rightarrow>
          do { md \<leftarrow> at_module_name s;
               if md then do { s \<leftarrow> parse_module_call k s; finish (emit_discard s) } else parse_assignment k s }
      | TOKEN_IN \<Rightarrow> fails (quoted ''in'' @ '' cannot start a statement; use it inside an expression, e.g. '' @
                 quoted ''if x in collection:'' @ '' or '' @ quoted ''for x in collection:'') s
      | _ \<Rightarrow> fails ''Expected a statement'' s)"

section \<open>Error recovery\<close>

partial_function (option) skip_until :: "token_type list \<Rightarrow> comp \<Rightarrow> comp option" where
  "skip_until stops s = (if tok s \<in> set stops then Some s else do { s \<leftarrow> lex s; skip_until stops s })"

text \<open>The loop over an orphaned block; the nesting depth before the current token.\<close>

partial_function (option) skip_block :: "nat \<Rightarrow> comp \<Rightarrow> comp option" where
  "skip_block depth s =
     (let depth = (if equal TOKEN_INDENT s then depth + 1 else if equal TOKEN_DEDENT s then depth - 1 else depth)
      in do { s \<leftarrow> lex s;
              if depth > 0 \<and> \<not> equal TOKEN_END_OF_FILE s then skip_block depth s else Some s })"

definition skip_orphaned_block :: "comp \<Rightarrow> comp option" where
  "skip_orphaned_block s =
     (if \<not> equal TOKEN_NEW_LINE s then Some s
      else do { s \<leftarrow> lex s; if equal TOKEN_INDENT s then skip_block 0 s else Some s })"

text \<open>
  A statement of a block or file whose code is taken back when it failed; the tokens up to one of
  \<open>stops\<close> are skipped then.
\<close>

definition guarded_statement :: "rec \<Rightarrow> token_type list \<Rightarrow> comp \<Rightarrow> comp option" where
  "guarded_statement k stops s =
     (let saved = code_len s; saved_marks = length (line_marks (pchunk s));
          s = set_chunk (chunk_mark_line saved (current_source_line s) (pchunk s))
                (s\<lparr>parse_had_error := False, recovered_at_boundary := False\<rparr>)
      in do { s \<leftarrow> call k Statement s;
              if \<not> parse_had_error s then Some s
              else do {
                let s = truncate_code saved s;
                let s = set_chunk ((pchunk s)\<lparr>line_marks := take saved_marks (line_marks (pchunk s))\<rparr>) s;
                if recovered_at_boundary s then Some s
                else do { s \<leftarrow> skip_until stops s; skip_orphaned_block s } } })"

text \<open>The loop of \<^verbatim>\<open>parse_compound\<close>.\<close>

definition parse_block :: "rec \<Rightarrow> comp \<Rightarrow> (nat \<times> comp) option" where
  "parse_block k s =
     (if tok s \<in> {TOKEN_END_OF_FILE, TOKEN_ELSE, TOKEN_DEDENT} then finish s
      else if equal TOKEN_NEW_LINE s then do { s \<leftarrow> lex s; k Block s }
      else do { s \<leftarrow> guarded_statement k [TOKEN_END_OF_FILE, TOKEN_ELSE, TOKEN_DEDENT, TOKEN_NEW_LINE] s; k Block s })"

text \<open>The loop of \<^verbatim>\<open>parse\<close>.\<close>

definition parse_top :: "rec \<Rightarrow> bool \<Rightarrow> comp \<Rightarrow> (nat \<times> comp) option" where
  "parse_top k any_error s =
     (if equal TOKEN_END_OF_FILE s
      then finish (if any_error then s\<lparr>parse_had_error := True\<rparr> else s)
      else if equal TOKEN_NEW_LINE s \<or> equal TOKEN_DEDENT s then do { s \<leftarrow> lex s; k (Top any_error) s }
      else do { s \<leftarrow> guarded_statement k [TOKEN_END_OF_FILE, TOKEN_NEW_LINE, TOKEN_DEDENT] s;
                k (Top (any_error \<or> parse_had_error s)) s })"

section \<open>The parser\<close>

type_synonym loader = "string \<Rightarrow> string \<Rightarrow> comp \<Rightarrow> (nat \<times> comp) option"

fun grammar_step :: "loader \<Rightarrow> rec \<Rightarrow> rec" where
  "grammar_step ld k (Binary p) s = parse_binary k p s"
| "grammar_step ld k (BinaryOps p) s = parse_binary_ops k p s"
| "grammar_step ld k Unary s = parse_unary k s"
| "grammar_step ld k Primary s = parse_primary k s"
| "grammar_step ld k (Commas n) s = parse_commas k n s"
| "grammar_step ld k (Entries n) s = parse_entries k n s"
| "grammar_step ld k Postfix s = parse_postfix k s"
| "grammar_step ld k (Steps p) s = parse_steps k p s"
| "grammar_step ld k Statement s = parse_statement k s"
| "grammar_step ld k Block s = parse_block k s"
| "grammar_step ld k (Top e) s = parse_top k e s"
| "grammar_step ld k (Load name path) s = ld name path s"

text \<open>\<open>None\<close> when the fuel runs out.\<close>

primrec grammar_run :: "loader \<Rightarrow> nat \<Rightarrow> rec" where
  "grammar_run ld 0 g s = None"
| "grammar_run ld (Suc n) g s = grammar_step ld (grammar_run ld n) g s"

definition parse :: "loader \<Rightarrow> nat \<Rightarrow> comp \<Rightarrow> comp option" where
  "parse ld n s = call (grammar_run ld n) (Top False) s"

end
