(* ===== verification/Compile.thy ===== *)
theory Compile
  imports Parser Run
begin

text \<open>
  The compiler and the interpreter together: loading a file module (\<^verbatim>\<open>aer_module_load\<close> of
  \<^verbatim>\<open>source/core/aer_module.c\<close>) reads, compiles and runs a file while the importing file is being
  compiled; \<^verbatim>\<open>run\<close> and \<^verbatim>\<open>run_file\<close> of \<^verbatim>\<open>source/main.c\<close> do that for the main program.

  The tables of the parser are the same static variables for every file: only the lexer, the
  current token, the chunk and the VM are exchanged around a nested load.
\<close>

section \<open>Files\<close>

text \<open>The file system and the search path of the environment.\<close>

record files =
  contents :: "string \<Rightarrow> string option"
  aer_path :: "string option"

definition file_exists :: "files \<Rightarrow> string \<Rightarrow> bool" where
  "file_exists fs path \<longleftrightarrow> contents fs path \<noteq> None"

section \<open>Fuel\<close>

text \<open>
  What every token takes something from: the characters left, the start of a line, the pending
  dedents, the open levels, and the end of the file itself.
\<close>

definition lex_measure :: "'a lex_state_scheme \<Rightarrow> nat" where
  "lex_measure s =
     3 * length (buffer s) + (if at_line_start (lexer s) then 1 else 0) + nat (pending_dedents (lexer s)) +
     length (indent_stack (lexer s)) + (if tok s = TOKEN_END_OF_FILE then 0 else 1)"

definition parse_fuel :: "comp \<Rightarrow> nat" where
  "parse_fuel s = 5 * lex_measure s + 5"

section \<open>Loading a module\<close>

text \<open>A state of the compiler for a new chunk and VM.\<close>

definition fresh_unit :: "comp \<Rightarrow> comp" where
  "fresh_unit s = s\<lparr>pmach := (pmach s)\<lparr>chunk := chunk_init, vm := vm_init\<rparr>\<rparr>"

definition set_pmach :: "mach \<Rightarrow> comp \<Rightarrow> comp" where
  "set_pmach m s = s\<lparr>pmach := m\<rparr>"

text \<open>Reading and compiling the file at \<open>path\<close>; whether that worked.\<close>

definition compile_file :: "files \<Rightarrow> loader \<Rightarrow> string \<Rightarrow> comp \<Rightarrow> (bool \<times> comp) option" where
  "compile_file fs ld path s =
     (let s = read_file (contents fs) path s in
      if parse_had_error s then Some (False, s)
      else do { s \<leftarrow> lex s; s \<leftarrow> parse ld (parse_fuel s) s; Some (\<not> parse_had_error s, s) })"

text \<open>Running the compiled module, with the collector suppressed.\<close>

definition run_module :: "world \<Rightarrow> string \<Rightarrow> comp \<Rightarrow> (bool \<times> comp) option" where
  "run_module w name s =
     (let m = pmach s in
      do { (_, m) \<leftarrow> vm_run w (m\<lparr>runtime_had_error := False, heap := vm_gc_suppress (heap m)\<rparr>);
           let m = m\<lparr>heap := vm_gc_unsuppress (heap m)\<rparr>;
           let s = (set_pmach m s)\<lparr>parse_had_error := parse_had_error s \<or> runtime_had_error m\<rparr>;
           Some (if runtime_had_error m
                 then (False, error_at (''Error while loading module '' @ quoted name) s) else (True, s)) })"

definition load_file :: "world \<Rightarrow> files \<Rightarrow> loader \<Rightarrow> string \<Rightarrow> string \<Rightarrow> comp \<Rightarrow> (nat \<times> comp) option" where
  "load_file w fs ld name path s =
     do { (ok, t) \<leftarrow> compile_file fs ld path (fresh_unit s);
          let halt = code_len t;
          (ok, t) \<leftarrow> (if ok then run_module w name (instr OP_HALT [] t) else Some (False, instr OP_HALT [] t));
          let m = pmach t;
          let md = \<lparr>mod_name = name, mod_chunk = chunk m, mod_vm = vm m, halt_addr = halt\<rparr>;
          let m = m\<lparr>runtime_had_error := False, chunk := pchunk s, vm := vm (pmach s),
                    modules := (if ok then modules m @ [md] else modules m)\<rparr>;
          Some (if ok then 1 else 0,
                (set_pmach m t)\<lparr>lexer := lexer s, tok := tok s, tok_value := tok_value s\<rparr>) }"

text \<open>
  \<^verbatim>\<open>aer_module_load\<close>; \<open>loading\<close> is the stack of the files being loaded, \<open>ld\<close> the loader for the
  imports of this one.
\<close>

definition module_load ::
  "world \<Rightarrow> files \<Rightarrow> (string list \<Rightarrow> loader) \<Rightarrow> string list \<Rightarrow> loader" where
  "module_load w fs ld loading name path_name s =
     (if find_module (pmach s) name \<noteq> None then Some (1, s)
      else let path = resolve_path (file_exists fs) (aer_path fs) (f_name (lexer s)) path_name in
           if path \<in> set loading
           then Some (0, error_at (''Circular import: '' @ quoted path @ '' is already being loaded'') s)
           else load_file w fs (ld (loading @ [path])) name path s)"

text \<open>The condition of \<^verbatim>\<open>chunk_add_import\<close>: a native or host module, or one that loads.\<close>

definition import_with :: "world \<Rightarrow> loader \<Rightarrow> loader" where
  "import_with w ld name path_name s =
     (if aer_stdlib_is_native_module name \<or> aer_host_is_module w name then Some (1, s) else ld name path_name s)"

text \<open>The nesting of imports is bounded by \<open>d\<close>.\<close>

primrec aer_module_load :: "world \<Rightarrow> files \<Rightarrow> nat \<Rightarrow> string list \<Rightarrow> loader" where
  "aer_module_load w fs 0 loading = (\<lambda>name path s. None)"
| "aer_module_load w fs (Suc d) loading =
     module_load w fs (\<lambda>loading. import_with w (aer_module_load w fs d loading)) loading"

section \<open>The main program\<close>

text \<open>What is left of the previous input: its scopes, stack and calls.\<close>

definition reset_vm :: "mach \<Rightarrow> mach" where
  "reset_vm m =
     leave_scopes 1 (m\<lparr>vm := (vm m)\<lparr>ip := length (code (chunk m)), stack := [], call_stack := []\<rparr>\<rparr>)"

definition run_source :: "world \<Rightarrow> loader \<Rightarrow> comp \<Rightarrow> comp option" where
  "run_source w ld s =
     do { s \<leftarrow> lex (set_pmach (reset_vm (pmach s)) s);
          s \<leftarrow> parse ld (parse_fuel s) s;
          let m = pmach (instr OP_HALT [] s);
          (_, m) \<leftarrow> vm_run w (m\<lparr>runtime_had_error := False\<rparr>);
          Some ((set_pmach m s)\<lparr>parse_had_error := parse_had_error s \<or> runtime_had_error m\<rparr>) }"

text \<open>
  One program in a new process; the exit status. When the file cannot be opened there is no
  current file, and \<^verbatim>\<open>lex\<close> reads through a null pointer.
\<close>

definition run_file :: "world \<Rightarrow> files \<Rightarrow> nat \<Rightarrow> string \<Rightarrow> (bool \<times> comp) option" where
  "run_file w fs d path =
     (case contents fs path of
        None \<Rightarrow> None
      | Some text \<Rightarrow>
          do { s \<leftarrow> run_source w (import_with w (aer_module_load w fs d []))
                     (comp_init False (source_lexer path text) mach_init);
               Some (\<not> parse_had_error s \<and> \<not> runtime_had_error (pmach s) \<and> assert_failures (pmach s) = 0, s) })"

definition run_line :: "world \<Rightarrow> files \<Rightarrow> nat \<Rightarrow> string \<Rightarrow> comp \<Rightarrow> comp option" where
  "run_line w fs d line s = run_source w (import_with w (aer_module_load w fs d [])) (shell line s)"

end
