(* ===== verification/LexLaws.thy ===== *)
theory LexLaws
  imports Compile HeapLaws Numerals
begin

text \<open>
  The lexer on every input: it always returns, touches only the token, the cursor with the
  indentation state, the error flags and the heap, which it extends, and every token but the end
  of the file takes something from the measure of theory \<open>Compile\<close>. Repeated calls therefore
  reach the end of the file.
\<close>

section \<open>Lengths of literals\<close>

lemma digit_val_small: "c_isdigit c \<Longrightarrow> digit_val c < 10"
  by (rule digit_val_digit)

lemma peek_Nil [simp]: "peek i [] = NUL"
  by (simp add: peek_def)

lemma peek_0_Cons [simp]: "peek 0 (c # r) = c"
  by (simp add: peek_def)

lemma peek_Suc [simp]: "peek (Suc i) (c # r) = peek i r"
  by (simp add: peek_def)

lemma not_NUL: "\<not> c_isdigit NUL" "\<not> name_start NUL" "\<not> name_char NUL" "\<not> c_isxdigit NUL"
  by (simp_all add: c_isdigit_def name_start_def name_char_def c_isalpha_def c_isupper_def c_islower_def
      NUL_def char_code_def c_isxdigit_def digit_val_def)

lemma peek_ne: "peek 0 b \<noteq> NUL \<Longrightarrow> \<exists>c r. b = c # r \<and> c = peek 0 b"
  by (cases b) auto

lemma c_str_Cons [simp]: "c_str (c # r) = (if c = CHR 0x00 then [] else c # c_str r)"
  by (simp add: c_str_def)

lemma sign_of_digit: "c_isdigit c \<Longrightarrow> sign_of (c # r) = (False, 0)"
  using c_isdigit_chars [of c] by (auto simp: sign_of_def)

lemma strtoll_pos:
  assumes "c_isdigit (peek 0 b)" "base = 10 \<or> base = 16"
  shows "0 < snd (strtoll base b)"
proof -
  obtain c r where b: "b = c # r" "c_isdigit c" using assms(1) not_NUL(1) peek_ne [of b] by metis
  have "c \<noteq> CHR 0x00" using b(2) not_NUL(1) by (auto simp: NUL_def)
  moreover have "digit_val c < base" using digit_val_small [OF b(2)] assms(2) by auto
  ultimately show ?thesis
    using b sign_of_digit [OF b(2)] by (auto simp: strtoll_def digits_def Let_def split: prod.split)
qed

lemma is_word_digit: "c_isdigit c \<Longrightarrow> w \<noteq> [] \<Longrightarrow> \<not> c_isdigit (hd w) \<Longrightarrow> \<not> is_word w (c # r)"
  by (cases w) (auto simp: is_word_def c_tolower_def c_isupper_def c_isdigit_def)

lemma significand_pos:
  assumes "digits base s \<noteq> []"
  obtains m f n where "significand base s = Some (m, f, n)" "0 < n"
proof -
  have "\<exists>m f k. significand base s = Some (m, f, length (digits base s) + k)"
    using assms unfolding significand_def Let_def by (simp add: add.assoc)
  then show thesis using that assms by (metis add_gr_0 length_greater_0_conv)
qed

lemma strtod_pos:
  assumes "c_isdigit (peek 0 b)"
  shows "0 < snd (strtod b)"
proof -
  obtain c r where b: "b = c # r" "c_isdigit c" using assms(1) not_NUL(1) peek_ne [of b] by metis
  have c: "c \<noteq> CHR 0x00" using b(2) not_NUL(1) by (auto simp: NUL_def)
  then obtain r' where r': "c_str b = c # r'" using b(1) by simp
  have w: "\<not> is_word ''infinity'' (c_str b)" "\<not> is_word ''inf'' (c_str b)" "\<not> is_word ''nan'' (c_str b)"
    unfolding r' by (rule is_word_digit [OF b(2)]; simp add: c_isdigit_def char_code_def)+
  have s: "sign_of (c_str b) = (False, 0)" unfolding r' by (rule sign_of_digit [OF b(2)])
  have "digits 10 (c_str b) \<noteq> []" unfolding r' using digit_val_small [OF b(2)] by (simp add: digits_def)
  then obtain m f n where g: "significand 10 (c_str b) = Some (m, f, n)" "0 < n" by (rule significand_pos)
  let ?h = "if hex_prefix (c_str b) then significand 16 (drop 2 (c_str b)) else None"
  show ?thesis
  proof (cases ?h)
    case None
    have "strtod b = (let (e, x) = exponent (CHR ''e'') (drop n (c_str b)) in (round_scaled False m 10 (e - int f), 0 + n + x))"
      by (simp only: strtod_def Let_def s prod.case drop_0 w if_False None option.case g(1))
    then show ?thesis using g(2) by (simp split: prod.split)
  next
    case (Some q)
    obtain m f n where q: "q = (m, f, n)" by (cases q)
    have "strtod b = (let (e, x) = exponent (CHR ''p'') (drop (2 + n) (c_str b)) in (round_scaled False m 2 (e - 4 * int f), 0 + 2 + n + x))"
      by (simp only: strtod_def Let_def s prod.case drop_0 w if_False Some q option.case)
    then show ?thesis by (simp split: prod.split)
  qed
qed

section \<open>Frames\<close>

named_theorems lex_sel \<open>the fields of a state after a small step\<close>

lemma error_at_sel [simp, lex_sel]:
  "lexer (error_at msg s) = lexer s" "tok (error_at msg s) = tok s" "tok_value (error_at msg s) = tok_value s"
  "heap (pmach (error_at msg s)) = heap (pmach s)" "chunk (pmach (error_at msg s)) = chunk (pmach s)"
  "vm (pmach (error_at msg s)) = vm (pmach s)" "modules (pmach (error_at msg s)) = modules (pmach s)"
  "lex_state.more (error_at msg s) = lex_state.more s" "parse_had_error (error_at msg s)"
  by (simp_all add: error_at_def)

lemma set_buffer_sel [simp, lex_sel]:
  "lexer (set_buffer b s) = (lexer s)\<lparr>f_buffer := b\<rparr>" "tok (set_buffer b s) = tok s" "tok_value (set_buffer b s) = tok_value s"
  "pmach (set_buffer b s) = pmach s" "lex_state.more (set_buffer b s) = lex_state.more s"
  "parse_had_error (set_buffer b s) = parse_had_error s"
  by (simp_all add: set_buffer_def)

lemma set_lexer_sel [simp, lex_sel]:
  "lexer (set_lexer f s) = f (lexer s)" "tok (set_lexer f s) = tok s" "tok_value (set_lexer f s) = tok_value s"
  "pmach (set_lexer f s) = pmach s" "lex_state.more (set_lexer f s) = lex_state.more s"
  "parse_had_error (set_lexer f s) = parse_had_error s"
  by (simp_all add: set_lexer_def)

lemma emit_sel [simp, lex_sel]:
  "lexer (emit t n s) = (lexer s)\<lparr>f_buffer := drop n (buffer s)\<rparr>" "tok (emit t n s) = t" "tok_value (emit t n s) = tok_value s"
  "pmach (emit t n s) = pmach s" "lex_state.more (emit t n s) = lex_state.more s"
  "parse_had_error (emit t n s) = parse_had_error s"
  by (simp_all add: emit_def)

lemma set_value_sel [simp, lex_sel]:
  "lexer (set_value v h s) = lexer s" "tok (set_value v h s) = tok s" "tok_value (set_value v h s) = v"
  "pmach (set_value v h s) = (pmach s)\<lparr>heap := h\<rparr>" "lex_state.more (set_value v h s) = lex_state.more s"
  "parse_had_error (set_value v h s) = parse_had_error s"
  by (simp_all add: set_value_def)

lemma check_end_sel [simp, lex_sel]:
  "lexer (check_end msg c s) = lexer s" "tok (check_end msg c s) = tok s" "tok_value (check_end msg c s) = tok_value s"
  "heap (pmach (check_end msg c s)) = heap (pmach s)" "chunk (pmach (check_end msg c s)) = chunk (pmach s)"
  "vm (pmach (check_end msg c s)) = vm (pmach s)" "modules (pmach (check_end msg c s)) = modules (pmach s)"
  "lex_state.more (check_end msg c s) = lex_state.more s" "parse_had_error s \<Longrightarrow> parse_had_error (check_end msg c s)"
  by (simp_all add: check_end_def)

text \<open>A value whose object is in use and has been written.\<close>

definition val_full :: "heap \<Rightarrow> val \<Rightarrow> bool" where
  "val_full h v \<longleftrightarrow> (\<forall>ob. obj_of v = Some ob \<longrightarrow> obj_live h ob \<and> obj_content h ob \<noteq> None)"

lemma val_full_simps [simp]: "val_full h VNull" "val_full h (VBool b)" "val_full h (VInt i)" "val_full h (VReal d)"
  by (simp_all add: val_full_def)

lemma val_full_ok: "val_full h v \<Longrightarrow> val_ok h v"
  by (simp add: val_full_def val_ok_def)

lemma val_full_ext: "heap_ext h h' \<Longrightarrow> val_full h v \<Longrightarrow> val_full h' v"
  by (simp add: heap_ext_def val_full_def)

lemma val_full_reads:
  assumes "val_full h v"
  shows "vtype v = TYPE_STRING \<Longrightarrow> \<exists>x. str_of h v = Some x"
    "vtype v = TYPE_INTEGER \<Longrightarrow> \<exists>i. aer_as_int_v h v = Some i"
    "vtype v = TYPE_FUNCTION \<Longrightarrow> \<exists>f. fun_of h v = Some f"
    "vtype v = TYPE_REAL \<Longrightarrow> \<exists>d. v = VReal d" "vtype v = TYPE_BOOLEAN \<Longrightarrow> \<exists>b. v = VBool b"
  using assms by (cases v; auto simp: val_full_def heap_reads aer_as_int_v_def)+

lemma make_string_full:
  assumes "pools_inv h"
  obtains c h' where "aer_make_string h x = Some (VString c, h')" "heap_ext h h'" "val_full h' (VString c)"
proof -
  obtain c h' where "aer_make_string h x = Some (VString c, h')" "heap_ext h h'" "val_ok h' (VString c)" "str_of h' (VString c) = Some x"
    by (rule aer_make_string_ok [OF assms, of x]) (rule that)
  then show thesis by (intro that [of c h']) (auto simp: val_full_def heap_reads)
qed

lemma aer_int_full:
  assumes "pools_inv h"
  obtains v h' where "aer_int h n = Some (v, h')" "heap_ext h h'" "val_full h' v" "vtype v = TYPE_INTEGER"
proof -
  obtain v h' where v: "aer_int h n = Some (v, h')" "heap_ext h h'" "val_ok h' v" "vtype v = TYPE_INTEGER" "aer_as_int_v h' v = Some n"
    by (rule aer_int_ok [OF assms, of n]) (rule that)
  then have "val_full h' v" by (cases v) (auto simp: val_full_def aer_as_int_v_def)
  then show thesis using that v by blast
qed

text \<open>A token that carries a value has one of its type, in use.\<close>

definition tok_ok :: "'a lex_state_scheme \<Rightarrow> bool" where
  "tok_ok s \<longleftrightarrow> val_full (heap (pmach s)) (tok_value s) \<and>
     (tok s = TOKEN_IDENTIFIER \<or> tok s = TOKEN_STRING \<longrightarrow> vtype (tok_value s) = TYPE_STRING) \<and>
     (tok s = TOKEN_INTEGER \<longrightarrow> vtype (tok_value s) = TYPE_INTEGER) \<and>
     (tok s = TOKEN_REAL \<longrightarrow> vtype (tok_value s) = TYPE_REAL)"

text \<open>What no step of the lexer changes, but for the heap, which it extends.\<close>

definition lex_frame :: "'a lex_state_scheme \<Rightarrow> 'a lex_state_scheme \<Rightarrow> bool" where
  "lex_frame s s' \<longleftrightarrow> heap_ext (heap (pmach s)) (heap (pmach s')) \<and> lex_state.more s' = lex_state.more s \<and>
     (parse_had_error s \<longrightarrow> parse_had_error s') \<and> chunk (pmach s') = chunk (pmach s) \<and>
     vm (pmach s') = vm (pmach s) \<and> modules (pmach s') = modules (pmach s)"

lemma lex_frame_refl [simp]: "pools_inv (heap (pmach s)) \<Longrightarrow> lex_frame s s"
  by (simp add: lex_frame_def heap_ext_refl)

lemma lex_frame_trans: "lex_frame a b \<Longrightarrow> lex_frame b c \<Longrightarrow> lex_frame a c"
  by (auto simp: lex_frame_def intro: heap_ext_trans)

lemma tok_ok_kept:
  assumes "tok_ok s" "heap_ext (heap (pmach s)) (heap (pmach s'))" "tok_value s' = tok_value s"
    "tok s' = tok s \<or> tok s' \<notin> {TOKEN_IDENTIFIER, TOKEN_STRING, TOKEN_INTEGER, TOKEN_REAL}"
  shows "tok_ok s'"
  using assms by (auto simp: tok_ok_def val_full_ext)

text \<open>A token that consumes characters and leaves the rest of the lexer alone.\<close>

definition took :: "'a lex_state_scheme \<Rightarrow> 'a lex_state_scheme option \<Rightarrow> bool" where
  "took s r \<longleftrightarrow> (\<exists>s' b. r = Some s' \<and> lex_frame s s' \<and> tok_ok s' \<and> lexer s' = (lexer s)\<lparr>f_buffer := b\<rparr> \<and>
     length b < length (buffer s))"

lemma tookI:
  assumes "lex_frame s s'" "tok_ok s'" "lexer s' = (lexer s)\<lparr>f_buffer := drop n (buffer s)\<rparr>" "0 < n" "buffer s \<noteq> []"
  shows "took s (Some s')"
  using assms unfolding took_def by (cases "buffer s") (auto intro!: exI [of _ "drop n (buffer s)"])

section \<open>Single tokens\<close>

lemma emit_integer_took:
  assumes "pools_inv (heap (pmach s))" "0 < n" "buffer s \<noteq> []"
  shows "took s (emit_integer i n s)"
proof -
  obtain v h where "aer_int (heap (pmach s)) i = Some (v, h)" "heap_ext (heap (pmach s)) h" "val_full h v" "vtype v = TYPE_INTEGER"
    by (rule aer_int_full [OF assms(1), of i]) (rule that)
  then show ?thesis using assms
    by (auto simp: emit_integer_def lex_frame_def tok_ok_def intro!: tookI [where n = n])
qed

lemma string_token_took:
  assumes "pools_inv (heap (pmach s))" "0 < n" "buffer s \<noteq> []" "t = TOKEN_IDENTIFIER \<or> t = TOKEN_STRING"
  shows "took s (do { (v, h) \<leftarrow> aer_make_string (heap (pmach s)) x; Some (emit t n (set_value v h s)) })"
proof -
  obtain c h where "aer_make_string (heap (pmach s)) x = Some (VString c, h)" "heap_ext (heap (pmach s)) h" "val_full h (VString c)"
    by (rule make_string_full [OF assms(1), of x]) (rule that)
  then show ?thesis using assms
    by (auto simp: lex_frame_def tok_ok_def intro!: tookI [where n = n])
qed

lemma took_frame:
  assumes "took s r" "lex_frame a s" "lexer s = lexer a"
  shows "took a r"
  using assms unfolding took_def by (metis lex_frame_trans)

lemma error_at_frame [simp]: "pools_inv (heap (pmach s)) \<Longrightarrow> lex_frame s (error_at msg s)"
  by (simp add: lex_frame_def heap_ext_refl)

lemma check_end_frame [simp]: "pools_inv (heap (pmach s)) \<Longrightarrow> lex_frame s (check_end msg c s)"
  by (simp add: check_end_def)

lemma lex_int_took:
  assumes "pools_inv (heap (pmach s))" "c_isdigit (peek 0 (buffer s))" "base = 10 \<or> base = 16"
  shows "took s (lex_int base s)"
proof -
  obtain i n where n: "strtoll base (buffer s) = (i, n)" by (cases "strtoll base (buffer s)")
  have pos: "0 < n" using strtoll_pos [OF assms(2,3)] n by simp
  have ne: "buffer s \<noteq> []" using assms(2) not_NUL(1) by auto
  let ?e = "if strtoll_range base (buffer s) then error_at ''Integer literal overflow'' s else s"
  let ?s = "check_end ''Invalid character after integer literal'' (peek n (buffer s)) ?e"
  have f: "lex_frame s ?s" by (rule lex_frame_trans [of s ?e]) (simp_all add: assms(1))
  have "took ?s (emit_integer i n ?s)" using assms(1) pos ne by (intro emit_integer_took) simp_all
  then have "took s (emit_integer i n ?s)" using f by (rule took_frame) simp
  then show ?thesis by (simp only: lex_int_def Let_def n prod.case)
qed

lemma emit_took:
  assumes "pools_inv (heap (pmach s))" "tok_ok s" "0 < n" "buffer s \<noteq> []"
    "t \<notin> {TOKEN_IDENTIFIER, TOKEN_STRING, TOKEN_INTEGER, TOKEN_REAL}"
  shows "took s (Some (emit t n s))"
  using assms by (intro tookI [where n = n]) (auto simp: lex_frame_def heap_ext_refl intro: tok_ok_kept [OF assms(2)])

lemma lex_number_took:
  assumes h: "pools_inv (heap (pmach s))" and t: "tok_ok s" and d: "c_isdigit (peek 0 (buffer s))"
  shows "took s (lex_number s)"
proof -
  have ne: "buffer s \<noteq> []" using d not_NUL(1) by auto
  let ?b = "buffer s"
  have int: "took s (lex_int 10 s)" "took s (lex_int 16 s)" using lex_int_took [OF h d] by simp_all
  have hex: "took s (Some (emit TOKEN_ERROR 2 (error_at msg s)))" for msg
    by (rule took_frame [of "error_at msg s"])
      (use h ne in \<open>auto intro!: emit_took intro: tok_ok_kept [OF t] simp: heap_ext_refl\<close>)
  have real: "took s (Some (emit_real r len s'))" if "lex_frame s s'" "lexer s' = lexer s" "0 < len" for r len s'
    using that ne h by (intro tookI [where n = len]) (auto simp: emit_real_def lex_frame_def tok_ok_def)
  obtain r len where l: "strtod ?b = (r, len)" by (cases "strtod ?b")
  have pos: "0 < len" using strtod_pos [OF d] l by simp
  let ?n = "snd (strtoll 10 ?b)"
  let ?s1 = "if strtoll_range 10 ?b then error_at ''Integer literal overflow'' s else s"
  let ?s2 = "if len \<le> ?n + 1 then error_at (''Expected digit after '' @ quoted ''.'') ?s1 else ?s1"
  let ?s3 = "check_end ''Invalid character after float literal'' (peek len ?b) ?s2"
  have "lex_frame s ?s1" using h by simp
  moreover have "lex_frame ?s1 ?s2" "lex_frame ?s2 ?s3" using h by simp_all
  ultimately have "lex_frame s ?s3" by (rule lex_frame_trans [OF lex_frame_trans])
  then have "took s (Some (emit_real r len ?s3))" by (rule real) (simp_all add: pos)
  moreover have "lex_number s =
      (if peek 0 ?b = CHR ''0'' \<and> (peek 1 ?b = CHR ''x'' \<or> peek 1 ?b = CHR ''X'')
       then if \<not> c_isxdigit (peek 2 ?b) then Some (emit TOKEN_ERROR 2 (error_at (''Expected hex digits after '' @ quoted ''0x'') s)) else lex_int 16 s
       else if peek ?n ?b \<noteq> CHR ''.'' \<or> peek (?n + 1) ?b = CHR ''.'' then lex_int 10 s else Some (emit_real r len ?s3))"
    by (simp only: lex_number_def Let_def l prod.case)
  ultimately show ?thesis using int hex by (simp only: simp_thms split: if_split)
qed

lemma emit_boolean_took:
  assumes "pools_inv (heap (pmach s))" "buffer s \<noteq> []" "t = TOKEN_TRUE \<or> t = TOKEN_FALSE"
  shows "took s (Some (emit_boolean t s))"
  using assms by (intro tookI [where n = "if t = TOKEN_TRUE then 4 else 5"])
    (auto simp: emit_boolean_def lex_frame_def heap_ext_refl tok_ok_def eval_nat_numeral)

lemma keyword_types: "map_of keyword_table w = Some t \<Longrightarrow> t \<notin> {TOKEN_IDENTIFIER, TOKEN_STRING, TOKEN_INTEGER, TOKEN_REAL}"
  by (auto simp: keyword_table_def split: if_splits)

lemma lex_identifier_took:
  assumes h: "pools_inv (heap (pmach s))" and t: "tok_ok s" and d: "name_start (peek 0 (buffer s))"
  shows "took s (lex_identifier s)"
proof -
  let ?n = "length (takeWhile name_char (buffer s))"
  have ne: "buffer s \<noteq> []" using d not_NUL(2) by auto
  have "name_char (peek 0 (buffer s))" using d by (auto simp: name_start_def name_char_def)
  then have pos: "0 < ?n" using ne by (cases "buffer s") simp_all
  have "took s (emit_string_token TOKEN_IDENTIFIER ?n s)"
    using string_token_took [OF h pos ne] by (simp add: emit_string_token_def)
  moreover have "took s (Some s')" if "lex_keyword ?n s = Some s'" for s'
    using that emit_boolean_took [OF h ne] emit_took [OF h t pos ne] keyword_types
    by (auto simp: lex_keyword_def Let_def split: if_splits)
  ultimately show ?thesis by (auto simp: lex_identifier_def Let_def split: option.split)
qed

lemma string_span_le: "length (string_span b) \<le> length b"
  by (induction b rule: string_span.induct) (auto split: list.split)

lemma multiline_span_le: "length (multiline_span b) \<le> length b"
  by (induction b) auto

lemma finish_string_took:
  assumes h: "pools_inv (heap (pmach s))" and ne: "buffer s \<noteq> []" and k: "0 < k"
    and s1: "s1 = set_buffer b s" "length b \<le> length (buffer s)" "b \<noteq> []"
  shows "took s (finish_string n k s1)"
proof -
  obtain c h' where "aer_make_string (heap (pmach s)) (take n b) = Some (VString c, h')" "heap_ext (heap (pmach s)) h'" "val_full h' (VString c)"
    by (rule make_string_full [OF h, of "take n b"]) (rule that)
  moreover have "length b - (n + k) < length (buffer s)" using k s1 by (cases b) auto
  ultimately show ?thesis using k s1
    by (auto simp: took_def finish_string_def lex_frame_def tok_ok_def intro!: exI [of _ "drop (n + k) b"])
qed

lemma skip_error_took:
  assumes "pools_inv (heap (pmach s))" "tok_ok s" "length b < length (buffer s)"
  shows "took s (Some (error_at msg (set_buffer b s)))"
  using assms unfolding took_def
  by (auto simp: lex_frame_def heap_ext_refl intro: tok_ok_kept [OF assms(2)] intro!: exI [of _ b])

lemma peek_in: "peek n b = c \<Longrightarrow> c \<noteq> NUL \<Longrightarrow> n < length b"
  by (auto simp: peek_def split: if_splits)

lemma set_buffer_twice [simp]: "set_buffer b (set_buffer a s) = set_buffer b s"
  by (simp add: set_buffer_def)

lemma quoted_took:
  assumes h: "pools_inv (heap (pmach s))" and t: "tok_ok s" and q: "peek 0 (buffer s) = CHR 0x22"
  shows "took s (lex_string s)" "took s (lex_multiline_string s)"
proof -
  have quote: "CHR 0x22 \<noteq> NUL" by (simp add: NUL_def)
  have ne: "buffer s \<noteq> []" using q quote by auto
  have "took s (finish_string n k (set_buffer (drop j (buffer s)) s))"
    if "peek n (drop j (buffer s)) = CHR 0x22" "0 < k" for n j k
    using that peek_in [OF that(1) quote] by (intro finish_string_took [OF h ne that(2) refl]) auto
  moreover have "took s (Some (error_at msg (set_buffer (drop j (buffer s)) s)))" if "0 < j" for msg j
    using ne that by (intro skip_error_took [OF h t]) simp
  ultimately show "took s (lex_string s)" "took s (lex_multiline_string s)"
    by (auto simp: lex_string_def lex_multiline_string_def Let_def)
qed

lemma operator_types:
  "operator_token b = Some (t, n) \<Longrightarrow> 0 < n \<and> t \<notin> {TOKEN_IDENTIFIER, TOKEN_STRING, TOKEN_INTEGER, TOKEN_REAL}"
  unfolding operator_token_def Let_def by (auto split: if_splits)

lemma bracket_types: "bracket_token c = Some (t, up) \<Longrightarrow> t \<notin> {TOKEN_IDENTIFIER, TOKEN_STRING, TOKEN_INTEGER, TOKEN_REAL}"
  unfolding bracket_token_def by (auto split: if_splits)

section \<open>One token\<close>

text \<open>The bottom of the stack is the level of the file.\<close>

definition levels_ok :: "nat list \<Rightarrow> bool" where
  "levels_ok stk \<longleftrightarrow> stk \<noteq> [] \<and> last stk = 0"

text \<open>The result of \<^verbatim>\<open>lex\<close>.\<close>

definition lexed :: "'a lex_state_scheme \<Rightarrow> 'a lex_state_scheme option \<Rightarrow> bool" where
  "lexed s r \<longleftrightarrow> (\<exists>s'. r = Some s' \<and> lex_frame s s' \<and> tok_ok s' \<and> levels_ok (indent_stack (lexer s')) \<and>
     lex_measure s' \<le> lex_measure s \<and> (tok s \<noteq> TOKEN_END_OF_FILE \<longrightarrow> lex_measure s' < lex_measure s))"

lemma lexedI:
  assumes "lex_frame s s'" "tok_ok s'" "levels_ok (indent_stack (lexer s'))" "lex_measure s' \<le> lex_measure s"
    "tok s \<noteq> TOKEN_END_OF_FILE \<Longrightarrow> lex_measure s' < lex_measure s"
  shows "lexed s (Some s')"
  using assms by (auto simp: lexed_def)

lemma took_lexed:
  assumes "took s r" "levels_ok (indent_stack (lexer s))"
  shows "lexed s r"
  using assms unfolding took_def by (auto simp: lex_measure_def intro!: lexedI)

lemma skip_wsc_le: "length (skip_whitespace_and_comments br b) \<le> length b"
proof (induction br b rule: skip_whitespace_and_comments.induct)
  case (1 br b)
  show ?case
  proof (cases "skip_whitespace b")
    case Nil
    then show ?thesis by (subst skip_whitespace_and_comments.simps) simp
  next
    case (Cons c r)
    then have "length r < length b" using length_skip_whitespace [of b] by simp
    then show ?thesis
      using 1 [OF Cons] Cons length_skip_comment [of r] by (subst skip_whitespace_and_comments.simps) auto
  qed
qed

lemma lexed_from:
  assumes "lexed s r" "lex_frame a s" "lex_measure s \<le> lex_measure a" "tok s = tok a"
  shows "lexed a r"
  using assms unfolding lexed_def by (auto intro: lex_frame_trans)

lemma lex_token_lexed:
  assumes h: "pools_inv (heap (pmach s0))" and t: "tok_ok s0" and i: "levels_ok (indent_stack (lexer s0))"
  shows "lexed s0 (lex_token s0)"
proof -
  define s where "s = set_buffer (skip_whitespace_and_comments (bracket_depth (lexer s0) > 0) (buffer s0)) s0"
  let ?c = "peek 0 (buffer s)" and ?stk = "indent_stack (lexer s)"
  have s: "pools_inv (heap (pmach s))" "tok_ok s" "levels_ok ?stk"
    using h i tok_ok_kept [OF t, of s] by (simp_all add: s_def heap_ext_refl)
  have ne: "?c \<noteq> NUL \<Longrightarrow> buffer s \<noteq> []" by auto
  have E: "lexed s (Some (emit t n s'))"
    if "?c \<noteq> NUL" "0 < n" "(\<exists>d. lexer s' = (lexer s)\<lparr>bracket_depth := d\<rparr>) \<or> lexer s' = (lexer s)\<lparr>at_line_start := True\<rparr>"
      "lex_frame s s'" "tok_value s' = tok_value s"
      "t \<notin> {TOKEN_IDENTIFIER, TOKEN_STRING, TOKEN_INTEGER, TOKEN_REAL}" for t n s'
    using that ne s
    by (cases "buffer s") (auto intro!: lexedI intro: tok_ok_kept [OF s(2)] simp: lex_measure_def lex_frame_def)
  have L: "lexed s (lex_token s0)"
  proof -
    have nul: "lexed s (Some (if length ?stk > 1
        then (set_lexer (\<lambda>l. l\<lparr>indent_stack := [last ?stk], pending_dedents := int (length ?stk) - 2\<rparr>) s)\<lparr>tok := TOKEN_DEDENT\<rparr>
        else emit TOKEN_END_OF_FILE 0 s))"
      using s by (auto intro!: lexedI intro: tok_ok_kept [OF s(2)] simp: lex_measure_def lex_frame_def heap_ext_refl levels_ok_def)
    have nl: "lexed s (Some (emit TOKEN_NEW_LINE 1 (set_lexer (\<lambda>l. l\<lparr>at_line_start := True\<rparr>) s)))" if "?c = CHR 0x0A"
      using that s by (intro E) (auto simp: NUL_def lex_frame_def heap_ext_refl)
    have br: "lexed s (Some (lex_bracket t opens s))" if "bracket_token ?c = Some (t, opens)" "?c \<noteq> NUL" for t opens
      using that s bracket_types [OF that(1)] unfolding lex_bracket_def
      by (intro E) (auto simp: lex_frame_def heap_ext_refl)
    have op: "lexed s (Some (emit t n s))" if "operator_token (buffer s) = Some (t, n)" "?c \<noteq> NUL" for t n
      using that s ne operator_types [OF that(1)] by (intro took_lexed emit_took) auto
    have err: "lexed s (Some (emit TOKEN_ERROR 1 (error_at msg s)))" if "?c \<noteq> NUL" for msg
      using that s ne took_frame [OF emit_took [of "error_at msg s" 1 TOKEN_ERROR], of s] tok_ok_kept [OF s(2), of "error_at msg s"]
      by (intro took_lexed) (simp_all add: heap_ext_refl)
    show ?thesis
      unfolding lex_token_def s_def [symmetric] Let_def
      using lex_number_took [OF s(1,2)] lex_identifier_took [OF s(1,2)] quoted_took [OF s(1,2)] nl nul br op err s(3)
      by (simp add: took_lexed split: option.split prod.split)
  qed
  show ?thesis
    by (rule lexed_from [OF L]) (use h skip_wsc_le [of "bracket_depth (lexer s0) > 0" "buffer s0"] in
      \<open>simp_all add: s_def lex_measure_def lex_frame_def heap_ext_refl\<close>)
qed

lemma skip_blank_lines_le: "length (skip_blank_lines b) \<le> length b"
proof (induction b rule: skip_blank_lines.induct)
  case (1 b)
  show ?case
  proof (cases "blank_line_end b")
    case Nil
    then show ?thesis by (subst skip_blank_lines.simps) simp
  next
    case (Cons c r)
    then show ?thesis
      using 1 [OF Cons] length_blank_line_end [of b] by (subst skip_blank_lines.simps) auto
  qed
qed

lemma pop_levels_ne [simp]: "pop_levels n stk = [] \<longleftrightarrow> stk = []"
  by (induction n stk rule: pop_levels.induct) auto

lemma pop_levels_le: "length (pop_levels n stk) \<le> length stk"
  by (induction n stk rule: pop_levels.induct) auto

lemma pop_levels_less: "n < hd stk \<Longrightarrow> 1 < length stk \<Longrightarrow> length (pop_levels n stk) < length stk"
proof (induction n stk rule: pop_levels.induct)
  case (1 n i j "is")
  then show ?case using pop_levels_le [of n "j # is"] by simp
qed auto

lemma last_pop_levels: "last (pop_levels n stk) = last stk"
  by (induction n stk rule: pop_levels.induct) auto

lemma skip_spaces_shorter: "0 < spaces_of b \<Longrightarrow> length (skip_spaces b) < length b"
  unfolding spaces_of_def skip_spaces_def
  by (metis add_diff_cancel_left' diff_less length_append length_greater_0_conv length_takeWhile_le less_le_trans takeWhile_dropWhile_id)

lemma lex_line_start_cases:
  assumes h: "pools_inv (heap (pmach s))" and t: "tok_ok s" and l: "levels_ok (indent_stack (lexer s))" and a: "at_line_start (lexer s)"
  obtains (token) s' where "lex_line_start s = (True, s')" "lexed s (Some s')"
  | (skip) s' where "lex_line_start s = (False, s')" "lex_frame s s'" "tok_ok s'" "indent_stack (lexer s') = indent_stack (lexer s)"
      "lex_measure s' < lex_measure s" "tok s' = tok s"
proof -
  define s1 where "s1 = set_lexer (\<lambda>l. l\<lparr>at_line_start := False, f_buffer := skip_blank_lines (f_buffer l)\<rparr>) s"
  let ?stk = "indent_stack (lexer s)" and ?b = "buffer s1"
  let ?sp = "spaces_of ?b" and ?p = "skip_spaces ?b"
  let ?c = "peek 0 ?p" and ?stk' = "pop_levels ?sp ?stk"
  have b: "length ?b \<le> length (buffer s)" using skip_blank_lines_le by (simp add: s1_def)
  have p: "length ?p \<le> length ?b" by (simp add: skip_spaces_def length_dropWhile_le)
  have ne: "?stk \<noteq> []" using l by (simp add: levels_ok_def)
  note lv = l [unfolded levels_ok_def]
  note sel = s1_def lv last_pop_levels lex_measure_def lex_frame_def heap_ext_refl h a levels_ok_def
  have eq: "lex_line_start s =
     (if ?c = CHR 0x09 then (True, error_at ''Tabs not allowed for indentation'' s1)
      else if ?c \<noteq> NUL \<and> ?sp > hd ?stk then
        (if length ?stk \<ge> INDENT_MAX then (True, error_at ''Indentation too deep'' s1)
         else (True, (set_lexer (\<lambda>l. l\<lparr>indent_stack := ?sp # ?stk, f_buffer := ?p\<rparr>) s1)\<lparr>tok := TOKEN_INDENT\<rparr>))
      else if ?sp < hd ?stk \<or> (?c = NUL \<and> length ?stk > 1) then
        (if ?c \<noteq> NUL \<and> length ?stk' > 1 \<and> hd ?stk' \<noteq> ?sp
         then (True, error_at ''Indentation does not match any outer level''
                 (set_lexer (\<lambda>l. l\<lparr>indent_stack := ?stk', f_buffer := ?p\<rparr>) s1))
         else (True, (set_lexer (\<lambda>l. l\<lparr>indent_stack := (if ?c = NUL then [last ?stk'] else ?stk'),
                        pending_dedents := int (length ?stk - length ?stk') - 1\<rparr>)
                      (set_lexer (\<lambda>l. l\<lparr>indent_stack := ?stk', f_buffer := ?p\<rparr>) s1))\<lparr>tok := TOKEN_DEDENT\<rparr>))
      else (False, set_buffer ?p s1))"
    unfolding lex_line_start_def s1_def [symmetric] Let_def by (simp add: s1_def)
  have pops: "?sp < hd ?stk \<Longrightarrow> length ?stk' < length ?stk"
    using pop_levels_less [of ?sp ?stk] l by (cases ?stk) (auto simp: levels_ok_def split: if_splits)
  note short = pop_levels_le [of ?sp ?stk]
  have err: "lexed s (Some (error_at msg s1))" for msg
    using ne b by (intro lexedI) (auto intro: tok_ok_kept [OF t] simp: sel)
  have ind: "lexed s (Some ((set_lexer (\<lambda>l. l\<lparr>indent_stack := ?sp # ?stk, f_buffer := ?p\<rparr>) s1)\<lparr>tok := TOKEN_INDENT\<rparr>))" if "hd ?stk < ?sp"
    using that b skip_spaces_shorter [of ?b] by (intro lexedI) (auto intro: tok_ok_kept [OF t] simp: sel)
  have mis: "lexed s (Some (error_at msg (set_lexer (\<lambda>l. l\<lparr>indent_stack := ?stk', f_buffer := ?p\<rparr>) s1)))" for msg
    using ne b p short by (intro lexedI) (auto intro: tok_ok_kept [OF t] simp: sel)
  have ded: "lexed s (Some ((set_lexer (\<lambda>l. l\<lparr>indent_stack := (if ?c = NUL then [last ?stk'] else ?stk'),
                        pending_dedents := int (length ?stk - length ?stk') - 1\<rparr>)
                      (set_lexer (\<lambda>l. l\<lparr>indent_stack := ?stk', f_buffer := ?p\<rparr>) s1))\<lparr>tok := TOKEN_DEDENT\<rparr>))"
    if "?sp < hd ?stk \<or> (?c = NUL \<and> length ?stk > 1)"
    using that ne b p short pops by (intro lexedI) (auto intro: tok_ok_kept [OF t] simp: sel nat_diff_distrib)
  show thesis
  proof (cases "fst (lex_line_start s)")
    case True
    then obtain s' where s': "lex_line_start s = (True, s')" by (cases "lex_line_start s") auto
    then have "lexed s (Some s')" using eq err ind mis ded by (auto split: if_splits)
    then show thesis using token s' by blast
  next
    case False
    then have "lex_line_start s = (False, set_buffer ?p s1)" using eq by (auto split: if_splits)
    moreover have "tok_ok (set_buffer ?p s1)" by (rule tok_ok_kept [OF t]) (simp_all add: sel)
    ultimately show thesis by - (rule skip [of "set_buffer ?p s1"]; use b p in \<open>simp add: sel\<close>)
  qed
qed

text \<open>What the compiler keeps of the lexer.\<close>

definition lex_inv :: "'a lex_state_scheme \<Rightarrow> bool" where
  "lex_inv s \<longleftrightarrow> pools_inv (heap (pmach s)) \<and> tok_ok s \<and> levels_ok (indent_stack (lexer s))"

lemma lex_lexed: "lex_inv s \<Longrightarrow> lexed s (lex s)"
proof -
  assume "lex_inv s"
  then have h: "pools_inv (heap (pmach s))" "tok_ok s" "levels_ok (indent_stack (lexer s))" by (simp_all add: lex_inv_def)
  show ?thesis
  proof (cases "pending_dedents (lexer s) > 0")
    case True
    have "lexed s (Some ((set_lexer (\<lambda>l. l\<lparr>pending_dedents := pending_dedents l - 1\<rparr>) s)\<lparr>tok := TOKEN_DEDENT\<rparr>))"
      using True h by (intro lexedI) (auto intro: tok_ok_kept [OF h(2)] simp: lex_measure_def lex_frame_def heap_ext_refl)
    then show ?thesis using True by (simp add: lex_def)
  next
    case False
    show ?thesis
    proof (cases "at_line_start (lexer s)")
      case True
      show ?thesis
      proof (rule lex_line_start_cases [OF h True])
        fix s' assume "lex_line_start s = (True, s')" "lexed s (Some s')"
        then show ?thesis using False True by (simp add: lex_def)
      next
        fix s' assume f: "lex_line_start s = (False, s')" "lex_frame s s'" "tok_ok s'"
          "indent_stack (lexer s') = indent_stack (lexer s)" "lex_measure s' < lex_measure s" "tok s' = tok s"
        have "pools_inv (heap (pmach s'))" using f(2) h(1) by (auto simp: lex_frame_def heap_ext_def)
        then have "lexed s' (lex_token s')" using f h by (intro lex_token_lexed) simp_all
        then have "lexed s (lex_token s')" by (rule lexed_from) (use f in simp_all)
        then show ?thesis using False True f(1) by (simp add: lex_def)
      qed
    next
      case no: False
      then show ?thesis using False lex_token_lexed [OF h] by (simp add: lex_def)
    qed
  qed
qed

end
