(* ===== verification/Layout.thy ===== *)
theory Layout
  imports LexLaws
begin

text \<open>
  What the lexer makes of a whole text: the kind of value every token carries, the levels of
  indentation behind INDENT and DEDENT (\<open>indent_stack\<close> and \<open>pending_dedents\<close> of
  \<^verbatim>\<open>source/compiler/lexer.c\<close>), and that the end of the text is reached.
\<close>

section \<open>Levels\<close>

definition levels_inv :: "'a lex_state_scheme \<Rightarrow> bool" where
  "levels_inv s \<longleftrightarrow> sorted_wrt (>) (indent_stack (lexer s)) \<and> levels_ok (indent_stack (lexer s)) \<and>
     length (indent_stack (lexer s)) \<le> INDENT_MAX"

text \<open>The blocks that are open: on the stack, or closed with their DEDENT still to come.\<close>

definition open_blocks :: "'a lex_state_scheme \<Rightarrow> nat" where
  "open_blocks s = length (indent_stack (lexer s)) - 1 + nat (pending_dedents (lexer s))"

text \<open>
  The last line: at its start, with nothing but blank lines and \<open>n\<close> spaces left in the text. And
  the levels deeper than those spaces.
\<close>

definition last_line :: "'a lex_state_scheme \<Rightarrow> nat option" where
  "last_line s =
     (let b = skip_blank_lines (buffer s)
      in if pending_dedents (lexer s) \<le> 0 \<and> at_line_start (lexer s) \<and> peek 0 (skip_spaces b) = NUL
         then Some (spaces_of b) else None)"

definition levels_above :: "nat \<Rightarrow> nat list \<Rightarrow> nat" where
  "levels_above n stk = length (filter (\<lambda>i. n < i) stk)"

lemma levels_above_pop: "sorted_wrt (>) stk \<Longrightarrow> levels_ok stk \<Longrightarrow> length stk = length (pop_levels n stk) + levels_above n stk"
proof (induction n stk rule: pop_levels.induct)
  case (1 n i j "is")
  have "filter (\<lambda>k. n < k) (j # is) = []" if "i \<le> n" using that 1(2) by (auto simp: filter_empty_conv)
  then show ?case using 1 by (auto simp: levels_above_def levels_ok_def)
qed (auto simp: levels_above_def levels_ok_def)

lemma all_levels_close: "sorted_wrt (>) stk \<Longrightarrow> levels_ok stk \<Longrightarrow> pop_levels 0 stk = [0]"
proof (induction "0 :: nat" stk rule: pop_levels.induct)
  case (1 i j "is")
  then show ?case by (auto simp: levels_ok_def split: if_splits)
qed (auto simp: levels_ok_def)

lemma pop_levels_suffix: "\<exists>is. stk = is @ pop_levels n stk"
proof (induction n stk rule: pop_levels.induct)
  case (1 n i j "is")
  then show ?case by (auto intro: exI [of _ "[]"]) (metis append_Cons)
qed auto

lemma pop_levels_inv:
  assumes "sorted_wrt (>) stk" "levels_ok stk" "length stk \<le> m"
  shows "sorted_wrt (>) (pop_levels n stk)" "levels_ok (pop_levels n stk)" "length (pop_levels n stk) \<le> m"
proof -
  obtain "is" where "stk = is @ pop_levels n stk" using pop_levels_suffix by blast
  then show "sorted_wrt (>) (pop_levels n stk)" using assms(1) by (metis sorted_wrt_append)
  show "levels_ok (pop_levels n stk)" using assms(2) by (simp add: levels_ok_def last_pop_levels)
  show "length (pop_levels n stk) \<le> m" using assms(3) pop_levels_le [of n stk] by simp
qed

section \<open>Tokens inside a line\<close>

definition block_tokens :: "token_type set" where
  "block_tokens = {TOKEN_INDENT, TOKEN_DEDENT, TOKEN_END_OF_FILE}"

text \<open>Steps that leave the levels alone and make no block token.\<close>

definition inline_step :: "'a lex_state_scheme \<Rightarrow> 'a lex_state_scheme option \<Rightarrow> bool" where
  "inline_step s r \<longleftrightarrow> (\<forall>t. r = Some t \<longrightarrow> indent_stack (lexer t) = indent_stack (lexer s) \<and>
     pending_dedents (lexer t) = pending_dedents (lexer s) \<and> (parse_had_error t \<or> tok t \<notin> block_tokens))"

lemma inline_Some: "inline_step s (Some t) \<longleftrightarrow> indent_stack (lexer t) = indent_stack (lexer s) \<and>
     pending_dedents (lexer t) = pending_dedents (lexer s) \<and> (parse_had_error t \<or> tok t \<notin> block_tokens)"
  by (simp add: inline_step_def)

lemma inline_eq: "inline_step s r \<Longrightarrow> r = Some t \<Longrightarrow> inline_step s (Some t)"
  by simp

lemma inline_bind: "(\<And>x h. inline_step s (f x h)) \<Longrightarrow> inline_step s (m \<bind> (\<lambda>(x, h). f x h))"
  by (cases m) (auto simp: inline_step_def)

lemma inline_int: "inline_step s (lex_int base s)"
  unfolding lex_int_def emit_integer_def Let_def
  by (auto simp: inline_step_def block_tokens_def split: prod.splits bind_splits)

lemma inline_number: "inline_step s (lex_number s)"
  unfolding lex_number_def Let_def
  by (auto simp: inline_int inline_Some emit_real_def block_tokens_def split: prod.split)

lemma keyword_inline: "map_of keyword_table w = Some t \<Longrightarrow> t \<notin> block_tokens"
  by (auto simp: keyword_table_def block_tokens_def split: if_splits)

lemma inline_identifier: "inline_step s (lex_identifier s)"
  unfolding lex_identifier_def lex_keyword_def emit_boolean_def emit_string_token_def Let_def
  by (auto simp: inline_step_def block_tokens_def dest!: keyword_inline split: option.splits bind_splits prod.splits)

lemma inline_string: "inline_step s (lex_string s)" "inline_step s (lex_multiline_string s)"
  unfolding lex_string_def lex_multiline_string_def finish_string_def Let_def
  by (auto simp: inline_step_def block_tokens_def split: bind_splits prod.splits)

lemma operator_inline: "operator_token b = Some (t, n) \<Longrightarrow> t \<notin> block_tokens"
  unfolding operator_token_def Let_def by (auto simp: block_tokens_def split: if_splits)

lemma bracket_inline: "bracket_token c = Some (t, up) \<Longrightarrow> t \<notin> block_tokens"
  unfolding bracket_token_def by (auto simp: block_tokens_def split: if_splits)

section \<open>One token\<close>

definition block_step :: "nat option \<Rightarrow> 'a lex_state_scheme \<Rightarrow> 'a lex_state_scheme \<Rightarrow> bool" where
  "block_step final s t \<longleftrightarrow> levels_inv t \<and>
     (parse_had_error t \<or>
      (if tok t = TOKEN_INDENT then open_blocks t = open_blocks s + 1
       else if tok t = TOKEN_DEDENT
       then open_blocks t < open_blocks s \<and>
         (case final of None \<Rightarrow> open_blocks s = open_blocks t + 1
          | Some n \<Rightarrow> open_blocks t = levels_above n (indent_stack (lexer s)) - 1)
       else open_blocks t = open_blocks s \<and> (tok t = TOKEN_END_OF_FILE \<longrightarrow> open_blocks t = 0)))"

lemma inline_blocks:
  assumes "inline_step a (Some t)" "levels_inv s" "indent_stack (lexer a) = indent_stack (lexer s)"
    "pending_dedents (lexer a) = pending_dedents (lexer s)"
  shows "block_step None s t"
  using assms by (auto simp: inline_Some block_step_def block_tokens_def levels_inv_def open_blocks_def)

lemma lex_token_blocks:
  assumes inv: "levels_inv s0" and p: "pending_dedents (lexer s0) \<le> 0" and t: "lex_token s0 = Some t"
  shows "block_step None s0 t"
proof -
  define s where "s = set_buffer (skip_whitespace_and_comments (bracket_depth (lexer s0) > 0) (buffer s0)) s0"
  have same: "indent_stack (lexer s) = indent_stack (lexer s0)" "pending_dedents (lexer s) = pending_dedents (lexer s0)"
    by (simp_all add: s_def)
  note inl = inline_blocks [OF _ inv same]
  have E: "block_step None s0 (emit ty n s')" if "ty \<notin> block_tokens" "indent_stack (lexer s') = indent_stack (lexer s)"
    "pending_dedents (lexer s') = pending_dedents (lexer s)" for ty n s'
    by (rule inl) (use that in \<open>simp add: inline_Some\<close>)
  have nl: "block_step None s0 (emit TOKEN_NEW_LINE 1 (set_lexer (\<lambda>l. l\<lparr>at_line_start := True\<rparr>) s))"
    and err: "block_step None s0 (emit TOKEN_ERROR 1 (error_at msg s))" for msg
    by (rule E; simp add: block_tokens_def)+
  have op: "block_step None s0 (emit ty n s)" if "operator_token b = Some (ty, n)" for ty n b
    by (rule E) (use operator_inline [OF that] in simp_all)
  have br: "block_step None s0 (lex_bracket ty up s)" if "bracket_token c = Some (ty, up)" for ty up c
    unfolding lex_bracket_def by (rule E) (use bracket_inline [OF that] in simp_all)
  have stop: "1 < length (indent_stack (lexer s)) \<Longrightarrow>
      block_step None s0 ((set_lexer (\<lambda>l. l\<lparr>indent_stack := [last (indent_stack (lexer s))], pending_dedents := int (length (indent_stack (lexer s))) - 2\<rparr>) s)\<lparr>tok := TOKEN_DEDENT\<rparr>)"
    "\<not> 1 < length (indent_stack (lexer s)) \<Longrightarrow> block_step None s0 (emit TOKEN_END_OF_FILE 0 s)"
    using inv p same by (auto simp: block_step_def levels_inv_def levels_ok_def open_blocks_def INDENT_MAX_def)
  show ?thesis
    using t unfolding lex_token_def s_def [symmetric] Let_def
    by (auto split: if_splits option.splits prod.splits
        intro: inl [OF inline_number [of s, THEN inline_eq]] inl [OF inline_identifier [of s, THEN inline_eq]]
          inl [OF inline_string(1) [of s, THEN inline_eq]] inl [OF inline_string(2) [of s, THEN inline_eq]]
          op br nl [simplified] err [simplified] stop [simplified])
qed

lemma pop_some: "n < hd stk \<Longrightarrow> levels_ok stk \<Longrightarrow> length (pop_levels n stk) < length stk"
  using pop_levels_less [of n stk] by (cases stk) (auto simp: levels_ok_def split: if_splits)

lemma line_start_blocks:
  assumes inv: "levels_inv s0" and p: "pending_dedents (lexer s0) \<le> 0" and start: "at_line_start (lexer s0)"
    and eq: "lex_line_start s0 = (stop, t)"
  shows "stop \<Longrightarrow> block_step (last_line s0) s0 t"
    "\<not> stop \<Longrightarrow> indent_stack (lexer t) = indent_stack (lexer s0) \<and> pending_dedents (lexer t) = pending_dedents (lexer s0) \<and>
      (last_line s0 = None \<or> open_blocks s0 = 0)"
proof -
  define s where "s = set_lexer (\<lambda>l. l\<lparr>at_line_start := False, f_buffer := skip_blank_lines (f_buffer l)\<rparr>) s0"
  let ?stk = "indent_stack (lexer s)" and ?sp = "spaces_of (buffer s)" and ?p = "skip_spaces (buffer s)"
  let ?c = "peek 0 ?p" and ?stk' = "pop_levels ?sp ?stk"
  have same: "?stk = indent_stack (lexer s0)" "pending_dedents (lexer s) = pending_dedents (lexer s0)"
    by (simp_all add: s_def)
  have lv: "sorted_wrt (>) ?stk" "levels_ok ?stk" "length ?stk \<le> INDENT_MAX" using inv same by (simp_all add: levels_inv_def)
  have last: "last_line s0 = (if ?c = NUL then Some ?sp else None)" using p start by (simp add: last_line_def Let_def s_def)
  note above = levels_above_pop [OF lv(1,2), of ?sp]
  note pops = pop_levels_inv [OF lv, of ?sp] pop_some [OF _ lv(2), of ?sp]
  have err: "levels_inv t' \<Longrightarrow> parse_had_error t' \<Longrightarrow> block_step (last_line s0) s0 t'" for t' by (simp add: block_step_def)
  have tab: "block_step (last_line s0) s0 (error_at msg s)" for msg using lv by (intro err) (simp_all add: levels_inv_def)
  have mis: "block_step (last_line s0) s0 (error_at msg (set_lexer (\<lambda>l. l\<lparr>indent_stack := ?stk', f_buffer := ?p\<rparr>) s))" for msg
    using pops by (intro err) (simp_all add: levels_inv_def)
  have ind: "block_step (last_line s0) s0 ((set_lexer (\<lambda>l. l\<lparr>indent_stack := ?sp # ?stk, f_buffer := ?p\<rparr>) s)\<lparr>tok := TOKEN_INDENT\<rparr>)"
    if "hd ?stk < ?sp" "length ?stk < INDENT_MAX" "?c \<noteq> NUL"
  proof -
    have "\<forall>x \<in> set ?stk. x < ?sp" using that(1) lv(1) by (cases ?stk) auto
    then show ?thesis using that lv p same last by (auto simp: block_step_def levels_inv_def levels_ok_def open_blocks_def)
  qed
  have ded: "block_step (last_line s0) s0 ((set_lexer (\<lambda>l. l\<lparr>indent_stack := (if ?c = NUL then [last ?stk'] else ?stk'),
                              pending_dedents := int (length ?stk - length ?stk') - 1\<rparr>)
       (set_lexer (\<lambda>l. l\<lparr>indent_stack := ?stk', f_buffer := ?p\<rparr>) s))\<lparr>tok := TOKEN_DEDENT\<rparr>)"
    if d: "?sp < hd ?stk \<or> ?c = NUL \<and> 1 < length ?stk"
  proof (cases "?c = NUL")
    case True
    have n: "1 < length ?stk" using d pops(4) lv(2) by (cases ?stk; cases "tl ?stk") (auto simp: levels_ok_def True)
    have "0 < length ?stk'" using pops(2) by (simp add: levels_ok_def)
    then have "nat (int (length ?stk - length ?stk') - 1) = levels_above ?sp ?stk - 1" "levels_above ?sp ?stk - 1 < length ?stk - 1"
      using above n by linarith+
    then show ?thesis using True pops p same last n
      by (simp add: block_step_def levels_inv_def levels_ok_def open_blocks_def INDENT_MAX_def)
  next
    case False
    then have "length ?stk' < length ?stk" using d pops(4) by auto
    moreover have "0 < length ?stk'" using pops(2) by (simp add: levels_ok_def)
    ultimately have "length ?stk - 1 = length ?stk' - 1 + nat (int (length ?stk - length ?stk') - 1) + 1" by linarith
    then show ?thesis using False pops p same last
      by (simp add: block_step_def levels_inv_def open_blocks_def)
  qed
  show "stop \<Longrightarrow> block_step (last_line s0) s0 t"
    using eq tab mis ind ded unfolding lex_line_start_def s_def [symmetric] Let_def
    by (auto split: if_splits)
  show "\<not> stop \<Longrightarrow> indent_stack (lexer t) = indent_stack (lexer s0) \<and> pending_dedents (lexer t) = pending_dedents (lexer s0) \<and>
      (last_line s0 = None \<or> open_blocks s0 = 0)"
    using eq same last p unfolding lex_line_start_def s_def [symmetric] Let_def
    by (auto simp: open_blocks_def split: if_splits)
qed

lemma lex_block_step:
  assumes "levels_inv s" "lex s = Some t"
  shows "block_step (last_line s) s t"
proof (cases "pending_dedents (lexer s) > 0")
  case True
  then show ?thesis using assms by (auto simp: lex_def block_step_def levels_inv_def open_blocks_def last_line_def Let_def)
next
  case False
  then have p: "pending_dedents (lexer s) \<le> 0" by simp
  show ?thesis
  proof (cases "at_line_start (lexer s)")
    case start: True
    obtain stop a where a: "lex_line_start s = (stop, a)" by fastforce
    note line = line_start_blocks [OF assms(1) p start a]
    show ?thesis
    proof (cases stop)
      case True
      then show ?thesis using assms(2) a line(1) start False by (simp add: lex_def)
    next
      case go: False
      have same: "indent_stack (lexer a) = indent_stack (lexer s)" "pending_dedents (lexer a) = pending_dedents (lexer s)"
        using line(2) go by simp_all
      then have inv: "levels_inv a" "open_blocks a = open_blocks s" "pending_dedents (lexer a) \<le> 0"
        using assms(1) p by (simp_all add: levels_inv_def open_blocks_def)
      have "lex_token a = Some t" using assms(2) a go start False by (simp add: lex_def)
      then have "block_step None a t" by (rule lex_token_blocks [OF inv(1,3)])
      then show ?thesis using inv(2) line(2) go by (auto simp: block_step_def split: option.split)
    qed
  next
    case nostart: False
    then have "lex_token s = Some t" "last_line s = None" using assms(2) False by (simp_all add: lex_def last_line_def)
    then show ?thesis using lex_token_blocks [OF assms(1) p] by simp
  qed
qed

text \<open>C14: the indentation stack stays a strictly decreasing stack of at most 64 levels above
  the level of the file, and INDENT and DEDENT are balanced: while no error is reported an INDENT
  opens one block, a DEDENT closes one, no other token changes their number, and the end of the
  file comes only after every block has been closed. There is one exception, exactly as the code
  has it: when the text ends in a line of \<open>n\<close> spaces and nothing else, as many DEDENTs come as
  there are blocks indented deeper than that, but at least one, and the other blocks are forgotten.
  Without such trailing spaces the DEDENT there closes one block like any other.
\<close>

theorem lex_blocks:
  assumes "levels_inv s" "lex s = Some t"
  shows "levels_inv t \<and>
     (parse_had_error t \<or>
      (if tok t = TOKEN_INDENT then open_blocks t = open_blocks s + 1
       else if tok t = TOKEN_DEDENT
       then open_blocks t < open_blocks s \<and>
         (case last_line s of
            None \<Rightarrow> open_blocks s = open_blocks t + 1
          | Some n \<Rightarrow> open_blocks t = levels_above n (indent_stack (lexer s)) - 1 \<and>
              (n = 0 \<longrightarrow> open_blocks s = open_blocks t + 1))
       else open_blocks t = open_blocks s \<and> (tok t = TOKEN_END_OF_FILE \<longrightarrow> open_blocks t = 0)))"
proof -
  have "levels_above 0 (indent_stack (lexer s)) = open_blocks s" if "last_line s = Some n" for n
  proof -
    have "pending_dedents (lexer s) \<le> 0" using that by (auto simp: last_line_def Let_def split: if_splits)
    moreover have "pop_levels 0 (indent_stack (lexer s)) = [0]"
      using assms(1) all_levels_close [of "indent_stack (lexer s)"] by (simp add: levels_inv_def)
    ultimately show ?thesis using levels_above_pop [of "indent_stack (lexer s)" 0] assms(1)
      by (simp add: levels_inv_def open_blocks_def)
  qed
  then show ?thesis using lex_block_step [OF assms] by (auto simp: block_step_def split: option.splits)
qed

theorem lex_blocks_witness:
  "\<exists>t. lex (\<lparr>lexer = (source_lexer ''a'' ''  x'')\<lparr>f_buffer := ''  x''\<rparr>, tok = TOKEN_NEW_LINE, tok_value = VNull, parse_had_error = False, pmach = mach_init\<rparr>) = Some t \<and>
     tok t = TOKEN_INDENT \<and> open_blocks t = 1 \<and> levels_inv t"
proof -
  let ?s = "\<lparr>lexer = (source_lexer ''a'' ''  x'')\<lparr>f_buffer := ''  x''\<rparr>, tok = TOKEN_NEW_LINE, tok_value = VNull, parse_had_error = False, pmach = mach_init\<rparr>"
  have inv: "levels_inv ?s" "open_blocks ?s = 0"
    by (simp_all add: levels_inv_def open_blocks_def source_lexer_def indent_reset_def levels_ok_def INDENT_MAX_def)
  have "skip_blank_lines ''  x'' = ''  x''"
    by (subst skip_blank_lines.simps) (simp add: blank_line_end_def skip_spaces_def)
  then obtain t where t: "lex ?s = Some t" "tok t = TOKEN_INDENT" "\<not> parse_had_error t"
    by (simp add: lex_def lex_line_start_def source_lexer_def indent_reset_def set_lexer_def spaces_of_def skip_spaces_def
        INDENT_MAX_def NUL_def Let_def)
  then show ?thesis using lex_blocks [OF inv(1) t(1)] inv(2) by auto
qed

section \<open>Types of tokens\<close>

text \<open>C18: the lexer returns on every state, and the token it leaves has the value its type
  promises: a live string object whose bytes can be read behind a name or a string, an integer,
  boxed or not, behind an integer, a double behind a real. Unless the end of the file was already
  reached it has also consumed something.
\<close>

theorem lex_typed:
  assumes "lex_inv s"
  shows "\<exists>t. lex s = Some t \<and> lex_inv t \<and> lex_measure t + (if tok s = TOKEN_END_OF_FILE then 0 else 1) \<le> lex_measure s \<and>
     (if tok t = TOKEN_IDENTIFIER \<or> tok t = TOKEN_STRING then \<exists>x. str_of (heap (pmach t)) (tok_value t) = Some x
      else if tok t = TOKEN_INTEGER then \<exists>i. aer_as_int_v (heap (pmach t)) (tok_value t) = Some i
      else if tok t = TOKEN_REAL then \<exists>d. tok_value t = VReal d else True)"
proof -
  obtain t where t: "lex s = Some t" "lex_frame s t" "tok_ok t" "levels_ok (indent_stack (lexer t))"
      "lex_measure t \<le> lex_measure s" "tok s \<noteq> TOKEN_END_OF_FILE \<longrightarrow> lex_measure t < lex_measure s"
    using lex_lexed [OF assms] unfolding lexed_def by blast
  have full: "val_full (heap (pmach t)) (tok_value t)" using t(3) by (simp add: tok_ok_def)
  show ?thesis
    using t val_full_reads [OF full] by (auto simp: lex_inv_def lex_frame_def heap_ext_inv tok_ok_def)
qed

theorem lex_typed_witness:
  "\<exists>t. lex \<lparr>lexer = source_lexer ''a'' ''1.5'', tok = TOKEN_OR, tok_value = VReal 0, parse_had_error = False, pmach = mach_init\<rparr> = Some t \<and>
     lex_inv t"
proof -
  have "lex_inv \<lparr>lexer = source_lexer ''a'' ''1.5'', tok = TOKEN_OR, tok_value = VReal 0, parse_had_error = False, pmach = mach_init\<rparr>"
    by (simp add: lex_inv_def source_lexer_def indent_reset_def mach_init_def heap_init_inv levels_ok_def tok_ok_def)
  from lex_typed [OF this] show ?thesis by blast
qed

section \<open>Whole texts\<close>

text \<open>The tokens up to the end of the file, if at most \<open>n\<close> calls of \<^verbatim>\<open>lex\<close> reach it.\<close>

primrec lex_tokens :: "nat \<Rightarrow> 'a lex_state_scheme \<Rightarrow> (token_type list \<times> 'a lex_state_scheme) option" where
  "lex_tokens 0 s = (if tok s = TOKEN_END_OF_FILE then Some ([], s) else None)"
| "lex_tokens (Suc n) s =
     (if tok s = TOKEN_END_OF_FILE then Some ([], s)
      else do { t \<leftarrow> lex s; (ts, u) \<leftarrow> lex_tokens n t; Some (tok t # ts, u) })"

lemma lex_step:
  assumes "lex_inv s" "tok s \<noteq> TOKEN_END_OF_FILE"
  obtains t where "lex s = Some t" "lex_inv t" "lex_measure t < lex_measure s" "parse_had_error s \<longrightarrow> parse_had_error t"
  using lex_lexed [OF assms(1)] assms(2) by (auto simp: lexed_def lex_inv_def lex_frame_def heap_ext_inv)

lemma lex_tokens_end:
  "lex_inv s \<Longrightarrow> lex_measure s \<le> n \<Longrightarrow> \<exists>ts t. lex_tokens n s = Some (ts, t) \<and> tok t = TOKEN_END_OF_FILE \<and>
     length ts < lex_measure s \<and> (parse_had_error s \<longrightarrow> parse_had_error t)"
proof (induction n arbitrary: s)
  case 0
  then show ?case by (auto simp: lex_inv_def levels_ok_def lex_measure_def)
next
  case (Suc n)
  show ?case
  proof (cases "tok s = TOKEN_END_OF_FILE")
    case True
    then show ?thesis using Suc.prems by (auto simp: lex_inv_def levels_ok_def lex_measure_def)
  next
    case False
    then obtain t where t: "lex s = Some t" "lex_inv t" "lex_measure t < lex_measure s" "parse_had_error s \<longrightarrow> parse_had_error t"
      using lex_step [OF Suc.prems(1)] by blast
    then show ?thesis using Suc.IH [OF t(2)] Suc.prems(2) False by fastforce
  qed
qed

lemma lex_tokens_balance:
  "lex_inv s \<Longrightarrow> levels_inv s \<Longrightarrow> lex_measure s \<le> n \<Longrightarrow> lex_tokens n s = Some (ts, u) \<Longrightarrow> \<not> parse_had_error u \<Longrightarrow>
     count_list (take k ts) TOKEN_DEDENT \<le> open_blocks s + count_list (take k ts) TOKEN_INDENT"
proof (induction n arbitrary: s ts k)
  case (Suc n)
  show ?case
  proof (cases "tok s = TOKEN_END_OF_FILE")
    case False
    then obtain t where t: "lex s = Some t" "lex_inv t" "lex_measure t < lex_measure s"
      using lex_step [OF Suc.prems(1)] by blast
    then obtain vs where vs: "lex_tokens n t = Some (vs, u)" "ts = tok t # vs"
      using Suc.prems(4) False by (auto split: bind_splits)
    have le: "lex_measure t \<le> n" using t(3) Suc.prems(3) by simp
    have "\<not> parse_had_error t" using lex_tokens_end [OF t(2) le] vs(1) Suc.prems(5) by auto
    then have b: "levels_inv t" "block_step (last_line s) s t" "\<not> parse_had_error t"
      using lex_block_step [OF Suc.prems(2) t(1)] by (auto simp: block_step_def)
    show ?thesis
      using Suc.IH [OF t(2) b(1) le vs(1) Suc.prems(5)] b(2,3)
      by (cases k) (fastforce simp: vs(2) block_step_def split: if_splits)+
  qed (use Suc.prems in simp)
qed (simp split: if_splits)

text \<open>A new process, about to read its first token.\<close>

definition lex_start :: "string \<Rightarrow> string \<Rightarrow> lex_state" where
  "lex_start name txt =
     \<lparr>lexer = source_lexer name txt, tok = TOKEN_OR, tok_value = VReal 0, parse_had_error = False, pmach = mach_init\<rparr>"

lemma lex_start_inv: "lex_inv (lex_start name txt)" "levels_inv (lex_start name txt)" "open_blocks (lex_start name txt) = 0"
  by (simp_all add: lex_start_def lex_inv_def source_lexer_def indent_reset_def mach_init_def heap_init_inv levels_ok_def
      tok_ok_def levels_inv_def INDENT_MAX_def open_blocks_def)

lemma lex_start_measure: "lex_measure (lex_start name txt) \<le> 3 * length txt + 3"
proof -
  have "length (strip_cr txt) \<le> length (c_str txt)" by (simp add: strip_cr_def)
  also have "\<dots> \<le> length txt" by (simp add: c_str_def length_takeWhile_le)
  finally show ?thesis by (simp add: lex_start_def lex_measure_def source_lexer_def indent_reset_def)
qed

text \<open>C19: every text is read to its end in at most three tokens per character and two, and
  unless an error was reported no token list in front of the end closes more blocks than it opened.
\<close>

theorem text_lexed:
  "\<exists>ts t. lex_tokens (3 * length txt + 3) (lex_start name txt) = Some (ts, t) \<and> tok t = TOKEN_END_OF_FILE \<and>
     length ts \<le> 3 * length txt + 2 \<and>
     (parse_had_error t \<or> (\<forall>k. count_list (take k ts) TOKEN_DEDENT \<le> count_list (take k ts) TOKEN_INDENT))"
proof -
  obtain ts t where t: "lex_tokens (3 * length txt + 3) (lex_start name txt) = Some (ts, t)" "tok t = TOKEN_END_OF_FILE"
      "length ts < lex_measure (lex_start name txt)"
    using lex_tokens_end [OF lex_start_inv(1) lex_start_measure] by blast
  have "count_list (take k ts) TOKEN_DEDENT \<le> count_list (take k ts) TOKEN_INDENT" if "\<not> parse_had_error t" for k
    using lex_tokens_balance [OF lex_start_inv(1) lex_start_inv(2) lex_start_measure t(1) that, of k] lex_start_inv(3) [of name "txt"] by simp
  then show ?thesis using t lex_start_measure [of name "txt"] by fastforce
qed

end
