(* ===== verification/EmitLaws.thy ===== *)
theory EmitLaws
  imports LexLaws
begin

text \<open>
  The invariant of the compiler, and what every step of it keeps: the constants of the chunk are in
  use, the name index can take another entry, every fixed table of the parser is within its
  capacity. The relation \<open>moves\<close> says that a step keeps all that, leaves the nesting of the parser
  (scopes, functions, loops, expressions) as it was and does not go back in the source.
\<close>

section \<open>The constant pool\<close>

text \<open>
  A table that takes another entry: one with its invariant, below the bound of the 32-bit load
  computation, or one at which that computation never asks for more room.
\<close>

definition tab_ok :: "'v hashtable \<Rightarrow> bool" where
  "tab_ok t \<longleftrightarrow> ht_inv t \<and> count t < HT_COUNT_SAFE \<or> 2 ^ 26 \<le> capacity t \<and> length (buckets t) = capacity t"

lemma big_put:
  assumes "2 ^ 26 \<le> capacity t" "length (buckets t) = capacity t"
  shows "hashtable_put t k v = Some (ht_insert t k v)"
proof -
  have ne: "buckets t \<noteq> []" using assms by auto
  have "u32 (count t * 100) < 64 * 2 ^ 26" using u32_less [of "count t * 100"] by simp
  then have "u32 (count t * 100) < HASHTABLE_HIGH * capacity t"
    using assms(1) unfolding HASHTABLE_HIGH_def by linarith
  then have "\<not> HASHTABLE_HIGH \<le> u32 (count t * 100) div capacity t"
    using assms(1) by (simp add: not_le div_less_iff_less_mult)
  then show ?thesis using ne by (simp add: hashtable_put_def numeral_2_eq_2 split: prod.split)
qed

lemma ht_insert_shape:
  assumes "ht_insert t k v = (t', fs)"
  shows "capacity t' = capacity t" "length (buckets t') = length (buckets t)"
  using assms by (auto simp: ht_insert_def Let_def split: option.splits)

lemma safe_capacity:
  assumes "ht_inv t" "buckets t \<noteq> []" "HT_COUNT_SAFE \<le> count t"
  shows "2 ^ 26 \<le> capacity t \<and> length (buckets t) = capacity t"
proof -
  note d = ht_invD [OF assms(1,2)]
  obtain m where m: "capacity t = 2 ^ m" using d(1) by (auto simp: ht_wf_def is_pow2_cap_def)
  have "2 ^ 25 < capacity t" using d(4) assms(3) by (simp add: HT_COUNT_SAFE_def)
  then have "25 < m" unfolding m by (simp only: power_strict_increasing_iff [of "2::nat"])
  then have "2 ^ 26 \<le> capacity t" unfolding m by (intro power_increasing) simp_all
  then show ?thesis using d(1) by (simp add: ht_wf_def)
qed

text \<open>A bound on the indices a table of names holds.\<close>

definition payloads_below :: "nat \<Rightarrow> nat hashtable \<Rightarrow> bool" where
  "payloads_below n t \<longleftrightarrow> (\<forall>e. Some e \<in> set (buckets t) \<longrightarrow> payload e < n)"

lemma payloads_below_mono: "payloads_below n t \<Longrightarrow> n \<le> m \<Longrightarrow> payloads_below m t"
  by (auto simp: payloads_below_def)

lemma put_below:
  assumes t: "ht_inv t" and p: "put_post t k v t' fs" and b: "payloads_below n t" "v < n"
  shows "payloads_below n t'"
  unfolding payloads_below_def
proof (intro allI impI)
  fix e assume "Some e \<in> set (buckets t')"
  then obtain i where "i < length (buckets t')" "buckets t' ! i = Some e" by (auto simp: in_set_conv_nth)
  moreover have "distinct_keys (buckets t')" using p by (auto simp: put_post_def ht_inv_def ht_wf_def)
  ultimately have "ht_map t' (ekey e) = Some (payload e)" by (subst ht_map_Some) auto
  then have "payload e = v \<or> ht_map t (ekey e) = Some (payload e)" using p by (auto simp: put_post_def split: if_splits)
  then show "payload e < n"
  proof
    assume m: "ht_map t (ekey e) = Some (payload e)"
    then have "buckets t \<noteq> []" by (auto simp: ht_map_def ht_entries_def)
    then have "distinct_keys (buckets t)" using t by (simp add: ht_inv_def ht_wf_def)
    then obtain f where "Some f \<in> set (buckets t)" "payload f = payload e" using m by (metis ht_map_Some nth_mem)
    then show ?thesis using b(1) by (auto simp: payloads_below_def)
  qed (use b in simp)
qed

lemma insert_below:
  assumes "ht_insert t k v = (t', fs)" "payloads_below n t" "v < n"
  shows "payloads_below n t'"
proof -
  have "buckets t' = buckets t \<or> (\<exists>j f. buckets t' = (buckets t)[j := Some f] \<and> payload f = v)"
  proof (cases "ht_probe t k")
    case None
    then show ?thesis using assms(1) by (simp add: ht_insert_def)
  next
    case (Some i)
    let ?j = "bucket_at t (hash_key k) i"
    show ?thesis
    proof (cases "buckets t ! ?j")
      case None
      then show ?thesis using assms(1) Some by (intro disjI2 exI [of _ ?j] exI [of _ "new_entry k v"])
        (auto simp: ht_insert_def Let_def new_entry_def)
    next
      case e: (Some e)
      then show ?thesis using assms(1) Some by (intro disjI2 exI [of _ ?j] exI [of _ "e\<lparr>payload := v\<rparr>"])
        (auto simp: ht_insert_def Let_def)
    qed
  qed
  then show ?thesis
  proof (elim disjE exE conjE)
    fix j f assume j: "buckets t' = (buckets t)[j := Some f]" "payload f = v"
    show ?thesis using assms(2,3) j set_update_subset_insert [of "buckets t" j "Some f"] by (auto simp: payloads_below_def)
  qed (use assms(2) in \<open>simp add: payloads_below_def\<close>)
qed

lemma tab_ok_get:
  assumes "tab_ok t" "payloads_below n t" "hashmap_get t k = Some i"
  shows "i < n"
proof -
  have "buckets t \<noteq> []" using assms(3) by (auto simp: hashmap_get_def hashtable_get_def)
  then have "length (buckets t) = capacity t" "0 < capacity t"
    using assms(1) by (auto simp: tab_ok_def ht_inv_def ht_wf_def)
  then have "bucket_at t h j < length (buckets t)" for h j by (simp add: bucket_at_def)
  then have "buckets t ! bucket_at t h j \<in> set (buckets t)" for h j by (rule nth_mem)
  moreover obtain j e where "buckets t ! bucket_at t (hash_key k) j = Some e" "i = payload e"
    using assms(3) by (auto simp: hashmap_get_def hashtable_get_def split: if_splits option.splits)
  ultimately show ?thesis using assms(2) by (metis payloads_below_def)
qed

lemma tab_ok_put:
  assumes "tab_ok t" "payloads_below n t" "v < n"
  obtains t' fs where "hashtable_put t k v = Some (t', fs)" "tab_ok t'" "payloads_below n t'"
proof (cases "ht_inv t \<and> count t < HT_COUNT_SAFE")
  case True
  obtain t' fs where p: "hashtable_put t k v = Some (t', fs)" "put_post t k v t' fs"
    by (rule hashtable_put_some [of t k v]) (use True in auto)
  then have t': "ht_inv t'" "buckets t' \<noteq> []" "count t' \<le> count t + 1" by (auto simp: put_post_def)
  have "tab_ok t'"
  proof (cases "count t' < HT_COUNT_SAFE")
    case False
    then show ?thesis using safe_capacity [OF t'(1,2)] by (simp add: tab_ok_def)
  qed (use t' in \<open>simp add: tab_ok_def\<close>)
  then show thesis using that p(1) put_below [OF _ p(2) assms(2,3)] True by blast
next
  case False
  then have t: "2 ^ 26 \<le> capacity t" "length (buckets t) = capacity t" using assms by (auto simp: tab_ok_def)
  obtain t' fs where i: "ht_insert t k v = (t', fs)" by (cases "ht_insert t k v")
  show thesis
    by (rule that [of t' fs])
      (use big_put [OF t] i ht_insert_shape [OF i] insert_below [OF i assms(2,3)] t in \<open>simp_all add: tab_ok_def\<close>)
qed

definition chunk_ok :: "heap \<Rightarrow> chunk \<Rightarrow> bool" where
  "chunk_ok h c \<longleftrightarrow> (\<forall>v \<in> set (cpool c). val_full h v) \<and> tab_ok (name_index c) \<and>
     payloads_below (length (cpool c)) (name_index c)"

lemma pool_match_some:
  assumes "val_full h e" "val_full h v"
  shows "\<exists>b. pool_match h e v = Some b"
  using val_full_reads [OF assms(1)] val_full_reads [OF assms(2)]
  by (cases "vtype v") (auto simp: pool_match_def)

lemma pool_scan_some:
  assumes "\<forall>e \<in> set es. val_full h e" "val_full h v"
  shows "\<exists>r. pool_scan h es v i = Some r \<and> (\<forall>j. r = Some j \<longrightarrow> i \<le> j \<and> j < i + length es)"
  using assms(1)
proof (induction es arbitrary: i)
  case (Cons e es)
  obtain b where "pool_match h e v = Some b" using pool_match_some [OF _ assms(2), of e] Cons.prems by auto
  moreover obtain r where "pool_scan h es v (i + 1) = Some r" "\<forall>j. r = Some j \<longrightarrow> i + 1 \<le> j \<and> j < i + 1 + length es"
    using Cons.IH [of "i + 1"] Cons.prems by auto
  ultimately show ?case by auto
qed simp

lemma chunk_add_pool_some:
  assumes c: "chunk_ok h c" and v: "val_full h v"
  obtains i c' where "chunk_add_pool v h c = Some (i, c')" "chunk_ok h c'" "length (cpool c) \<le> length (cpool c')"
    "i < length (cpool c')"
proof (cases "vtype v = TYPE_STRING")
  case True
  obtain x where x: "str_of h v = Some x" using val_full_reads(1) [OF v True] by blast
  note t0 = c [unfolded chunk_ok_def]
  show thesis
  proof (cases "hashmap_get (name_index c) x")
    case None
    obtain t fs where t: "hashtable_put (name_index c) (c_str x) (length (cpool c)) = Some (t, fs)" "tab_ok t"
      "payloads_below (Suc (length (cpool c))) t"
      by (rule tab_ok_put [of "name_index c" "Suc (length (cpool c))" "length (cpool c)" "c_str x"])
        (use t0 payloads_below_mono in auto)
    show thesis
      by (rule that [of "length (cpool c)" "c\<lparr>cpool := cpool c @ [v], name_index := t\<rparr>"])
        (use c v t x None True in \<open>auto simp: chunk_add_pool_def chunk_pool_append_def hashmap_put_def chunk_ok_def\<close>)
  next
    case (Some i)
    show thesis by (rule that [of i c]) (use c x Some True t0 tab_ok_get in \<open>auto simp: chunk_add_pool_def\<close>)
  qed
next
  case False
  obtain r where r: "pool_scan h (cpool c) v 0 = Some r" "\<forall>j. r = Some j \<longrightarrow> j < length (cpool c)"
    using pool_scan_some [of "cpool c" h v 0] c v by (auto simp: chunk_ok_def)
  show thesis
  proof (cases r)
    case None
    show thesis by (rule that [of "length (cpool c)" "c\<lparr>cpool := cpool c @ [v]\<rparr>"])
      (use c v r None False payloads_below_mono in \<open>auto simp: chunk_add_pool_def chunk_pool_append_def chunk_ok_def\<close>)
  next
    case (Some i)
    show thesis by (rule that [of i c]) (use c r Some False in \<open>auto simp: chunk_add_pool_def\<close>)
  qed
qed

lemma chunk_ok_ext: "chunk_ok h c \<Longrightarrow> heap_ext h h' \<Longrightarrow> chunk_ok h' c"
  by (auto simp: chunk_ok_def intro: val_full_ext)

section \<open>The invariant of the compiler\<close>

text \<open>The fixed tables of the parser.\<close>

definition tables_ok :: "comp \<Rightarrow> bool" where
  "tables_ok s \<longleftrightarrow> length (loop_stack s) \<le> LOOP_MAX \<and> loop_floor s \<le> length (loop_stack s) \<and>
     (\<forall>l \<in> set (loop_stack s). length (lc_patches l) \<le> BREAK_MAX) \<and>
     length (local_names (capture s)) \<le> MAX_TRACKED_LOCALS \<and>
     length (captured_names (capture s)) \<le> MAX_CAPTURES \<and>
     length (outer_locals s) \<le> MAX_TRACKED_LOCALS \<and> length (current_params s) \<le> MAX_PARAMS \<and>
     expr_depth s \<le> EXPR_DEPTH_MAX"

definition comp_inv :: "comp \<Rightarrow> bool" where
  "comp_inv s \<longleftrightarrow> lex_inv s \<and> chunk_ok (pheap s) (pchunk s) \<and> tables_ok s"

text \<open>Where in the source the parser is nested; every construct leaves that as it was.\<close>

definition nesting :: "comp \<Rightarrow> bool \<times> nat \<times> nat \<times> nat \<times> bool \<times> bool \<times> nat list \<times> nat" where
  "nesting s = (mode_shell s, loop_floor s, compile_scope_depth s, function_depth s, pipe_forbid_calls s,
     capturing s, current_params s, expr_depth s)"

definition moves :: "comp \<Rightarrow> comp \<Rightarrow> bool" where
  "moves u s \<longleftrightarrow> comp_inv s \<and> nesting s = nesting u \<and> length (loop_stack u) \<le> length (loop_stack s) \<and>
     length (cpool (pchunk u)) \<le> length (cpool (pchunk s)) \<and> lex_measure s \<le> lex_measure u \<and>
     (\<forall>v. val_full (pheap u) v \<longrightarrow> val_full (pheap s) v)"

lemma moves_refl: "comp_inv s \<Longrightarrow> moves s s"
  by (simp add: moves_def)

lemma moves_trans: "moves a b \<Longrightarrow> moves b c \<Longrightarrow> moves a c"
  by (simp add: moves_def)

lemma movesD: "moves u s \<Longrightarrow> comp_inv s" "moves u s \<Longrightarrow> lex_measure s \<le> lex_measure u"
  by (simp_all add: moves_def)


lemma comp_invD:
  assumes "comp_inv s"
  shows "lex_inv s" "chunk_ok (pheap s) (pchunk s)" "tables_ok s" "pools_inv (pheap s)" "val_full (pheap s) (tok_value s)"
  using assms by (simp_all add: comp_inv_def lex_inv_def tok_ok_def)

text \<open>A step that leaves the lexer and the constants alone.\<close>

lemma moves_upd:
  assumes "moves u s" "lexer s' = lexer s" "tok s' = tok s" "tok_value s' = tok_value s" "heap_ext (pheap s) (pheap s')"
    "cpool (pchunk s') = cpool (pchunk s)" "name_index (pchunk s') = name_index (pchunk s)" "nesting s' = nesting s"
    "length (loop_stack s) \<le> length (loop_stack s')" "tables_ok s'"
  shows "moves u s'"
proof -
  have "tok_ok s'" using assms(1-5) by (auto simp: moves_def comp_inv_def lex_inv_def intro: tok_ok_kept)
  moreover have "chunk_ok (pheap s') (pchunk s')"
    using assms(1,5-7) chunk_ok_ext [OF _ assms(5), of "pchunk s"] by (simp add: moves_def comp_inv_def chunk_ok_def)
  ultimately show ?thesis
    using assms by (simp add: moves_def comp_inv_def lex_inv_def heap_ext_inv lex_measure_def val_full_ext)
qed

named_theorems moves_intros \<open>steps that keep the relation\<close>

lemma moves_code [moves_intros]:
  assumes "moves u s" "cpool c = cpool (pchunk s)" "name_index c = name_index (pchunk s)"
  shows "moves u (set_chunk c s)"
  by (rule moves_upd [OF assms(1)])
    (use assms movesD(1) [OF assms(1)] in \<open>simp_all add: set_chunk_def nesting_def comp_inv_def tables_ok_def lex_inv_def heap_ext_refl\<close>)

lemma moves_heap [moves_intros]:
  assumes "moves u s" "heap_ext (pheap s) h"
  shows "moves u (set_pheap h s)"
  by (rule moves_upd [OF assms(1)])
    (use assms movesD(1) [OF assms(1)] in \<open>simp_all add: set_pheap_def nesting_def comp_inv_def tables_ok_def\<close>)

lemma moves_error [moves_intros]:
  assumes "moves u s"
  shows "moves u (error_at msg s)"
  by (rule moves_upd [OF assms(1)])
    (use movesD(1) [OF assms(1)] in \<open>simp_all add: error_at_def nesting_def comp_inv_def tables_ok_def lex_inv_def heap_ext_refl\<close>)

lemma moves_flags [moves_intros]:
  assumes "moves u s"
  shows "moves u (s\<lparr>parse_had_error := b\<rparr>)" "moves u (s\<lparr>recovered_at_boundary := b\<rparr>)" "moves u (s\<lparr>last_bare_call_end := e\<rparr>)"
  by (rule moves_upd [OF assms(1)];
      use movesD(1) [OF assms(1)] in \<open>simp add: nesting_def comp_inv_def tables_ok_def lex_inv_def heap_ext_refl\<close>)+

lemma fold_chunk_emit: "fold chunk_emit ws c = c\<lparr>code := code c @ ws\<rparr>"
  by (induction ws arbitrary: c) (simp_all add: chunk_emit_def)

lemma moves_instr [moves_intros]: "moves u s \<Longrightarrow> moves u (instr op args s)"
  unfolding instr_def fold_chunk_emit by (rule moves_code) simp_all

lemma moves_patch [moves_intros]: "moves u s \<Longrightarrow> moves u (patch_here i s)"
  unfolding patch_here_def by (rule moves_code) simp_all

lemma moves_truncate [moves_intros]: "moves u s \<Longrightarrow> moves u (truncate_code n s)"
  unfolding truncate_code_def by (rule moves_code) simp_all

lemma moves_emit_word [moves_intros]: "moves u s \<Longrightarrow> moves u (set_chunk (chunk_emit w (pchunk s)) s)"
  by (rule moves_code) (simp_all add: chunk_emit_def)

lemma moves_mark_line [moves_intros]: "moves u s \<Longrightarrow> moves u (set_chunk (chunk_mark_line off line (pchunk s)) s)"
  by (rule moves_code) (simp_all add: chunk_mark_line_def)

lemma moves_cached [moves_intros]: "moves u s \<Longrightarrow> moves u (cached_instr op args s)"
  unfolding cached_instr_def add_cache_def chunk_add_addr_cache_def Let_def prod.case
  by (intro moves_intros) simp_all

lemma moves_fold [moves_intros]: "(\<And>x s. moves u s \<Longrightarrow> moves u (f x s)) \<Longrightarrow> moves u s \<Longrightarrow> moves u (fold f xs s)"
  by (induction xs arbitrary: s) simp_all

lemma moves_funpow [moves_intros]: "(\<And>s. moves u s \<Longrightarrow> moves u (f s)) \<Longrightarrow> moves u s \<Longrightarrow> moves u ((f ^^ n) s)"
  by (induction n) simp_all

lemma moves_if [moves_intros]: "(b \<Longrightarrow> moves u s) \<Longrightarrow> (\<not> b \<Longrightarrow> moves u t) \<Longrightarrow> moves u (if b then s else t)"
  by simp

lemma moves_case [moves_intros]:
  "(r = None \<Longrightarrow> moves u s) \<Longrightarrow> (\<And>a. r = Some a \<Longrightarrow> moves u (f a)) \<Longrightarrow> moves u (case r of None \<Rightarrow> s | Some a \<Rightarrow> f a)"
  by (simp split: option.split)

section \<open>Names\<close>

lemma moves_outer [moves_intros]: "moves u s \<Longrightarrow> moves u (outer_locals_add n s)"
  using movesD(1) [of u s] unfolding outer_locals_add_def
  by (auto intro!: moves_upd [of u s] simp: nesting_def comp_inv_def tables_ok_def lex_inv_def heap_ext_refl)

lemma moves_local [moves_intros]: "moves u s \<Longrightarrow> moves u (add_local_name n s)"
  using movesD(1) [of u s] unfolding add_local_name_def
  by (auto intro!: moves_upd [of u s] simp: nesting_def comp_inv_def tables_ok_def lex_inv_def heap_ext_refl)

lemma moves_capture:
  assumes "moves u s" "length (captured_names (capture s)) < MAX_CAPTURES"
  shows "moves u (s\<lparr>capture := (capture s)\<lparr>captured_names := captured_names (capture s) @ [n]\<rparr>\<rparr>)"
  by (rule moves_upd [OF assms(1)])
    (use assms movesD(1) [OF assms(1)] in \<open>simp_all add: nesting_def comp_inv_def tables_ok_def lex_inv_def heap_ext_refl\<close>)

lemma moves_classify: "capture_classify n w s = (b, t) \<Longrightarrow> moves u s \<Longrightarrow> moves u t"
  by (auto simp: capture_classify_def intro!: moves_error moves_local moves_capture split: if_splits)

lemma moves_load [moves_intros]: "moves u s \<Longrightarrow> moves u (emit_load n s)"
proof -
  assume s: "moves u s"
  obtain up t where t: "(if capturing s then capture_classify n False s else (False, s)) = (up, t)" by fastforce
  then have "moves u t" using s moves_classify by (fastforce split: if_splits)
  then show ?thesis unfolding emit_load_def t Let_def prod.case by (cases "current_param_slot n t") (auto intro!: moves_intros)
qed

lemma moves_store [moves_intros]: "moves u s \<Longrightarrow> moves u (emit_store n s)"
proof -
  assume s: "moves u s"
  define s1 where "s1 = (if function_depth s = 1 then outer_locals_add n s else s)"
  have s1: "moves u s1" using s by (simp add: s1_def moves_outer)
  obtain up t where t: "(if capturing s1 then capture_classify n True s1 else (False, s1)) = (up, t)" by fastforce
  then have "moves u t" using s1 moves_classify by (fastforce split: if_splits)
  then show ?thesis unfolding emit_store_def s1_def [symmetric] Let_def t prod.case
    by (cases "current_param_slot n t") (auto intro!: moves_intros)
qed

lemma moves_note_local [moves_intros]: "moves u s \<Longrightarrow> moves u (note_local n s)"
  unfolding note_local_def Let_def by (auto intro!: moves_intros)

lemma moves_define [moves_intros]: "moves u s \<Longrightarrow> moves u (emit_define n s)"
  unfolding emit_define_def by (intro moves_intros)


section \<open>Steps that may not return\<close>

text \<open>That a step returns, and moves; with a result, and without.\<close>

definition run1 :: "comp \<Rightarrow> comp option \<Rightarrow> bool" where
  "run1 u r \<longleftrightarrow> (\<exists>s. r = Some s \<and> moves u s)"

definition run2 :: "comp \<Rightarrow> ('a \<times> comp) option \<Rightarrow> bool" where
  "run2 u r \<longleftrightarrow> (\<exists>x s. r = Some (x, s) \<and> moves u s)"

named_theorems runs \<open>returning steps\<close>

lemma run_Some [runs]: "moves u s \<Longrightarrow> run1 u (Some s)" "moves u s \<Longrightarrow> run2 u (Some (x, s))"
  by (simp_all add: run1_def run2_def)

lemma run_finish [runs]: "moves u s \<Longrightarrow> run2 u (finish s)" "moves u s \<Longrightarrow> run2 u (fails msg s)"
  by (simp_all add: run2_def finish_def fails_def moves_error)

lemma bind11: "run1 u m \<Longrightarrow> (\<And>s. moves u s \<Longrightarrow> run1 v (f s)) \<Longrightarrow> run1 v (m \<bind> f)"
  by (auto simp: run1_def)

lemma bind12: "run1 u m \<Longrightarrow> (\<And>s. moves u s \<Longrightarrow> run2 v (f s)) \<Longrightarrow> run2 v (m \<bind> f)"
  by (auto simp: run1_def run2_def)

lemma bind21: "run2 u m \<Longrightarrow> (\<And>x s. moves u s \<Longrightarrow> run1 v (f (x, s))) \<Longrightarrow> run1 v (m \<bind> f)"
  by (auto simp: run1_def run2_def)

lemma bind22: "run2 u m \<Longrightarrow> (\<And>x s. moves u s \<Longrightarrow> run2 v (f (x, s))) \<Longrightarrow> run2 v (m \<bind> f)"
  by (auto simp: run2_def)

lemma bind_same [runs]:
  "run1 u m \<Longrightarrow> (\<And>s. moves u s \<Longrightarrow> run1 u (f s)) \<Longrightarrow> run1 u (m \<bind> f)"
  "run1 u m \<Longrightarrow> (\<And>s. moves u s \<Longrightarrow> run2 u (f' s)) \<Longrightarrow> run2 u (m \<bind> f')"
  "run2 u p \<Longrightarrow> (\<And>x s. moves u s \<Longrightarrow> run1 u (g (x, s))) \<Longrightarrow> run1 u (p \<bind> g)"
  "run2 u p \<Longrightarrow> (\<And>x s. moves u s \<Longrightarrow> run2 u (g' (x, s))) \<Longrightarrow> run2 u (p \<bind> g')"
  by (erule bind11 bind12 bind21 bind22, assumption)+

lemma run_if [runs]:
  "(b \<Longrightarrow> run1 u x) \<Longrightarrow> (\<not> b \<Longrightarrow> run1 u y) \<Longrightarrow> run1 u (if b then x else y)"
  "(b \<Longrightarrow> run2 u p) \<Longrightarrow> (\<not> b \<Longrightarrow> run2 u q) \<Longrightarrow> run2 u (if b then p else q)"
  by simp_all

lemma run_Some_if [runs]:
  "(b \<Longrightarrow> run1 u (Some s)) \<Longrightarrow> (\<not> b \<Longrightarrow> run1 u (Some t)) \<Longrightarrow> run1 u (Some (if b then s else t))"
  "(b \<Longrightarrow> run2 u (Some p)) \<Longrightarrow> (\<not> b \<Longrightarrow> run2 u (Some q)) \<Longrightarrow> run2 u (Some (if b then p else q))"
  by simp_all

lemma run_case [runs]:
  "(r = None \<Longrightarrow> run1 u x) \<Longrightarrow> (\<And>a. r = Some a \<Longrightarrow> run1 u (y a)) \<Longrightarrow> run1 u (case r of None \<Rightarrow> x | Some a \<Rightarrow> y a)"
  "(r = None \<Longrightarrow> run2 u p) \<Longrightarrow> (\<And>a. r = Some a \<Longrightarrow> run2 u (q a)) \<Longrightarrow> run2 u (case r of None \<Rightarrow> p | Some a \<Rightarrow> q a)"
  by (simp_all split: option.split)

lemma run_pair [runs]: "run1 u m \<Longrightarrow> run2 u (map_option (Pair x) m)" "run1 u m' \<Longrightarrow> run2 u (map_option (\<lambda>s. (y, s)) m')"
  by (auto simp: run1_def run2_def)

lemma run_mono: "moves u s \<Longrightarrow> run1 s r \<Longrightarrow> run1 u r" "moves u s \<Longrightarrow> run2 s p \<Longrightarrow> run2 u p"
  by (auto simp: run1_def run2_def intro: moves_trans)

section \<open>Tokens\<close>

lemma more_eq:
  assumes "lex_state.more (t :: comp) = lex_state.more s"
  shows "nesting t = nesting s" "loop_stack t = loop_stack s" "tables_ok t = tables_ok s"
    "recovered_at_boundary t = recovered_at_boundary s"
  using assms by (cases t; cases s; simp add: nesting_def tables_ok_def)+

lemma lexed_moves:
  assumes "lexed s r" "comp_inv s"
  obtains t where "r = Some t" "moves s t" "tok s \<noteq> TOKEN_END_OF_FILE \<Longrightarrow> lex_measure t < lex_measure s"
proof -
  obtain t where t: "r = Some t" "lex_frame s t" "tok_ok t" "levels_ok (indent_stack (lexer t))" "lex_measure t \<le> lex_measure s"
    "tok s \<noteq> TOKEN_END_OF_FILE \<longrightarrow> lex_measure t < lex_measure s"
    using assms(1) by (auto simp: lexed_def)
  have f: "heap_ext (pheap s) (pheap t)" "lex_state.more t = lex_state.more s" "pchunk t = pchunk s"
    using t(2) by (simp_all add: lex_frame_def)
  have "chunk_ok (pheap t) (pchunk t)" using chunk_ok_ext [OF comp_invD(2) [OF assms(2)] f(1)] f(3) by simp
  then have "moves s t"
    using assms(2) t f more_eq [OF f(2)] by (simp add: moves_def comp_inv_def lex_inv_def heap_ext_inv val_full_ext)
  then show thesis using that t by blast
qed

lemma lex_moves:
  assumes "comp_inv s"
  obtains t where "lex s = Some t" "moves s t" "tok s \<noteq> TOKEN_END_OF_FILE \<Longrightarrow> lex_measure t < lex_measure s"
  using lexed_moves [OF lex_lexed [OF comp_invD(1) [OF assms]] assms] that by metis

lemma run_lex [runs]: "moves u s \<Longrightarrow> run1 u (lex s)"
  using lex_moves [of s] moves_trans [of u s] movesD(1) [of u s] unfolding run1_def by metis

lemma run_require [runs]: "moves u s \<Longrightarrow> run1 u (require t msg s)"
  unfolding require_def by (intro run_lex moves_if moves_error)

lemma run_consume [runs]: "moves u s \<Longrightarrow> run2 u (consume t s)"
  unfolding consume_def by (intro run_if run_pair run_lex run_Some)

section \<open>Constants\<close>

lemma add_pool_index:
  assumes "moves u s" "val_full (pheap s) v"
  obtains i t where "add_pool v s = Some (i, t)" "moves u t" "i < length (cpool (pchunk t))"
proof -
  note s = movesD(1) [OF assms(1)]
  obtain i c where c: "chunk_add_pool v (pheap s) (pchunk s) = Some (i, c)" "chunk_ok (pheap s) c"
    "length (cpool (pchunk s)) \<le> length (cpool c)" "i < length (cpool c)"
    by (rule chunk_add_pool_some [OF comp_invD(2) [OF s] assms(2)]) (rule that)
  have "moves s (set_chunk c s)"
    using s c by (simp add: moves_def comp_inv_def lex_inv_def tok_ok_def set_chunk_def tables_ok_def nesting_def lex_measure_def)
  then show thesis using c(1,4) moves_trans [OF assms(1)] by (intro that [of i "set_chunk c s"]) (simp_all add: add_pool_def set_chunk_def)
qed

lemma run_add_pool [runs]: "moves u s \<Longrightarrow> val_full (pheap s) v \<Longrightarrow> run2 u (add_pool v s)"
  by (rule add_pool_index [of u s v]) (auto simp: run2_def)

lemma run_push_const [runs]: "moves u s \<Longrightarrow> val_full (pheap s) v \<Longrightarrow> run1 u (push_const v s)"
  unfolding push_const_def by (auto intro!: runs moves_intros)

lemma tok_full: "moves u s \<Longrightarrow> val_full (pheap s) (tok_value s)"
  by (simp add: moves_def comp_invD)

lemma run_add_token [runs]: "moves u s \<Longrightarrow> run2 u (add_token s)"
  unfolding add_token_def by (intro run_add_pool tok_full)

lemma run_make_string [runs]:
  assumes "moves u s"
  shows "(\<And>v h. heap_ext (pheap s) h \<Longrightarrow> val_full h v \<Longrightarrow> run1 w (f (v, h))) \<Longrightarrow> run1 w (aer_make_string (pheap s) x \<bind> f)"
    "(\<And>v h. heap_ext (pheap s) h \<Longrightarrow> val_full h v \<Longrightarrow> run2 w (g (v, h))) \<Longrightarrow> run2 w (aer_make_string (pheap s) x \<bind> g)"
proof -
  obtain c h where "aer_make_string (pheap s) x = Some (VString c, h)" "heap_ext (pheap s) h" "val_full h (VString c)"
    by (rule make_string_full [OF comp_invD(4) [OF movesD(1) [OF assms]], of x]) (rule that)
  then show "(\<And>v h. heap_ext (pheap s) h \<Longrightarrow> val_full h v \<Longrightarrow> run1 w (f (v, h))) \<Longrightarrow> run1 w (aer_make_string (pheap s) x \<bind> f)"
    "(\<And>v h. heap_ext (pheap s) h \<Longrightarrow> val_full h v \<Longrightarrow> run2 w (g (v, h))) \<Longrightarrow> run2 w (aer_make_string (pheap s) x \<bind> g)"
    by simp_all
qed

lemma set_pheap_heap [simp]: "pheap (set_pheap h s) = h"
  by (simp add: set_pheap_def)

lemma error_at_heap [simp]: "pheap (error_at msg s) = pheap s"
  by simp

lemma set_chunk_heap [simp]: "pheap (set_chunk c s) = pheap s"
  by (simp add: set_chunk_def)

lemma instr_heap [simp]: "pheap (instr op args s) = pheap s"
  by (simp add: instr_def)

lemma patch_here_heap [simp]: "pheap (patch_here i s) = pheap s"
  by (simp add: patch_here_def)

lemma run_pool_escaped [runs]: "moves u s \<Longrightarrow> run2 u (pool_escaped_string t s)"
  unfolding pool_escaped_string_def Let_def by (auto intro!: runs moves_intros)

lemma add_part_moves: "moves u s \<Longrightarrow> run2 u (Some (add_part parts s))"
  unfolding add_part_def by (intro runs moves_if moves_instr)

lemma run_interpolate: "moves u s \<Longrightarrow> run2 u (interpolate parts t s)"
proof (induction "length t" arbitrary: t s parts rule: less_induct)
  case less
  have head: "run2 u (if literal_span t = [] then Some (parts, s)
      else do { (i, s) \<leftarrow> pool_escaped_string (literal_span t) s; Some (add_part parts (instr OP_PUSH [i] s)) })"
    using less.prems by (auto intro!: run_if bind22 run_pool_escaped run_Some add_part_moves moves_instr)
  show ?case
  proof (subst interpolate.simps, rule bind22 [OF head], unfold prod.case)
    fix parts s assume s: "moves u s"
    show "run2 u (case drop (length (literal_span t)) t of [] \<Rightarrow> Some (parts, s)
      | _ # r \<Rightarrow>
          let name = takeWhile (\<lambda>c. c \<noteq> CHR ''}'') r; rest = drop (length name + 1) r in
          if length name = length r then Some (parts, error_at (''Unclosed '' @ quoted ''{'' @ '' in string'') s)
          else if name = [] then interpolate parts rest (error_at (''Empty '' @ quoted ''{}'' @ '' in string'') s)
          else do { (v, h) \<leftarrow> aer_make_string (pheap s) name;
                    (i, s) \<leftarrow> add_pool v (set_pheap h s);
                    let (parts, s) = add_part parts (instr OP_TO_STR [] (emit_load i s)) in interpolate parts rest s })"
    proof (cases "drop (length (literal_span t)) t")
      case Nil
      then show ?thesis using s by (simp add: run_Some)
    next
      case (Cons c r)
      let ?name = "takeWhile (\<lambda>c. c \<noteq> CHR ''}'') r"
      have "length (drop (length (literal_span t)) t) = Suc (length r)" using Cons by simp
      then have r: "length (drop n r) < length t" for n by simp
      have "run2 u (do { (v, h) \<leftarrow> aer_make_string (pheap s) ?name;
                    (i, s) \<leftarrow> add_pool v (set_pheap h s);
                    let (parts, s) = add_part parts (instr OP_TO_STR [] (emit_load i s)) in
                    interpolate parts (drop (length ?name + 1) r) s })"
      proof (rule run_make_string [OF s], unfold prod.case, rule bind22, rule run_add_pool, rule moves_heap [OF s], assumption, simp)
        fix i s assume "moves u s"
        then show "run2 u (case (i, s) of (i, s) \<Rightarrow> let (parts, s) = add_part parts (instr OP_TO_STR [] (emit_load i s)) in
                    interpolate parts (drop (length ?name + 1) r) s)"
          by (simp add: add_part_def) (intro conjI impI less.hyps [OF r] moves_intros)
      qed
      then show ?thesis unfolding Cons list.case Let_def
        by (intro run_if run_Some moves_error s less.hyps [OF r])
    qed
  qed
qed

end
