(* ===== verification/ParserLaws.thy ===== *)
theory ParserLaws
  imports EmitLaws
begin

text \<open>
  The parser returns on every token sequence, keeps the invariant of theory \<open>EmitLaws\<close> and leaves
  its nesting as it found it. The locale \<open>grammar_calls\<close> is the contract of the recursive calls;
  every parse function is proved against it once, and the fuelled recursion satisfies it.
\<close>

section \<open>Fields of the state\<close>

lemma comp_inv_fields [simp]:
  "comp_inv (s\<lparr>pipe_forbid_calls := b\<rparr>) = comp_inv s" "comp_inv (s\<lparr>compile_scope_depth := n\<rparr>) = comp_inv s"
  "comp_inv (s\<lparr>function_depth := n\<rparr>) = comp_inv s" "comp_inv (s\<lparr>capturing := b\<rparr>) = comp_inv s"
  "comp_inv (s\<lparr>recovered_at_boundary := b\<rparr>) = comp_inv s" "comp_inv (s\<lparr>parse_had_error := b\<rparr>) = comp_inv s"
  by (simp_all add: comp_inv_def lex_inv_def tok_ok_def tables_ok_def)

lemma comp_inv_depth: "comp_inv s \<Longrightarrow> n \<le> EXPR_DEPTH_MAX \<Longrightarrow> comp_inv (s\<lparr>expr_depth := n\<rparr>)"
  by (simp add: comp_inv_def lex_inv_def tok_ok_def tables_ok_def)

lemma lex_measure_fields [simp]:
  "lex_measure (s\<lparr>pipe_forbid_calls := b\<rparr>) = lex_measure s" "lex_measure (s\<lparr>compile_scope_depth := n\<rparr>) = lex_measure s"
  "lex_measure (s\<lparr>function_depth := n\<rparr>) = lex_measure s" "lex_measure (s\<lparr>capturing := b\<rparr>) = lex_measure s"
  "lex_measure (s\<lparr>recovered_at_boundary := b\<rparr>) = lex_measure s" "lex_measure (t\<lparr>parse_had_error := b\<rparr>) = lex_measure t"
  "lex_measure (s\<lparr>expr_depth := n\<rparr>) = lex_measure s" "lex_measure (s\<lparr>loop_stack := ls\<rparr>) = lex_measure s"
  "lex_measure (s\<lparr>loop_floor := n\<rparr>) = lex_measure s" "lex_measure (s\<lparr>current_params := ps\<rparr>) = lex_measure s"
  "lex_measure (s\<lparr>outer_locals := ps\<rparr>) = lex_measure s" "lex_measure (s\<lparr>capture := c\<rparr>) = lex_measure s"
  by (simp_all add: lex_measure_def)

section \<open>Literals\<close>

lemma add_pool_same:
  assumes "add_pool v s = Some (i, t)"
  shows "tok t = tok s" "tok_value t = tok_value s" "pheap t = pheap s" "lex_measure t = lex_measure s"
  using assms by (auto simp: add_pool_def set_chunk_def lex_measure_def split: bind_splits)

lemma lex_keeps_val:
  assumes "moves u s" "val_full (pheap s) v"
  obtains t where "lex s = Some t" "moves u t" "val_full (pheap t) v"
proof -
  obtain t where "lex s = Some t" "moves s t" using lex_moves [OF movesD(1) [OF assms(1)]] by blast
  then show thesis using that assms moves_trans [OF assms(1)] by (simp add: moves_def)
qed

lemma literal_default:
  assumes "moves u s0"
  obtains r t where "parse_literal_default s0 = Some (r, t)" "moves u t" "\<And>v. r = Some v \<Longrightarrow> val_full (pheap t) v"
proof -
  obtain neg s where c: "consume TOKEN_SUBTRACT s0 = Some (neg, s)" "moves u s"
    using run_consume [OF assms, of TOKEN_SUBTRACT] unfolding run2_def by blast
  note inv = comp_invD [OF movesD(1) [OF c(2)]]
  have t: "tok_ok s" using inv(1) by (simp add: lex_inv_def)
  let ?Q = "\<lambda>x. \<exists>r t. x = Some (r, t) \<and> moves u t \<and> (\<forall>v. r = Some v \<longrightarrow> val_full (pheap t) v)"
  have "?Q (parse_literal_default s0)"
  proof (cases "tok s")
    case TOKEN_INTEGER
    then obtain i where i: "aer_as_int_v (pheap s) (tok_value s) = Some i"
      using t val_full_reads(2) [OF inv(5)] by (auto simp: tok_ok_def)
    let ?i = "if neg then - i else i"
    obtain v h where v: "aer_int (pheap s) ?i = Some (v, h)" "heap_ext (pheap s) h" "val_full h v"
      by (rule aer_int_full [OF inv(4), of ?i]) (rule that)
    obtain t where "lex (set_pheap h s) = Some t" "moves u t" "val_full (pheap t) v"
      by (rule lex_keeps_val [OF moves_heap [OF c(2) v(2)], of v]) (use v(3) in simp, rule that)
    then show ?thesis using c(1) TOKEN_INTEGER i v(1) by (simp add: parse_literal_default_def)
  next
    case TOKEN_REAL
    then obtain d where d: "tok_value s = VReal d" using t val_full_reads(4) [OF inv(5)] by (auto simp: tok_ok_def)
    obtain t where "lex s = Some t" "moves u t" by (rule lex_keeps_val [OF c(2), of VNull]) (simp, rule that)
    then show ?thesis using c(1) TOKEN_REAL d by (simp add: parse_literal_default_def)
  next
    case TOKEN_STRING
    then obtain x where x: "str_of (pheap s) (tok_value s) = Some x" using tok_ok_def t val_full_reads(1) [OF inv(5)] by auto
    obtain w h where v: "aer_make_string (pheap s) x = Some (VString w, h)" "heap_ext (pheap s) h" "val_full h (VString w)"
      by (rule make_string_full [OF inv(4), of x]) (rule that)
    obtain t where "lex (set_pheap h s) = Some t" "moves u t" "val_full (pheap t) (VString w)"
      by (rule lex_keeps_val [OF moves_heap [OF c(2) v(2)], of "VString w"]) (use v(3) in simp, rule that)
    then show ?thesis using c TOKEN_STRING x v(1) by (simp add: parse_literal_default_def)
  qed (use c lex_keeps_val [OF c(2), of VNull] lex_keeps_val [OF c(2) inv(5)] in
      \<open>fastforce simp: parse_literal_default_def\<close>)+
  then show thesis using that by blast
qed

section \<open>Parameters\<close>

text \<open>Indices of constants that the chunk has.\<close>

definition known :: "nat list \<Rightarrow> comp \<Rightarrow> bool" where
  "known is s \<longleftrightarrow> (\<forall>i \<in> set is. i < length (cpool (pchunk s)))"

lemma known_moves: "known is s \<Longrightarrow> moves s t \<Longrightarrow> known is t"
  by (auto simp: known_def moves_def)

lemma moves_self: "moves u s \<Longrightarrow> moves s s"
  by (simp add: moves_def)

lemma run_receiver [runs]: "moves u s \<Longrightarrow> run2 u (parse_receiver i recv s)"
  unfolding parse_receiver_def by (auto intro!: runs moves_intros)

lemma default_known:
  assumes "moves u s" "known ds s"
  obtains r t where "parse_default ds s = Some (r, t)" "moves u t" "\<And>ds'. r = Some ds' \<Longrightarrow> known ds' t"
proof -
  obtain eq t where c: "consume TOKEN_ASSIGN s = Some (eq, t)" "moves s t"
    using run_consume [OF moves_self [OF assms(1)], of TOKEN_ASSIGN] unfolding run2_def by blast
  have t: "moves u t" "known ds t" using assms c(2) moves_trans known_moves by blast+
  show thesis
  proof (cases eq)
    case True
    obtain r w where w: "parse_literal_default t = Some (r, w)" "moves t w" "\<And>v. r = Some v \<Longrightarrow> val_full (pheap w) v"
      by (rule literal_default [OF moves_self [OF t(1)]]) (rule that)
    show thesis
    proof (cases r)
      case None
      then show thesis using c(1) True w moves_trans [OF t(1)]
        by (intro that [of None "error_at ''Parameter defaults must be a literal value'' w"]) (simp_all add: parse_default_def moves_error)
    next
      case (Some v)
      obtain i x where x: "add_pool v w = Some (i, x)" "moves w x" "i < length (cpool (pchunk x))"
        by (rule add_pool_index [OF moves_self [OF w(2)], of v]) (use w(3) Some in simp, rule that)
      have "known (ds @ [i]) x" using x(3) known_moves [OF known_moves [OF t(2) w(2)] x(2)] by (simp add: known_def)
      moreover have "moves u x" using t(1) w(2) x(2) moves_trans by blast
      ultimately show thesis using c(1) True w(1) Some x(1) by (intro that [of "Some (ds @ [i])" x]) (simp_all add: parse_default_def)
    qed
  next
    case False
    then show thesis using c(1) t moves_error that by (cases "ds = []") (auto simp: parse_default_def)
  qed
qed

lemma params_known:
  assumes "moves u s" "known ds s"
  shows "\<exists>r t. parse_params ps ds recv s = Some (r, t) \<and> moves u t \<and> (\<forall>ps ds rc. r = Some (ps, ds, rc) \<longrightarrow> known ds t)"
  using assms
proof (induction "lex_measure s" arbitrary: s ps ds recv rule: less_induct)
  case less
  show ?case
  proof (cases "tok s = TOKEN_IDENTIFIER \<and> length ps < MAX_PARAMS")
    case False
    then show ?thesis using less.prems(1) moves_error by (subst parse_params.simps) (auto simp: equal_def)
  next
    case True
    obtain p a where a: "add_token s = Some (p, a)" "moves s a"
      using run_add_token [OF moves_self [OF less.prems(1)]] unfolding run2_def by blast
    have ta: "tok a = TOKEN_IDENTIFIER" using add_pool_same(1) a(1) True by (simp add: add_token_def)
    obtain b where b: "lex a = Some b" "moves a b" "lex_measure b < lex_measure a"
      using lex_moves [OF movesD(1) [OF a(2)]] ta by (metis token_type.distinct)
    obtain r c where c: "parse_receiver (length ps) recv b = Some (r, c)" "moves b c"
      using run_receiver [OF moves_self [OF b(2)]] unfolding run2_def by blast
    have uc: "moves u c" "lex_measure c < lex_measure s" "known ds c"
      using less.prems a(2) b(2,3) c(2) moves_trans known_moves movesD(2) by (blast, fastforce simp: moves_def, blast)
    show ?thesis
    proof (cases r)
      case None
      then show ?thesis using True a(1) b(1) c(1) uc(1) by (subst parse_params.simps) (simp add: equal_def)
    next
      case (Some rc)
      obtain d e where e: "parse_default ds c = Some (d, e)" "moves c e" "\<And>ds'. d = Some ds' \<Longrightarrow> known ds' e"
        by (rule default_known [OF moves_self [OF uc(1)] uc(3)]) (rule that)
      show ?thesis
      proof (cases d)
        case None
        then show ?thesis using True a(1) b(1) c(1) Some e(1,2) moves_trans [OF uc(1)]
          by (subst parse_params.simps) (simp add: equal_def)
      next
        case ds': (Some ds')
        obtain more f where f: "consume TOKEN_COMMA e = Some (more, f)" "moves e f"
          using run_consume [OF moves_self [OF e(2)]] unfolding run2_def by blast
        have uf: "moves u f" "lex_measure f < lex_measure s" "known ds' f"
          using uc e(2) e(3) [OF ds'] f(2) moves_trans known_moves movesD(2) by (blast, fastforce simp: moves_def, blast)
        show ?thesis using True a(1) b(1) c(1) Some e(1) ds' f(1) uf less.hyps [OF uf(2) uf(1) uf(3)]
          by (subst parse_params.simps) (simp add: equal_def)
      qed
    qed
  qed
qed

section \<open>Function bodies\<close>

lemma moves_params:
  "moves s t \<Longrightarrow> length ps \<le> MAX_PARAMS \<Longrightarrow> moves (s\<lparr>current_params := ps\<rparr>) (t\<lparr>current_params := ps\<rparr>)"
  by (simp add: moves_def nesting_def comp_inv_def lex_inv_def tok_ok_def tables_ok_def)

lemma define_param_moves:
  assumes "comp_inv s"
  shows "\<exists>ps. moves (s\<lparr>current_params := ps\<rparr>) (emit_define_param n s)"
proof -
  have t: "moves s (note_local n s)" using assms by (intro moves_note_local moves_refl)
  let ?t = "note_local n s"
  let ?ps = "if length (current_params ?t) < MAX_PARAMS then current_params ?t @ [n] else current_params ?t"
  have ps: "length ?ps \<le> MAX_PARAMS" using comp_invD(3) [OF movesD(1) [OF t]] by (simp add: tables_ok_def)
  have "(if length (current_params ?t) < MAX_PARAMS then ?t\<lparr>current_params := current_params ?t @ [n]\<rparr> else ?t) =
      ?t\<lparr>current_params := ?ps\<rparr>" by simp
  then have "moves (s\<lparr>current_params := ?ps\<rparr>) (emit_define_param n s)"
    unfolding emit_define_param_def Let_def using moves_params [OF t ps] by (auto intro: moves_instr)
  then show ?thesis by blast
qed

lemma define_params_moves: "comp_inv s \<Longrightarrow> \<exists>ps. moves (s\<lparr>current_params := ps\<rparr>) (fold emit_define_param ns s)"
proof (induction ns arbitrary: s)
  case Nil
  then show ?case by (intro exI [of _ "current_params s"]) (simp add: moves_refl)
next
  case (Cons n ns)
  obtain ps where ps: "moves (s\<lparr>current_params := ps\<rparr>) (emit_define_param n s)" using define_param_moves [OF Cons.prems] by blast
  obtain qs where "moves ((emit_define_param n s)\<lparr>current_params := qs\<rparr>) (fold emit_define_param ns (emit_define_param n s))"
    using Cons.IH [OF movesD(1) [OF ps]] by blast
  then have "moves (s\<lparr>current_params := qs\<rparr>) (fold emit_define_param (n # ns) s)"
    using ps by (simp add: moves_def nesting_def)
  then show ?case by blast
qed

lemma comp_inv_body:
  "comp_inv s \<Longrightarrow> comp_inv (s\<lparr>loop_floor := length (loop_stack s), function_depth := n, current_params := [], compile_scope_depth := d\<rparr>)"
  "comp_inv s \<Longrightarrow> comp_inv (s\<lparr>outer_locals := []\<rparr>)"
  by (simp_all add: comp_inv_def lex_inv_def tok_ok_def tables_ok_def)

lemma comp_inv_restore:
  assumes "comp_inv g" "comp_inv s" "length (loop_stack s) \<le> length (loop_stack g)"
  shows "comp_inv (g\<lparr>current_params := current_params s, function_depth := n,
    loop_stack := take (length (loop_stack s)) (loop_stack g), loop_floor := loop_floor s\<rparr>)"
  using assms by (auto simp: comp_inv_def lex_inv_def tok_ok_def tables_ok_def dest: in_set_takeD)

lemma new_function_full:
  assumes "pools_inv h"
  obtains c h' where "new_function h f = Some (c, h')" "heap_ext h h'" "val_full h' (VFunction c)"
proof -
  obtain c p where c: "pool_new (function_pool h) f = Some (c, p)" "pool_ext (function_pool h) p" "c \<in> live p" "pool_read p c = Some f"
    by (rule pool_new_ok [OF pools_invD(4) [OF assms], of f]) (rule that)
  have "heap_ext h ((count_alloc h)\<lparr>function_pool := p\<rparr>)"
    by (rule heap_extI) (use c(2) pools_ext_refl [OF assms] in simp_all)
  then show thesis using c by (intro that [of c "(count_alloc h)\<lparr>function_pool := p\<rparr>"]) (simp_all add: new_function_def val_full_def)
qed

lemma run_plain_function:
  assumes "moves u s" "known (default_pool_idx sig) s"
  shows "run1 u (emit_plain_function_value sig s)"
proof -
  let ?ds = "map (\<lambda>i. cpool (pchunk s) ! i) (default_pool_idx sig)"
  have ds: "those (map (\<lambda>i. if i < length (cpool (pchunk s)) then Some (cpool (pchunk s) ! i) else None) (default_pool_idx sig)) = Some ?ds"
    using assms(2) unfolding known_def by (induction "default_pool_idx sig" arbitrary: sig) (auto simp: those_map_Some)
  let ?f = "\<lparr>defaults = (if ?ds = [] then None else Some ?ds), upvalues = None, code_offset = func_start sig,
             arity = sig_arity sig, min_arity = sig_min_arity sig, receiver_type = sig_receiver_type sig,
             upvalue_count = 0, has_receiver = sig_has_receiver sig\<rparr>"
  obtain c h where c: "new_function (pheap s) ?f = Some (c, h)" "heap_ext (pheap s) h" "val_full h (VFunction c)"
    by (rule new_function_full [OF comp_invD(4) [OF movesD(1) [OF assms(1)]], of ?f]) (rule that)
  have "run1 u (push_const (VFunction c) (set_pheap h s))"
    using c by (intro run_push_const moves_heap assms) simp_all
  then show ?thesis unfolding emit_plain_function_value_def ds by (simp only: option.simps bind_simps c(1) prod.case Option.bind.simps)
qed

section \<open>Loop contexts\<close>

lemma moves_context:
  assumes s: "moves u s" and f: "i < length (loop_stack s) \<Longrightarrow> length (lc_patches (f (loop_stack s ! i))) \<le> BREAK_MAX"
  shows "moves u (with_context i f s)"
proof -
  have "\<forall>l \<in> set ((loop_stack s)[i := f (loop_stack s ! i)]). length (lc_patches l) \<le> BREAK_MAX"
  proof (cases "i < length (loop_stack s)")
    case True
    then show ?thesis using f comp_invD(3) [OF movesD(1) [OF s]] set_update_subset_insert [of "loop_stack s" i]
      by (fastforce simp: tables_ok_def)
  qed (use comp_invD(3) [OF movesD(1) [OF s]] in \<open>simp add: tables_ok_def list_update_beyond\<close>)
  then have "tables_ok (with_context i f s)"
    using comp_invD(3) [OF movesD(1) [OF s]] by (simp add: tables_ok_def with_context_def)
  then show ?thesis using s
    by (intro moves_upd [OF s]) (auto simp: with_context_def nesting_def moves_def heap_ext_refl comp_invD)
qed

lemma context_patches:
  assumes "comp_inv s" "i < length (loop_stack s)"
  shows "length (lc_patches (loop_stack s ! i)) \<le> BREAK_MAX"
  using comp_invD(3) [OF assms(1)] assms(2) by (simp add: tables_ok_def)

lemma moves_set_top [moves_intros]:
  "moves u s \<Longrightarrow> moves u (with_context i (\<lambda>c. c\<lparr>lc_top := n\<rparr>) s)"
  "moves u s \<Longrightarrow> moves u (with_context i (\<lambda>c. c\<lparr>lc_iter_slots := j, lc_top := n\<rparr>) s)"
  by (rule moves_context; simp add: context_patches moves_def)+

text \<open>Inside the loop of context \<open>i\<close>, which the caller did not have.\<close>

definition in_loop :: "comp \<Rightarrow> nat \<Rightarrow> comp \<Rightarrow> bool" where
  "in_loop u i s \<longleftrightarrow> moves u s \<and> loop_floor s \<le> i \<and> i < length (loop_stack s) \<and> length (loop_stack u) \<le> i"

lemma in_loop_moves: "in_loop u i s \<Longrightarrow> moves s t \<Longrightarrow> in_loop u i t"
  by (auto simp: in_loop_def moves_def nesting_def)

lemma in_loopD: "in_loop u i s \<Longrightarrow> moves u s" "in_loop u i s \<Longrightarrow> moves s s"
  by (auto simp: in_loop_def moves_def)

lemma moves_leave:
  assumes "in_loop u i s"
  shows "moves u (leave_loop_stack s)"
proof -
  note s = assms [unfolded in_loop_def]
  have "comp_inv (leave_loop_stack s)"
    using movesD(1) [of u s] s by (auto simp: leave_loop_stack_def comp_inv_def lex_inv_def tok_ok_def tables_ok_def dest: in_set_butlastD)
  moreover have "length (loop_stack u) \<le> length (loop_stack s) - 1" using s by arith
  ultimately show ?thesis using s by (simp add: moves_def leave_loop_stack_def nesting_def)
qed

lemma moves_finish_loop:
  assumes "in_loop u i s"
  shows "moves u (finish_loop i start patch s)"
  unfolding finish_loop_def Let_def
  by (rule moves_leave, rule in_loop_moves [OF assms], rule moves_fold, erule moves_patch,
      intro moves_patch moves_instr in_loopD(2) [OF assms])

lemma push_loop:
  assumes "moves u s" "length (loop_stack s) < LOOP_MAX"
  shows "in_loop u (length (loop_stack s)) (s\<lparr>loop_stack := loop_stack s @ [\<lparr>lc_top = 0, lc_patches = [],
    lc_scope_depth = d, lc_iter_slots = 0\<rparr>]\<rparr>)"
proof -
  let ?t = "s\<lparr>loop_stack := loop_stack s @ [\<lparr>lc_top = 0, lc_patches = [], lc_scope_depth = d, lc_iter_slots = 0\<rparr>]\<rparr>"
  have "comp_inv ?t" using assms by (auto simp: moves_def comp_inv_def lex_inv_def tok_ok_def tables_ok_def)
  moreover have "loop_floor s \<le> length (loop_stack s)" using assms by (simp add: moves_def comp_inv_def tables_ok_def)
  ultimately show ?thesis using assms by (simp add: in_loop_def moves_def nesting_def)
qed

section \<open>Names\<close>

lemma tok_string:
  assumes "moves u s" "tok s = TOKEN_IDENTIFIER \<or> tok s = TOKEN_STRING"
  obtains x where "str_of (pheap s) (tok_value s) = Some x"
proof -
  have "tok_ok s" using assms(1) by (simp add: moves_def comp_inv_def lex_inv_def)
  then show thesis using assms(2) that val_full_reads(1) [of "pheap s" "tok_value s"] by (auto simp: tok_ok_def)
qed

lemma at_module_some:
  assumes "moves u s"
  obtains b where "at_module_name s = Some b"
proof (cases "tok s = TOKEN_IDENTIFIER")
  case True
  then show thesis using that tok_string [OF assms] by (force simp: at_module_name_def)
qed (use that in \<open>simp add: at_module_name_def\<close>)

section \<open>The contract of recursive calls\<close>

locale grammar_calls =
  fixes k :: rec and m :: nat
  assumes calls: "comp_inv s \<Longrightarrow> lex_measure s \<le> m \<Longrightarrow> run2 s (k g s)"
begin

abbreviation room :: "comp \<Rightarrow> bool" where
  "room u \<equiv> lex_measure u \<le> m"

lemma room_moves: "room u \<Longrightarrow> moves u s \<Longrightarrow> room s"
  by (simp add: moves_def)

lemma run_calls [runs]: "room u \<Longrightarrow> moves u s \<Longrightarrow> run2 u (k g s)"
  by (rule run_mono, assumption, rule calls) (auto simp: moves_def)

lemma run_call [runs]: "room u \<Longrightarrow> moves u s \<Longrightarrow> run1 u (call k g s)"
  using run_calls [of u s g] by (auto simp: run1_def run2_def call_def)

section \<open>Calls and pipes\<close>

lemma run_arg_list [runs]: "room u \<Longrightarrow> moves u s \<Longrightarrow> run2 u (parse_arg_list k s)"
  unfolding parse_arg_list_def by (auto intro!: runs moves_intros)

lemma run_call_args [runs]: "room u \<Longrightarrow> moves u s \<Longrightarrow> run1 u (parse_call_args k n s)"
  unfolding parse_call_args_def Let_def by (auto intro!: runs moves_intros)

lemma run_module_call [runs]: "room u \<Longrightarrow> moves u s \<Longrightarrow> run1 u (parse_module_call k s)"
  unfolding parse_module_call_def by (auto intro!: runs moves_intros)

lemma run_pipe_args [runs]:
  assumes "room u" "moves u s"
  shows "run2 u (parse_pipe_args k s)"
proof -
  let ?v = "s\<lparr>pipe_forbid_calls := True\<rparr>"
  have v: "moves ?v ?v" "room ?v"
    using assms by (simp_all add: moves_def)
  show ?thesis unfolding parse_pipe_args_def
  proof (rule bind22 [OF run_arg_list [OF v(2,1)]], unfold prod.case, rule run_Some)
    fix t assume "moves ?v t"
    then show "moves u (t\<lparr>pipe_forbid_calls := pipe_forbid_calls s\<rparr>)"
      using assms(2) by (simp add: moves_def nesting_def)
  qed
qed

lemma run_module_name [runs]:
  assumes "moves u s"
  shows "(\<And>b. run1 w (f b)) \<Longrightarrow> run1 w (at_module_name s \<bind> f)" "(\<And>b. run2 w (g b)) \<Longrightarrow> run2 w (at_module_name s \<bind> g)"
proof -
  obtain b where "at_module_name s = Some b" by (rule at_module_some [OF assms])
  then show "(\<And>b. run1 w (f b)) \<Longrightarrow> run1 w (at_module_name s \<bind> f)" "(\<And>b. run2 w (g b)) \<Longrightarrow> run2 w (at_module_name s \<bind> g)"
    by simp_all
qed

lemma run_pipe [runs]: "room u \<Longrightarrow> moves u s \<Longrightarrow> run2 u (parse_pipe k s)"
  unfolding parse_pipe_def by (auto intro!: runs moves_intros)

section \<open>Operators\<close>

lemma run_short_circuit [runs]: "room u \<Longrightarrow> moves u s \<Longrightarrow> run1 u (short_circuit k op b prec s)"
  unfolding short_circuit_def jump_instr_def Let_def prod.case by (auto intro!: runs moves_intros)

lemma run_cast [runs]:
  assumes "moves u s"
  shows "run2 u (parse_cast s)"
proof (cases "tok s = TOKEN_IDENTIFIER")
  case True
  then obtain x where x: "str_of (pheap s) (tok_value s) = Some x" using tok_string [OF assms] by auto
  obtain i t where t: "add_token s = Some (i, t)" "moves u t" using run_add_token [OF assms] by (auto simp: run2_def)
  have "pheap t = pheap s" "tok_value t = tok_value s"
    using t(1) by (auto simp: add_token_def add_pool_def set_chunk_def split: bind_splits)
  then show ?thesis using True x t by (auto simp: parse_cast_def equal_def intro!: runs moves_intros)
qed (use assms in \<open>auto simp: parse_cast_def equal_def intro!: runs moves_intros\<close>)

section \<open>Indexing, values\<close>

lemma run_index_or_slice [runs]: "room u \<Longrightarrow> moves u s \<Longrightarrow> run1 u (parse_index_or_slice k s)"
  unfolding parse_index_or_slice_def Let_def by (auto intro!: runs moves_intros)

lemma run_name_index [runs]: "room u \<Longrightarrow> moves u s \<Longrightarrow> run1 u (parse_name_index k n s)"
  unfolding parse_name_index_def Let_def by (auto intro!: runs moves_intros split: prod.split)

lemma run_string [runs]: "moves u s \<Longrightarrow> run1 u (parse_string t s)"
  unfolding parse_string_def by (auto intro!: runs run_interpolate moves_intros)

lemma run_name [runs]: "room u \<Longrightarrow> moves u s \<Longrightarrow> run1 u (parse_name k s)"
  unfolding parse_name_def by (auto intro!: runs moves_intros)

lemma run_if_expr [runs]: "room u \<Longrightarrow> moves u s \<Longrightarrow> run1 u (parse_if_expr k s)"
  unfolding parse_if_expr_def jump_instr_def Let_def prod.case by (auto intro!: runs moves_intros)

section \<open>Blocks and functions\<close>

lemma run_compound [runs]: "room u \<Longrightarrow> moves u s \<Longrightarrow> run1 u (parse_compound k s)"
  unfolding parse_compound_def by (auto intro!: runs moves_intros)

lemma run_scoped [runs]:
  assumes "room u" "moves u s"
  shows "run1 u (parse_scoped k s)"
proof -
  let ?v = "s\<lparr>compile_scope_depth := compile_scope_depth s + 1\<rparr>"
  have v: "moves ?v ?v" "room ?v" using assms by (simp_all add: moves_def)
  show ?thesis unfolding parse_scoped_def
  proof (rule bind11 [OF run_compound [OF v(2) moves_instr [OF v(1)]]], unfold Let_def, rule run_Some)
    fix t assume "moves ?v t"
    then have "moves ?v (instr OP_POP_SCOPE [] t)" by (rule moves_instr)
    then show "moves u ((instr OP_POP_SCOPE [] t)\<lparr>compile_scope_depth := compile_scope_depth (instr OP_POP_SCOPE [] t) - 1\<rparr>)"
      using assms(2) by (simp add: moves_def nesting_def)
  qed
qed

lemma run_body [runs]:
  assumes "room u" "moves u s"
  shows "run1 u (parse_body k ps s)"
proof -
  let ?a = "if function_depth s = 0 then s\<lparr>outer_locals := []\<rparr> else s"
  let ?b = "?a\<lparr>loop_floor := length (loop_stack ?a), function_depth := function_depth ?a + 1,
                    current_params := [], compile_scope_depth := compile_scope_depth ?a + 1\<rparr>"
  let ?c = "fold emit_define_param (rev ps) (instr OP_PUSH_SCOPE [] ?b)"
  have s: "comp_inv s" using assms(2) by (rule movesD)
  then have "comp_inv ?a" by (simp add: comp_inv_body)
  then have "comp_inv ?b" by (rule comp_inv_body)
  then have b: "moves ?b (instr OP_PUSH_SCOPE [] ?b)" by (intro moves_instr moves_refl)
  then obtain qs where qs: "moves ((instr OP_PUSH_SCOPE [] ?b)\<lparr>current_params := qs\<rparr>) ?c"
    using define_params_moves [OF movesD(1) [OF b]] by blast
  have room: "room ?c" using assms b qs by (auto simp: moves_def split: if_splits)
  have finish: "moves u (g\<lparr>current_params := current_params s, function_depth := function_depth g - 1,
      loop_stack := take (length (loop_stack s)) (loop_stack g), loop_floor := loop_floor s\<rparr>)"
    if d: "moves ?c d" and g: "moves (d\<lparr>compile_scope_depth := compile_scope_depth d - 1\<rparr>) g" for d g
  proof -
    have n: "nesting g = (mode_shell s, length (loop_stack s), compile_scope_depth s, function_depth s + 1,
        pipe_forbid_calls s, capturing s, qs, expr_depth s)"
      using b qs d g by (auto simp: moves_def nesting_def split: if_splits)
    have le: "length (loop_stack s) \<le> length (loop_stack g)" "length (cpool (pchunk s)) \<le> length (cpool (pchunk g))"
      "lex_measure g \<le> lex_measure s" "\<forall>v. val_full (pheap s) v \<longrightarrow> val_full (pheap g) v"
      using b qs d g by (auto simp: moves_def split: if_splits)
    have "comp_inv (g\<lparr>current_params := current_params s, function_depth := function_depth g - 1,
        loop_stack := take (length (loop_stack s)) (loop_stack g), loop_floor := loop_floor s\<rparr>)"
      by (rule comp_inv_restore [OF movesD(1) [OF g] s le(1)])
    then show ?thesis using assms(2) n le by (simp add: moves_def nesting_def)
  qed
  have "run1 u (do { d \<leftarrow> parse_compound k ?c;
      e \<leftarrow> push_const VNull (d\<lparr>compile_scope_depth := compile_scope_depth d - 1\<rparr>);
      let g = instr OP_RETURN [] e in
      Some (g\<lparr>current_params := current_params s, function_depth := function_depth g - 1,
        loop_stack := take (length (loop_stack s)) (loop_stack g), loop_floor := loop_floor s\<rparr>) })"
  proof (rule bind11 [OF run_compound [OF room moves_refl [OF movesD(1) [OF qs]]]])
    fix d assume d: "moves ?c d"
    let ?e = "d\<lparr>compile_scope_depth := compile_scope_depth d - 1\<rparr>"
    have "moves ?e ?e" using d by (simp add: moves_def)
    then have e: "run1 ?e (push_const VNull ?e)" by (intro run_push_const) simp_all
    show "run1 u (do { e \<leftarrow> push_const VNull ?e; let g = instr OP_RETURN [] e in
        Some (g\<lparr>current_params := current_params s, function_depth := function_depth g - 1,
          loop_stack := take (length (loop_stack s)) (loop_stack g), loop_floor := loop_floor s\<rparr>) })"
      by (rule bind11 [OF e], unfold Let_def, intro run_Some finish [OF d] moves_instr)
  qed
  then show ?thesis by (simp only: parse_body_def Let_def)
qed

lemma function_body_known:
  assumes "room u" "moves u s"
  shows "\<exists>sig t. parse_function_body k s = Some (sig, t) \<and> moves u t \<and> known (default_pool_idx sig) t"
proof -
  obtain a where a: "require TOKEN_OPEN_PARENTHESE (''expected '' @ quoted ''('' @ '' after function name'') s = Some a" "moves u a"
    using run_require [OF assms(2)] unfolding run1_def by blast
  let ?r = "if equal TOKEN_CLOSE_PARENTHESE a then Some (Some ([], [], None), a) else parse_params [] [] None a"
  obtain r b where b: "?r = Some (r, b)" "moves u b" "\<And>ps ds rc. r = Some (ps, ds, rc) \<Longrightarrow> known ds b"
  proof (cases "equal TOKEN_CLOSE_PARENTHESE a")
    case True
    then show thesis using that [of "Some ([], [], None)" a] a(2) by (auto simp: known_def)
  next
    case False
    then show thesis using that params_known [OF a(2), of "[]" "[]" None] by (auto simp: known_def)
  qed
  show ?thesis
  proof (cases r)
    case None
    then show ?thesis using a(1) b by (simp add: parse_function_body_def known_def sig_zero_def)
  next
    case (Some q)
    obtain ps ds rc where q: "q = (ps, ds, rc)" by (cases q)
    have ds: "known ds b" using b(3) Some q by blast
    obtain c where c: "require TOKEN_CLOSE_PARENTHESE (''expected '' @ quoted '')'' @ '' after parameters'') b = Some c" "moves b c"
      using run_require [OF moves_self [OF b(2)]] unfolding run1_def by blast
    obtain d where d: "require TOKEN_COLON (''expected '' @ quoted '':'' @ '' after function signature'') c = Some d" "moves c d"
      using run_require [OF moves_self [OF c(2)]] unfolding run1_def by blast
    have bd: "moves b (instr OP_JUMP [0] d)" using moves_trans [OF c(2) d(2)] by (rule moves_instr)
    obtain e where e: "parse_body k ps (instr OP_JUMP [0] d) = Some e" "moves b e"
      using run_body [OF room_moves [OF assms(1) b(2)] bd] unfolding run1_def by blast
    have "moves b (patch_here (code_len d + 1) e)" using e(2) by (rule moves_patch)
    then show ?thesis using a(1) b(1,2) Some q c(1) d(1) e(1) known_moves [OF ds] moves_trans [OF b(2)]
      by (simp add: parse_function_body_def jump_instr_def)
  qed
qed

lemma capturing_body:
  assumes "room u" "moves u s" "length (local_names c) \<le> MAX_TRACKED_LOCALS" "length (captured_names c) \<le> MAX_CAPTURES"
  obtains sig t where "parse_function_body k (s\<lparr>capturing := b, capture := c\<rparr>) = Some (sig, t)"
    "known (default_pool_idx sig) t" "moves (s\<lparr>capturing := b, capture := c\<rparr>) t"
proof -
  let ?v = "s\<lparr>capturing := b, capture := c\<rparr>"
  have "moves ?v ?v" "room ?v"
    using assms by (simp_all add: moves_def comp_inv_def lex_inv_def tok_ok_def tables_ok_def)
  then show thesis using function_body_known [of ?v ?v] that by blast
qed

lemma restore_capture:
  assumes "moves u s" "moves (s\<lparr>capturing := b, capture := c\<rparr>) t"
  shows "moves u (t\<lparr>capturing := capturing s, capture := capture s\<rparr>)"
proof -
  have "comp_inv (t\<lparr>capturing := capturing s, capture := capture s\<rparr>)"
    using movesD(1) [OF assms(1)] movesD(1) [OF assms(2)] by (simp add: comp_inv_def lex_inv_def tok_ok_def tables_ok_def)
  then show ?thesis using assms by (simp add: moves_def nesting_def)
qed

lemma run_function [runs]:
  assumes "room u" "moves u s0"
  shows "run2 u (parse_function k s0)"
proof -
  let ?msg = "''Nested named function definitions are not supported '' @ em_dash @ '' define an anonymous function instead (f = function(...): ...), or define this at the top level.''"
  define s where "s = (if function_depth s0 > 0 then error_at ?msg s0 else s0)"
  have s: "moves u s" using assms(2) by (simp add: s_def moves_error)
  show ?thesis
  proof (cases "equal TOKEN_IDENTIFIER s")
    case False
    then show ?thesis using s by (simp add: parse_function_def s_def [symmetric] Let_def run_finish moves_error)
  next
    case True
    have "run2 u (do { (name, s) \<leftarrow> add_token s;
           s \<leftarrow> lex s;
           (sig, s') \<leftarrow> parse_function_body k (s\<lparr>capturing := False\<rparr>);
           let s' = s'\<lparr>capturing := capturing s, capture := capture s\<rparr>;
           if function_depth s0 > 0 then finish (s'\<lparr>parse_had_error := True\<rparr>)
           else do { s \<leftarrow> emit_plain_function_value sig s'; finish (cached_instr OP_STORE [name] s) } })"
    proof (rule bind22 [OF run_add_token [OF s]], unfold prod.case, rule bind12 [OF run_lex], assumption)
      fix name t assume t: "moves u t"
      have c: "length (local_names (capture t)) \<le> MAX_TRACKED_LOCALS" "length (captured_names (capture t)) \<le> MAX_CAPTURES"
        using comp_invD(3) [OF movesD(1) [OF t]] by (simp_all add: tables_ok_def)
      obtain sig x where x: "parse_function_body k (t\<lparr>capturing := False, capture := capture t\<rparr>) = Some (sig, x)"
        "known (default_pool_idx sig) x" "moves (t\<lparr>capturing := False, capture := capture t\<rparr>) x"
        by (rule capturing_body [OF assms(1) t c]) (rule that)
      let ?y = "x\<lparr>capturing := capturing t, capture := capture t\<rparr>"
      have y: "moves u ?y" "known (default_pool_idx sig) ?y" using restore_capture [OF t x(3)] x(2) by (simp_all add: known_def)
      have "run2 u (if function_depth s0 > 0 then finish (?y\<lparr>parse_had_error := True\<rparr>)
           else do { s \<leftarrow> emit_plain_function_value sig ?y; finish (cached_instr OP_STORE [name] s) })"
        by (auto intro!: runs moves_intros run_plain_function y)
      then show "run2 u (do { (sig, s') \<leftarrow> parse_function_body k (t\<lparr>capturing := False\<rparr>);
           let s' = s'\<lparr>capturing := capturing t, capture := capture t\<rparr>;
           if function_depth s0 > 0 then finish (s'\<lparr>parse_had_error := True\<rparr>)
           else do { s \<leftarrow> emit_plain_function_value sig s'; finish (cached_instr OP_STORE [name] s) } })"
        using x(1) by (simp add: Let_def)
    qed
    then show ?thesis using True by (simp add: parse_function_def s_def [symmetric] Let_def)
  qed
qed

lemma run_function_expr [runs]:
  assumes "room u" "moves u s"
  shows "run1 u (parse_function_expr k s)"
proof -
  let ?b = "function_depth s = 1"
  let ?c = "if ?b then \<lparr>local_names = [], captured_names = []\<rparr> else capture s"
  have c: "length (local_names ?c) \<le> MAX_TRACKED_LOCALS" "length (captured_names ?c) \<le> MAX_CAPTURES"
    using comp_invD(3) [OF movesD(1) [OF assms(2)]] by (simp_all add: tables_ok_def)
  obtain sig t where t: "parse_function_body k (s\<lparr>capturing := ?b, capture := ?c\<rparr>) = Some (sig, t)"
    "known (default_pool_idx sig) t" "moves (s\<lparr>capturing := ?b, capture := ?c\<rparr>) t"
    by (rule capturing_body [OF assms c]) (rule that)
  let ?v = "s\<lparr>capturing := ?b, capture := ?c\<rparr>"
  let ?names = "captured_names (capture t)"
  let ?mk = "instr OP_MAKE_CLOSURE
               ([func_start sig, sig_arity sig, sig_min_arity sig, if sig_has_receiver sig then 1 else 0,
                 sig_receiver_type sig, length ?names] @ default_pool_idx sig)
               (fold (\<lambda>n. instr OP_CAPTURE [n]) ?names t)"
  have "run1 ?v (if ?b \<and> ?names \<noteq> [] then Some ?mk else emit_plain_function_value sig t)"
    by (intro run_if run_Some run_plain_function t moves_instr moves_fold)
  then have "run1 u ((if ?b \<and> ?names \<noteq> [] then Some ?mk else emit_plain_function_value sig t) \<bind>
      (\<lambda>t. Some (t\<lparr>capturing := capturing s, capture := capture s\<rparr>)))"
    by (rule bind11) (intro run_Some restore_capture [OF assms(2)])
  then show ?thesis using t(1) by (simp add: parse_function_expr_def Let_def)
qed

section \<open>Primary expressions and assignments\<close>

lemma run_literal:
  assumes "moves u s" "token_literal s = Some r"
  shows "run1 u (do { (v, s) \<leftarrow> r; s \<leftarrow> push_const v s; lex s })"
proof -
  note inv = comp_invD [OF movesD(1) [OF assms(1)]]
  have t: "tok_ok s" using inv(1) by (simp add: lex_inv_def)
  have "\<exists>v h. r = Some (v, set_pheap h s) \<and> heap_ext (pheap s) h \<and> val_full h v"
  proof (cases "tok s = TOKEN_INTEGER")
    case True
    then obtain i where i: "aer_as_int_v (pheap s) (tok_value s) = Some i"
      using t val_full_reads(2) [OF inv(5)] by (auto simp: tok_ok_def)
    obtain v h where "aer_int (pheap s) i = Some (v, h)" "heap_ext (pheap s) h" "val_full h v"
      by (rule aer_int_full [OF inv(4), of i]) (rule that)
    then show ?thesis using True i assms(2) by (auto simp: token_literal_def)
  next
    case False
    have "s = set_pheap (pheap s) s" by (simp add: set_pheap_def)
    moreover obtain v where "r = Some (v, s)" "val_full (pheap s) v"
      using assms(2) False inv(5) by (auto simp: token_literal_def split: token_type.splits)
    ultimately show ?thesis using heap_ext_refl [OF inv(4)] by metis
  qed
  then obtain v h where r: "r = Some (v, set_pheap h s)" "heap_ext (pheap s) h" "val_full h v" by blast
  show ?thesis unfolding r(1) using r(2,3) by (auto intro!: runs moves_heap assms(1))
qed

lemma moves_discard [moves_intros]: "moves u s \<Longrightarrow> moves u (emit_discard s)"
  by (simp add: emit_discard_def moves_instr)

lemma moves_get_set [moves_intros]: "moves u s \<Longrightarrow> moves u (emit_get p s)" "moves u s \<Longrightarrow> moves u (emit_set p s)"
  by (simp_all add: emit_get_def emit_set_def moves_instr split: option.split)

lemma run_target_step [runs]: "room u \<Longrightarrow> moves u s \<Longrightarrow> run2 u (target_step k s)"
  unfolding target_step_def by (auto intro!: runs moves_intros)

lemma run_destruct_names [runs]: "moves u s \<Longrightarrow> run2 u (destruct_names ns s)"
proof (induction "lex_measure s" arbitrary: s ns rule: less_induct)
  case less
  show ?case
  proof (cases "tok s = TOKEN_IDENTIFIER \<and> length ns < MAX_DESTRUCT")
    case False
    then show ?thesis using less.prems by (subst destruct_names.simps) (auto simp: equal_def intro!: runs moves_intros)
  next
    case True
    obtain n a where a: "add_token s = Some (n, a)" "moves u a"
      using run_add_token [OF less.prems] unfolding run2_def by blast
    have ta: "tok a = TOKEN_IDENTIFIER" "lex_measure a = lex_measure s" using add_pool_same a(1) True by (simp_all add: add_token_def)
    obtain b where b: "lex a = Some b" "moves a b" "lex_measure b < lex_measure s"
      using lex_moves [OF movesD(1) [OF a(2)]] ta by (metis token_type.distinct)
    have "run2 u (consume TOKEN_COMMA b \<bind> (\<lambda>(more, s). if more then destruct_names (ns @ [n]) s else Some (Some (ns @ [n]), s)))"
    proof -
      obtain more c where c: "consume TOKEN_COMMA b = Some (more, c)" "moves b c"
        using run_consume [OF moves_self [OF b(2)]] unfolding run2_def by blast
      have "moves u c" "lex_measure c < lex_measure s"
        using moves_trans [OF a(2) moves_trans [OF b(2) c(2)]] b(3) movesD(2) [OF c(2)] by simp_all
      then show ?thesis using c(1) less.hyps by (simp add: run_Some)
    qed
    then show ?thesis using True a(1) b(1) by (subst destruct_names.simps) (simp add: equal_def)
  qed
qed

lemma run_destructuring [runs]: "room u \<Longrightarrow> moves u s \<Longrightarrow> run2 u (parse_destructuring k n s)"
  unfolding parse_destructuring_def Let_def by (auto intro!: runs moves_intros split: prod.split)

lemma run_compound_assign [runs]: "room u \<Longrightarrow> moves u s \<Longrightarrow> run2 u (parse_compound_assign k n op s)"
  unfolding parse_compound_assign_def Let_def by (auto intro!: runs moves_intros split: prod.split)

section \<open>Conditionals and loops\<close>

lemma run_if_statement [runs]: "room u \<Longrightarrow> moves u s \<Longrightarrow> run2 u (parse_if k s)"
  unfolding parse_if_def jump_instr_def Let_def prod.case by (auto intro!: runs moves_intros)

lemma room_in_loop: "room u \<Longrightarrow> in_loop u i s \<Longrightarrow> room s"
  by (auto simp: in_loop_def moves_def)

lemma run_while_body:
  assumes "room u" "in_loop u i s"
  shows "run2 u (parse_while_body k i start s)"
  unfolding parse_while_body_def
proof (rule bind12 [OF run_require [OF in_loopD(2) [OF assms(2)]]])
  fix t assume "moves s t"
  then have t: "in_loop u i t" by (rule in_loop_moves [OF assms(2)])
  have "run2 u (parse_compound k (instr OP_JUMP_IF_FALSE [0] t) \<bind> (\<lambda>x. finish (finish_loop i start (code_len t + 1) x)))"
    by (rule bind12 [OF run_compound [OF room_in_loop [OF assms(1) t] moves_instr [OF in_loopD(2) [OF t]]]])
      (intro run_finish moves_finish_loop in_loop_moves [OF t])
  then show "run2 u (if parse_had_error t then finish (leave_loop_stack t)
          else do { let (jif, s) = jump_instr OP_JUMP_IF_FALSE t;
                    s \<leftarrow> parse_compound k s;
                    finish (finish_loop i start jif s) })"
    using moves_leave [OF t] by (simp add: jump_instr_def run_finish)
qed

lemma run_for_in:
  assumes "room u" "in_loop u i s"
  shows "run2 u (parse_for_in k i n1 n2 s)"
proof -
  note r = room_in_loop [OF assms(1)]
  have rest: "run2 u (do { s \<leftarrow> parse_scoped k (emit_define n1 (case n2 of Some n \<Rightarrow> emit_define n t | None \<Rightarrow> t));
              finish (finish_loop i start patch s) })" if "in_loop u i t" for t start patch
  proof (rule bind12 [OF run_scoped [OF r [OF that]]])
    show "moves t (emit_define n1 (case n2 of Some n \<Rightarrow> emit_define n t | None \<Rightarrow> t))"
      using in_loopD(2) [OF that] by (cases n2) (simp_all add: moves_define)
  qed (intro run_finish moves_finish_loop in_loop_moves [OF that])
  have body: "run2 u (if parse_had_error s then finish (leave_loop_stack s)
            else do {
              let start = code_len s;
              let s = with_context i (\<lambda>c. c\<lparr>lc_iter_slots := (if range then 3 else 2), lc_top := start\<rparr>) s;
              let (patch, s) = jump_instr (if range then OP_ITER_RANGE else if n2 \<noteq> None then OP_ITER_NEXT_PAIR else OP_ITER_NEXT) s;
              s \<leftarrow> parse_scoped k (emit_define n1 (case n2 of Some n \<Rightarrow> emit_define n s | None \<Rightarrow> s));
              finish (finish_loop i start patch s) })" if s: "in_loop u i s" for s range
    unfolding Let_def jump_instr_def prod.case
    by (rule run_if, rule run_finish, rule moves_leave [OF s], rule rest, rule in_loop_moves [OF s],
      rule moves_instr, rule moves_set_top, rule in_loopD(2) [OF s])
  have steps: "run1 s (if range
                  then do { s \<leftarrow> call k (Binary 0) s;
                            (by, s) \<leftarrow> consume TOKEN_DOT_DOT s;
                            if by then call k (Binary 0) s else push_const (VInt 1) s }
                  else push_const (VInt 0) s)" if "in_loop u i s" for s range
    using r [OF that] in_loopD(2) [OF that] by (auto intro!: runs)
  show ?thesis unfolding parse_for_in_def
  proof (rule bind12 [OF run_call [OF r [OF assms(2)] in_loopD(2) [OF assms(2)]]])
    fix a assume "moves s a"
    then have a: "in_loop u i a" by (rule in_loop_moves [OF assms(2)])
    show "run2 u (do {
          (range, s) \<leftarrow> consume TOKEN_DOT_DOT a;
          if range \<and> n2 \<noteq> None
          then finish (leave_loop_stack (error_at ''Range does not support two loop variables'' s))
          else do {
            s \<leftarrow> (if range
                  then do { s \<leftarrow> call k (Binary 0) s;
                            (by, s) \<leftarrow> consume TOKEN_DOT_DOT s;
                            if by then call k (Binary 0) s else push_const (VInt 1) s }
                  else push_const (VInt 0) s);
            s \<leftarrow> require TOKEN_COLON (''expected '' @ quoted '':'' @ '' after for clause'') s;
            if parse_had_error s then finish (leave_loop_stack s)
            else do {
              let start = code_len s;
              let s = with_context i (\<lambda>c. c\<lparr>lc_iter_slots := (if range then 3 else 2), lc_top := start\<rparr>) s;
              let (patch, s) = jump_instr (if range then OP_ITER_RANGE else if n2 \<noteq> None then OP_ITER_NEXT_PAIR else OP_ITER_NEXT) s;
              s \<leftarrow> parse_scoped k (emit_define n1 (case n2 of Some n \<Rightarrow> emit_define n s | None \<Rightarrow> s));
              finish (finish_loop i start patch s) } } })"
    proof (rule bind22 [OF run_consume [OF in_loopD(2) [OF a]]], unfold prod.case, rule run_if, goal_cases)
      case (1 range b)
      note b = in_loop_moves [OF a 1(1)]
      show ?case by (rule run_finish, rule moves_leave, rule in_loop_moves [OF b], rule moves_error, rule in_loopD(2) [OF b])
    next
      case (2 range b)
      note b = in_loop_moves [OF a 2(1)]
      show ?case
      proof (rule bind12 [OF steps [OF b]], goal_cases)
        case (1 c)
        note c = in_loop_moves [OF b 1]
        show ?case by (rule bind12 [OF run_require [OF in_loopD(2) [OF c]]], rule body, rule in_loop_moves [OF c])
      qed
    qed
  qed
qed

end

end
