(* ===== verification/GrammarLaws.thy ===== *)
theory GrammarLaws
  imports ParserLaws
begin

text \<open>
  Statements, and the recursion itself: the fuelled \<open>grammar_run\<close> satisfies the contract
  \<open>grammar_calls\<close> when its fuel covers what is left of the source, so compilation ends on every
  source text.
\<close>

section \<open>Structs and imports\<close>

lemma fields_full:
  assumes "moves u s" "\<forall>v \<in> set vs. val_full (pheap s) v"
  shows "\<exists>r t. struct_fields ns vs s = Some (r, t) \<and> moves u t \<and>
    (\<forall>ns vs. r = Some (ns, vs) \<longrightarrow> (\<forall>v \<in> set vs. val_full (pheap t) v))"
  using assms
proof (induction "lex_measure s" arbitrary: s ns vs rule: less_induct)
  case less
  note full = less.prems(2)
  have step: "\<forall>v \<in> set vs. val_full (pheap t) v" if "moves s t" for t using full that by (simp add: moves_def)
  show ?case
  proof (cases "tok s = TOKEN_END_OF_FILE \<or> tok s = TOKEN_DEDENT")
    case True
    then show ?thesis using less.prems by (subst struct_fields.simps) (auto simp: equal_def)
  next
    case go: False
    show ?thesis
    proof (cases "tok s = TOKEN_NEW_LINE")
      case True
      obtain t where t: "lex s = Some t" "moves s t" "lex_measure t < lex_measure s"
        using lex_moves [OF movesD(1) [OF less.prems(1)]] go by metis
      show ?thesis using True t(1) less.hyps [OF t(3) moves_trans [OF less.prems(1) t(2)] step [OF t(2)]]
        by (subst struct_fields.simps) (simp add: equal_def consume_def)
    next
      case nl: False
      show ?thesis
      proof (cases "tok s = TOKEN_IDENTIFIER \<and> length ns < MAX_STRUCT_FIELDS")
        case False
        then show ?thesis using go nl less.prems moves_error
          by (subst struct_fields.simps) (auto simp: equal_def consume_def)
      next
        case True
        obtain n a where a: "add_token s = Some (n, a)" "moves s a"
          using run_add_token [OF moves_self [OF less.prems(1)]] unfolding run2_def by blast
        have ta: "tok a \<noteq> TOKEN_END_OF_FILE" "lex_measure a = lex_measure s"
          using add_pool_same a(1) True by (simp_all add: add_token_def)
        obtain b where b: "lex a = Some b" "moves a b" "lex_measure b < lex_measure s"
          using lex_moves [OF movesD(1) [OF a(2)]] ta by metis
        obtain eq c where c: "consume TOKEN_ASSIGN b = Some (eq, c)" "moves b c"
          using run_consume [OF moves_self [OF b(2)], of TOKEN_ASSIGN] unfolding run2_def by blast
        let ?d = "if eq then parse_literal_default c else Some (Some VNull, c)"
        obtain r d where d: "?d = Some (r, d)" "moves c d" "\<And>v. r = Some v \<Longrightarrow> val_full (pheap d) v"
        proof (cases eq)
          case True
          obtain r d where "parse_literal_default c = Some (r, d)" "moves c d" "\<And>v. r = Some v \<Longrightarrow> val_full (pheap d) v"
            by (rule literal_default [OF moves_self [OF c(2)]]) (rule that)
          then show thesis using that True by simp
        next
          case False
          then show thesis using that [of "Some VNull" c] moves_self [OF c(2)] by simp
        qed
        have sd: "moves s d" using a(2) b(2) c(2) d(2) moves_trans by blast
        show ?thesis
        proof (cases r)
          case None
          then show ?thesis using go nl True a(1) b(1) c(1) d(1) moves_trans [OF less.prems(1) sd] moves_error
            by (subst struct_fields.simps) (simp add: equal_def consume_def)
        next
          case (Some v)
          let ?e = "if \<not> equal TOKEN_DEDENT d \<and> \<not> equal TOKEN_END_OF_FILE d
                    then require TOKEN_NEW_LINE ''expected newline after struct field'' d else Some d"
          have "run1 d ?e" using moves_self [OF sd] by (auto intro!: runs)
          then obtain e where e: "?e = Some e" "moves d e" unfolding run1_def by blast
          have se: "moves s e" using sd e(2) by (rule moves_trans)
          have "lex_measure e < lex_measure s" using b(3) c(2) d(2) e(2) movesD(2) by (meson le_less_trans le_trans)
          moreover have "\<forall>w \<in> set (vs @ [v]). val_full (pheap e) w"
            using step [OF se] d(3) [OF Some] e(2) by (simp add: moves_def)
          ultimately show ?thesis
            using go nl True a(1) b(1) c(1) d(1) Some e(1) less.hyps [of e "vs @ [v]" "ns @ [n]"] moves_trans [OF less.prems(1) se]
            by (subst struct_fields.simps) (simp add: equal_def consume_def)
        qed
      qed
    qed
  qed
qed

lemma run_emit_fields: "moves u s \<Longrightarrow> \<forall>f \<in> set fs. val_full (pheap s) (snd f) \<Longrightarrow> run1 u (foldM emit_field fs s)"
proof (induction fs arbitrary: s)
  case (Cons f fs)
  let ?s = "set_chunk (chunk_emit (int (fst f)) (pchunk s)) s"
  have "val_full (pheap ?s) (snd f)" using Cons.prems(2) by simp
  from run_add_pool [OF moves_self [OF moves_emit_word [OF Cons.prems(1)]] this]
  obtain i t where t: "add_pool (snd f) ?s = Some (i, t)" "moves ?s t" unfolding run2_def by blast
  let ?t = "set_chunk (chunk_emit (int i) (pchunk t)) t"
  have "moves u ?t" using moves_trans [OF moves_emit_word [OF Cons.prems(1)] t(2)] by (rule moves_emit_word)
  moreover have "\<forall>f \<in> set fs. val_full (pheap ?t) (snd f)" using Cons.prems(2) t(2) by (simp add: moves_def)
  moreover have "emit_field f s = Some ?t" using t(1) by (simp add: emit_field_def Let_def)
  ultimately show ?case using Cons.IH [of ?t] by simp
qed (simp add: run_Some)

lemma run_struct [runs]:
  assumes "moves u s"
  shows "run2 u (parse_struct s)"
proof -
  have rest: "run2 u (do { (r, s) \<leftarrow> struct_fields [] [] t;
        case r of
          None \<Rightarrow> finish s
        | Some (ns, vs) \<Rightarrow> do {
            (_, s) \<leftarrow> consume TOKEN_DEDENT s;
            if ns = [] then fails ''Struct must have at least one field'' s
            else do { s \<leftarrow> foldM emit_field (zip ns vs) (instr OP_DEFINE_STRUCT [name, length ns] s); finish s } } })"
    if t: "moves u t" for t name
  proof -
    obtain r a where a: "struct_fields [] [] t = Some (r, a)" "moves u a" "\<And>ns vs. r = Some (ns, vs) \<Longrightarrow> \<forall>v \<in> set vs. val_full (pheap a) v"
      using fields_full [OF t, of "[]" "[]"] by auto
    show ?thesis
    proof (cases r)
      case None
      then show ?thesis using a by (simp add: run_finish)
    next
      case (Some q)
      obtain ns vs where q: "q = (ns, vs)" by (cases q)
      obtain b c where c: "consume TOKEN_DEDENT a = Some (b, c)" "moves a c"
        using run_consume [OF moves_self [OF a(2)], of TOKEN_DEDENT] unfolding run2_def by blast
      have uc: "moves u c" using a(2) c(2) by (rule moves_trans)
      have "\<forall>f \<in> set (zip ns vs). val_full (pheap c) (snd f)"
        using a(3) Some q c(2) by (auto simp: moves_def dest: set_zip_rightD)
      then have "run1 u (foldM emit_field (zip ns vs) (instr OP_DEFINE_STRUCT [name, length ns] c))"
        by (intro run_emit_fields moves_instr uc) simp
      then have "run2 u (if ns = [] then fails ''Struct must have at least one field'' c
            else do { s \<leftarrow> foldM emit_field (zip ns vs) (instr OP_DEFINE_STRUCT [name, length ns] c); finish s })"
        by (intro run_if run_finish uc bind_same)
      then show ?thesis using a(1) Some q c(1) by simp
    qed
  qed
  show ?thesis unfolding parse_struct_def
    by (rule run_if, rule run_finish, rule assms, rule bind22, rule run_add_token, rule assms, unfold prod.case)
      (intro bind12 [of u] run_lex run_require rest | assumption)+
qed

lemma run_import_path: "moves u s \<Longrightarrow> tok s = TOKEN_IDENTIFIER \<Longrightarrow> run2 u (import_path path s)"
proof (induction "lex_measure s" arbitrary: s path rule: less_induct)
  case less
  obtain x where x: "str_of (pheap s) (tok_value s) = Some x" using tok_string [OF less.prems(1)] less.prems(2) by auto
  obtain t where t: "lex s = Some t" "moves s t" "lex_measure t < lex_measure s"
    using lex_moves [OF movesD(1) [OF less.prems(1)]] less.prems(2) by (metis token_type.distinct)
  have ut: "moves u t" using less.prems(1) t(2) by (rule moves_trans)
  have rec: "run2 u (import_path p w)" if "moves t w" "tok w = TOKEN_IDENTIFIER" for p w
    using less.hyps [of w p] that t(3) movesD(2) [OF that(1)] moves_trans [OF ut] by simp
  have "run2 u (do { (dot, s) \<leftarrow> consume TOKEN_DOT t;
            if \<not> dot then Some (Some (p, q), s)
            else if \<not> equal TOKEN_IDENTIFIER s
            then Some (None, error_at msg s)
            else import_path p s })" for p q msg
    by (rule bind22 [OF run_consume [OF moves_self [OF t(2)]]], unfold prod.case)
      (auto intro!: run_if run_Some moves_error rec moves_trans [OF ut] simp: equal_def)
  then show ?case using x t(1) less.prems(1)
    by (subst import_path.simps) (simp add: Let_def run_Some moves_error)
qed

section \<open>Statements\<close>

context grammar_calls
begin

lemma run_for [runs]:
  assumes "room u" "moves u s"
  shows "run2 u (parse_for k s)"
proof (cases "length (loop_stack s) \<ge> LOOP_MAX")
  case True
  then show ?thesis using assms by (simp add: parse_for_def run_finish)
next
  case False
  define i where "i = length (loop_stack s)"
  define t where "t = s\<lparr>loop_stack := loop_stack s @ [\<lparr>lc_top = 0, lc_patches = [], lc_scope_depth = compile_scope_depth s, lc_iter_slots = 0\<rparr>]\<rparr>"
  have t: "in_loop u i t" using push_loop [OF assms(2)] False by (simp add: i_def t_def)
  note loop = in_loop_moves and room = room_in_loop [OF assms(1)] and self = in_loopD(2)
  have leave: "run2 u (finish (leave_loop_stack (error_at msg a)))" if "in_loop u i a" for a msg
    by (rule run_finish, rule moves_leave, rule loop [OF that], rule moves_error, rule self [OF that])
  have while: "run2 u (do { (err, s) \<leftarrow> k Postfix (emit_load n a);
                 if err \<noteq> 0 then finish s else do { s \<leftarrow> call k (BinaryOps 0) s; parse_while_body k i start s } })"
    if a: "in_loop u i a" for a n start
  proof (rule bind22 [OF run_calls [OF room [OF a] moves_load [OF self [OF a]]]], unfold prod.case, rule run_if)
    fix err b assume "moves a b"
    then have b: "in_loop u i b" by (rule loop [OF a])
    show "run2 u (finish b)" by (rule run_finish, rule in_loopD(1) [OF b])
    show "run2 u (call k (BinaryOps 0) b \<bind> parse_while_body k i start)"
      by (rule bind12 [OF run_call [OF room [OF b] self [OF b]]], rule run_while_body [OF assms(1)], rule loop [OF b])
  qed
  have names: "run2 u (do { (iter, s) \<leftarrow> consume TOKEN_IN a;
          if iter then parse_for_in k i n1 n2 s
          else do { let start = code_len s;
                    let s = with_context i (\<lambda>c. c\<lparr>lc_top := start\<rparr>) s;
                    (err, s) \<leftarrow> k Postfix (emit_load n1 s);
                    if err \<noteq> 0 then finish s
                    else do { s \<leftarrow> call k (BinaryOps 0) s; parse_while_body k i start s } } })"
    if a: "in_loop u i a" for a n1 n2
  proof (rule bind22 [OF run_consume [OF self [OF a]]], unfold prod.case Let_def, rule run_if)
    fix iter b assume "moves a b"
    then have b: "in_loop u i b" by (rule loop [OF a])
    show "run2 u (parse_for_in k i n1 n2 b)" by (rule run_for_in [OF assms(1) b])
    show "run2 u (do { (err, s) \<leftarrow> k Postfix (emit_load n1 (with_context i (\<lambda>c. c\<lparr>lc_top := code_len b\<rparr>) b));
        if err \<noteq> 0 then finish s else do { s \<leftarrow> call k (BinaryOps 0) s; parse_while_body k i (code_len b) s } })"
      by (rule while, rule loop [OF b], rule moves_set_top, rule self [OF b])
  qed
  have second: "run2 a (if pair then do { (n, s) \<leftarrow> add_token a; s \<leftarrow> lex s; Some (Some n, s) } else Some (None, a))"
    if "in_loop u i a" for a pair
    using self [OF that] by (auto intro!: runs)
  have named: "run2 u (do {
        (name1, s) \<leftarrow> add_token t;
        s \<leftarrow> lex s;
        (pair, s) \<leftarrow> consume TOKEN_COMMA s;
        if pair \<and> \<not> equal TOKEN_IDENTIFIER s
        then finish (leave_loop_stack (error_at (''Expected identifier after '' @ quoted '','') s))
        else do {
          (name2, s) \<leftarrow> (if pair then do { (n, s) \<leftarrow> add_token s; s \<leftarrow> lex s; Some (Some n, s) } else Some (None, s));
          (iter, s) \<leftarrow> consume TOKEN_IN s;
          if iter then parse_for_in k i name1 name2 s
          else do { let start = code_len s;
                    let s = with_context i (\<lambda>c. c\<lparr>lc_top := start\<rparr>) s;
                    (err, s) \<leftarrow> k Postfix (emit_load name1 s);
                    if err \<noteq> 0 then finish s
                    else do { s \<leftarrow> call k (BinaryOps 0) s; parse_while_body k i start s } } } })"
  proof (rule bind22 [OF run_add_token [OF self [OF t]]], unfold prod.case, goal_cases)
    case (1 n1 a)
    note a = loop [OF t 1]
    show ?case
    proof (rule bind12 [OF run_lex [OF self [OF a]]], goal_cases)
      case (1 b)
      note b = loop [OF a 1]
      show ?case
      proof (rule bind22 [OF run_consume [OF self [OF b]]], unfold prod.case, rule run_if, goal_cases)
        case (1 pair c)
        show ?case by (rule leave, rule loop [OF b 1(1)])
      next
        case (2 pair c)
        note c = loop [OF b 2(1)]
        show ?case by (rule bind22 [OF second [OF c]], unfold prod.case, rule names, rule loop [OF c])
      qed
    qed
  qed
  have plain: "run2 u (call k (Binary 0) (with_context i (\<lambda>c. c\<lparr>lc_top := n\<rparr>) t) \<bind> parse_while_body k i n)" for n
    by (rule bind12 [OF run_call [OF room [OF t] moves_set_top(1) [OF self [OF t]]]], rule run_while_body [OF assms(1)], rule loop [OF t])
  have "parse_for k s = (if equal TOKEN_IN t
      then finish (leave_loop_stack (error_at (''Expected loop variable name before '' @ quoted ''in'' @ ''; use '' @
             quoted ''for x in collection:'') t))
      else if equal TOKEN_IDENTIFIER t then do {
        (name1, s) \<leftarrow> add_token t;
        s \<leftarrow> lex s;
        (pair, s) \<leftarrow> consume TOKEN_COMMA s;
        if pair \<and> \<not> equal TOKEN_IDENTIFIER s
        then finish (leave_loop_stack (error_at (''Expected identifier after '' @ quoted '','') s))
        else do {
          (name2, s) \<leftarrow> (if pair then do { (n, s) \<leftarrow> add_token s; s \<leftarrow> lex s; Some (Some n, s) } else Some (None, s));
          (iter, s) \<leftarrow> consume TOKEN_IN s;
          if iter then parse_for_in k i name1 name2 s
          else do { let start = code_len s;
                    let s = with_context i (\<lambda>c. c\<lparr>lc_top := start\<rparr>) s;
                    (err, s) \<leftarrow> k Postfix (emit_load name1 s);
                    if err \<noteq> 0 then finish s
                    else do { s \<leftarrow> call k (BinaryOps 0) s; parse_while_body k i start s } } } }
      else call k (Binary 0) (with_context i (\<lambda>c. c\<lparr>lc_top := code_len t\<rparr>) t) \<bind> parse_while_body k i (code_len t))"
    using False by (simp only: parse_for_def Let_def i_def [symmetric] t_def [symmetric] if_False)
  then show ?thesis using leave [OF t] named plain by (simp only: split: if_split) simp
qed

lemma run_break [runs]:
  assumes "moves u s"
  shows "run2 u (parse_break s)"
proof -
  let ?i = "length (loop_stack s) - 1"
  let ?t = "(instr OP_POP [] ^^ lc_iter_slots (loop_stack s ! ?i)) (pop_loop_scopes (loop_stack s ! ?i) s)"
  have t: "moves u ?t" unfolding pop_loop_scopes_def by (intro moves_funpow moves_instr assms)
  have ls: "loop_stack ((instr op [] ^^ n) x) = loop_stack x" for op n x
    by (induction n) (simp_all add: instr_def set_chunk_def)
  have "moves u (with_context ?i (\<lambda>c. c\<lparr>lc_patches := lc_patches c @ [p]\<rparr>) (instr OP_JUMP [0] ?t))"
    if "length (lc_patches (loop_stack s ! ?i)) < BREAK_MAX" for p
    by (rule moves_context, rule moves_instr [OF t])
      (use that in \<open>simp add: instr_def set_chunk_def pop_loop_scopes_def ls\<close>)
  then show ?thesis using assms t
    by (auto simp: parse_break_def Let_def jump_instr_def intro!: run_finish moves_emit_word)
qed

lemma run_continue [runs]: "moves u s \<Longrightarrow> run2 u (parse_continue s)"
  unfolding parse_continue_def pop_loop_scopes_def Let_def by (auto intro!: runs moves_intros)

lemma run_defer [runs]: "room u \<Longrightarrow> moves u s \<Longrightarrow> run2 u (parse_defer k s)"
  unfolding parse_defer_def by (auto intro!: runs moves_intros)

lemma moves_tail_call [moves_intros]: "moves u s \<Longrightarrow> moves u (mark_tail_call s)"
  unfolding mark_tail_call_def by (auto intro!: moves_code)

lemma run_return [runs]: "room u \<Longrightarrow> moves u s \<Longrightarrow> run2 u (parse_return k s)"
  unfolding parse_return_def by (auto intro!: runs moves_intros)

lemma run_import [runs]:
  assumes "room u" "moves u s"
  shows "run2 u (parse_import k s)"
proof (cases "compile_scope_depth s = 0 \<and> tok s = TOKEN_IDENTIFIER")
  case False
  then show ?thesis using assms(2) by (auto simp: parse_import_def equal_def intro!: run_finish)
next
  case True
  have "run2 u (do { (r, s) \<leftarrow> import_path [] s;
        case r of
          None \<Rightarrow> finish s
        | Some (path, name) \<Rightarrow> do {
            (ok, s) \<leftarrow> k (Load name path) s;
            finish (set_chunk (snd (chunk_add_import (\<lambda>_. ok = 1) name (pchunk s))) s) } })"
    by (rule bind22 [OF run_import_path [OF assms(2)]])
      (use True assms(1) in \<open>auto intro!: runs moves_code simp: chunk_add_import_def split: prod.split\<close>)
  then show ?thesis using True by (simp add: parse_import_def equal_def)
qed

end

end
