(* ===== verification/ParseTotal.thy ===== *)
theory ParseTotal
  imports GrammarLaws
begin

text \<open>
  The recursion: \<open>grammar_run\<close> with fuel for five calls per token and a few more satisfies the
  contract of the recursive calls, for every loader of modules that keeps the contract
  \<open>module_loader\<close>. Parsing therefore ends, at the end of the file, within its tables.
\<close>

section \<open>Fuel\<close>

text \<open>How many calls can follow each other without a token between them.\<close>

fun rank :: "grammar \<Rightarrow> nat" where
  "rank (Binary p) = 3" | "rank (BinaryOps p) = 1" | "rank Unary = 2" | "rank Primary = 1"
| "rank (Commas n) = 4" | "rank (Entries n) = 4" | "rank Postfix = 1" | "rank (Steps p) = 2"
| "rank Statement = 1" | "rank Block = 2" | "rank (Top e) = 2" | "rank (Load name path) = 1"

text \<open>A statement takes a token, or fails where it stands.\<close>

definition advances :: "comp \<Rightarrow> ('a \<times> comp) option \<Rightarrow> bool" where
  "advances s r \<longleftrightarrow> (\<exists>x t. r = Some (x, t) \<and> moves s t \<and> (lex_measure t < lex_measure s \<or>
     tok t = tok s \<and> parse_had_error t \<and> recovered_at_boundary t = recovered_at_boundary s))"

lemma advances_run: "advances s r \<Longrightarrow> run2 s r"
  by (auto simp: advances_def run2_def)

lemma measure_pos: "comp_inv s \<Longrightarrow> 0 < lex_measure s"
  by (auto simp: comp_inv_def lex_inv_def levels_ok_def lex_measure_def)

locale fuelled =
  fixes k :: rec and n :: nat
  assumes same: "comp_inv s \<Longrightarrow> 5 * lex_measure s + rank g \<le> n \<Longrightarrow> run2 s (k g s)"
    and statement: "comp_inv s \<Longrightarrow> 5 * lex_measure s + 1 \<le> n \<Longrightarrow> advances s (k Statement s)"

lemma rank_le: "rank g \<le> 4"
  by (cases g) simp_all

sublocale fuelled \<subseteq> grammar_calls k "(n - 4) div 5"
proof unfold_locales
  fix s g assume s: "comp_inv s" "lex_measure s \<le> (n - 4) div 5"
  then have "5 * lex_measure s + rank g \<le> n"
    using measure_pos [OF s(1)] rank_le [of g] by linarith
  then show "run2 s (k g s)" by (rule same [OF s(1)])
qed

section \<open>Error recovery\<close>

lemma lex_progress:
  assumes "comp_inv s" "tok s \<noteq> TOKEN_END_OF_FILE"
  obtains t where "lex s = Some t" "moves s t" "lex_measure t < lex_measure s"
  using lex_moves [OF assms(1)] assms(2) by metis

lemma skip_until_stops:
  assumes "comp_inv s" "TOKEN_END_OF_FILE \<in> set stops"
  shows "\<exists>t. skip_until stops s = Some t \<and> moves s t \<and> (tok s \<notin> set stops \<longrightarrow> lex_measure t < lex_measure s)"
  using assms(1)
proof (induction "lex_measure s" arbitrary: s rule: less_induct)
  case less
  show ?case
  proof (cases "tok s \<in> set stops")
    case False
    then obtain t where t: "lex s = Some t" "moves s t" "lex_measure t < lex_measure s"
      using lex_progress [OF less.prems] assms(2) by metis
    obtain v where v: "skip_until stops t = Some v" "moves t v" using less.hyps [OF t(3) movesD(1) [OF t(2)]] by blast
    then show ?thesis using False t moves_trans [OF t(2) v(2)] movesD(2) [OF v(2)] by (subst skip_until.simps) simp
  qed (use less.prems moves_refl in \<open>subst skip_until.simps; simp\<close>)
qed

lemma skip_block_ends:
  assumes "comp_inv s" "tok s \<noteq> TOKEN_END_OF_FILE"
  shows "run1 s (skip_block d s)"
  using assms
proof (induction "lex_measure s" arbitrary: s d rule: less_induct)
  case less
  obtain t where t: "lex s = Some t" "moves s t" "lex_measure t < lex_measure s" by (rule lex_progress [OF less.prems])
  have "run1 t (skip_block e t)" if "tok t \<noteq> TOKEN_END_OF_FILE" for e by (rule less.hyps [OF t(3) movesD(1) [OF t(2)] that])
  then have "run1 s (skip_block e t)" if "tok t \<noteq> TOKEN_END_OF_FILE" for e using that by (intro run_mono(1) [OF t(2)])
  then show ?case using t(1,2) by (subst skip_block.simps) (simp add: Let_def equal_def run_Some)
qed

lemma skip_orphaned_ends: "moves u s \<Longrightarrow> run1 u (skip_orphaned_block s)"
  unfolding skip_orphaned_block_def
proof (intro run_if run_Some bind_same(1) [OF run_lex], assumption+)
  fix t assume "moves u t" "equal TOKEN_INDENT t"
  then show "run1 u (skip_block 0 t)"
    by (intro run_mono(1) [OF _ skip_block_ends]) (auto simp: equal_def dest: movesD)
qed

section \<open>The first token of a construct\<close>

context fuelled
begin

lemma room_next: "5 * lex_measure s \<le> n \<Longrightarrow> lex_measure t < lex_measure s \<Longrightarrow> room t"
  by linarith

lemma enter1:
  assumes "comp_inv s" "5 * lex_measure s \<le> n" "tok s \<noteq> TOKEN_END_OF_FILE"
    and f: "\<And>t. moves t t \<Longrightarrow> room t \<Longrightarrow> run1 t (f t)"
  shows "run1 s (lex s \<bind> f)"
proof -
  obtain t where t: "lex s = Some t" "moves s t" "lex_measure t < lex_measure s" using lex_moves [OF assms(1)] assms(3) by metis
  have "run1 t (f t)" using moves_self [OF t(2)] room_next [OF assms(2) t(3)] by (rule f)
  then show ?thesis using t(1) run_mono(1) [OF t(2)] by simp
qed

lemma enter:
  assumes "comp_inv s" "5 * lex_measure s \<le> n" "tok s \<noteq> TOKEN_END_OF_FILE"
    and f: "\<And>t. moves t t \<Longrightarrow> room t \<Longrightarrow> run2 t (f t)"
  shows "advances s (lex s \<bind> f)"
proof -
  obtain t where t: "lex s = Some t" "moves s t" "lex_measure t < lex_measure s" using lex_moves [OF assms(1)] assms(3) by metis
  obtain x v where "f t = Some (x, v)" "moves t v"
    using f [OF moves_self [OF t(2)] room_next [OF assms(2) t(3)]] unfolding run2_def by blast
  then show ?thesis using t moves_trans [OF t(2)] movesD(2) [of t v] by (auto simp: advances_def)
qed

lemmas enter2 = enter [THEN advances_run]

lemma add_token_first:
  assumes "comp_inv s"
  obtains i t where "add_token s = Some (i, t)" "moves s t" "tok t = tok s" "lex_measure t = lex_measure s"
proof -
  obtain i t where t: "add_token s = Some (i, t)" "moves s t"
    using run_add_token [OF moves_refl [OF assms]] unfolding run2_def by blast
  then show thesis using that add_pool_same by (simp add: add_token_def)
qed

lemma name1:
  assumes s: "comp_inv s" "5 * lex_measure s \<le> n" "tok s \<noteq> TOKEN_END_OF_FILE"
    and f: "\<And>i t. moves t t \<Longrightarrow> room t \<Longrightarrow> run1 t (f i t)"
  shows "run1 s (add_token s \<bind> (\<lambda>(i, s). lex s \<bind> f i))"
proof -
  obtain i t where t: "add_token s = Some (i, t)" "moves s t" "tok t = tok s" "lex_measure t = lex_measure s"
    by (rule add_token_first [OF s(1)])
  have "run1 t (lex t \<bind> f i)" by (rule enter1) (use t s f movesD(1) [OF t(2)] in auto)
  then show ?thesis using t(1) run_mono(1) [OF t(2)] by simp
qed

lemma name_advances:
  assumes s: "comp_inv s" "5 * lex_measure s \<le> n" "tok s \<noteq> TOKEN_END_OF_FILE"
    and f: "\<And>i t. moves t t \<Longrightarrow> room t \<Longrightarrow> run2 t (f i t)"
  shows "advances s (add_token s \<bind> (\<lambda>(i, s). lex s \<bind> f i))"
proof -
  obtain i t where t: "add_token s = Some (i, t)" "moves s t" "tok t = tok s" "lex_measure t = lex_measure s"
    by (rule add_token_first [OF s(1)])
  obtain v where v: "lex t = Some v" "moves t v" "lex_measure v < lex_measure t" using lex_moves [OF movesD(1) [OF t(2)]] s(3) t(3) by metis
  have "room v" using room_next [OF s(2)] v(3) t(4) by simp
  then obtain x w where "f i v = Some (x, w)" "moves v w"
    using f [OF moves_self [OF v(2)]] unfolding run2_def by blast
  then show ?thesis using t v moves_trans [OF moves_trans [OF t(2) v(2)]] movesD(2) [of v w] by (auto simp: advances_def)
qed

section \<open>Expressions\<close>

lemma binary_entry:
  assumes "comp_inv s" "5 * lex_measure s + 2 \<le> n"
  shows "run2 s (parse_binary k p s)"
proof -
  have "run1 s (call k Unary s)" using same [OF assms(1), of Unary] assms(2) by (auto simp: call_def run1_def run2_def)
  then show ?thesis unfolding parse_binary_def
  proof (rule bind12)
    fix t assume t: "moves s t"
    have "run2 t (k (BinaryOps p) t)" using same [OF movesD(1) [OF t], of "BinaryOps p"] assms(2) movesD(2) [OF t] by simp
    then show "run2 s (k (BinaryOps p) t)" by (rule run_mono(2) [OF t])
  qed
qed

lemma binary_op_token: "map_of binary_ops t = Some q \<Longrightarrow> t \<noteq> TOKEN_END_OF_FILE"
  by (auto simp: binary_ops_def)

lemma ops_entry:
  assumes "comp_inv s" "5 * lex_measure s \<le> n"
  shows "run2 s (parse_binary_ops k p s)"
proof (cases "map_of binary_ops (tok s)")
  case None
  then show ?thesis using assms by (simp add: parse_binary_ops_def run_finish moves_refl)
next
  case (Some q)
  obtain prec op where q: "q = (prec, op)" by (cases q)
  have "run2 s (do {
            s \<leftarrow> lex s;
            (go, s) \<leftarrow> (if op = OP_AND then map_option (Pair True) (short_circuit k OP_JUMP_IF_FALSE False prec s)
                        else if op = OP_OR then map_option (Pair True) (short_circuit k OP_JUMP_IF_TRUE True prec s)
                        else if op = OP_PIPE then parse_pipe k s
                        else if op = OP_CAST then parse_cast s
                        else map_option (\<lambda>s. (True, instr op [] s)) (call k (Binary prec) s));
            if go then k (BinaryOps p) s else finish s })"
  proof (rule enter2 [OF assms binary_op_token [OF Some]])
    fix t assume t: "moves t t" "room t"
    have op: "run2 t (map_option (\<lambda>s. (True, instr op [] s)) (call k (Binary prec) t))"
      using run_call [OF t(2,1), of "Binary prec"] by (auto simp: run1_def run2_def moves_instr)
    show "run2 t (do { (go, s) \<leftarrow> (if op = OP_AND then map_option (Pair True) (short_circuit k OP_JUMP_IF_FALSE False prec t)
                        else if op = OP_OR then map_option (Pair True) (short_circuit k OP_JUMP_IF_TRUE True prec t)
                        else if op = OP_PIPE then parse_pipe k t
                        else if op = OP_CAST then parse_cast t
                        else map_option (\<lambda>s. (True, instr op [] s)) (call k (Binary prec) t));
            if go then k (BinaryOps p) s else finish s })"
      using t op by (auto intro!: runs)
  qed
  then show ?thesis using Some q assms by (simp add: parse_binary_ops_def run_finish moves_refl)
qed

lemma deeper_entry:
  assumes s: "comp_inv s" and f: "\<And>v. comp_inv v \<Longrightarrow> lex_measure v = lex_measure s \<Longrightarrow> run1 v (f v)"
  shows "run2 s (deeper f s)"
proof (cases "expr_depth s \<ge> EXPR_DEPTH_MAX")
  case True
  then show ?thesis using moves_refl [OF s] by (simp add: deeper_def expr_depth_enter_def run_finish moves_error)
next
  case False
  let ?v = "s\<lparr>expr_depth := expr_depth s + 1\<rparr>"
  have v: "comp_inv ?v" "lex_measure ?v = lex_measure s" using s False by (simp_all add: comp_inv_depth)
  have "run2 s (f ?v \<bind> (\<lambda>t. finish (expr_depth_leave t)))"
  proof (rule bind12 [OF f [OF v]], rule run_finish)
    fix t assume "moves ?v t"
    then show "moves s (expr_depth_leave t)"
      using s False by (simp add: moves_def expr_depth_leave_def nesting_def comp_inv_depth)
  qed
  then show ?thesis using False by (simp add: deeper_def expr_depth_enter_def)
qed

lemma unary_entry:
  assumes "comp_inv s" "5 * lex_measure s + 1 \<le> n"
  shows "run2 s (parse_unary k s)"
  unfolding parse_unary_def
proof (rule deeper_entry [OF assms(1)])
  fix v assume v: "comp_inv v" "lex_measure v = lex_measure s"
  show "run1 v (parse_unary_inner k v)"
  proof (cases "unary_op (tok v)")
    case None
    have "run1 v (call k Primary v)" using same [OF v(1), of Primary] v(2) assms(2) by (auto simp: call_def run1_def run2_def)
    then show ?thesis using None by (simp add: parse_unary_inner_def)
  next
    case (Some op)
    have "tok v \<noteq> TOKEN_END_OF_FILE" using Some by (auto simp: unary_op_def)
    then have "run1 v (lex v \<bind> (\<lambda>s. call k Unary s \<bind> (\<lambda>s. Some (instr op [] s))))"
      using v assms(2) by (intro enter1) (auto intro!: runs moves_intros)
    then show ?thesis using Some by (simp add: parse_unary_inner_def)
  qed
qed

lemma name_entry:
  assumes "comp_inv s" "5 * lex_measure s \<le> n" "tok s = TOKEN_IDENTIFIER"
  shows "run1 s (parse_name k s)"
  unfolding parse_name_def
proof (rule name1)
  fix i t assume "moves t t" "room t"
  then show "run1 t (do { (paren, s) \<leftarrow> consume TOKEN_OPEN_PARENTHESE t;
          s \<leftarrow> (if paren then parse_call_args k i s
                else do { (br, s) \<leftarrow> consume TOKEN_OPEN_BRACKET s;
                          if br then parse_name_index k i s else Some (emit_load i s) });
          call k Postfix s })"
    by (auto intro!: runs moves_intros)
qed (use assms in simp_all)

lemma module_call_entry:
  assumes "comp_inv s" "5 * lex_measure s \<le> n" "tok s = TOKEN_IDENTIFIER"
  shows "run1 s (parse_module_call k s)"
  unfolding parse_module_call_def
  by (rule name1) (use assms in \<open>auto intro!: runs moves_intros\<close>)

lemma enter_token:
  assumes s: "comp_inv s" "5 * lex_measure s \<le> n" and t: "equal t s" "t \<noteq> TOKEN_END_OF_FILE"
  shows "(\<And>t. moves t t \<Longrightarrow> room t \<Longrightarrow> run1 t (f t)) \<Longrightarrow> run1 s (lex s \<bind> f)"
    "(\<And>t. moves t t \<Longrightarrow> room t \<Longrightarrow> run2 t (g t)) \<Longrightarrow> run2 s (lex s \<bind> g)"
  using enter1 [OF s] enter2 [OF s] t by (auto simp: equal_def)

lemma primary_inner_entry:
  assumes s: "comp_inv s" "5 * lex_measure s \<le> n"
  shows "run1 s (parse_primary_inner k s)"
proof -
  note self = moves_refl [OF s(1)] and go = enter_token(1) [OF s]
  have ident: "run1 s (at_module_name s \<bind> (\<lambda>md. if md then parse_module_call k s else parse_name k s))"
    if "equal TOKEN_IDENTIFIER s"
    using that name_entry [OF s] module_call_entry [OF s] by (intro run_module_name(1) [OF self]) (simp add: equal_def)
  have str: "run1 s (str_of (pheap s) (tok_value s) \<bind> (\<lambda>t. parse_string t s))" if str: "equal TOKEN_STRING s"
  proof -
    obtain x where "str_of (pheap s) (tok_value s) = Some x"
      by (rule tok_string [OF self]) (use str in \<open>auto simp: equal_def\<close>)
    then show ?thesis using run_string [OF self] by simp
  qed
  show ?thesis unfolding parse_primary_inner_def
    by (intro run_if run_case run_literal [OF self] str ident run_Some moves_error self;
      (assumption | erule go, simp, auto intro!: runs moves_intros))
qed

lemma primary_entry: "comp_inv s \<Longrightarrow> 5 * lex_measure s \<le> n \<Longrightarrow> run2 s (parse_primary k s)"
  unfolding parse_primary_def by (rule deeper_entry) (auto intro: primary_inner_entry)

text \<open>A list: an expression, then a comma and the rest.\<close>

lemma same_binary: "comp_inv s \<Longrightarrow> 5 * lex_measure s + 3 \<le> n \<Longrightarrow> run1 s (call k (Binary p) s)"
  using same [of s "Binary p"] by (auto simp: call_def run1_def run2_def)

lemma comma_next:
  assumes "comp_inv s" "5 * lex_measure s \<le> n"
  shows "run2 s (do { (more, s) \<leftarrow> consume TOKEN_COMMA s; if more then k g s else Some (x, s) })"
proof (cases "tok s = TOKEN_COMMA")
  case True
  have "run2 s (lex s \<bind> k g)" by (rule enter2 [OF assms]) (use True in \<open>auto intro!: runs\<close>)
  then show ?thesis using True by (cases "lex s") (simp_all add: consume_def equal_def)
qed (use assms in \<open>simp add: consume_def equal_def run_Some moves_refl\<close>)

lemma commas_entry:
  assumes s: "comp_inv s" "5 * lex_measure s + 3 \<le> n"
  shows "run2 s (parse_commas k i s)"
  unfolding parse_commas_def
proof (rule bind12 [OF same_binary [OF s]])
  fix t assume t: "moves s t"
  show "run2 s (do { (more, s) \<leftarrow> consume TOKEN_COMMA t; if more then k (Commas (i + 1)) s else Some (i + 1, s) })"
    using s(2) movesD [OF t] by (intro run_mono(2) [OF t] comma_next) simp_all
qed

lemma run_at:
  assumes "moves s t" "5 * lex_measure s + c \<le> n"
  shows "comp_inv t" "5 * lex_measure t + c \<le> n"
  using movesD [OF assms(1)] assms(2) by simp_all

lemma entries_entry:
  assumes s: "comp_inv s" "5 * lex_measure s + 3 \<le> n"
  shows "run2 s (parse_entries k i s)"
  unfolding parse_entries_def
proof (rule bind12 [OF same_binary [OF s]], rule bind12 [OF run_require], assumption, goal_cases)
  case (1 a b)
  show ?case
  proof (rule bind12 [OF same_binary [OF run_at [OF 1(2) s(2)]]], goal_cases)
    case (1 c)
    have c: "moves s c" using \<open>moves s b\<close> 1 by (rule moves_trans)
    show ?case using run_at [OF c s(2)] by (intro run_mono(2) [OF c] comma_next) simp_all
  qed
qed

section \<open>Postfix chains and targets\<close>

lemma postfix_entry:
  assumes s: "comp_inv s" "5 * lex_measure s \<le> n"
  shows "run2 s (parse_postfix k s)"
  unfolding parse_postfix_def
  by (intro run_if run_finish moves_refl s;
    (erule enter_token(2) [OF s], simp, auto intro!: runs moves_intros))

lemma map_option_bind: "map_option f m = m \<bind> (\<lambda>x. Some (f x))"
  by (cases m) simp_all

lemma consume_is: "tok s = t \<Longrightarrow> consume t s = lex s \<bind> (\<lambda>s. Some (True, s))" "tok s \<noteq> t \<Longrightarrow> consume t s = Some (False, s)"
  by (simp_all add: consume_def equal_def map_option_bind)

lemma target_entry:
  assumes s: "comp_inv s" "5 * lex_measure s \<le> n" "equal TOKEN_OPEN_BRACKET s \<or> equal TOKEN_DOT s"
    and f: "\<And>p t. moves t t \<Longrightarrow> room t \<Longrightarrow> run2 t (f (p, t))"
  shows "run2 s (target_step k s \<bind> f)"
proof -
  have f': "run2 u (f (p, t))" if "room u" "moves u t" for u p t
    by (rule run_mono(2) [OF that(2)], rule f [OF moves_self [OF that(2)] room_moves [OF that]])
  show ?thesis
  proof (cases "tok s = TOKEN_OPEN_BRACKET")
    case True
    have "run2 s (lex s \<bind> (\<lambda>s. call k (Binary 0) s \<bind> (\<lambda>s.
        require TOKEN_CLOSE_BRACKET (''expected '' @ quoted '']'' @ '' after index'') s \<bind> (\<lambda>s. f (Some None, s)))))"
      by (rule enter2 [OF s(1,2)]) (use True in \<open>auto intro!: runs f'\<close>)
    then show ?thesis using True by (simp add: target_step_def consume_is)
  next
    case False
    then have d: "tok s = TOKEN_DOT" using s(3) by (auto simp: equal_def)
    have "run2 s (lex s \<bind> (\<lambda>s. if \<not> equal TOKEN_IDENTIFIER s then f (None, error_at no_field_msg s)
          else add_token s \<bind> (\<lambda>(x, s). lex s \<bind> (\<lambda>s. f (Some (Some x), s)))))"
      by (rule enter2 [OF s(1,2)]) (use d in \<open>auto intro!: runs moves_intros f'\<close>)
    also have "lex s \<bind> (\<lambda>s. if \<not> equal TOKEN_IDENTIFIER s then f (None, error_at no_field_msg s)
          else add_token s \<bind> (\<lambda>(x, s). lex s \<bind> (\<lambda>s. f (Some (Some x), s)))) = target_step k s \<bind> f"
      using d by (cases "lex s") (simp_all add: target_step_def consume_is split_def)
    finally show ?thesis .
  qed
qed

lemma emit_get_same [simp]: "tok (emit_get p s) = tok s" "lex_measure (emit_get p s) = lex_measure s"
  by (simp_all add: emit_get_def instr_def set_chunk_def lex_measure_def split: option.split)

lemma steps_entry:
  assumes s: "comp_inv s" "5 * lex_measure s + 1 \<le> n"
  shows "run2 s (parse_steps k p s)"
proof -
  let ?g = "emit_get p s"
  have g: "moves s ?g" using moves_refl [OF s(1)] by (rule moves_get_set)
  have le: "5 * lex_measure s \<le> n" using s(2) by simp
  have tgt: "run2 s (target_step k ?g \<bind> (\<lambda>(p, s). case p of None \<Rightarrow> finish s | Some p \<Rightarrow> k (Steps p) s))"
    if "equal TOKEN_OPEN_BRACKET s \<or> equal TOKEN_DOT s"
    by (rule run_mono(2) [OF g], rule target_entry) (use that movesD(1) [OF g] le in \<open>auto simp: equal_def intro!: runs split: option.split\<close>)
  have post: "run2 s (k Postfix ?g \<bind> (\<lambda>(err, s). if err \<noteq> 0 then finish s
      else do { s \<leftarrow> call k (BinaryOps 0) s; finish (emit_discard s) }))"
  proof (rule bind22, rule run_mono(2) [OF g], rule same, rule movesD(1) [OF g], use s in simp, unfold prod.case, rule run_if, erule run_finish)
    fix t assume t: "moves s t"
    have "run1 t (call k (BinaryOps 0) t)"
      using same [OF run_at(1) [OF t s(2)], of "BinaryOps 0"] run_at(2) [OF t s(2)] by (auto simp: call_def run1_def run2_def)
    then have "run1 s (call k (BinaryOps 0) t)" by (rule run_mono(1) [OF t])
    then show "run2 s (call k (BinaryOps 0) t \<bind> (\<lambda>s. finish (emit_discard s)))"
      by (rule bind12) (intro run_finish moves_discard)
  qed
  show ?thesis unfolding parse_steps_def
    by (intro run_if tgt post run_finish moves_refl s;
      (assumption | erule enter_token(2) [OF s(1) le], simp, auto intro!: runs moves_intros))
qed

section \<open>Statements\<close>

lemma advances_fails: "comp_inv s \<Longrightarrow> advances s (fails msg s)"
  by (simp add: advances_def fails_def moves_error moves_refl) (simp add: error_at_def)

lemma call_statement_entry:
  assumes "comp_inv s" "5 * lex_measure s \<le> n" "tok s = TOKEN_IDENTIFIER"
  shows "advances s (parse_module_call k s \<bind> (\<lambda>s. finish (emit_discard s)))"
proof -
  let ?f = "\<lambda>md s. consume TOKEN_DOT s \<bind> (\<lambda>(dot, s).
      (if \<not> dot then Some (error_at module_value_msg s)
          else if \<not> equal TOKEN_IDENTIFIER s then Some (error_at (''Expected a function name after '' @ quoted ''.'') s)
          else do { (fn, s) \<leftarrow> add_token s;
                    s \<leftarrow> lex s;
                    s \<leftarrow> require TOKEN_OPEN_PARENTHESE (''expected '' @ quoted ''('' @ '' after module function name'') s;
                    (n, s) \<leftarrow> parse_arg_list k s;
                    Some (if pipe_forbid_calls s then error_at no_calls_msg s
                          else instr OP_CALL_MODULE [md, fn, n] s) }))"
  have "advances s (add_token s \<bind> (\<lambda>(i, s). lex s \<bind> (\<lambda>s. ?f i s \<bind> (\<lambda>s. finish (emit_discard s)))))"
  proof (rule name_advances)
    fix md t assume t: "moves t t" "room t"
    then have "run1 t (?f md t)" by (auto intro!: runs moves_intros)
    then show "run2 t (?f md t \<bind> (\<lambda>s. finish (emit_discard s)))" by (rule bind12) (intro run_finish moves_discard)
  qed (use assms in simp_all)
  then show ?thesis by (simp add: parse_module_call_def split_def)
qed

lemma assignment_entry:
  assumes "comp_inv s" "5 * lex_measure s \<le> n" "tok s = TOKEN_IDENTIFIER"
  shows "advances s (parse_assignment k s)"
  unfolding parse_assignment_def
  by (rule name_advances) (use assms in \<open>auto intro!: runs moves_intros split: prod.split\<close>)

lemma statement_entry:
  assumes s: "comp_inv s" "5 * lex_measure s \<le> n"
  shows "advances s (parse_statement k s)"
proof -
  have go: "advances s (lex s \<bind> f)" if "tok s \<noteq> TOKEN_END_OF_FILE" "\<And>t. moves t t \<Longrightarrow> room t \<Longrightarrow> run2 t (f t)" for f
    by (rule enter [OF s that])
  have ident: "advances s (do { md \<leftarrow> at_module_name s;
               if md then do { s \<leftarrow> parse_module_call k s; finish (emit_discard s) } else parse_assignment k s })"
    if t: "tok s = TOKEN_IDENTIFIER"
  proof -
    obtain md where "at_module_name s = Some md" by (rule at_module_some [OF moves_refl [OF s(1)]])
    then show ?thesis using call_statement_entry [OF s t] assignment_entry [OF s t] by simp
  qed
  show ?thesis unfolding parse_statement_def
    by (cases "tok s") (auto intro!: go ident advances_fails s(1) runs)
qed

section \<open>Blocks and files\<close>

lemma guarded_statement_advances:
  assumes s: "comp_inv s" "5 * lex_measure s + 1 \<le> n" and stops: "TOKEN_END_OF_FILE \<in> set stops" "tok s \<notin> set stops"
  obtains t where "guarded_statement k stops s = Some t" "moves s t" "lex_measure t < lex_measure s"
proof -
  let ?v = "set_chunk (chunk_mark_line (code_len s) (current_source_line s) (pchunk s))
    (s\<lparr>parse_had_error := False, recovered_at_boundary := False\<rparr>)"
  let ?undo = "\<lambda>t. let t = truncate_code (code_len s) t in
    set_chunk ((pchunk t)\<lparr>line_marks := take (length (line_marks (pchunk s))) (line_marks (pchunk t))\<rparr>) t"
  have "moves s (s\<lparr>parse_had_error := False, recovered_at_boundary := False\<rparr>)" by (intro moves_flags moves_refl s)
  then have v: "moves s ?v" by (rule moves_code) (simp_all add: chunk_mark_line_def)
  have same_v: "lex_measure ?v = lex_measure s" "tok ?v = tok s" "recovered_at_boundary ?v = False"
    by (simp_all add: set_chunk_def lex_measure_def)
  obtain x t where t: "k Statement ?v = Some (x, t)" "moves ?v t" and step: "lex_measure t < lex_measure s \<or>
      tok t = tok s \<and> parse_had_error t \<and> \<not> recovered_at_boundary t"
    using statement [OF movesD(1) [OF v]] s(2) same_v unfolding advances_def by auto
  have st: "moves s t" by (rule moves_trans [OF v t(2)])
  have "moves s (truncate_code (code_len s) t)" using st by (rule moves_truncate)
  then have undo: "moves s (?undo t)" unfolding Let_def by (rule moves_code) simp_all
  have same_b: "lex_measure (?undo t) = lex_measure t" "tok (?undo t) = tok t" "recovered_at_boundary (?undo t) = recovered_at_boundary t"
    by (simp_all add: set_chunk_def lex_measure_def truncate_code_def Let_def)
  have eq: "guarded_statement k stops s = (if \<not> parse_had_error t then Some t
      else if recovered_at_boundary (?undo t) then Some (?undo t) else skip_until stops (?undo t) \<bind> skip_orphaned_block)"
    using t(1) by (simp add: guarded_statement_def call_def Let_def)
  show thesis
  proof (cases "parse_had_error t \<and> \<not> recovered_at_boundary t")
    case False
    then show thesis using that [of t] that [of "?undo t"] st undo step same_b eq by (cases "parse_had_error t") simp_all
  next
    case True
    obtain a where a: "skip_until stops (?undo t) = Some a" "moves (?undo t) a"
      "tok (?undo t) \<notin> set stops \<longrightarrow> lex_measure a < lex_measure (?undo t)"
      using skip_until_stops [OF movesD(1) [OF undo] stops(1)] by blast
    have less: "lex_measure a < lex_measure s"
      using step a(3) movesD(2) [OF a(2)] movesD(2) [OF undo] stops(2) same_b by auto
    obtain b where b: "skip_orphaned_block a = Some b" "moves a b"
      using skip_orphaned_ends [OF moves_self [OF a(2)]] unfolding run1_def by blast
    show thesis
    proof (rule that)
      show "guarded_statement k stops s = Some b" using eq True same_b a(1) b(1) by simp
      show "moves s b" by (rule moves_trans [OF moves_trans [OF undo a(2)] b(2)])
      show "lex_measure b < lex_measure s" using less movesD(2) [OF b(2)] by simp
    qed
  qed
qed

lemma same_less:
  assumes "moves s t" "lex_measure t < lex_measure s" "5 * lex_measure s \<le> n"
  shows "run2 s (k g t)"
proof -
  have "5 * lex_measure t + rank g \<le> n" using assms(2,3) rank_le [of g] by linarith
  then show ?thesis by (intro run_mono(2) [OF assms(1)] same movesD(1) [OF assms(1)])
qed

lemma guarded_then:
  assumes "comp_inv s" "5 * lex_measure s + 1 \<le> n" "TOKEN_END_OF_FILE \<in> set stops" "tok s \<notin> set stops"
  shows "run2 s (guarded_statement k stops s \<bind> (\<lambda>t. k (g t) t))"
proof -
  obtain t where "guarded_statement k stops s = Some t" "moves s t" "lex_measure t < lex_measure s"
    by (rule guarded_statement_advances [OF assms])
  then show ?thesis using same_less [of s t] assms(2) by simp
qed

lemma block_entry:
  assumes s: "comp_inv s" "5 * lex_measure s + 1 \<le> n"
  shows "run2 s (parse_block k s)"
proof -
  have le: "5 * lex_measure s \<le> n" using s(2) by simp
  show ?thesis unfolding parse_block_def
    by (intro run_if run_finish moves_refl s guarded_then [OF s] ;
      (erule enter_token(2) [OF s(1) le], simp, auto intro!: runs | auto simp: equal_def))
qed

lemma top_entry:
  assumes s: "comp_inv s" "5 * lex_measure s + 1 \<le> n"
  shows "run2 s (parse_top k e s)"
proof -
  have le: "5 * lex_measure s \<le> n" using s(2) by simp
  have nl: "run2 s (lex s \<bind> (\<lambda>s. k (Top e) s))" if "equal TOKEN_NEW_LINE s \<or> equal TOKEN_DEDENT s"
    by (rule enter2 [OF s(1) le]) (use that in \<open>auto simp: equal_def intro!: runs\<close>)
  show ?thesis unfolding parse_top_def
    by (intro run_if run_finish moves_if moves_flags moves_refl s nl guarded_then [OF s]) (auto simp: equal_def)
qed

end

section \<open>Every call\<close>

locale module_loader =
  fixes ld :: loader
  assumes loads: "comp_inv s \<Longrightarrow> run2 s (ld name path s)"
begin

lemma step_fuelled:
  assumes "fuelled k n"
  shows "fuelled (grammar_step ld k) (Suc n)"
proof
  fix s g assume s: "comp_inv s" "5 * lex_measure s + rank g \<le> Suc n"
  note ft = fuelled.binary_entry [OF assms s(1)] fuelled.ops_entry [OF assms s(1)] fuelled.unary_entry [OF assms s(1)]
    fuelled.primary_entry [OF assms s(1)] fuelled.commas_entry [OF assms s(1)] fuelled.entries_entry [OF assms s(1)]
    fuelled.postfix_entry [OF assms s(1)] fuelled.steps_entry [OF assms s(1)] fuelled.block_entry [OF assms s(1)]
    fuelled.top_entry [OF assms s(1)] advances_run [OF fuelled.statement_entry [OF assms s(1)]] loads [OF s(1)]
  show "run2 s (grammar_step ld k g s)" using s(2) ft by (cases g) simp_all
next
  fix s assume "comp_inv s" "5 * lex_measure s + 1 \<le> Suc n"
  then show "advances s (grammar_step ld k Statement s)" using fuelled.statement_entry [OF assms] by simp
qed

lemma run_fuelled: "fuelled (grammar_run ld n) n"
proof (induction n)
  case 0
  show ?case using measure_pos by unfold_locales fastforce+
next
  case (Suc n)
  have "grammar_run ld (Suc n) = grammar_step ld (grammar_run ld n)" by (intro ext) simp
  then show ?case using step_fuelled [OF Suc] by simp
qed

end

sublocale module_loader \<subseteq> grammar: fuelled "grammar_run ld n" n for n
  by (rule run_fuelled)

text \<open>The loop over a file ends at its end only.\<close>

lemma top_at_end: "grammar_run ld n (Top e) s = Some (x, t) \<Longrightarrow> tok t = TOKEN_END_OF_FILE"
proof (induction n arbitrary: e s)
  case (Suc n)
  then show ?case
    by (auto simp: parse_top_def finish_def equal_def split: if_splits bind_splits)
qed simp

context module_loader
begin

lemma parse_ends:
  assumes "comp_inv s"
  obtains t where "parse ld (parse_fuel s) s = Some t" "moves s t" "tok t = TOKEN_END_OF_FILE"
proof -
  have "run2 s (grammar_run ld (parse_fuel s) (Top False) s)"
    by (rule grammar.same [OF assms]) (simp add: parse_fuel_def)
  then show thesis using that top_at_end unfolding run2_def parse_def call_def by fastforce
qed

end

section \<open>Imports of files that are not there\<close>

lemma missing_file:
  assumes s: "comp_inv s" and no: "contents fs path = None"
  shows "run2 s (load_file w fs ld name path s)"
proof -
  let ?t = "instr OP_HALT [] (error_at (''Cannot open file: '' @ path) (fresh_unit s))"
  let ?m = "(pmach ?t)\<lparr>runtime_had_error := False, chunk := pchunk s, vm := vm (pmach s), modules := modules (pmach ?t)\<rparr>"
  have "moves s ((set_pmach ?m ?t)\<lparr>lexer := lexer s, tok := tok s, tok_value := tok_value s\<rparr>)"
    by (rule moves_upd [OF moves_refl [OF s]])
      (use comp_invD(3,4) [OF s] in \<open>simp_all add: fresh_unit_def set_pmach_def error_at_def nesting_def tables_ok_def heap_ext_refl instr_def set_chunk_def\<close>)
  then show ?thesis using no
    by (simp add: load_file_def compile_file_def read_file_def Let_def run_Some)
qed

lemma missing_module:
  assumes s: "comp_inv s" and no: "\<And>path. contents fs path = None"
  shows "run2 s (import_with w (aer_module_load w fs (Suc d) loading) name path s)"
  using moves_refl [OF s] missing_file [OF s no]
  by (auto simp: import_with_def module_load_def Let_def intro!: runs moves_error)

interpretation missing: module_loader "import_with w (aer_module_load w \<lparr>contents = \<lambda>_. None, aer_path = p\<rparr> (Suc d) loading)"
  for w p d loading
  by unfold_locales (rule missing_module; simp)

section \<open>Whole files\<close>

lemma chunk_ok_init: "chunk_ok h chunk_init"
  by (simp add: chunk_ok_def chunk_init_def payloads_below_def ht_zero_def tab_ok_def ht_inv_def HT_COUNT_SAFE_def)

lemma comp_inv_init: "comp_inv (comp_init sh (source_lexer name txt) mach_init)"
  by (simp add: comp_inv_def lex_inv_def comp_init_def source_lexer_def indent_reset_def mach_init_def heap_init_inv
    levels_ok_def tok_ok_def tables_ok_def chunk_ok_init)

text \<open>C3: from every state of the compiler that keeps its invariant, and with every loader
  of modules that does, parsing returns with the fuel of five calls per token: it stops at the end
  of the file and nowhere else, nested as deep as it was, and with every fixed table of the parser
  (loops, break patches, captured names, parameters, the expression depth) within its bounds,
  whatever the source text is and however often it recovers from errors.
\<close>

theorem parse_total:
  assumes "\<And>name path s. comp_inv s \<Longrightarrow> run2 s (ld name path s)" and "comp_inv s"
  shows "\<exists>t. parse ld (parse_fuel s) s = Some t \<and> tok t = TOKEN_END_OF_FILE \<and> nesting t = nesting s \<and> comp_inv t \<and> tables_ok t"
proof -
  have "module_loader ld" by unfold_locales (rule assms(1))
  then obtain t where "parse ld (parse_fuel s) s = Some t" "moves s t" "tok t = TOKEN_END_OF_FILE"
    using module_loader.parse_ends [OF _ assms(2)] by blast
  then show ?thesis by (auto simp: moves_def comp_inv_def)
qed

theorem parse_total_witness:
  "\<exists>t. parse (import_with demo_world (aer_module_load demo_world \<lparr>contents = \<lambda>_. None, aer_path = None\<rparr> 1 []))
      (parse_fuel (comp_init False (source_lexer ''a.aer'' ''x = 1'') mach_init))
      (comp_init False (source_lexer ''a.aer'' ''x = 1'') mach_init) = Some t \<and>
    tok t = TOKEN_END_OF_FILE \<and> nesting t = (False, 0, 0, 0, False, False, [], 0)"
proof -
  let ?ld = "import_with demo_world (aer_module_load demo_world \<lparr>contents = \<lambda>_. None, aer_path = None\<rparr> 1 [])"
  have "run2 s (?ld name path s)" if "comp_inv s" for name path s
    using missing.loads [OF that, of demo_world None 0 "[]"] by simp
  then have "\<exists>t. parse ?ld (parse_fuel s) s = Some t \<and> tok t = TOKEN_END_OF_FILE \<and> nesting t = nesting s \<and> comp_inv t \<and> tables_ok t"
    if "comp_inv s" for s
    by (intro parse_total that) blast
  from this [OF comp_inv_init [of False "''a.aer''" "''x = 1''"]]
  have "\<exists>t. parse ?ld (parse_fuel (comp_init False (source_lexer ''a.aer'' ''x = 1'') mach_init))
      (comp_init False (source_lexer ''a.aer'' ''x = 1'') mach_init) = Some t \<and> tok t = TOKEN_END_OF_FILE \<and>
      nesting t = nesting (comp_init False (source_lexer ''a.aer'' ''x = 1'') mach_init)"
    by blast
  moreover have "nesting (comp_init False (source_lexer ''a.aer'' ''x = 1'') mach_init) = (False, 0, 0, 0, False, False, [], 0)"
    by (simp add: nesting_def comp_init_def)
  ultimately show ?thesis by simp
qed

text \<open>C11: every source text, a file or a line of the prompt, with any library path but no
  file to import from, is lexed and compiled to its end: no text makes the compiler loop, read
  outside its tables, or stop before the end, and afterwards no construct is left open.
\<close>

theorem source_compiles:
  "\<exists>s t. lex (comp_init sh (source_lexer name txt) mach_init) = Some s \<and>
     parse (import_with w (aer_module_load w \<lparr>contents = \<lambda>_. None, aer_path = p\<rparr> (Suc d) [])) (parse_fuel s) s = Some t \<and>
     tok t = TOKEN_END_OF_FILE \<and> nesting t = (sh, 0, 0, 0, False, False, [], 0) \<and> tables_ok t \<and>
     list_all (val_ok (pheap t)) (cpool (pchunk t))"
proof -
  obtain s where s: "lex (comp_init sh (source_lexer name txt) mach_init) = Some s"
      "moves (comp_init sh (source_lexer name txt) mach_init) s"
    using run_lex [OF moves_refl [OF comp_inv_init]] unfolding run1_def by blast
  obtain t where t: "parse (import_with w (aer_module_load w \<lparr>contents = \<lambda>_. None, aer_path = p\<rparr> (Suc d) [])) (parse_fuel s) s = Some t"
      "moves s t" "tok t = TOKEN_END_OF_FILE"
    by (rule missing.parse_ends [OF movesD(1) [OF s(2)]]) (rule that)
  have "moves (comp_init sh (source_lexer name txt) mach_init) t" by (rule moves_trans [OF s(2) t(2)])
  then show ?thesis using s t(1,3)
    by (auto simp: moves_def comp_inv_def chunk_ok_def nesting_def comp_init_def list_all_iff intro: val_full_ok)
qed

end
