(* ===== verification/Terminal.thy ===== *)
theory Terminal
  imports Float64
begin

text \<open>
  The line editor of the prompt, \<^verbatim>\<open>source/terminal.c\<close> as it is compiled for POSIX: decoding of keys,
  the line buffer with its allocation, the ring of history entries, the cursor arithmetic and what
  is written to the terminal. The bytes of the line buffer that no one has written are \<open>None\<close>, and
  an access outside the allocation, or a use of such a byte, makes the whole step \<open>None\<close>.
\<close>

section \<open>Keys\<close>

text \<open>A byte, the end of the input, and the out-of-band codes of \<^verbatim>\<open>read_key\<close>.\<close>

datatype key =
    Key_byte char
  | Key_eof
  | KEY_ARROW_UP | KEY_ARROW_DOWN | KEY_ARROW_RIGHT | KEY_ARROW_LEFT
  | KEY_HOME | KEY_END | KEY_DELETE

definition END_OF_TEXT :: char where "END_OF_TEXT = CHR 0x03"
definition END_OF_TRANS :: char where "END_OF_TRANS = CHR 0x04"
definition NEW_LINE :: char where "NEW_LINE = CHR 0x0A"
definition BACKSPACE :: char where "BACKSPACE = CHR 0x7F"
definition ESCAPE_SEQUENCE :: char where "ESCAPE_SEQUENCE = CHR 0x1B"

text \<open>The character after \<^verbatim>\<open>Esc[\<close> and the rest of the input.\<close>

definition escape_key :: "char \<Rightarrow> string \<Rightarrow> key \<times> string" where
  "escape_key c r =
     (if c = CHR ''A'' then (KEY_ARROW_UP, r)
      else if c = CHR ''B'' then (KEY_ARROW_DOWN, r)
      else if c = CHR ''C'' then (KEY_ARROW_RIGHT, r)
      else if c = CHR ''D'' then (KEY_ARROW_LEFT, r)
      else if c = CHR ''H'' then (KEY_HOME, r)
      else if c = CHR ''F'' then (KEY_END, r)
      else if c = CHR ''3'' then
        (case r of
           [] \<Rightarrow> (Key_byte ESCAPE_SEQUENCE, [])
         | d # r' \<Rightarrow> (if d = CHR ''~'' then KEY_DELETE else Key_byte ESCAPE_SEQUENCE, r'))
      else (Key_byte ESCAPE_SEQUENCE, r))"

definition read_key :: "string \<Rightarrow> key \<times> string" where
  "read_key inp =
     (case inp of
        [] \<Rightarrow> (Key_eof, [])
      | c # r \<Rightarrow>
          if c \<noteq> ESCAPE_SEQUENCE then (Key_byte c, r)
          else (case r of
                  [] \<Rightarrow> (Key_byte ESCAPE_SEQUENCE, [])
                | d # r \<Rightarrow>
                    if d \<noteq> CHR ''['' then (Key_byte ESCAPE_SEQUENCE, r)
                    else (case r of
                            [] \<Rightarrow> (Key_byte ESCAPE_SEQUENCE, [])
                          | e # r \<Rightarrow> escape_key e r)))"

section \<open>State\<close>

definition COMMAND_SIZE :: nat where "COMMAND_SIZE = 1024"

text \<open>
  \<open>term_buffer\<close> is the allocation behind \<^verbatim>\<open>buffer\<close>, so its length is \<^verbatim>\<open>buffer_length\<close>; \<open>shown\<close> is
  what went to the standard output, \<open>history_file\<close> the contents of the history file.
\<close>

record terminal =
  history_file :: string
  history_buffer :: string
  history_position :: nat
  history_length :: nat
  screen_row :: nat
  screen_position :: nat
  screen_rows :: nat
  screen_columns :: nat
  prompt :: string
  term_buffer :: "char option list"
  term_position :: nat
  term_length :: nat
  shown :: string

abbreviation buffer_length :: "terminal \<Rightarrow> nat" where
  "buffer_length t \<equiv> length (term_buffer t)"

definition u16 :: "nat \<Rightarrow> nat" where
  "u16 n = n mod 2 ^ 16"

definition ring :: "terminal \<Rightarrow> nat \<Rightarrow> char" where
  "ring t i = history_buffer t ! (i mod COMMAND_SIZE)"

definition puts :: "string \<Rightarrow> terminal \<Rightarrow> terminal" where
  "puts s t = t\<lparr>shown := shown t @ s\<rparr>"

text \<open>A control sequence with a number, and its repetition.\<close>

definition csi :: "nat \<Rightarrow> string \<Rightarrow> string" where
  "csi n c = ESCAPE_SEQUENCE # ''['' @ show_nat n @ c"

definition lines_up :: "nat \<Rightarrow> string" where
  "lines_up n = concat (replicate n (csi 1 ''F''))"

text \<open>Bytes that have all been written, and the C string at the start of a memory.\<close>

definition determinate :: "char option list \<Rightarrow> string option" where
  "determinate = those"

fun c_string :: "char option list \<Rightarrow> string option" where
  "c_string [] = None"
| "c_string (None # b) = None"
| "c_string (Some c # b) = (if c = CHR 0x00 then Some [] else map_option ((#) c) (c_string b))"

definition memmove :: "nat \<Rightarrow> nat \<Rightarrow> nat \<Rightarrow> 'a list \<Rightarrow> 'a list option" where
  "memmove d s n b =
     (if d + n \<le> length b \<and> s + n \<le> length b then Some (take d b @ take n (drop s b) @ drop (d + n) b) else None)"

definition store :: "nat \<Rightarrow> char \<Rightarrow> terminal \<Rightarrow> terminal option" where
  "store i c t = (if i < buffer_length t then Some (t\<lparr>term_buffer := (term_buffer t)[i := Some c]\<rparr>) else None)"

definition clear :: "terminal \<Rightarrow> terminal option" where
  "clear t =
     (if term_length t + 1 \<le> buffer_length t
      then Some (t\<lparr>term_buffer := replicate (term_length t + 1) (Some (CHR 0x00)) @ drop (term_length t + 1) (term_buffer t),
                   term_position := 0, term_length := 0\<rparr>)
      else None)"

definition reset :: "terminal \<Rightarrow> terminal" where
  "reset t = (puts (lines_up (screen_row t)) t)\<lparr>screen_row := 0, screen_rows := 0\<rparr>"

section \<open>Drawing\<close>

text \<open>How often the width can be taken off before the rest is smaller, or not larger.\<close>

function times_ge :: "nat \<Rightarrow> nat \<Rightarrow> nat" where
  "times_ge w c = (if w = 0 \<or> c < w then 0 else Suc (times_ge w (c - w)))"
  by pat_completeness auto
termination by (relation "measure snd") auto

function times_gt :: "nat \<Rightarrow> nat \<Rightarrow> nat" where
  "times_gt w c = (if w = 0 \<or> c \<le> w then 0 else Suc (times_gt w (c - w)))"
  by pat_completeness auto
termination by (relation "measure snd") auto

declare times_ge.simps [simp del] times_gt.simps [simp del]

definition refresh :: "terminal \<Rightarrow> terminal option" where
  "refresh t0 =
     (let t = reset (puts (ESCAPE_SEQUENCE # ''[?25l'') t0);
          plen = length (prompt t); w = screen_columns t; pos = plen + term_position t; len = plen + term_length t;
          t = t\<lparr>screen_row := u16 (times_ge w pos), screen_rows := u16 (times_gt w len)\<rparr>;
          edge = (len mod w = 0 \<and> term_position t = term_length t);
          t = (if edge \<and> pos > screen_position t
               then puts (concat (replicate (screen_rows t) (csi 1 ''E'')) @ csi w ''G'' @ [NEW_LINE] @ lines_up (screen_rows t + 1)) t
               else t)
      in do { line \<leftarrow> determinate (take (term_length t) (term_buffer t));
              Some ((puts (csi 0 ''G'' @ csi 0 ''J'' @ prompt t @ c_str line @ (if edge then csi 1 ''E'' else '''') @
                           lines_up (screen_rows t - screen_row t) @ csi (pos mod w + 1) ''G'' @ ESCAPE_SEQUENCE # ''[?25h'') t)
                     \<lparr>screen_position := u16 pos\<rparr>) })"

section \<open>History\<close>

text \<open>Backwards to a line end or the first byte; forwards to a line end or the last byte.\<close>

fun search_back :: "terminal \<Rightarrow> nat \<Rightarrow> nat" where
  "search_back t 0 = 0"
| "search_back t (Suc p) = (if ring t (Suc p) \<noteq> NEW_LINE then search_back t p else Suc p)"

function search_forward :: "terminal \<Rightarrow> nat \<Rightarrow> nat" where
  "search_forward t p = (if p < history_length t \<and> ring t p \<noteq> NEW_LINE then search_forward t (p + 1) else p)"
  by pat_completeness auto
termination by (relation "measure (\<lambda>(t, p). history_length t - p)") auto

declare search_forward.simps [simp del]

text \<open>The loop that copies an entry of \<open>n\<close> bytes into the line buffer.\<close>

definition load_entry :: "nat \<Rightarrow> nat \<Rightarrow> terminal \<Rightarrow> terminal option" where
  "load_entry start n t =
     (if n \<le> buffer_length t
      then Some (t\<lparr>term_buffer := map (\<lambda>i. Some (ring t (start + i))) [0..<n] @ drop n (term_buffer t),
                   term_position := n, term_length := n, history_position := start\<rparr>)
      else None)"

definition arrow_up :: "terminal \<Rightarrow> terminal option" where
  "arrow_up t0 =
     do { t \<leftarrow> clear (reset t0);
          let start = history_position t - 2;
          let pos = search_back t start;
          let entry = (if ring t pos = NEW_LINE then pos + 1 else pos);
          load_entry entry (start + 1 - entry) t }"

definition arrow_down :: "terminal \<Rightarrow> terminal option" where
  "arrow_down t0 =
     do { t \<leftarrow> clear (reset t0);
          let entry = search_forward t (history_position t) + 1;
          load_entry entry (search_forward t entry - entry) t }"

text \<open>One byte of an entry is appended to the ring.\<close>

definition ring_put :: "char \<Rightarrow> terminal \<Rightarrow> terminal" where
  "ring_put c t =
     t\<lparr>history_buffer := (history_buffer t)[history_position t mod COMMAND_SIZE := c],
       history_position := history_position t + 1\<rparr>"

section \<open>The keys of the editor\<close>

text \<open>What a key leads to: the next key at once, drawing first, a complete line, or the exit.\<close>

datatype outcome = Again | Redraw | Entered | Exit

definition key_delete :: "terminal \<Rightarrow> terminal option" where
  "key_delete t =
     (if term_position t < term_length t
      then do { b \<leftarrow> memmove (term_position t) (term_position t + 1) (term_length t - term_position t) (term_buffer t);
                Some (t\<lparr>term_buffer := b, term_length := term_length t - 1\<rparr>) }
      else Some t)"

definition key_backspace :: "terminal \<Rightarrow> terminal option" where
  "key_backspace t =
     do { b \<leftarrow> memmove (term_position t - 1) (term_position t) (term_length t - term_position t) (term_buffer t);
          Some (t\<lparr>term_buffer := b, term_position := term_position t - 1, term_length := term_length t - 1\<rparr>) }"

text \<open>The line is complete: into the file and the ring, and the cursor below it.\<close>

definition key_new_line :: "terminal \<Rightarrow> terminal option" where
  "key_new_line t0 =
     do { t \<leftarrow> store (term_length t0) NEW_LINE t0;
          t \<leftarrow> (if term_length t \<noteq> 0
                then do { entry \<leftarrow> determinate (take (term_length t + 1) (term_buffer t));
                          let t = fold ring_put entry (t\<lparr>history_file := history_file t @ entry\<rparr>);
                          Some (t\<lparr>history_length := history_length t + (term_length t + 1)\<rparr>) }
                else Some t);
          let t = (if screen_rows t > screen_row t then puts (csi (screen_rows t - screen_row t) ''B'') t else t);
          Some ((puts [CHR 0x0D, NEW_LINE] t)\<lparr>screen_row := 0\<rparr>) }"

text \<open>\<^verbatim>\<open>xrealloc\<close> to twice the size leaves the new half unwritten.\<close>

definition grow :: "terminal \<Rightarrow> terminal" where
  "grow t = (if term_length t \<ge> buffer_length t then t\<lparr>term_buffer := term_buffer t @ replicate (buffer_length t) None\<rparr> else t)"

definition key_insert :: "char \<Rightarrow> terminal \<Rightarrow> terminal option" where
  "key_insert c t0 =
     (let t = grow t0 in
      do { b \<leftarrow> memmove (term_position t + 1) (term_position t) (term_length t - term_position t) (term_buffer t);
           t \<leftarrow> store (term_position t) c (t\<lparr>term_buffer := b\<rparr>);
           Some (t\<lparr>term_position := term_position t + 1, term_length := term_length t + 1\<rparr>) })"

definition iscntrl :: "char \<Rightarrow> bool" where
  "iscntrl c \<longleftrightarrow> (of_char c :: nat) < 32 \<or> (of_char c :: nat) = 127"

definition interrupt_msg :: string where
  "interrupt_msg = NEW_LINE # ''KeyboardInterrupt (press Ctrl-D to exit)'' @ [NEW_LINE]"

definition key_step :: "key \<Rightarrow> terminal \<Rightarrow> (outcome \<times> terminal) option" where
  "key_step k t =
     (case k of
        KEY_ARROW_UP \<Rightarrow> if history_position t < 2 then Some (Again, t) else map_option (Pair Redraw) (arrow_up t)
      | KEY_ARROW_DOWN \<Rightarrow> if history_position t \<ge> history_length t then Some (Again, t) else map_option (Pair Redraw) (arrow_down t)
      | KEY_ARROW_RIGHT \<Rightarrow> Some (Redraw, t\<lparr>term_position := min (term_position t + 1) (term_length t)\<rparr>)
      | KEY_ARROW_LEFT \<Rightarrow> Some (Redraw, t\<lparr>term_position := term_position t - 1\<rparr>)
      | KEY_HOME \<Rightarrow> Some (Redraw, t\<lparr>term_position := 0\<rparr>)
      | KEY_END \<Rightarrow> Some (Redraw, t\<lparr>term_position := term_length t\<rparr>)
      | KEY_DELETE \<Rightarrow> map_option (Pair Redraw) (key_delete t)
      | Key_eof \<Rightarrow> Some (Exit, puts [NEW_LINE] t)
      | Key_byte c \<Rightarrow>
          if c = BACKSPACE
          then (if term_position t = 0 then Some (Again, t) else map_option (Pair Redraw) (key_backspace t))
          else if c = NEW_LINE then map_option (Pair Entered) (key_new_line t)
          else if c = END_OF_TEXT then map_option (Pair Redraw) (clear (puts interrupt_msg t))
          else if c = END_OF_TRANS then Some (Exit, puts [NEW_LINE] t)
          else if \<not> iscntrl c then map_option (Pair Redraw) (key_insert c t)
          else Some (Redraw, t))"

section \<open>A line from the terminal\<close>

lemma read_key_shorter: "read_key inp = (k, r) \<Longrightarrow> inp \<noteq> [] \<Longrightarrow> length r < length inp"
  by (auto simp: read_key_def escape_key_def split: list.splits if_splits)

text \<open>
  \<open>winch n\<close> is the new width when the window changed its size before the key that starts with
  \<open>n\<close> bytes of input left.
\<close>

definition take_resize :: "(nat \<Rightarrow> nat option) \<Rightarrow> string \<Rightarrow> terminal \<Rightarrow> terminal option" where
  "take_resize winch inp t =
     (case winch (length inp) of
        None \<Rightarrow> Some t
      | Some w \<Rightarrow> refresh (if w \<noteq> 0 then t\<lparr>screen_columns := w\<rparr> else t))"

text \<open>
  The loop of \<^verbatim>\<open>handle_terminal\<close>: the line and the rest of the input, or the exit. The end of the
  input is a key that exits, so the loop never goes on without a byte.
\<close>

function read_line :: "(nat \<Rightarrow> nat option) \<Rightarrow> string \<Rightarrow> terminal \<Rightarrow> (string option \<times> string \<times> terminal) option" where
  "read_line winch inp t =
     do { t \<leftarrow> take_resize winch inp t;
          let (k, rest) = read_key inp;
          (what, t) \<leftarrow> key_step k t;
          case what of
            Exit \<Rightarrow> Some (None, rest, t)
          | Entered \<Rightarrow> do { line \<leftarrow> c_string (term_buffer t); Some (Some line, rest, t) }
          | _ \<Rightarrow>
              if inp = [] then None
              else if what = Again then read_line winch rest t
              else do { t \<leftarrow> refresh t; read_line winch rest t } }"
  by pat_completeness auto
termination
  by (relation "measure (\<lambda>(_, inp, _). length inp)") (auto intro: read_key_shorter [OF sym])

declare read_line.simps [simp del]

definition handle_terminal :: "(nat \<Rightarrow> nat option) \<Rightarrow> string \<Rightarrow> terminal \<Rightarrow> (string option \<times> string \<times> terminal) option" where
  "handle_terminal winch inp t = do { t \<leftarrow> clear t; t \<leftarrow> refresh t; read_line winch inp t }"

definition set_terminal_prompt :: "string \<Rightarrow> terminal \<Rightarrow> terminal" where
  "set_terminal_prompt p t = t\<lparr>prompt := p\<rparr>"

text \<open>
  The start, for the contents of the history file and the width of the window; \<open>None\<close> when the
  process exits because one of them is not there.
\<close>

definition start_terminal :: "string option \<Rightarrow> nat option \<Rightarrow> terminal option" where
  "start_terminal file width =
     (case (file, width) of
        (Some hist, Some w) \<Rightarrow>
          if w = 0 then None
          else let n = length hist; k = min n COMMAND_SIZE in
               Some \<lparr>history_file = hist,
                     history_buffer = fold (\<lambda>j h. h[(n - k + j) mod COMMAND_SIZE := hist ! (n - k + j)]) [0..<k] (replicate COMMAND_SIZE (CHR 0x00)),
                     history_position = n, history_length = n,
                     screen_row = 0, screen_position = 0, screen_rows = 0, screen_columns = w,
                     prompt = ''>>> '', term_buffer = replicate 1024 (Some (CHR 0x00)), term_position = 0, term_length = 0,
                     shown = []\<rparr>
      | _ \<Rightarrow> None)"

end
