(* ===== verification/TerminalLaws.thy ===== *)
theory TerminalLaws
  imports Terminal
begin

text \<open>
  The line editor against an abstract one, a pair of the text before and after the cursor; what a
  complete line is, byte for byte; and the history, where an entry that was just entered is found
  again by the arrow key.
\<close>

section \<open>The text under the cursor\<close>

definition edits :: "terminal \<Rightarrow> string \<Rightarrow> string \<Rightarrow> char option list \<Rightarrow> bool" where
  "edits t l r rest \<longleftrightarrow> term_buffer t = map Some (l @ r) @ rest \<and> term_position t = length l \<and>
     term_length t = length l + length r"

definition edit_keys :: "key set" where
  "edit_keys = {KEY_ARROW_RIGHT, KEY_ARROW_LEFT, KEY_HOME, KEY_END, KEY_DELETE, Key_byte BACKSPACE} \<union>
     Key_byte ` {c. \<not> iscntrl c}"

text \<open>The keys on the abstract editor.\<close>

definition gap_key :: "key \<Rightarrow> string \<times> string \<Rightarrow> string \<times> string" where
  "gap_key k g =
     (let (l, r) = g in
      case k of
        KEY_ARROW_RIGHT \<Rightarrow> (l @ take 1 r, drop 1 r)
      | KEY_ARROW_LEFT \<Rightarrow> (butlast l, (if l = [] then [] else [last l]) @ r)
      | KEY_HOME \<Rightarrow> ([], l @ r)
      | KEY_END \<Rightarrow> (l @ r, [])
      | KEY_DELETE \<Rightarrow> (l, drop 1 r)
      | Key_byte c \<Rightarrow> if c = BACKSPACE then (butlast l, r) else (l @ [c], r)
      | _ \<Rightarrow> g)"

lemma byte_keys: "iscntrl BACKSPACE" "iscntrl NEW_LINE" "iscntrl END_OF_TEXT" "iscntrl END_OF_TRANS"
  by (simp_all add: iscntrl_def BACKSPACE_def NEW_LINE_def END_OF_TEXT_def END_OF_TRANS_def)

lemma printable: "\<not> iscntrl c \<Longrightarrow> c \<noteq> BACKSPACE \<and> c \<noteq> NEW_LINE \<and> c \<noteq> END_OF_TEXT \<and> c \<noteq> END_OF_TRANS \<and> c \<noteq> CHR 0x00"
  using byte_keys by (auto simp: iscntrl_def)

lemma memmove_parts:
  "memmove (length a) (length a + length b) (length c) (a @ b @ c @ d) = Some (a @ c @ drop (length c) (b @ c @ d))"
  by (simp add: memmove_def)

lemma delete_edits:
  assumes "edits t l (c # r) rest" "rest \<noteq> []"
  obtains t' rest' where "key_delete t = Some t'" "edits t' l r rest'" "history_buffer t' = history_buffer t"
proof -
  obtain x xs where rest: "rest = x # xs" using assms(2) by (cases rest) auto
  have b: "term_buffer t = map Some l @ [Some c] @ (map Some r @ [x]) @ xs"
    using assms(1) rest by (simp add: edits_def)
  have "memmove (length l) (length l + 1) (length r + 1) (term_buffer t) = Some (map Some l @ (map Some r @ [x]) @ drop (length r + 1) ([Some c] @ (map Some r @ [x]) @ xs))"
    unfolding b using memmove_parts [of "map Some l" "[Some c]" "map Some r @ [x]" xs] by simp
  then show thesis using that assms(1) by (simp add: key_delete_def edits_def)
qed

lemma backspace_edits:
  assumes "edits t (l @ [c]) r rest"
  obtains t' rest' where "key_backspace t = Some t'" "edits t' l r rest'" "history_buffer t' = history_buffer t"
proof -
  have b: "term_buffer t = map Some l @ [Some c] @ map Some r @ rest" using assms by (simp add: edits_def)
  have "memmove (length l) (length l + 1) (length r) (term_buffer t) = Some (map Some l @ map Some r @ drop (length r) ([Some c] @ map Some r @ rest))"
    unfolding b using memmove_parts [of "map Some l" "[Some c]" "map Some r" rest] by simp
  then show thesis using that assms by (simp add: key_backspace_def edits_def)
qed

lemma insert_edits:
  assumes "edits t l r rest" "term_buffer t \<noteq> []"
  obtains t' rest' where "key_insert c t = Some t'" "edits t' (l @ [c]) r rest'" "history_buffer t' = history_buffer t"
proof -
  let ?rest = "if rest = [] then replicate (length l + length r) None else rest"
  have grown: "edits (grow t) l r ?rest" using assms by (auto simp: edits_def grow_def)
  have "?rest \<noteq> []" using assms by (auto simp: edits_def)
  then obtain x xs where x: "?rest = x # xs" by (cases ?rest) auto
  obtain y ys where y: "map Some r @ x # xs = y # ys" by (cases "map Some r @ x # xs") auto
  have b: "term_buffer (grow t) = map Some l @ map Some r @ x # xs" using grown x by (simp add: edits_def)
  also have "\<dots> = (map Some l @ [y]) @ ys" using y by simp
  finally have b': "term_buffer (grow t) = (map Some l @ [y]) @ ys" .
  have "take (length l + 1) (term_buffer (grow t)) = map Some l @ [y]" unfolding b' by simp
  moreover have "take (length r) (drop (length l) (term_buffer (grow t))) @ drop (length l + 1 + length r) (term_buffer (grow t)) = map Some r @ xs"
    unfolding b by simp
  ultimately have "memmove (length l + 1) (length l) (length r) (term_buffer (grow t)) = Some (map Some l @ y # map Some r @ xs)"
    using b by (simp add: memmove_def)
  then show thesis using that grown assms(1)
    by (simp add: key_insert_def Let_def store_def edits_def list_update_append grow_def)
qed

text \<open>C16: the line buffer implements the abstract editor: each key that edits or moves, typed
  into a line with the text l before the cursor and r after it, leaves exactly the text and cursor
  that the key has on the pair, growing the allocation when it is full and never leaving it. Only
  DELETE needs a byte behind the text for that.
\<close>

theorem editor_refines:
  assumes "edits t l r rest" "k \<in> edit_keys" "term_buffer t \<noteq> []" "k = KEY_DELETE \<longrightarrow> rest \<noteq> []"
  shows "\<exists>what t' rest'. key_step k t = Some (what, t') \<and> what \<in> {Again, Redraw} \<and>
    edits t' (fst (gap_key k (l, r))) (snd (gap_key k (l, r))) rest' \<and> history_buffer t' = history_buffer t"
proof -
  note e = assms(1) [unfolded edits_def]
  consider (right) "k = KEY_ARROW_RIGHT" | (left) "k = KEY_ARROW_LEFT" | (home) "k = KEY_HOME" | (stop) "k = KEY_END"
    | (delete) "k = KEY_DELETE" | (backspace) "k = Key_byte BACKSPACE" | (byte) c where "k = Key_byte c" "\<not> iscntrl c"
    using assms(2) by (auto simp: edit_keys_def)
  then show ?thesis
  proof cases
    case delete
    show ?thesis
    proof (cases r)
      case Nil
      then show ?thesis using delete assms(1) e by (auto simp: key_step_def gap_key_def key_delete_def edits_def)
    next
      case (Cons c cs)
      obtain t' rest' where "key_delete t = Some t'" "edits t' l cs rest'" "history_buffer t' = history_buffer t"
        by (rule delete_edits [of t l c cs rest]) (use assms delete Cons in auto)
      then show ?thesis using delete Cons by (auto simp: key_step_def gap_key_def)
    qed
  next
    case backspace
    show ?thesis
    proof (cases l rule: rev_cases)
      case Nil
      then show ?thesis using backspace assms(1) e by (auto simp: key_step_def gap_key_def)
    next
      case (snoc cs c)
      obtain t' rest' where "key_backspace t = Some t'" "edits t' cs r rest'" "history_buffer t' = history_buffer t"
        by (rule backspace_edits [of t cs c r rest]) (use assms snoc in auto)
      then show ?thesis using backspace snoc e by (auto simp: key_step_def gap_key_def)
    qed
  next
    case byte
    obtain t' rest' where "key_insert c t = Some t'" "edits t' (l @ [c]) r rest'" "history_buffer t' = history_buffer t"
      by (rule insert_edits [OF assms(1,3)]) (rule that)
    then show ?thesis using byte printable [OF byte(2)] by (auto simp: key_step_def gap_key_def)
  qed (use e in \<open>cases r; cases l rule: rev_cases; auto simp: key_step_def gap_key_def edits_def\<close>)+
qed

text \<open>A terminal with a text, for the examples.\<close>

definition demo_terminal :: "string \<Rightarrow> string \<Rightarrow> nat \<Rightarrow> terminal" where
  "demo_terminal l r n =
     \<lparr>history_file = [], history_buffer = replicate COMMAND_SIZE (CHR 0x00), history_position = 0, history_length = 0,
       screen_row = 0, screen_position = 0, screen_rows = 0, screen_columns = 80, prompt = ''>>> '',
       term_buffer = map Some (l @ r) @ replicate n (Some (CHR 0x00)),
       term_position = length l, term_length = length l + length r, shown = []\<rparr>"

lemma demo_edits: "edits (demo_terminal l r n) l r (replicate n (Some (CHR 0x00)))"
  by (simp add: edits_def demo_terminal_def)

theorem editor_refines_witness:
  "\<exists>what t' rest'. key_step (Key_byte BACKSPACE) (demo_terminal ''ab'' ''c'' 9) = Some (what, t') \<and> edits t' ''a'' ''c'' rest'"
proof -
  have "Key_byte BACKSPACE \<in> edit_keys" "term_buffer (demo_terminal ''ab'' ''c'' 9) \<noteq> []"
    by (simp_all add: edit_keys_def demo_terminal_def)
  from editor_refines [OF demo_edits this] show ?thesis by (auto simp: gap_key_def)
qed

section \<open>A complete line\<close>

lemma ring_put_sel [simp]:
  "term_buffer (fold ring_put e t) = term_buffer t" "term_length (fold ring_put e t) = term_length t"
  "term_position (fold ring_put e t) = term_position t" "history_length (fold ring_put e t) = history_length t"
  "history_file (fold ring_put e t) = history_file t" "history_position (fold ring_put e t) = history_position t + length e"
  "length (history_buffer (fold ring_put e t)) = length (history_buffer t)"
  by (induction e arbitrary: t) (simp_all add: ring_put_def)

lemma puts_sel [simp]:
  "term_buffer (puts x t) = term_buffer t" "term_length (puts x t) = term_length t"
  "term_position (puts x t) = term_position t" "history_length (puts x t) = history_length t"
  "history_file (puts x t) = history_file t" "history_position (puts x t) = history_position t"
  "history_buffer (puts x t) = history_buffer t" "screen_row (puts x t) = screen_row t"
  "screen_rows (puts x t) = screen_rows t"
  by (simp_all add: puts_def)

lemma c_string_text: "nul_free s \<Longrightarrow> c_string (map Some s @ b) = map_option (\<lambda>x. s @ x) (c_string b)"
  by (induction s; cases "c_string b") (auto simp: nul_free_def)

lemma ring_put_cong:
  "history_buffer a = history_buffer b \<Longrightarrow> history_position a = history_position b \<Longrightarrow>
     history_buffer (fold ring_put e a) = history_buffer (fold ring_put e b)"
proof (induction e arbitrary: a b)
  case (Cons c e)
  show ?case using Cons.prems Cons.IH [of "ring_put c a" "ring_put c b"] by (simp add: ring_put_def)
qed simp

text \<open>What Enter does to the state; the entry goes to the file and into the ring.\<close>

lemma new_line_state:
  assumes "edits t l r (x # xs)"
  obtains t' where "key_new_line t = Some t'" "term_buffer t' = map Some (l @ r) @ Some NEW_LINE # xs"
    "term_length t' = length l + length r"
    "history_file t' = history_file t @ (if l @ r = [] then [] else l @ r @ [NEW_LINE])"
    "history_buffer t' = (if l @ r = [] then history_buffer t else history_buffer (fold ring_put (l @ r @ [NEW_LINE]) t))"
    "history_position t' = history_position t + (if l @ r = [] then 0 else length (l @ r) + 1)"
    "history_length t' = history_length t + (if l @ r = [] then 0 else length (l @ r) + 1)"
proof -
  let ?s = "t\<lparr>term_buffer := map Some (l @ r) @ Some NEW_LINE # xs\<rparr>"
  have s: "store (term_length t) NEW_LINE t = Some ?s"
    using assms by (simp add: store_def edits_def list_update_append)
  have det: "determinate (take (length l + length r + 1) (term_buffer ?s)) = Some (l @ r @ [NEW_LINE])"
    by (simp add: determinate_def)
  have len: "term_length t = length l + length r" using assms by (simp add: edits_def)
  define e where "e = l @ r @ [NEW_LINE]"
  define w where "w = (if l @ r = [] then ?s else (fold ring_put e (?s\<lparr>history_file := history_file t @ e\<rparr>))
      \<lparr>history_length := history_length t + (length l + length r + 1)\<rparr>)"
  have w: "term_buffer w = map Some (l @ r) @ Some NEW_LINE # xs" "term_length w = length l + length r"
    "history_file w = history_file t @ (if l @ r = [] then [] else e)"
    "history_buffer w = (if l @ r = [] then history_buffer t else history_buffer (fold ring_put e t))"
    "history_position w = history_position t + (if l @ r = [] then 0 else length (l @ r) + 1)"
    "history_length w = history_length t + (if l @ r = [] then 0 else length (l @ r) + 1)"
    by (simp_all add: w_def len e_def del: fold_append fold_simps) (intro impI ring_put_cong; simp)
  let ?z = "if screen_rows w > screen_row w then puts (csi (screen_rows w - screen_row w) ''B'') w else w"
  have "key_new_line t = Some ((puts [CHR 0x0D, NEW_LINE] ?z)\<lparr>screen_row := 0\<rparr>)"
    using s det len by (simp add: key_new_line_def Let_def w_def e_def del: fold_append fold_simps)
  then show thesis by (rule that) (simp_all add: w e_def del: fold_append fold_simps)
qed

text \<open>C37: Enter completes the line that is being edited: the prompt gets the text and a line end,
  and with them whatever C string follows in the buffer, so exactly the text when the byte after it
  is NUL; the history file grows by the text and the line end, and not at all by an empty line.
  When the text fills the allocation the line end would be written behind it.
\<close>

theorem entered_line:
  assumes "edits t l r rest" "nul_free (l @ r)"
  shows "case rest of
      [] \<Rightarrow> key_step (Key_byte NEW_LINE) t = None
    | _ # stale \<Rightarrow> \<exists>t'. key_step (Key_byte NEW_LINE) t = Some (Entered, t') \<and>
        c_string (term_buffer t') = map_option (\<lambda>s. l @ r @ [NEW_LINE] @ s) (c_string stale) \<and>
        history_file t' = history_file t @ (if l @ r = [] then [] else l @ r @ [NEW_LINE])"
proof (cases rest)
  case Nil
  then have "key_new_line t = None" using assms(1) by (simp add: key_new_line_def store_def edits_def)
  then show ?thesis using Nil by (simp add: key_step_def NEW_LINE_def BACKSPACE_def)
next
  case (Cons x xs)
  obtain t' where t': "key_new_line t = Some t'" "term_buffer t' = map Some (l @ r) @ Some NEW_LINE # xs"
      "history_file t' = history_file t @ (if l @ r = [] then [] else l @ r @ [NEW_LINE])"
    by (rule new_line_state [OF assms(1) [unfolded Cons]]) (rule that)
  have "nul_free (l @ r @ [NEW_LINE])" using assms(2) by (simp add: nul_free_def NEW_LINE_def)
  from c_string_text [OF this, of xs]
  have "c_string (term_buffer t') = map_option (\<lambda>s. l @ r @ [NEW_LINE] @ s) (c_string xs)" using t'(2) by simp
  then show ?thesis using Cons t'(1,3) by (simp add: key_step_def NEW_LINE_def BACKSPACE_def)
qed

theorem entered_line_witness:
  "\<exists>t'. key_step (Key_byte NEW_LINE) (demo_terminal ''a'' ''b'' 2) = Some (Entered, t') \<and>
     c_string (term_buffer t') = Some (''ab'' @ [NEW_LINE]) \<and> history_file t' = ''ab'' @ [NEW_LINE]"
proof -
  have "nul_free (''a'' @ ''b'')" by (simp add: nul_free_def)
  from entered_line [OF demo_edits this, of 2] show ?thesis by (simp add: numeral_2_eq_2 demo_terminal_def)
qed

text \<open>
  Deleted characters stay in the buffer: abc, Backspace twice and Enter give the prompt a line a and
  a second line c.
\<close>

lemma stale_bytes:
  "\<exists>t. foldM (\<lambda>k t. map_option snd (key_step k t)) [Key_byte BACKSPACE, Key_byte BACKSPACE, Key_byte NEW_LINE] (demo_terminal ''abc'' [] 5) = Some t \<and>
     c_string (term_buffer t) = Some (''a'' @ [NEW_LINE] @ ''c'')"
  by (simp add: key_step_def demo_terminal_def key_backspace_def memmove_def BACKSPACE_def NEW_LINE_def key_new_line_def
      store_def determinate_def Let_def puts_def ring_put_def eval_nat_numeral)

section \<open>History\<close>

lemma mod_differs:
  assumes "j < k" "k < j + (n :: nat)"
  shows "j mod n \<noteq> k mod n"
proof
  assume "j mod n = k mod n"
  then have "n dvd k - j" using assms(1) by (metis less_imp_le mod_eq_dvd_iff_nat)
  then show False using assms by (auto dest: dvd_imp_le)
qed

lemma ring_put_one:
  assumes "length (history_buffer t) = COMMAND_SIZE"
  shows "ring (ring_put c t) j = (if j mod COMMAND_SIZE = history_position t mod COMMAND_SIZE then c else ring t j)"
proof -
  have "i mod COMMAND_SIZE < length (history_buffer t)" for i using assms by (simp add: COMMAND_SIZE_def)
  then show ?thesis by (simp add: ring_put_def ring_def nth_list_update)
qed

lemma ring_after:
  assumes "length (history_buffer t) = COMMAND_SIZE" "j < history_position t + length e" "history_position t + length e \<le> j + COMMAND_SIZE"
  shows "ring (fold ring_put e t) j = (if j < history_position t then ring t j else e ! (j - history_position t))"
  using assms(2,3)
proof (induction e rule: rev_induct)
  case (snoc c e)
  let ?h = "history_position t + length e"
  have len: "length (history_buffer (fold ring_put e t)) = COMMAND_SIZE" using assms(1) by simp
  have hp: "history_position (fold ring_put e t) = ?h" by simp
  note one = ring_put_one [OF len, of c j, unfolded hp]
  show ?case
  proof (cases "j = ?h")
    case True
    then show ?thesis using one by (simp add: nth_append)
  next
    case False
    then have j: "j < ?h" "?h < j + COMMAND_SIZE" using snoc.prems by simp_all
    then show ?thesis using one mod_differs [OF j] snoc.IH by (auto simp: nth_append)
  qed
qed simp

lemma search_back_to:
  "p \<le> q \<Longrightarrow> (\<And>i. p < i \<Longrightarrow> i \<le> q \<Longrightarrow> ring t i \<noteq> NEW_LINE) \<Longrightarrow> p = 0 \<or> ring t p = NEW_LINE \<Longrightarrow> search_back t q = p"
proof (induction q)
  case (Suc q)
  then show ?case by (cases "p = Suc q") auto
qed simp

lemma clear_sel:
  assumes "clear t = Some t'"
  shows "history_buffer t' = history_buffer t" "history_position t' = history_position t" "history_length t' = history_length t"
    "length (term_buffer t') = length (term_buffer t)" "term_length t' = 0"
  using assms by (auto simp: clear_def split: if_splits)

lemma reset_sel [simp]:
  "history_buffer (reset t) = history_buffer t" "history_position (reset t) = history_position t"
  "history_length (reset t) = history_length t" "term_buffer (reset t) = term_buffer t" "term_length (reset t) = term_length t"
  by (simp_all add: reset_def)

text \<open>The arrow key, when the ring ends with an entry behind the start or another line end.\<close>

lemma arrow_up_entry:
  assumes t: "term_length t < buffer_length t" "length entry \<le> buffer_length t" "entry \<noteq> []" "NEW_LINE \<notin> set entry"
    and pos: "history_position t = p + length entry + 1"
    and ring: "\<And>i. i < length entry \<Longrightarrow> ring t (p + i) = entry ! i" "p = 0 \<or> ring t (p - 1) = NEW_LINE"
  shows "\<exists>t' rest. key_step KEY_ARROW_UP t = Some (Redraw, t') \<and> edits t' entry [] rest \<and> history_position t' = p"
proof -
  obtain u where u: "clear (reset t) = Some u" using t(1) by (simp add: clear_def)
  note sel = clear_sel [OF u, simplified]
  have ru: "ring u i = ring t i" for i using sel by (simp add: ring_def)
  let ?q = "p + length entry - 1"
  have start: "history_position u - 2 = ?q" using sel pos by simp
  have not_nl: "ring t i \<noteq> NEW_LINE" if "p \<le> i" "i \<le> ?q" for i
  proof -
    have "i - p < length entry" using that t(3) by (cases entry) auto
    then show ?thesis using ring(1) [of "i - p"] that(1) t(4) by (metis le_add_diff_inverse nth_mem)
  qed
  let ?from = "\<lambda>q. if ring u (search_back u q) = NEW_LINE then search_back u q + 1 else search_back u q"
  have at: "?from ?q = p"
  proof (cases "p = 0")
    case True
    have "search_back u ?q = 0" by (rule search_back_to) (use not_nl True ru in auto)
    then show ?thesis using not_nl [of 0] True ru t(3) by simp
  next
    case False
    have "search_back u ?q = p - 1" by (rule search_back_to) (use not_nl ring(2) False ru t(3) in \<open>auto simp: Suc_le_eq\<close>)
    then show ?thesis using ring(2) False ru by simp
  qed
  have n: "?q + 1 - p = length entry" using t(3) by (cases entry) auto
  have "arrow_up t = load_entry (?from (history_position u - 2)) (history_position u - 2 + 1 - ?from (history_position u - 2)) u"
    using u by (simp only: arrow_up_def Let_def option.simps bind.simps)
  then have "arrow_up t = load_entry p (length entry) u" unfolding start at n .
  moreover have "map (\<lambda>i. Some (ring u (p + i))) [0..<length entry] = map Some entry"
    using ring(1) ru by (intro nth_equalityI) auto
  ultimately show ?thesis using t(2,3) sel pos
    by (auto simp: key_step_def load_entry_def edits_def)
qed

text \<open>C21: a line that was entered comes back. When the history position is at the start of
  the ring or behind a line end, Enter on a non-empty text of one line that fits the ring, the start
  of the next line and the up arrow give a line with that text and the cursor at its end, with the
  history position where it was before.
\<close>

theorem history_recall:
  assumes "edits t l r (x # xs)" "l @ r \<noteq> []" "NEW_LINE \<notin> set (l @ r)" "length (l @ r) + 1 < COMMAND_SIZE"
    "length (history_buffer t) = COMMAND_SIZE" "history_position t = 0 \<or> ring t (history_position t - 1) = NEW_LINE"
  shows "\<exists>t1 t2 t3 rest. key_step (Key_byte NEW_LINE) t = Some (Entered, t1) \<and> clear t1 = Some t2 \<and>
     key_step KEY_ARROW_UP t2 = Some (Redraw, t3) \<and> edits t3 (l @ r) [] rest \<and> history_position t3 = history_position t"
proof -
  let ?e = "l @ r @ [NEW_LINE]"
  obtain t1 where t1: "key_new_line t = Some t1" "term_buffer t1 = map Some (l @ r) @ Some NEW_LINE # xs"
      "term_length t1 = length l + length r" "history_buffer t1 = history_buffer (fold ring_put ?e t)"
      "history_position t1 = history_position t + length (l @ r) + 1"
    by (rule new_line_state [OF assms(1)]) (use assms(2) in \<open>simp del: fold_append fold_simps append_is_Nil_conv\<close>)
  obtain t2 where t2: "clear t1 = Some t2" using t1(2,3) by (simp add: clear_def)
  note sel = clear_sel [OF t2]
  have ring: "ring t2 j = (if j < history_position t then ring t j else ?e ! (j - history_position t))"
    if "j < history_position t + length ?e" "history_position t + length ?e \<le> j + COMMAND_SIZE" for j
    using ring_after [OF assms(5) that] sel(1) t1(4) by (simp add: ring_def del: fold_append fold_simps)
  have "\<exists>t3 rest. key_step KEY_ARROW_UP t2 = Some (Redraw, t3) \<and> edits t3 (l @ r) [] rest \<and> history_position t3 = history_position t"
  proof (rule arrow_up_entry)
    fix i assume "i < length (l @ r)"
    then show "ring t2 (history_position t + i) = (l @ r) ! i"
      using ring [of "history_position t + i"] assms(4) by (auto simp: nth_append)
  next
    show "history_position t = 0 \<or> ring t2 (history_position t - 1) = NEW_LINE"
      using ring [of "history_position t - 1"] assms(4,6) by (cases "history_position t") auto
  qed (use sel t1 assms in auto)
  then show ?thesis using t1(1) t2 by (simp add: key_step_def NEW_LINE_def BACKSPACE_def)
qed

theorem history_recall_witness:
  "\<exists>t1 t2 t3 rest. key_step (Key_byte NEW_LINE) (demo_terminal ''a'' ''b'' 2) = Some (Entered, t1) \<and> clear t1 = Some t2 \<and>
     key_step KEY_ARROW_UP t2 = Some (Redraw, t3) \<and> edits t3 ''ab'' [] rest"
proof -
  have "edits (demo_terminal ''a'' ''b'' 2) ''a'' ''b'' (Some (CHR 0x00) # [Some (CHR 0x00)])"
    using demo_edits [of "''a''" "''b''" 2] by (simp add: numeral_2_eq_2)
  from history_recall [OF this] show ?thesis
    by (simp add: demo_terminal_def NEW_LINE_def COMMAND_SIZE_def) blast
qed

end
