(* ===== verification/Report.thy ===== *)
theory Report
  imports Lexer
begin

text \<open>
  The text and the delivery of error messages, \<^verbatim>\<open>source/utilities/error.c\<close>: the buffer of 2048 bytes
  that every message is formatted into, the excerpt of the source line with its caret, the last
  message, and the sink, which is a callback of the host or the standard error stream.

  The other theories record a message without its prefix (\<open>error_log\<close>); a message here is the
  formatted text of the arguments.
\<close>

section \<open>State\<close>

definition ERROR_MSG_MAX :: nat where "ERROR_MSG_MAX = 2048"

text \<open>\<open>error_callback\<close> is the registered function with its user data; \<open>delivered\<close> is what each sink was given.\<close>

record reporter =
  parse_failed :: bool
  runtime_failed :: bool
  assert_failure_count :: nat
  last_error_msg :: string
  error_callback :: "nat option"
  delivered :: "(nat option \<times> string) list"

definition reporter_init :: reporter where
  "reporter_init = \<lparr>parse_failed = False, runtime_failed = False, assert_failure_count = 0, last_error_msg = [],
     error_callback = None, delivered = []\<rparr>"

definition aer_set_error_callback :: "nat option \<Rightarrow> reporter \<Rightarrow> reporter" where
  "aer_set_error_callback cb r = r\<lparr>error_callback := cb\<rparr>"

definition aer_last_error :: "reporter \<Rightarrow> string" where
  "aer_last_error r = last_error_msg r"

definition aer_had_error :: "reporter \<Rightarrow> bool" where
  "aer_had_error r \<longleftrightarrow> parse_failed r \<or> runtime_failed r"

definition aer_assert_failure_count :: "reporter \<Rightarrow> nat" where
  "aer_assert_failure_count r = assert_failure_count r"

definition aer_clear_error :: "reporter \<Rightarrow> reporter" where
  "aer_clear_error r = r\<lparr>parse_failed := False, runtime_failed := False, assert_failure_count := 0, last_error_msg := []\<rparr>"

section \<open>Formatting\<close>

text \<open>A piece behind what the buffer holds; a buffer of \<open>n\<close> bytes holds at most \<open>n - 1\<close> characters.\<close>

definition append_fmt :: "nat \<Rightarrow> string \<Rightarrow> string \<Rightarrow> string" where
  "append_fmt n s buf =
     (if length buf \<ge> n then buf
      else if length buf + length s \<ge> n then take (n - 1) (buf @ s) else buf @ s)"

definition emit_error :: "string \<Rightarrow> reporter \<Rightarrow> reporter" where
  "emit_error msg r =
     (let m = take (ERROR_MSG_MAX - 1) (c_str msg)
      in r\<lparr>last_error_msg := m, delivered := delivered r @ [(error_callback r, m)]\<rparr>)"

text \<open>The message of \<^verbatim>\<open>aer_report_fatal\<close>, before the process exits.\<close>

definition aer_report_fatal :: "string \<Rightarrow> reporter \<Rightarrow> reporter" where
  "aer_report_fatal msg r = emit_error (take (ERROR_MSG_MAX - 1) (''Error: '' @ msg @ [CHR 0x0A])) r"

definition set_failed :: "reporter \<Rightarrow> reporter" where
  "set_failed r = r\<lparr>parse_failed := True, runtime_failed := True\<rparr>"

text \<open>\<^verbatim>\<open>error()\<close>; \<open>line\<close> is what \<^verbatim>\<open>runtime_line_lookup\<close> returns, 0 without it.\<close>

definition error_text :: "nat \<Rightarrow> string \<Rightarrow> string" where
  "error_text line msg =
     (let buf = (if line > 0 then append_fmt ERROR_MSG_MAX (''Line '' @ show_nat line @ '': '') [] else []);
          buf = append_fmt ERROR_MSG_MAX ''Error: '' buf;
          buf = append_fmt ERROR_MSG_MAX msg buf
      in append_fmt ERROR_MSG_MAX [CHR 0x0A] buf)"

definition report_error :: "nat \<Rightarrow> string \<Rightarrow> reporter \<Rightarrow> reporter" where
  "report_error line msg r = set_failed (emit_error (error_text line msg) r)"

section \<open>Messages about the source\<close>

text \<open>The text before the cursor, and the part of it in the cursor's line.\<close>

definition consumed :: "lexer \<Rightarrow> string" where
  "consumed l = take (length (f_start l) - length (f_buffer l)) (f_start l)"

definition line_before :: "lexer \<Rightarrow> string" where
  "line_before l = rev (takeWhile (\<lambda>c. c \<noteq> CHR 0x0A) (rev (consumed l)))"

definition line_after :: "lexer \<Rightarrow> string" where
  "line_after l = takeWhile (\<lambda>c. c \<noteq> CHR 0x0A \<and> c \<noteq> CHR 0x00) (f_buffer l)"

definition line_number :: "lexer \<Rightarrow> nat" where
  "line_number l = 1 + count_list (consumed l) CHR 0x0A"

text \<open>\<^verbatim>\<open>error_at()\<close>: the line, the caret below it, and the message.\<close>

definition error_at_text :: "lexer \<Rightarrow> string \<Rightarrow> string" where
  "error_at_text l msg =
     (let buf = append_fmt ERROR_MSG_MAX (show_nat (line_number l) @ '' | '' @ c_str (line_before l @ line_after l) @ CHR 0x0A # ''    '') [];
          buf = buf @ replicate (min (length (line_before l)) (ERROR_MSG_MAX - 1 - length buf)) (CHR '' '');
          buf = append_fmt ERROR_MSG_MAX (''^'' @ CHR 0x0A # ''Error: '') buf;
          buf = append_fmt ERROR_MSG_MAX msg buf
      in append_fmt ERROR_MSG_MAX [CHR 0x0A] buf)"

definition report_error_at :: "lexer \<Rightarrow> string \<Rightarrow> reporter \<Rightarrow> reporter" where
  "report_error_at l msg r = set_failed (emit_error (error_at_text l msg) r)"

section \<open>Bounds\<close>

lemma append_fmt_length: "length buf < n \<Longrightarrow> length (append_fmt n s buf) < n"
  by (auto simp: append_fmt_def)

lemma append_fmt_fits: "length buf + length s < n \<Longrightarrow> append_fmt n s buf = buf @ s"
  by (auto simp: append_fmt_def)

lemma append_fmt_set: "set (append_fmt n s buf) \<subseteq> set buf \<union> set s"
  by (auto simp: append_fmt_def dest: in_set_takeD)

lemma error_text_length: "length (error_text line msg) < ERROR_MSG_MAX"
  unfolding error_text_def Let_def by (intro append_fmt_length) (auto intro: append_fmt_length simp: ERROR_MSG_MAX_def)

lemma pad_length: "length buf < n \<Longrightarrow> length (buf @ replicate (min k (n - 1 - length buf)) c) < n"
  by simp

lemma error_at_text_length: "length (error_at_text l msg) < ERROR_MSG_MAX"
  unfolding error_at_text_def Let_def
  by (intro append_fmt_length pad_length) (simp add: ERROR_MSG_MAX_def)

text \<open>What a report leaves behind: a bounded C string, delivered once to the registered sink.\<close>

definition told :: "reporter \<Rightarrow> reporter \<Rightarrow> bool" where
  "told r r' \<longleftrightarrow> length (aer_last_error r') < ERROR_MSG_MAX \<and> nul_free (aer_last_error r') \<and>
     delivered r' = delivered r @ [(error_callback r, aer_last_error r')] \<and>
     parse_failed r' \<and> runtime_failed r' \<and> aer_had_error r' \<and> \<not> aer_had_error (aer_clear_error r')"

lemma nul_free_take: "nul_free s \<Longrightarrow> nul_free (take n s)"
  by (auto simp: nul_free_def dest: in_set_takeD)

lemma told_emit: "told r (set_failed (emit_error msg r))"
  using nul_free_take [OF nul_free_c_str, of "ERROR_MSG_MAX - 1" msg]
  by (simp add: told_def set_failed_def emit_error_def aer_last_error_def aer_had_error_def aer_clear_error_def Let_def ERROR_MSG_MAX_def)

text \<open>C38: however long the source line, the arguments and the host's strings are, a message is
  formatted inside its buffer of 2048 bytes, is delivered exactly once, to the sink that is registered,
  as a C string of at most 2047 characters, and is the last error afterwards, with both flags set until
  they are cleared.
\<close>

theorem report_bounds:
  "length (error_text line msg) < ERROR_MSG_MAX \<and> length (error_at_text l msg) < ERROR_MSG_MAX \<and>
   told r (report_error line msg r) \<and> told r (report_error_at l msg r)"
  by (simp add: error_text_length error_at_text_length report_error_def report_error_at_def told_emit)

section \<open>The excerpt\<close>

lemma line_number_current: "line_number (lexer s) = current_source_line s"
  by (simp add: line_number_def current_source_line_def consumed_def Let_def)

text \<open>Everything in front of the message: the line with its number, and the caret.\<close>

definition excerpt :: "lexer \<Rightarrow> string" where
  "excerpt l = show_nat (line_number l) @ '' | '' @ line_before l @ line_after l @ CHR 0x0A # ''    '' @
     replicate (length (line_before l)) (CHR '' '') @ ''^'' @ CHR 0x0A # ''Error: ''"

lemma error_at_fits:
  assumes fits: "length (excerpt l) + length msg + 1 < ERROR_MSG_MAX" and free: "nul_free (f_start l)" "nul_free (f_buffer l)"
  shows "error_at_text l msg = excerpt l @ msg @ [CHR 0x0A]"
proof -
  have "set (line_before l) \<subseteq> set (f_start l)" "set (line_after l) \<subseteq> set (f_buffer l)"
    by (auto simp: line_before_def line_after_def consumed_def dest!: set_takeWhileD in_set_takeD)
  then have "nul_free (line_before l @ line_after l)" using free by (auto simp: nul_free_def)
  then have c: "c_str (line_before l @ line_after l) = line_before l @ line_after l" by (rule c_str_nul_free)
  show ?thesis using fits unfolding error_at_text_def Let_def c excerpt_def
    by (simp add: append_fmt_fits)
qed

text \<open>C39: a message about the source that fits its buffer is the number of the cursor's line,
  the one that run-time errors of the same code name, the line itself, a caret, and the text of the
  error. The caret stands under the cursor exactly when the line number has one digit: from line 10 on
  it is too far left.
\<close>

theorem error_at_caret:
  assumes "length (excerpt (lexer s)) + length msg + 1 < ERROR_MSG_MAX" "nul_free (f_start (lexer s))" "nul_free (buffer s)"
  shows "error_at_text (lexer s) msg =
      show_nat (current_source_line s) @ '' | '' @ line_before (lexer s) @ line_after (lexer s) @ [CHR 0x0A] @
      ''    '' @ replicate (length (line_before (lexer s))) (CHR '' '') @ ''^'' @ [CHR 0x0A] @ ''Error: '' @ msg @ [CHR 0x0A] \<and>
    (length (''    '' @ replicate (length (line_before (lexer s))) (CHR '' '')) =
       length (show_nat (current_source_line s) @ '' | '' @ line_before (lexer s)) \<longleftrightarrow> current_source_line s < 10)"
proof -
  have "Suc 0 = length (show_nat n) \<longleftrightarrow> n < 10" for n
    by (subst show_nat.simps) (auto simp: show_nat.simps [of "n div 10"])
  then show ?thesis using error_at_fits [OF assms] by (simp add: excerpt_def line_number_current)
qed

definition demo_source :: lex_state where
  "demo_source = \<lparr>lexer = (source_lexer ''a'' ''x = $'')\<lparr>f_buffer := ''$''\<rparr>, tok = TOKEN_ERROR, tok_value = VNull,
     parse_had_error = True, pmach = mach_init\<rparr>"

theorem error_at_caret_witness:
  "error_at_text (lexer demo_source) ''Unknown'' =
     ''1 | x = $'' @ [CHR 0x0A] @ ''        ^'' @ [CHR 0x0A] @ ''Error: Unknown'' @ [CHR 0x0A]"
proof -
  have s: "lexer demo_source = (source_lexer ''a'' ''x = $'')\<lparr>f_buffer := ''$''\<rparr>" by (simp add: demo_source_def)
  have start: "f_start (lexer demo_source) = ''x = $''" "f_buffer (lexer demo_source) = ''$''"
    by (simp_all add: s source_lexer_def indent_reset_def strip_cr_def c_str_def)
  then have parts: "consumed (lexer demo_source) = ''x = ''" by (simp add: consumed_def)
  then have one: "show_nat (line_number (lexer demo_source)) = ''1''"
    by (simp add: line_number_def show_nat.simps [of "Suc 0"] digit_char_def char_of_def bit_0)
  have line: "line_before (lexer demo_source) = ''x = ''" "line_after (lexer demo_source) = ''$''"
    using parts start by (simp_all add: line_before_def line_after_def)
  have "length (excerpt (lexer demo_source)) + length ''Unknown'' + 1 < ERROR_MSG_MAX"
    "nul_free (f_start (lexer demo_source))" "nul_free (buffer demo_source)"
    using one line start by (simp_all add: excerpt_def ERROR_MSG_MAX_def nul_free_def)
  from conjunct1 [OF error_at_caret [OF this]] show ?thesis
    unfolding line_number_current [symmetric] one line by simp
qed

end
