(* ===== verification/FileAccess.thy ===== *)
theory FileAccess
  imports Stdlib
begin

text \<open>
  The host module \<^verbatim>\<open>io\<close>, \<^verbatim>\<open>source/core/aer_io.c\<close>: a table of sixteen open files behind integer handles,
  the functions a program calls with them, and the (value, error) pairs they return. The C streams
  under them are modelled as the source uses them: a stream has a file, a mode, a position and the
  bytes that are still in its buffer, and a stream that cannot seek has only what is left to read.
\<close>

section \<open>Streams\<close>

text \<open>\<open>path\<close> is \<open>None\<close> for a stream that cannot seek, such as a terminal.\<close>

record stream =
  st_path :: "string option"
  st_mode :: string
  st_pos :: nat
  st_pending :: string

text \<open>
  \<open>dir\<close> holds the files, \<open>left_over\<close> what is left to read from the standard input, \<open>streams\<close> is indexed
  by the \<^verbatim>\<open>FILE*\<close>, and \<open>refuse\<close> gives the message of the system for files that it does not open.
\<close>

record io_state =
  dir :: "string \<Rightarrow> string option"
  left_over :: string
  streams :: "stream option list"
  open_files :: "nat option list"
  refuse :: "string \<Rightarrow> string \<Rightarrow> string option"

definition MAX_OPEN_FILES :: nat where "MAX_OPEN_FILES = 16"

definition stream_at :: "nat \<Rightarrow> io_state \<Rightarrow> stream option" where
  "stream_at f s = (if f < length (streams s) then streams s ! f else None)"

definition set_stream :: "nat \<Rightarrow> stream option \<Rightarrow> io_state \<Rightarrow> io_state" where
  "set_stream f st s = s\<lparr>streams := (streams s)[f := st]\<rparr>"

text \<open>\<^verbatim>\<open>fopen\<close>: the message, or the new stream.\<close>

definition c_fopen :: "string \<Rightarrow> string \<Rightarrow> io_state \<Rightarrow> string + (nat \<times> io_state)" where
  "c_fopen path mode s =
     (case refuse s path mode of
        Some msg \<Rightarrow> Inl msg
      | None \<Rightarrow>
          if mode = ''r'' \<and> dir s path = None then Inl ''No such file or directory''
          else let d = (if mode = ''w'' then (dir s)(path \<mapsto> [])
                        else if mode = ''a'' \<and> dir s path = None then (dir s)(path \<mapsto> []) else dir s);
                   st = \<lparr>st_path = Some path, st_mode = mode, st_pos = 0, st_pending = []\<rparr>
               in Inr (length (streams s), s\<lparr>dir := d, streams := streams s @ [Some st]\<rparr>))"

text \<open>The bytes of the buffer reach the file: at its end, or over what is at the position.\<close>

definition overwrite :: "nat \<Rightarrow> string \<Rightarrow> string \<Rightarrow> string" where
  "overwrite pos new old =
     take pos old @ replicate (pos - length old) (CHR 0x00) @ new @ drop (pos + length new) old"

definition file_text :: "string \<Rightarrow> io_state \<Rightarrow> string" where
  "file_text p s = (case dir s p of Some t \<Rightarrow> t | None \<Rightarrow> [])"

definition c_fflush :: "nat \<Rightarrow> io_state \<Rightarrow> io_state" where
  "c_fflush f s =
     (case stream_at f s of
        None \<Rightarrow> s
      | Some st \<Rightarrow>
          (case st_path st of
             None \<Rightarrow> s
           | Some p \<Rightarrow>
               let new = st_pending st;
                   at = (if st_mode st = ''a'' then length (file_text p s) else st_pos st)
               in if new = [] then s
                  else set_stream f (Some (st\<lparr>st_pos := at + length new, st_pending := []\<rparr>))
                         (s\<lparr>dir := (dir s)(p \<mapsto> overwrite at new (file_text p s))\<rparr>)))"

definition set_pos :: "nat \<Rightarrow> nat \<Rightarrow> io_state \<Rightarrow> io_state" where
  "set_pos f n s = set_stream f (map_option (\<lambda>st. st\<lparr>st_pos := n\<rparr>) (stream_at f s)) s"

text \<open>
  \<^verbatim>\<open>fseek\<close> to the end with \<^verbatim>\<open>ftell\<close>: the size, nothing for a stream that cannot seek. Using a stream
  that has been closed is \<open>None\<close>.
\<close>

definition c_seek_end :: "nat \<Rightarrow> io_state \<Rightarrow> (nat option \<times> io_state) option" where
  "c_seek_end f s =
     do { st \<leftarrow> stream_at f s;
          case st_path st of
            None \<Rightarrow> Some (None, s)
          | Some p \<Rightarrow> let s = c_fflush f s; n = length (file_text p s) in Some (Some n, set_pos f n s) }"

definition c_fread :: "nat \<Rightarrow> nat \<Rightarrow> io_state \<Rightarrow> (string \<times> io_state) option" where
  "c_fread n f s =
     do { st \<leftarrow> stream_at f s;
          Some (if st_mode st \<noteq> ''r'' then ([], s)
                else case st_path st of
                       None \<Rightarrow> (take n (left_over s), s\<lparr>left_over := drop n (left_over s)\<rparr>)
                     | Some p \<Rightarrow> let x = take n (drop (st_pos st) (file_text p s)) in (x, set_pos f (st_pos st + length x) s)) }"

text \<open>\<^verbatim>\<open>fwrite\<close>: how many bytes were taken.\<close>

definition c_fwrite :: "string \<Rightarrow> nat \<Rightarrow> io_state \<Rightarrow> (nat \<times> io_state) option" where
  "c_fwrite x f s =
     do { st \<leftarrow> stream_at f s;
          Some (if st_mode st = ''r'' then (0, s)
                else (length x, set_stream f (Some (st\<lparr>st_pending := st_pending st @ x\<rparr>)) s)) }"

definition c_fclose :: "nat \<Rightarrow> io_state \<Rightarrow> io_state option" where
  "c_fclose f s = do { _ \<leftarrow> stream_at f s; Some (set_stream f None (c_fflush f s)) }"

section \<open>Handles\<close>

text \<open>At the start handle 0 is the standard input; \<open>seekable\<close> is its file when it was redirected.\<close>

definition io_init :: "(string \<Rightarrow> string option) \<Rightarrow> string \<Rightarrow> string option \<Rightarrow> (string \<Rightarrow> string \<Rightarrow> string option) \<Rightarrow> io_state" where
  "io_init files inp seekable rf =
     \<lparr>dir = files, left_over = inp, streams = [Some \<lparr>st_path = seekable, st_mode = ''r'', st_pos = 0, st_pending = []\<rparr>],
       open_files = Some 0 # replicate (MAX_OPEN_FILES - 1) None, refuse = rf\<rparr>"

definition handle_file :: "int \<Rightarrow> io_state \<Rightarrow> nat option" where
  "handle_file h s = (if h < 0 \<or> h \<ge> int MAX_OPEN_FILES then None else open_files s ! nat h)"

text \<open>The scan for a free slot.\<close>

definition free_slot :: "io_state \<Rightarrow> nat option" where
  "free_slot s = find (\<lambda>i. open_files s ! i = None) [0..<MAX_OPEN_FILES]"

text \<open>The loop of \<^verbatim>\<open>io_read_until_eof\<close>: capacity, what is in the buffer, what is left.\<close>

function read_until_eof :: "nat \<Rightarrow> string \<Rightarrow> string \<Rightarrow> string \<times> string" where
  "read_until_eof cap buf rest =
     (let cap = (if length buf = cap then cap * 2 else cap); x = take (cap - length buf) rest
      in if x = [] then (buf, rest) else read_until_eof cap (buf @ x) (drop (cap - length buf) rest))"
  by pat_completeness auto
termination
  by (relation "measure (\<lambda>(_, _, rest). length rest)") (auto simp: Let_def length_greater_0_conv [symmetric] simp del: length_greater_0_conv)

declare read_until_eof.simps [simp del]

text \<open>
  What the functions do with the files, before their results become values of the language: a message
  for the error of the pair, or the result.
\<close>

definition open_handle :: "string \<Rightarrow> string \<Rightarrow> io_state \<Rightarrow> (string + nat) \<times> io_state" where
  "open_handle path mode s =
     (case free_slot s of
        None \<Rightarrow> (Inl ''Too many open files'', s)
      | Some i \<Rightarrow>
          (case c_fopen path mode s of
             Inl msg \<Rightarrow> (Inl (take 255 (path @ '': '' @ msg)), s)
           | Inr (f, s) \<Rightarrow> (Inr i, s\<lparr>open_files := (open_files s)[i := Some f]\<rparr>)))"

definition read_handle :: "int \<Rightarrow> io_state \<Rightarrow> ((string + string) \<times> io_state) option" where
  "read_handle h s =
     (case handle_file h s of
        None \<Rightarrow> Some (Inl ''Invalid or closed file handle'', s)
      | Some f \<Rightarrow>
          do { (size, s) \<leftarrow> c_seek_end f s;
               case size of
                 None \<Rightarrow> let (x, rest) = read_until_eof 4096 [] (left_over s) in Some (Inr x, s\<lparr>left_over := rest\<rparr>)
               | Some n \<Rightarrow> do { (x, s) \<leftarrow> c_fread n f (set_pos f 0 s); Some (Inr x, s) } })"

definition write_handle :: "int \<Rightarrow> string \<Rightarrow> io_state \<Rightarrow> ((string + unit) \<times> io_state) option" where
  "write_handle h x s =
     (case handle_file h s of
        None \<Rightarrow> Some (Inl ''Invalid or closed file handle'', s)
      | Some f \<Rightarrow> do { (n, s) \<leftarrow> c_fwrite x f s;
                       Some (if n \<noteq> length x then Inl ''Bad file descriptor'' else Inr (), s) })"

definition close_handle :: "int \<Rightarrow> io_state \<Rightarrow> ((string + unit) \<times> io_state) option" where
  "close_handle h s =
     (case handle_file h s of
        None \<Rightarrow> Some (Inl ''Invalid or already-closed file handle'', s)
      | Some f \<Rightarrow> do { s \<leftarrow> c_fclose f s; Some (Inr (), s\<lparr>open_files := (open_files s)[nat h := None]\<rparr>) })"

section \<open>The functions of the module\<close>

type_synonym io_fn = "val list \<Rightarrow> io_state \<Rightarrow> mach \<Rightarrow> (val \<times> io_state \<times> mach) option"

definition make_error :: "string \<Rightarrow> mach \<Rightarrow> (val \<times> mach) option" where
  "make_error msg m = do { (v, h) \<leftarrow> aer_make_string (heap m) msg; Some (v, set_heap h m) }"

definition make_pair :: "val \<Rightarrow> val \<Rightarrow> mach \<Rightarrow> (val \<times> mach) option" where
  "make_pair ok err m =
     do { (v, h) \<leftarrow> new_array (heap m) \<lparr>items = [ok, err], shape = None\<rparr>; Some (v, set_heap h m) }"

definition pair_error :: "string \<Rightarrow> io_state \<Rightarrow> mach \<Rightarrow> (val \<times> io_state \<times> mach) option" where
  "pair_error msg s m = do { (e, m) \<leftarrow> make_error msg m; (v, m) \<leftarrow> make_pair VNull e m; Some (v, s, m) }"

definition pair_ok :: "val \<Rightarrow> io_state \<Rightarrow> mach \<Rightarrow> (val \<times> io_state \<times> mach) option" where
  "pair_ok ok s m = do { (v, m) \<leftarrow> make_pair ok VNull m; Some (v, s, m) }"

definition io_fail :: "string \<Rightarrow> io_state \<Rightarrow> mach \<Rightarrow> (val \<times> io_state \<times> mach) option" where
  "io_fail msg s m = Some (VNull, s, error msg m)"

definition io_open :: io_fn where
  "io_open args s m =
     (if length args \<noteq> 2 \<or> vtype (args ! 0) \<noteq> TYPE_STRING \<or> vtype (args ! 1) \<noteq> TYPE_STRING
      then io_fail ''io.open() requires a path and a mode string'' s m
      else do {
        path \<leftarrow> str_of (heap m) (args ! 0);
        mode \<leftarrow> str_of (heap m) (args ! 1);
        if c_str mode \<notin> {''r'', ''w'', ''a''}
        then io_fail (''io.open() mode must be '' @ CHR 0x22 # ''r'' @ CHR 0x22 # '', '' @ CHR 0x22 # ''w'' @ CHR 0x22 # '', or '' @
               CHR 0x22 # ''a'' @ [CHR 0x22]) s m
        else (case open_handle (c_str path) (c_str mode) s of
                (Inl msg, s) \<Rightarrow> pair_error msg s m
              | (Inr i, s) \<Rightarrow> pair_ok (VInt (int i)) s m) })"

text \<open>The length of a string is an \<^verbatim>\<open>unsigned int\<close>.\<close>

definition io_read :: io_fn where
  "io_read args s m =
     (if length args \<noteq> 1 \<or> vtype (args ! 0) \<noteq> TYPE_INTEGER
      then io_fail ''io.read() requires a handle'' s m
      else do {
        h \<leftarrow> aer_as_int_v (heap m) (args ! 0);
        (r, s) \<leftarrow> read_handle h s;
        case r of
          Inl msg \<Rightarrow> pair_error msg s m
        | Inr x \<Rightarrow> do { (v, hp) \<leftarrow> aer_make_string (heap m) (take (u32 (length x)) x); pair_ok v s (set_heap hp m) } })"

definition io_write :: io_fn where
  "io_write args s m =
     (if length args \<noteq> 2 \<or> vtype (args ! 0) \<noteq> TYPE_INTEGER \<or> vtype (args ! 1) \<noteq> TYPE_STRING
      then io_fail ''io.write() requires a handle and a string'' s m
      else do {
        h \<leftarrow> aer_as_int_v (heap m) (args ! 0);
        x \<leftarrow> str_of (heap m) (args ! 1);
        (r, s) \<leftarrow> write_handle h x s;
        case r of Inl msg \<Rightarrow> pair_error msg s m | Inr _ \<Rightarrow> pair_ok VNull s m })"

definition io_close :: io_fn where
  "io_close args s m =
     (if length args \<noteq> 1 \<or> vtype (args ! 0) \<noteq> TYPE_INTEGER
      then io_fail ''io.close() requires a handle'' s m
      else do {
        h \<leftarrow> aer_as_int_v (heap m) (args ! 0);
        (r, s) \<leftarrow> close_handle h s;
        case r of Inl msg \<Rightarrow> pair_error msg s m | Inr _ \<Rightarrow> pair_ok VNull s m })"

definition io_stdin :: io_fn where
  "io_stdin args s m =
     (if length args \<noteq> 0 then io_fail ''io.stdin() takes no arguments'' s m else Some (VInt 0, s, m))"

text \<open>What \<^verbatim>\<open>aer_io_register\<close> adds to the host functions, in that order.\<close>

definition io_functions :: "(string \<times> io_fn) list" where
  "io_functions = [(''open'', io_open), (''read'', io_read), (''write'', io_write), (''close'', io_close), (''stdin'', io_stdin)]"

definition aer_io_register :: "(string \<times> string) list \<Rightarrow> (string \<times> string) list" where
  "aer_io_register fns = fold (\<lambda>(name, f) fns. snd (aer_register_function ''io'' name fns)) io_functions fns"

end
