(* ===== verification/FileLaws.thy ===== *)
theory FileLaws
  imports FileAccess
begin

text \<open>
  The open-file table of the \<open>io\<close> module: every handle that is open has a stream of its own that has
  not been closed, whatever handles a program makes up; a file that is written, closed and read again
  has what was written; a stream that cannot seek is read to its end.
\<close>

section \<open>The table\<close>

definition io_ok :: "io_state \<Rightarrow> bool" where
  "io_ok s \<longleftrightarrow> length (open_files s) = MAX_OPEN_FILES \<and>
     (\<forall>i < MAX_OPEN_FILES. \<forall>f. open_files s ! i = Some f \<longrightarrow> stream_at f s \<noteq> None) \<and>
     (\<forall>i < MAX_OPEN_FILES. \<forall>j < MAX_OPEN_FILES. \<forall>f. i \<noteq> j \<longrightarrow> open_files s ! i = Some f \<longrightarrow> open_files s ! j \<noteq> Some f)"

lemma stream_at_less: "stream_at f s = Some st \<Longrightarrow> f < length (streams s)"
  by (simp add: stream_at_def split: if_splits)

lemma stream_at_set: "stream_at g (set_stream f st s) = (if g = f \<and> f < length (streams s) then st else stream_at g s)"
  by (simp add: stream_at_def set_stream_def)

lemma set_stream_sel [simp]:
  "dir (set_stream f st s) = dir s" "open_files (set_stream f st s) = open_files s" "left_over (set_stream f st s) = left_over s"
  "length (streams (set_stream f st s)) = length (streams s)" "refuse (set_stream f st s) = refuse s"
  by (simp_all add: set_stream_def)

lemma stream_at_dir [simp]: "stream_at f (s\<lparr>dir := d\<rparr>) = stream_at f s" "stream_at f (s\<lparr>left_over := l\<rparr>) = stream_at f s"
    "stream_at f (s\<lparr>open_files := o'\<rparr>) = stream_at f s"
  by (simp_all add: stream_at_def)

text \<open>Steps that open and close nothing.\<close>

definition keeps_open :: "io_state \<Rightarrow> io_state \<Rightarrow> bool" where
  "keeps_open s s' \<longleftrightarrow> open_files s' = open_files s \<and> (\<forall>g. stream_at g s' = None \<longleftrightarrow> stream_at g s = None)"

named_theorems keeps_intros \<open>steps that open and close nothing\<close>

lemma keeps_trans: "keeps_open a b \<Longrightarrow> keeps_open b c \<Longrightarrow> keeps_open a c"
  by (simp add: keeps_open_def)

lemma keeps_ok: "io_ok s \<Longrightarrow> keeps_open s s' \<Longrightarrow> io_ok s'"
  by (simp add: io_ok_def keeps_open_def)

lemma keeps_refl [keeps_intros]: "keeps_open s s" "keeps_open s (s\<lparr>left_over := l\<rparr>)"
  by (simp_all add: keeps_open_def)

lemma keeps_flush [keeps_intros]: "keeps_open s (c_fflush f s)"
  by (auto simp: keeps_open_def c_fflush_def Let_def stream_at_set split: option.split dest: stream_at_less)

lemma keeps_pos [keeps_intros]: "keeps_open s (set_pos f n s)"
  by (auto simp: keeps_open_def set_pos_def stream_at_set)

lemma keeps_seek: "c_seek_end f s = Some (r, s') \<Longrightarrow> keeps_open s s'"
  by (auto simp: c_seek_end_def Let_def split: Option.bind_splits option.splits intro: keeps_intros keeps_trans [OF keeps_flush keeps_pos])

lemma keeps_read: "c_fread n f s = Some (x, s') \<Longrightarrow> keeps_open s s'"
  by (auto simp: c_fread_def Let_def split: Option.bind_splits option.splits if_splits intro: keeps_intros)

lemma keeps_write: "c_fwrite x f s = Some (n, s') \<Longrightarrow> keeps_open s s'"
  by (auto simp: keeps_open_def c_fwrite_def stream_at_set split: Option.bind_splits if_splits dest: stream_at_less)

lemma handle_stream:
  assumes "io_ok s" "handle_file h s = Some f"
  shows "nat h < MAX_OPEN_FILES" "open_files s ! nat h = Some f" "\<exists>st. stream_at f s = Some st"
proof -
  show h: "nat h < MAX_OPEN_FILES" "open_files s ! nat h = Some f"
    using assms(2) by (auto simp: handle_file_def split: if_splits)
  then show "\<exists>st. stream_at f s = Some st" using assms(1) unfolding io_ok_def by blast
qed

lemma read_handle_ok:
  assumes s: "io_ok s"
  shows "\<exists>r s'. read_handle h s = Some (r, s') \<and> keeps_open s s'"
proof (cases "handle_file h s")
  case None
  then show ?thesis by (simp add: read_handle_def keeps_refl)
next
  case (Some f)
  obtain st where "stream_at f s = Some st" using handle_stream(3) [OF s Some] by blast
  then obtain size t where t: "c_seek_end f s = Some (size, t)" by (cases "st_path st") (auto simp: c_seek_end_def Let_def)
  note k = keeps_seek [OF t]
  show ?thesis
  proof (cases size)
    case None
    then show ?thesis using Some t keeps_trans [OF k keeps_refl(2)] by (auto simp: read_handle_def split: prod.split)
  next
    case (Some n)
    have k2: "keeps_open s (set_pos f 0 t)" by (rule keeps_trans [OF k keeps_pos])
    then have "stream_at f (set_pos f 0 t) \<noteq> None" using \<open>stream_at f s = Some st\<close> by (simp add: keeps_open_def)
    then have "\<exists>x u. c_fread n f (set_pos f 0 t) = Some (x, u)" by (auto simp: c_fread_def Let_def split: option.split)
    then show ?thesis using Some \<open>handle_file h s = Some f\<close> t keeps_trans [OF k2 keeps_read] by (auto simp: read_handle_def)
  qed
qed

lemma write_handle_ok:
  assumes s: "io_ok s"
  shows "\<exists>r s'. write_handle h x s = Some (r, s') \<and> keeps_open s s'"
proof (cases "handle_file h s")
  case (Some f)
  obtain st where "stream_at f s = Some st" using handle_stream(3) [OF s Some] by blast
  then have "\<exists>n t. c_fwrite x f s = Some (n, t)" by (simp add: c_fwrite_def)
  then show ?thesis using Some keeps_write by (auto simp: write_handle_def)
qed (simp add: write_handle_def keeps_refl)

lemma io_okD:
  assumes "io_ok s"
  shows "length (open_files s) = MAX_OPEN_FILES" "i < MAX_OPEN_FILES \<Longrightarrow> open_files s ! i = Some f \<Longrightarrow> stream_at f s \<noteq> None"
    "i < MAX_OPEN_FILES \<Longrightarrow> j < MAX_OPEN_FILES \<Longrightarrow> i \<noteq> j \<Longrightarrow> open_files s ! i = Some f \<Longrightarrow> open_files s ! j \<noteq> Some f"
  using assms unfolding io_ok_def by blast+

lemma io_okI:
  assumes "length (open_files s) = MAX_OPEN_FILES" "\<And>i f. i < MAX_OPEN_FILES \<Longrightarrow> open_files s ! i = Some f \<Longrightarrow> stream_at f s \<noteq> None"
    "\<And>i j f. i < MAX_OPEN_FILES \<Longrightarrow> j < MAX_OPEN_FILES \<Longrightarrow> i \<noteq> j \<Longrightarrow> open_files s ! i = Some f \<Longrightarrow> open_files s ! j \<noteq> Some f"
  shows "io_ok s"
  using assms unfolding io_ok_def by blast

text \<open>One slot of the table is set, to nothing or to a stream that no other slot has.\<close>

lemma io_ok_slot:
  assumes s: "io_ok s" and i: "i < MAX_OPEN_FILES" and files: "open_files t = (open_files s)[i := new]"
    and others: "\<And>j f. j < MAX_OPEN_FILES \<Longrightarrow> j \<noteq> i \<Longrightarrow> open_files s ! j = Some f \<Longrightarrow> stream_at f t \<noteq> None \<and> new \<noteq> Some f"
    and new: "\<And>f. new = Some f \<Longrightarrow> stream_at f t \<noteq> None"
  shows "io_ok t"
proof (rule io_okI)
  note len = io_okD(1) [OF s]
  show "length (open_files t) = MAX_OPEN_FILES" using len files by simp
  have at: "open_files t ! j = (if j = i then new else open_files s ! j)" for j
    using len i files by (simp add: nth_list_update)
  show "stream_at f t \<noteq> None" if "j < MAX_OPEN_FILES" "open_files t ! j = Some f" for j f
    using others [OF that(1)] new that(2) at [of j] by (cases "j = i") auto
  show "open_files t ! k \<noteq> Some f" if "j < MAX_OPEN_FILES" "k < MAX_OPEN_FILES" "j \<noteq> k" "open_files t ! j = Some f" for j k f
    using others [OF that(1), of f] others [OF that(2), of f] io_okD(3) [OF s that(1-3), of f] that(3,4) at [of j] at [of k]
    by (cases "j = i"; cases "k = i") auto
qed

lemma close_handle_ok:
  assumes s: "io_ok s"
  shows "\<exists>r s'. close_handle h s = Some (r, s') \<and> io_ok s' \<and> handle_file h s' = None"
proof (cases "handle_file h s")
  case (Some f)
  note h = handle_stream [OF s Some]
  let ?t = "c_fflush f s"
  have t: "open_files ?t = open_files s" "stream_at g ?t = None \<longleftrightarrow> stream_at g s = None" for g
    using keeps_flush [of s f] by (simp_all add: keeps_open_def)
  let ?u = "(set_stream f None ?t)\<lparr>open_files := (open_files ?t)[nat h := None]\<rparr>"
  have "io_ok ?u"
  proof (rule io_ok_slot [OF s h(1)])
    fix j g assume j: "j < MAX_OPEN_FILES" "j \<noteq> nat h" "open_files s ! j = Some g"
    have "g \<noteq> f" using io_okD(3) [OF s h(1) j(1) j(2) [symmetric] h(2)] j(3) by blast
    then show "stream_at g ?u \<noteq> None \<and> None \<noteq> Some g" using io_okD(2) [OF s j(1,3)] t(2) [of g] by (simp add: stream_at_set)
  qed (simp_all add: t)
  moreover have "handle_file h ?u = None" using io_okD(1) [OF s] h(1) t by (simp add: handle_file_def)
  ultimately show ?thesis using h(3) Some by (auto simp: close_handle_def c_fclose_def)
qed (use s in \<open>simp add: close_handle_def\<close>)

lemma free_slotD: "free_slot s = Some i \<Longrightarrow> i < MAX_OPEN_FILES \<and> open_files s ! i = None"
  by (auto simp: free_slot_def find_Some_iff)

lemma fopen_ok:
  assumes "io_ok s" "i < MAX_OPEN_FILES" "c_fopen path mode s = Inr (f, t)"
  shows "io_ok (t\<lparr>open_files := (open_files t)[i := Some f]\<rparr>)"
proof -
  have f: "f = length (streams s)" "open_files t = open_files s"
      "stream_at g t = (if g = f then Some \<lparr>st_path = Some path, st_mode = mode, st_pos = 0, st_pending = []\<rparr> else stream_at g s)" for g
    using assms(3) by (auto simp: c_fopen_def Let_def stream_at_def nth_append split: option.splits if_splits)
  show ?thesis
  proof (rule io_ok_slot [OF assms(1,2)])
    fix j g assume j: "j < MAX_OPEN_FILES" "open_files s ! j = Some g"
    have live: "stream_at g s \<noteq> None" using assms(1) j by (rule io_okD)
    then have "g \<noteq> f" using f(1) stream_at_less [of g s] by auto
    then show "stream_at g (t\<lparr>open_files := (open_files t)[i := Some f]\<rparr>) \<noteq> None \<and> Some f \<noteq> Some g" using live f(3) by simp
  qed (use f in auto)
qed

lemma open_handle_ok: "io_ok s \<Longrightarrow> io_ok (snd (open_handle path mode s))"
  using fopen_ok free_slotD by (fastforce simp: open_handle_def split: option.split sum.split)

text \<open>C17: no program can make the module touch a stream that is closed, or close one twice:
  from a table in which different open handles have different open streams, opening keeps the table
  so, and reading, writing and closing return for every integer that is given as a handle, keep it
  so, and leave the handle that was closed unused.
\<close>

theorem handles_safe:
  assumes "io_ok s"
  shows "io_ok (snd (open_handle path mode s)) \<and>
    (\<exists>r s'. read_handle h s = Some (r, s') \<and> io_ok s') \<and>
    (\<exists>r s'. write_handle h x s = Some (r, s') \<and> io_ok s') \<and>
    (\<exists>r s'. close_handle h s = Some (r, s') \<and> io_ok s' \<and> handle_file h s' = None)"
  using open_handle_ok [OF assms] read_handle_ok [OF assms, of h] write_handle_ok [OF assms, of h x]
    close_handle_ok [OF assms, of h] keeps_ok [OF assms] by blast

lemma io_init_ok: "io_ok (io_init files inp seekable rf)"
  by (auto simp: io_ok_def io_init_def MAX_OPEN_FILES_def stream_at_def nth_Cons split: nat.splits)

theorem handles_safe_witness:
  "\<exists>r s'. close_handle 0 (io_init (\<lambda>_. None) ''in'' None (\<lambda>_ _. None)) = Some (r, s') \<and> io_ok s' \<and> handle_file 0 s' = None"
  using handles_safe [OF io_init_ok] by blast

section \<open>Files\<close>

text \<open>Opening a handle: its slot, its new stream, and the file.\<close>

lemma open_handle_new:
  assumes s: "io_ok s" and i: "free_slot s = Some i" and ok: "refuse s p mode = None" and there: "mode = ''r'' \<longrightarrow> dir s p \<noteq> None"
  shows "\<exists>t. open_handle p mode s = (Inr i, t) \<and> handle_file (int i) t = Some (length (streams s)) \<and>
    stream_at (length (streams s)) t = Some \<lparr>st_path = Some p, st_mode = mode, st_pos = 0, st_pending = []\<rparr> \<and>
    file_text p t = (if mode = ''w'' then [] else file_text p s) \<and> refuse t = refuse s \<and>
    open_files t = (open_files s)[i := Some (length (streams s))] \<and> (mode = ''w'' \<longrightarrow> dir t p \<noteq> None) \<and> io_ok t"
proof -
  have fs: "i < length (open_files s)" "i < MAX_OPEN_FILES" using free_slotD [OF i] io_okD(1) [OF s] by simp_all
  let ?d = "if mode = ''w'' then (dir s)(p \<mapsto> []) else if mode = ''a'' \<and> dir s p = None then (dir s)(p \<mapsto> []) else dir s"
  define t where "t = s\<lparr>dir := ?d, streams := streams s @ [Some \<lparr>st_path = Some p, st_mode = mode, st_pos = 0, st_pending = []\<rparr>],
      open_files := (open_files s)[i := Some (length (streams s))]\<rparr>"
  have o: "open_handle p mode s = (Inr i, t)"
    using i ok there by (auto simp: open_handle_def c_fopen_def Let_def t_def)
  have "io_ok t" using open_handle_ok [OF s, of p mode] o by simp
  moreover have "handle_file (int i) t = Some (length (streams s))" using fs by (simp add: handle_file_def t_def)
  moreover have "file_text p t = (if mode = ''w'' then [] else file_text p s)" by (auto simp: file_text_def t_def)
  ultimately show ?thesis using o by (simp add: t_def stream_at_def)
qed

lemma write_handle_new:
  assumes "handle_file h s = Some f" "stream_at f s = Some st" "st_mode st \<noteq> ''r''"
  shows "\<exists>t. write_handle h x s = Some (Inr (), t) \<and> stream_at f t = Some (st\<lparr>st_pending := st_pending st @ x\<rparr>) \<and>
    dir t = dir s \<and> open_files t = open_files s \<and> refuse t = refuse s"
  using assms stream_at_less [OF assms(2)]
  by (simp add: write_handle_def c_fwrite_def stream_at_set)

lemma close_handle_new:
  assumes "handle_file h s = Some f" "stream_at f s = Some \<lparr>st_path = Some p, st_mode = mode, st_pos = pos, st_pending = x\<rparr>" "mode \<noteq> ''a''"
    "dir s p \<noteq> None"
  shows "\<exists>t. close_handle h s = Some (Inr (), t) \<and> file_text p t = (if x = [] then file_text p s else overwrite pos x (file_text p s)) \<and>
    dir t p \<noteq> None \<and> open_files t = (open_files s)[nat h := None] \<and> refuse t = refuse s"
  using assms by (auto simp: close_handle_def c_fclose_def c_fflush_def file_text_def)

lemma read_handle_new:
  assumes "handle_file h s = Some f" "stream_at f s = Some \<lparr>st_path = Some p, st_mode = ''r'', st_pos = pos, st_pending = []\<rparr>"
  shows "\<exists>t. read_handle h s = Some (Inr (file_text p s), t)"
  using assms stream_at_less [OF assms(2)]
  by (auto simp: read_handle_def c_seek_end_def c_fflush_def Let_def c_fread_def set_pos_def stream_at_set file_text_def)

text \<open>C20: a program that opens a file for writing, writes a string of any bytes, closes it,
  opens it for reading and reads gets that string back, with no error in any of the five pairs, and
  both times the handle is the first free one.
\<close>

theorem file_roundtrip:
  assumes s: "io_ok s" and i: "free_slot s = Some i" and ok: "refuse s p ''w'' = None" "refuse s p ''r'' = None"
  shows "\<exists>s1 s2 s3 s4 s5. open_handle p ''w'' s = (Inr i, s1) \<and> write_handle (int i) x s1 = Some (Inr (), s2) \<and>
    close_handle (int i) s2 = Some (Inr (), s3) \<and> open_handle p ''r'' s3 = (Inr i, s4) \<and> read_handle (int i) s4 = Some (Inr x, s5)"
proof -
  note fs = free_slotD [OF i]
  obtain s1 where s1: "open_handle p ''w'' s = (Inr i, s1)" "handle_file (int i) s1 = Some (length (streams s))"
    "stream_at (length (streams s)) s1 = Some \<lparr>st_path = Some p, st_mode = ''w'', st_pos = 0, st_pending = []\<rparr>"
    "file_text p s1 = []" "refuse s1 = refuse s" "open_files s1 = (open_files s)[i := Some (length (streams s))]"
    "dir s1 p \<noteq> None" "io_ok s1"
    using open_handle_new [OF s i ok(1)] by auto
  obtain s2 where s2: "write_handle (int i) x s1 = Some (Inr (), s2)"
    "stream_at (length (streams s)) s2 = Some \<lparr>st_path = Some p, st_mode = ''w'', st_pos = 0, st_pending = x\<rparr>"
    "dir s2 = dir s1" "open_files s2 = open_files s1" "refuse s2 = refuse s1"
    using write_handle_new [OF s1(2,3), of x] by auto
  have h2: "handle_file (int i) s2 = Some (length (streams s))" "file_text p s2 = []"
    using s1(2,4) s2(3,4) unfolding handle_file_def file_text_def by metis+
  have ok2: "io_ok s2" using write_handle_ok [OF s1(8), of "int i" x] s2(1) keeps_ok [OF s1(8)] by auto
  obtain s3 where s3: "close_handle (int i) s2 = Some (Inr (), s3)" "file_text p s3 = x" "dir s3 p \<noteq> None"
    "open_files s3 = (open_files s2)[i := None]" "refuse s3 = refuse s2"
    using close_handle_new [OF h2(1) s2(2)] s2(3) s1(7) h2(2) by (auto simp: overwrite_def split: if_splits)
  have "open_files s3 = open_files s"
    using s3(4) s2(4) s1(6) fs by (simp add: list_update_same_conv io_okD(1) [OF s])
  then have f3: "free_slot s3 = Some i" using i by (simp add: free_slot_def)
  have "io_ok s3" using close_handle_ok [OF ok2, of "int i"] s3(1) by simp
  from open_handle_new [OF this f3, of p "''r''"] obtain s4 where s4: "open_handle p ''r'' s3 = (Inr i, s4)" "handle_file (int i) s4 = Some (length (streams s3))"
    "stream_at (length (streams s3)) s4 = Some \<lparr>st_path = Some p, st_mode = ''r'', st_pos = 0, st_pending = []\<rparr>" "file_text p s4 = x"
    using ok(2) s3 s2(5) s1(5) by auto
  then show ?thesis using s1(1) s2(1) s3(1) read_handle_new [OF s4(2,3)] by blast
qed

theorem file_roundtrip_witness:
  "\<exists>s1 s2 s3 s4 s5. open_handle ''f'' ''w'' (io_init (\<lambda>_. None) [] None (\<lambda>_ _. None)) = (Inr 1, s1) \<and>
    write_handle 1 ''text'' s1 = Some (Inr (), s2) \<and> close_handle 1 s2 = Some (Inr (), s3) \<and>
    open_handle ''f'' ''r'' s3 = (Inr 1, s4) \<and> read_handle 1 s4 = Some (Inr ''text'', s5)"
proof -
  have "free_slot (io_init (\<lambda>_. None) [] None (\<lambda>_ _. None)) = Some 1"
    by (simp add: free_slot_def io_init_def MAX_OPEN_FILES_def upt_rec)
  from file_roundtrip [OF io_init_ok this, of "''f''" "''text''"] show ?thesis by (simp add: io_init_def)
qed

section \<open>Streams that cannot seek\<close>

lemma read_until_eof_all: "0 < cap \<Longrightarrow> length buf \<le> cap \<Longrightarrow> read_until_eof cap buf rest = (buf @ rest, [])"
proof (induction "length rest" arbitrary: cap buf rest rule: less_induct)
  case less
  let ?cap = "if length buf = cap then cap * 2 else cap"
  have cap: "length buf < ?cap" using less.prems by auto
  show ?case
  proof (cases rest)
    case Nil
    then show ?thesis by (subst read_until_eof.simps) simp
  next
    case (Cons c cs)
    then have x: "take (?cap - length buf) rest \<noteq> []" "length (drop (?cap - length buf) rest) < length rest" using cap by auto
    have "read_until_eof ?cap (buf @ take (?cap - length buf) rest) (drop (?cap - length buf) rest) = (buf @ rest, [])"
      using less.hyps [OF x(2), of ?cap "buf @ take (?cap - length buf) rest"] cap less.prems(1) by simp
    then show ?thesis using x(1) by (subst read_until_eof.simps) (simp only: Let_def if_False)
  qed
qed

lemma read_terminal:
  assumes "handle_file h s = Some f" "stream_at f s = Some st" "st_path st = None"
  shows "read_handle h s = Some (Inr (left_over s), s\<lparr>left_over := []\<rparr>)"
  using assms by (simp add: read_handle_def c_seek_end_def read_until_eof_all)

text \<open>Reading a handle that writes gives an empty string and no error, and puts the position back.\<close>

lemma read_rewinds_writer:
  assumes "handle_file h s = Some f" "stream_at f s = Some \<lparr>st_path = Some p, st_mode = ''w'', st_pos = 0, st_pending = ''abc''\<rparr>" "dir s p = Some []"
  shows "\<exists>t u v. read_handle h s = Some (Inr [], t) \<and> write_handle h ''X'' t = Some (Inr (), u) \<and>
     close_handle h u = Some (Inr (), v) \<and> dir v p = Some ''Xbc''"
  using assms stream_at_less [OF assms(2)]
  by (simp add: read_handle_def write_handle_def close_handle_def c_seek_end_def c_fflush_def c_fread_def c_fwrite_def c_fclose_def
      Let_def set_pos_def stream_at_set file_text_def overwrite_def handle_file_def split: if_splits)

end
