(* ===== verification/Shell.thy ===== *)
theory Shell
  imports Compile Terminal
begin

text \<open>
  The interactive prompt and the command line, \<^verbatim>\<open>source/main.c\<close>: lines are collected into blocks,
  every complete block is run in the machine the earlier ones left, and the first argument chooses
  what the program does.
\<close>

section \<open>Blocks of lines\<close>

record shell_block =
  block_buf :: string
  in_block :: bool

definition no_block :: shell_block where
  "no_block = \<lparr>block_buf = [], in_block = False\<rparr>"

definition blank_char :: "char \<Rightarrow> bool" where
  "blank_char c \<longleftrightarrow> c = CHR 0x0A \<or> c = CHR '' '' \<or> c = CHR 0x09"

definition blank_line :: "string \<Rightarrow> bool" where
  "blank_line line \<longleftrightarrow> list_all blank_char line"

text \<open>The last character that is not blank is a colon.\<close>

definition ends_with_colon :: "string \<Rightarrow> bool" where
  "ends_with_colon line =
     (case dropWhile blank_char (rev line) of [] \<Rightarrow> False | c # r \<Rightarrow> c = CHR '':'')"

text \<open>One line: the new prompt and the text to run, if there is one.\<close>

definition shell_line :: "string \<Rightarrow> shell_block \<Rightarrow> string option \<times> string option \<times> shell_block" where
  "shell_line line b =
     (if in_block b \<or> ends_with_colon line
      then let b = b\<lparr>block_buf := block_buf b @ line\<rparr> in
           if ends_with_colon line then (Some ''... '', None, b\<lparr>in_block := True\<rparr>)
           else if \<not> blank_line line then (None, None, b)
           else (Some ''>>> '', Some (block_buf b), no_block)
      else (None, Some line, b))"

section \<open>The prompt\<close>

text \<open>
  The loop of \<^verbatim>\<open>run_shell\<close>, until the terminal exits; \<open>None\<close> when a program does not return.
\<close>

partial_function (option) shell_loop ::
  "world \<Rightarrow> files \<Rightarrow> nat \<Rightarrow> (nat \<Rightarrow> nat option) \<Rightarrow> string \<Rightarrow> terminal \<Rightarrow> shell_block \<Rightarrow> comp \<Rightarrow> (terminal \<times> comp) option" where
  "shell_loop w fs d winch inp t b s =
     do { (line, rest, t) \<leftarrow> handle_terminal winch inp t;
          case line of
            None \<Rightarrow> Some (t, s)
          | Some line \<Rightarrow>
              let (p, txt, b) = shell_line line b;
                  t = (case p of None \<Rightarrow> t | Some p \<Rightarrow> set_terminal_prompt p t)
              in case txt of
                   None \<Rightarrow> shell_loop w fs d winch rest t b s
                 | Some txt \<Rightarrow> do { s \<leftarrow> run_line w fs d txt s; shell_loop w fs d winch rest t b s } }"

text \<open>\<^verbatim>\<open>run_shell\<close>, for the history file and the window; \<open>None\<close> also when the terminal cannot be set up.\<close>

definition run_shell ::
  "world \<Rightarrow> files \<Rightarrow> nat \<Rightarrow> string option \<Rightarrow> nat option \<Rightarrow> (nat \<Rightarrow> nat option) \<Rightarrow> string \<Rightarrow> mach \<Rightarrow> (terminal \<times> comp) option" where
  "run_shell w fs d hist width winch inp m =
     do { t \<leftarrow> start_terminal hist width;
          shell_loop w fs d winch inp t no_block (comp_init True (source_lexer ''shell'' []) m) }"

section \<open>The command line\<close>

datatype command = Cmd_shell | Cmd_help | Cmd_version | Cmd_file string

definition command_of :: "string list \<Rightarrow> command" where
  "command_of args =
     (case args of
        [] \<Rightarrow> Cmd_shell
      | a # r \<Rightarrow> if c_str a = ''help'' then Cmd_help else if c_str a = ''version'' then Cmd_version else Cmd_file (c_str a))"

definition help_text :: string where
  "help_text =
     ''Usage: aer [command|file]'' @ [CHR 0x0A] @
     ''  help      Show this message'' @ [CHR 0x0A] @
     ''  version   Show Aer version'' @ [CHR 0x0A] @
     ''  <file>    Execute an Aer source file'' @ [CHR 0x0A] @
     ''  (no args) Start interactive shell'' @ [CHR 0x0A]"

text \<open>The exit status and what \<^verbatim>\<open>main\<close> itself printed; the prompt exits with 0 by \<^verbatim>\<open>exit\<close>.\<close>

definition aer_main ::
  "world \<Rightarrow> files \<Rightarrow> nat \<Rightarrow> string \<Rightarrow> string option \<Rightarrow> nat option \<Rightarrow> (nat \<Rightarrow> nat option) \<Rightarrow> string \<Rightarrow> string list \<Rightarrow> (nat \<times> string) option" where
  "aer_main w fs d version hist width winch inp args =
     (case command_of args of
        Cmd_shell \<Rightarrow> map_option (\<lambda>_. (0, [])) (run_shell w fs d hist width winch inp mach_init)
      | Cmd_help \<Rightarrow> Some (0, help_text)
      | Cmd_version \<Rightarrow> Some (0, ''Aer '' @ version @ [CHR 0x0A])
      | Cmd_file path \<Rightarrow> map_option (\<lambda>(ok, s). (if ok then 0 else 1, [])) (run_file w fs d path))"

section \<open>What is run\<close>

text \<open>The texts that a sequence of lines makes the prompt run, and the block that is left.\<close>

primrec shell_lines :: "string list \<Rightarrow> shell_block \<Rightarrow> string list \<times> shell_block" where
  "shell_lines [] b = ([], b)"
| "shell_lines (l # ls) b =
     (let (p, txt, b) = shell_line l b; (ts, b) = shell_lines ls b
      in ((case txt of None \<Rightarrow> ts | Some t \<Rightarrow> t # ts), b))"

text \<open>The lines of a text: one that opens no block, or a block from its colon to a blank line.\<close>

definition complete_group :: "string list \<Rightarrow> bool" where
  "complete_group g \<longleftrightarrow>
     (case g of
        [] \<Rightarrow> False
      | l # ls \<Rightarrow>
          if ls = [] then \<not> ends_with_colon l
          else ends_with_colon l \<and> list_all (\<lambda>x. \<not> blank_line x) (butlast ls) \<and> blank_line (last ls))"

text \<open>The lines of the block that is open.\<close>

definition open_group :: "string list \<Rightarrow> shell_block \<Rightarrow> bool" where
  "open_group os b \<longleftrightarrow> block_buf b = concat os \<and> (in_block b \<longleftrightarrow> os \<noteq> []) \<and>
     (case os of [] \<Rightarrow> True | l # ls \<Rightarrow> ends_with_colon l \<and> list_all (\<lambda>x. \<not> blank_line x) ls)"

lemma blank_no_colon: "blank_line l \<Longrightarrow> \<not> ends_with_colon l"
  by (simp add: blank_line_def ends_with_colon_def list_all_iff split: list.split)
    (metis dropWhile_eq_Nil_conv list.distinct(1) set_rev)

lemma shell_line_group:
  assumes "open_group os b" "shell_line l b = (p, out, b')"
  shows "case out of None \<Rightarrow> open_group (os @ [l]) b'
    | Some t \<Rightarrow> t = concat (os @ [l]) \<and> complete_group (os @ [l]) \<and> open_group [] b'"
proof (cases os)
  case Nil
  then show ?thesis using assms
    by (auto simp: shell_line_def Let_def open_group_def complete_group_def no_block_def split: if_splits)
next
  case (Cons a ls)
  show ?thesis
  proof (cases "blank_line l")
    case True
    then have "complete_group (a # ls @ [l])" using assms(1) Cons
      by (simp add: complete_group_def open_group_def)
    then show ?thesis using assms Cons True blank_no_colon [OF True]
      by (auto simp: shell_line_def Let_def open_group_def no_block_def)
  next
    case False
    then show ?thesis using assms Cons by (auto simp: shell_line_def Let_def open_group_def split: if_splits)
  qed
qed

lemma shell_lines_groups:
  "open_group os b \<Longrightarrow> shell_lines ls b = (ts, b') \<Longrightarrow>
     \<exists>gs os'. os @ ls = concat gs @ os' \<and> ts = map concat gs \<and> list_all complete_group gs \<and> open_group os' b'"
proof (induction ls arbitrary: os b ts)
  case Nil
  then show ?case by (auto intro!: exI [of _ "[]"])
next
  case (Cons l ls)
  obtain p out b1 where l: "shell_line l b = (p, out, b1)" by (metis prod_cases3)
  obtain us where us: "shell_lines ls b1 = (us, b')" "ts = (case out of None \<Rightarrow> us | Some t \<Rightarrow> t # us)"
    using Cons.prems(2) l by (auto split: prod.splits)
  note step = shell_line_group [OF Cons.prems(1) l]
  show ?case
  proof (cases out)
    case None
    then show ?thesis using Cons.IH [of "os @ [l]", OF _ us(1)] step us(2) by simp
  next
    case (Some t)
    then obtain gs os' where g: "ls = concat gs @ os'" "us = map concat gs" "list_all complete_group gs" "open_group os' b'"
      using Cons.IH [of "[]", OF _ us(1)] step by auto
    show ?thesis
      by (rule exI [of _ "(os @ [l]) # gs"], rule exI [of _ os']) (use g step us(2) Some in simp)
  qed
qed

text \<open>C40: the prompt runs every line it is given exactly once and in order: what was typed falls
  into groups, each a line that opens no block or a whole block from its colon to the first blank line
  after it, the texts that were run are these groups, and the lines after the last of them are the
  block that is still open.
\<close>

theorem shell_blocks:
  "\<exists>groups rest. ls = concat groups @ rest \<and> fst (shell_lines ls no_block) = map concat groups \<and>
     list_all complete_group groups \<and> open_group rest (snd (shell_lines ls no_block))"
proof -
  have "open_group [] no_block" by (simp add: open_group_def no_block_def)
  from shell_lines_groups [OF this, of ls] show ?thesis by (cases "shell_lines ls no_block") simp
qed

end
