(* ===== verification/Spec2Isabelle.thy ===== *)
theory Spec2Isabelle
  imports Store Calls Loops JsonText Layout ParseTotal TerminalLaws Report FileLaws Shell
begin

text \<open>
  Aer: a scripting language in C. A source file goes through the lexer and a single-pass compiler to
  byte code, which a stack machine runs over a garbage-collected heap. Programs use native modules,
  modules that are other source files, and functions of an embedding host. This library models the
  whole of it, from the slab pools to the keys of the interactive prompt, as functions that compute;
  the paths below are those of \<^verbatim>\<open>src/\<close>.

  \<^bold>\<open>Conventions.\<close> Theory \<open>Prelude\<close> fixes them. A pointer into a pool is a pair of slab and cell, an
  \<^verbatim>\<open>unsigned int\<close> whose wrap-around matters has its \<open>mod 2 ^ 32\<close> written out, a \<^verbatim>\<open>long long\<close> is an
  integer with a range test, a \<^verbatim>\<open>double\<close> is its bit pattern, a C string a list of characters. Static
  variables of a C file are fields of a state record that the functions pass along. The result
  \<open>None\<close> is undefined behaviour or the end of the process; a run-time error of the language is the
  error flag of the state, as in the code. An access of an instruction outside the arrays of
  scopes and of their slots is the outcome \<open>Overrun\<close>, so that theorems can exclude it.

  \<^bold>\<open>Storage.\<close>
  \<^item> \<open>Pool\<close>: \<^verbatim>\<open>utilities/pool.c\<close>, \<^verbatim>\<open>pool.h\<close>. Allocation, the free list threaded through the cells, the
    sweep, the address scan. The locale \<open>cell_store\<close> is what the heap relies on; the pool interprets
    it as \<open>slab\<close>, and \<open>HeapLaws\<close> draws the laws of all six allocators from that.
  \<^item> \<open>HashTable\<close>: \<^verbatim>\<open>utilities/hashtable.c\<close>, \<^verbatim>\<open>hash_util.c\<close>, \<^verbatim>\<open>hashmap.c\<close>, \<^verbatim>\<open>dictmap.c\<close>. Open addressing with
    linear probing refines finite maps; growth, deletion and the 32-bit load test are included. The
    locale \<open>string_table\<close> is interpreted as \<open>dict_table\<close>.
  \<^item> \<open>ValueBox\<close>: \<^verbatim>\<open>core/value_box.h\<close>, NaN boxing on 64-bit words, with round trips. The other theories
    use the decoded values of \<open>Values\<close>: \<^verbatim>\<open>value.h\<close> and the heap of \<^verbatim>\<open>core/vm.c\<close>.
  \<^item> \<open>Float64\<close>, \<open>Strto\<close>, \<open>Numerals\<close>: what the sources use of C's arithmetic on doubles and of
    \<^verbatim>\<open>strtoll\<close>, \<^verbatim>\<open>strtod\<close> and \<^verbatim>\<open>printf\<close>; printing and reading integers are inverse.

  \<^bold>\<open>The machine.\<close>
  \<^item> \<open>Machine\<close>: \<^verbatim>\<open>core/vm.h\<close>. One record per VM (stack, call stack, scopes), chunk and file module, and the
    state of the process around the VM that runs.
  \<^item> \<open>Gc\<close>: the generational collector of \<^verbatim>\<open>core/vm.c\<close>. Marking ends with exactly the reachable objects
    (locales \<open>markable\<close> and \<open>marker\<close>, interpreted as \<open>gcm\<close> and \<open>gcmark\<close>); what a collection frees,
    and the closure boxes it frees although they are in use.
  \<^item> \<open>Chunk\<close>, \<open>Scope\<close>, \<open>Ops\<close>, \<open>Vm\<close>, \<open>Run\<close>: the rest of \<^verbatim>\<open>core/vm.c\<close> in its order: byte code and constants,
    variables, the operations the handlers share, one definition per handler, the dispatch loop. The
    loop is a partial function: byte code may run forever, and then its value is \<open>None\<close>.
  \<^item> \<open>Stdlib\<close>: \<^verbatim>\<open>core/aer_stdlib.c\<close> and \<^verbatim>\<open>aer_host.c\<close>. \<open>Json\<close>: \<^verbatim>\<open>core/aer_json.c\<close>. \<open>Module\<close>: the calls into
    file modules, \<^verbatim>\<open>core/aer_module.c\<close>. \<open>FileAccess\<close>: the host module of \<^verbatim>\<open>core/aer_io.c\<close> with its table of
    handles over C streams.
  \<^item> \<open>Calm\<close> and \<open>Bounds\<close>: no instruction and no run leaves the arrays of the VM but for local slots that
    the compiler never names. \<open>OpsLaws\<close>: integer arithmetic, exact where C defines it. \<open>Store\<close>:
    assignments to elements and entries are what a read returns. \<open>Calls\<close>: a return goes back behind
    its call and keeps the scopes there, but does not reset the operand stack; deferred calls,
    prints and functions, run last first (\<open>unwind\<close> follows the returns they come back to); a
    captured variable is shared until a collection frees its box. \<open>Loops\<close>: the iteration
    instructions. \<open>JsonLaws\<close>, \<open>JsonText\<close>: the decoder ends, and inverts the encoder for trees without
    reals and struct instances.
    \<open>FileLaws\<close>: handles never reach a closed stream, and a file has what was written to it.

  \<^bold>\<open>The compiler.\<close>
  \<^item> \<open>Lexer\<close>: \<^verbatim>\<open>compiler/lexer.c\<close>. \<open>Emit\<close> and \<open>Parser\<close>: the tables and the emitting half, and the
    recursive-descent half, of \<^verbatim>\<open>compiler/parser.c\<close>. \<open>Compile\<close>: reading, compiling and running a file, for
    the main program (\<^verbatim>\<open>main.c\<close>) and for imports (\<^verbatim>\<open>aer_module_load\<close>).
  \<^item> \<open>LexLaws\<close>, \<open>Layout\<close>: the lexer returns on every text and reaches its end; the types of token values;
    balanced blocks of indentation.
  \<^item> \<open>EmitLaws\<close>, \<open>ParserLaws\<close>, \<open>GrammarLaws\<close>, \<open>ParseTotal\<close>: the invariant of the compiler, and that parsing
    returns on every text at its end. The locale \<open>grammar_calls\<close> is the contract of the mutually
    recursive calls, under which each parse function is proved once; \<open>fuelled\<close> gives it from the
    fuel that is left, and \<open>module_loader\<close> gives that for the recursion itself. It is interpreted as
    \<open>missing\<close>, on the loader of the code where there are no files to load.

  \<^bold>\<open>Around them.\<close>
  \<^item> \<open>Report\<close>: \<^verbatim>\<open>utilities/error.c\<close>, the bounded message buffer, the caret and the sink.
  \<^item> \<open>Terminal\<close>, \<open>TerminalLaws\<close>: \<^verbatim>\<open>terminal.c\<close> as compiled for POSIX. The line buffer refines a pair of
    texts around the cursor; the history; what a line that is entered really is.
  \<^item> \<open>Shell\<close>: \<^verbatim>\<open>main.c\<close>, the prompt with its blocks and the command line.

  \<^bold>\<open>Fuel.\<close> Three recursions of the code are bounded by an argument, and its value is enough for every
  input. Formatting a value descends through at most all arrays and dicts (\<open>fmt_depth\<close>; a cyclic
  value, on which C overflows its stack, is \<open>None\<close>). Each JSON value takes a character
  (\<open>json_fuel\<close>). Each token takes something from \<open>lex_measure\<close> and between two tokens the parser
  nests at most five calls (\<open>parse_fuel\<close>). The depth of nested imports is an argument of
  the loader.

  \<^bold>\<open>Parameters.\<close> What is not in the repository is an argument: the record \<open>world\<close> (libm, \<^verbatim>\<open>rand\<close>, the order
  \<^verbatim>\<open>qsort\<close> gives to equal elements, the clock, \<^verbatim>\<open>strftime\<close>, the functions a host registers), the
  contents of files, the files and modes the system refuses, the width of the terminal window at
  each key, and the version string of the build.

  \<^bold>\<open>Not modelled.\<close> Giving memory back at process exit (\<^verbatim>\<open>vm_free\<close>, \<^verbatim>\<open>chunk_free\<close>, \<^verbatim>\<open>aer_module_free_all\<close>),
  which nothing runs after. The exit on a failed allocation: memory is unbounded here, but for
  the ceiling the collector enforces. The C stack: the recursion of the JSON decoder, of the
  grammar and of formatting takes no room, while in C a text nested deeply enough overflows it.
  Removing a key keeps no list of payloads freed by the reinsertion, which frees none as its keys
  are distinct, and lengths of C strings are not cut to 32 bits. The raw mode of the terminal and the Windows
  variants of \<^verbatim>\<open>terminal.c\<close>. The functions of \<open>FileAccess\<close> have a state of their own and are not
  plugged into the host functions of \<open>world\<close>. The message texts of \<open>Report\<close> carry the prefix with the
  line; the other theories record the bare message. That parsing ends is proved for loaders that
  keep the invariant of the compiler; a loader that runs an imported file may not return, as
  its program may not.
\<close>

end
